(* ===== verification/Prelude.thy ===== *)
theory Prelude
  imports Main "HOL-Library.Word" "HOL-Library.Monad_Syntax" "HOL-Library.Signed_Division"
begin

unbundle bit_operations_syntax

text \<open>
  Shared vocabulary of the development: the machine types, the model of a volatile access to a
  memory-mapped register, the busy-wait loop, first-match table search, and the generic lemmas on
  lists and words that the components share.

  A run of a program against the hardware is a history: the list of its volatile accesses in
  program order, the oldest first.  What a load returns is the hardware's business, so it is a
  parameter, a bus: a function of the history so far and the address.  Nothing is assumed of a bus
  but where a lemma says so.
\<close>

type_synonym u8 = "8 word"
type_synonym u16 = "16 word"
type_synonym u32 = "32 word"

datatype event =
    Rd32 u32 u32
  | Wr32 u32 u32
  | Rd16 u32 u16
  | Wr16 u32 u16
  | Rd8 u32 u8
  | Wr8 u32 u8

type_synonym hist = "event list"

type_synonym bus = "hist \<Rightarrow> u32 \<Rightarrow> u32"

named_theorems mmio_defs \<open>the definitions of the volatile accesses\<close>

subsection \<open>Volatile accesses\<close>

definition rd32 :: "bus \<Rightarrow> u32 \<Rightarrow> hist \<Rightarrow> u32 \<times> hist" where
  [mmio_defs]: "rd32 b a h = (b h a, h @ [Rd32 a (b h a)])"

definition rd16 :: "bus \<Rightarrow> u32 \<Rightarrow> hist \<Rightarrow> u16 \<times> hist" where
  [mmio_defs]: "rd16 b a h = (ucast (b h a), h @ [Rd16 a (ucast (b h a))])"

definition rd8 :: "bus \<Rightarrow> u32 \<Rightarrow> hist \<Rightarrow> u8 \<times> hist" where
  [mmio_defs]: "rd8 b a h = (ucast (b h a), h @ [Rd8 a (ucast (b h a))])"

definition wr32 :: "u32 \<Rightarrow> u32 \<Rightarrow> hist \<Rightarrow> hist" where
  [mmio_defs]: "wr32 a v h = h @ [Wr32 a v]"

definition wr16 :: "u32 \<Rightarrow> u16 \<Rightarrow> hist \<Rightarrow> hist" where
  [mmio_defs]: "wr16 a v h = h @ [Wr16 a v]"

definition wr8 :: "u32 \<Rightarrow> u8 \<Rightarrow> hist \<Rightarrow> hist" where
  [mmio_defs]: "wr8 a v h = h @ [Wr8 a v]"

text \<open>A compound assignment to a 32-bit register (\<open>REG |= m\<close>, \<open>REG &= m\<close>): one load, then one
  store of the changed value.\<close>

definition upd32 :: "bus \<Rightarrow> u32 \<Rightarrow> (u32 \<Rightarrow> u32) \<Rightarrow> hist \<Rightarrow> hist" where
  [mmio_defs]: "upd32 b a f h = (let (v, h1) = rd32 b a h in wr32 a (f v) h1)"

lemma upd32_eq: "upd32 b a f h = h @ [Rd32 a (b h a), Wr32 a (f (b h a))]"
  by (simp add: mmio_defs)

abbreviation bits_or :: "u32 \<Rightarrow> u32 \<Rightarrow> u32" where
  "bits_or m v \<equiv> v OR m"

abbreviation bits_clear :: "u32 \<Rightarrow> u32 \<Rightarrow> u32" where
  "bits_clear m v \<equiv> v AND NOT m"

abbreviation bitm :: "nat \<Rightarrow> u32" where
  "bitm n \<equiv> push_bit n 1"

text \<open>Register-file reading of a history: the value of the latest 32-bit store to an address.\<close>

fun latest32 :: "u32 \<Rightarrow> hist \<Rightarrow> u32 option" where
  "latest32 a [] = None"
| "latest32 a (e # es) =
     (case latest32 a es of
        Some v \<Rightarrow> Some v
      | None \<Rightarrow> (case e of Wr32 a' v \<Rightarrow> if a' = a then Some v else None | _ \<Rightarrow> None))"

lemma latest32_append:
  "latest32 a (h @ h') = (case latest32 a h' of None \<Rightarrow> latest32 a h | Some v \<Rightarrow> Some v)"
  by (induction h) (auto split: option.splits)

lemma latest32_None_iff: "latest32 a h = None \<longleftrightarrow> (\<forall>v. Wr32 a v \<notin> set h)"
  by (induction h) (auto split: option.splits event.splits)

text \<open>A bus on which the registers of a set behave like memory: a load returns the latest
  store, or the reset value.\<close>

definition ram_like :: "bus \<Rightarrow> (u32 \<Rightarrow> u32) \<Rightarrow> u32 set \<Rightarrow> bool" where
  "ram_like b rst A \<longleftrightarrow>
     (\<forall>h a. a \<in> A \<longrightarrow> b h a = (case latest32 a h of None \<Rightarrow> rst a | Some v \<Rightarrow> v))"

definition ram_bus :: "(u32 \<Rightarrow> u32) \<Rightarrow> bus" where
  "ram_bus rst h a = (case latest32 a h of None \<Rightarrow> rst a | Some v \<Rightarrow> v)"

lemma ram_like_upd32:
  assumes "ram_like b rst A" and "a \<in> A"
  shows "b (upd32 b a f h) a = f (b h a)"
  using assms by (simp add: ram_like_def upd32_eq latest32_append)

lemma ram_like_ram_bus [simp]: "ram_like (ram_bus rst) rst A"
  by (simp add: ram_like_def ram_bus_def)

subsection \<open>Busy waiting\<close>

text \<open>
  \<open>while (!(REG & m));\<close> repeats a test until it holds.  A test may load registers, so it maps a
  history to its verdict and the longer history.  \<open>spin\<close> is the loop; \<open>None\<close> is a loop that
  never ends.
\<close>

type_synonym test = "hist \<Rightarrow> bool \<times> hist"

partial_function (option) spin :: "test \<Rightarrow> hist \<Rightarrow> hist option" where
  "spin t h = (if fst (t h) then Some (snd (t h)) else spin t (snd (t h)))"

primrec spins :: "test \<Rightarrow> nat \<Rightarrow> hist \<Rightarrow> hist" where
  "spins t 0 h = h"
| "spins t (Suc n) h = spins t n (snd (t h))"

lemma spin_returns:
  "fst (t (spins t n h)) \<Longrightarrow> \<exists>h'. spin t h = Some h'"
proof (induction n arbitrary: h)
  case 0
  then show ?case by (simp add: spin.simps [of t h])
next
  case (Suc n)
  then have "\<exists>h'. spin t (snd (t h)) = Some h'" by simp
  then show ?case by (simp add: spin.simps [of t h])
qed

lemma spin_Some:
  assumes "spin t h = Some h'"
  shows "\<exists>n. fst (t (spins t n h)) \<and> h' = snd (t (spins t n h))"
proof (rule spin.raw_induct [OF _ assms])
  fix f t h h'
  assume IH: "\<And>t h h'. f t h = Some h' \<Longrightarrow>
      \<exists>n. fst (t (spins t n h)) \<and> h' = snd (t (spins t n h))"
    and eq: "(if fst (t h) then Some (snd (t h)) else f t (snd (t h))) = Some h'"
  show "\<exists>n. fst (t (spins t n h)) \<and> h' = snd (t (spins t n h))"
  proof (cases "fst (t h)")
    case True
    with eq show ?thesis by (intro exI [of _ 0]) simp
  next
    case False
    with eq have "f t (snd (t h)) = Some h'" by simp
    from IH [OF this] obtain n where
      "fst (t (spins t n (snd (t h)))) \<and> h' = snd (t (spins t n (snd (t h))))" ..
    then show ?thesis by (intro exI [of _ "Suc n"]) simp
  qed
qed

text \<open>A projection that one test keeps is kept by the whole loop.\<close>

lemma spin_keeps:
  assumes "spin t h = Some h'" and "\<And>h. p (snd (t h)) = p h"
  shows "p h' = p h"
proof -
  have "p (spins t n h) = p h" for n h
    by (induction n arbitrary: h) (simp_all add: assms(2))
  with spin_Some [OF assms(1)] assms(2) show ?thesis by auto
qed

definition bits_set32 :: "bus \<Rightarrow> u32 \<Rightarrow> u32 \<Rightarrow> test" where
  "bits_set32 b a m h = (let (v, h1) = rd32 b a h in (v AND m \<noteq> 0, h1))"

definition bits_set8 :: "bus \<Rightarrow> u32 \<Rightarrow> u8 \<Rightarrow> test" where
  "bits_set8 b a m h = (let (v, h1) = rd8 b a h in (v AND m \<noteq> 0, h1))"

lemma snd_bits_set32 [simp]: "snd (bits_set32 b a m h) = h @ [Rd32 a (b h a)]"
  by (simp add: bits_set32_def rd32_def)

lemma snd_bits_set8 [simp]: "snd (bits_set8 b a m h) = h @ [Rd8 a (ucast (b h a))]"
  by (simp add: bits_set8_def rd8_def)

lemma fst_bits_set32 [simp]: "fst (bits_set32 b a m h) = (b h a AND m \<noteq> 0)"
  by (simp add: bits_set32_def rd32_def)

lemma fst_bits_set8 [simp]: "fst (bits_set8 b a m h) = (ucast (b h a) AND m \<noteq> 0)"
  by (simp add: bits_set8_def rd8_def)

text \<open>The hardware keeps raising the awaited condition, whatever the program does: from every
  continuation of the history some number of tests ends the wait.\<close>

definition live :: "test \<Rightarrow> hist \<Rightarrow> bool" where
  "live t h \<longleftrightarrow> (\<forall>e. \<exists>n. fst (t (spins t n (h @ e))))"

lemma live_append: "live t h \<Longrightarrow> live t (h @ e)"
  by (simp add: live_def)

lemma live_spin: "live t h \<Longrightarrow> \<exists>h'. spin t h = Some h'"
  unfolding live_def by (metis append_Nil2 spin_returns)

text \<open>Tests only make a history longer.\<close>

definition extends :: "test \<Rightarrow> bool" where
  "extends t \<longleftrightarrow> (\<forall>h. \<exists>e. snd (t h) = h @ e)"

lemma extends_bits [simp]: "extends (bits_set32 b a m)" "extends (bits_set8 b a' m')"
  by (auto simp: extends_def)

lemma spin_extends:
  assumes "spin t h = Some h'" and "extends t"
  shows "\<exists>e. h' = h @ e"
proof -
  have step: "\<exists>e. snd (t g) = g @ e" for g
    using assms(2) by (simp add: extends_def)
  have "\<exists>e. spins t n g = g @ e" for n g
  proof (induction n arbitrary: g)
    case 0
    show ?case by simp
  next
    case (Suc n)
    from step [of g] obtain e where "snd (t g) = g @ e" ..
    with Suc [of "snd (t g)"] show ?case by auto
  qed
  moreover from spin_Some [OF assms(1)] obtain n where "h' = snd (t (spins t n h))" by auto
  ultimately show ?thesis using step by (metis append.assoc)
qed

subsection \<open>First-match search of a table\<close>

text \<open>\<open>for (i = 0; i < N; i++) if (p(tab[i])) ...; return\<close>: the index of the first entry that
  satisfies the test.\<close>

fun first_idx :: "('a \<Rightarrow> bool) \<Rightarrow> 'a list \<Rightarrow> nat option" where
  "first_idx p [] = None"
| "first_idx p (x # xs) = (if p x then Some 0 else map_option Suc (first_idx p xs))"

lemma first_idx_SomeD:
  "first_idx p xs = Some i \<Longrightarrow> i < length xs \<and> p (xs ! i) \<and> (\<forall>j < i. \<not> p (xs ! j))"
  by (induction xs arbitrary: i) (force simp: less_Suc_eq_0_disj split: if_splits)+

lemma first_idx_None: "first_idx p xs = None \<longleftrightarrow> (\<forall>x \<in> set xs. \<not> p x)"
  by (induction xs) auto

lemma first_idx_cong: "(\<And>x. x \<in> set xs \<Longrightarrow> p x = q x) \<Longrightarrow> first_idx p xs = first_idx q xs"
  by (induction xs) auto

lemma first_idx_eqI:
  "i < length xs \<Longrightarrow> p (xs ! i) \<Longrightarrow> (\<And>j. j < i \<Longrightarrow> \<not> p (xs ! j)) \<Longrightarrow> first_idx p xs = Some i"
proof (induction xs arbitrary: i)
  case Nil
  then show ?case by simp
next
  case (Cons x xs)
  show ?case
  proof (cases i)
    case 0
    with Cons.prems show ?thesis by simp
  next
    case (Suc k)
    have "\<not> p x" using Cons.prems(3) [of 0] Suc by simp
    moreover have "\<not> p (xs ! j)" if "j < k" for j
      using Cons.prems(3) [of "Suc j"] that Suc by simp
    then have "first_idx p xs = Some k"
      using Cons.IH [of k] Cons.prems(1,2) Suc by simp
    ultimately show ?thesis by (simp add: Suc)
  qed
qed

subsection \<open>C strings\<close>

text \<open>A C string is the list of its characters up to the terminator; \<open>*s\<close> at the end is the
  NUL character.\<close>

abbreviation NUL :: char where
  "NUL \<equiv> CHR 0x00"

definition cur :: "string \<Rightarrow> char" where
  "cur s = (case s of [] \<Rightarrow> NUL | c # _ \<Rightarrow> c)"

lemma cur_simps [simp]: "cur [] = NUL" "cur (c # s) = c"
  by (simp_all add: cur_def)

text \<open>Characters as \<open>int\<close> arguments (plain \<open>char\<close> is unsigned on this target), and the character
  that the low byte of an \<open>int\<close> encodes.\<close>

definition c32 :: "char \<Rightarrow> u32" where
  "c32 c = of_nat (of_char c)"

definition to_char :: "'a::len word \<Rightarrow> char" where
  "to_char w = char_of (unat w)"

lemma unat_c32: "unat (c32 c) = of_char c"
proof -
  have "of_char c < (2 ^ 32 :: nat)" by (rule less_trans [OF nat_of_char_less_256]) simp
  then show ?thesis by (simp add: c32_def unat_of_nat)
qed

lemma c32_le: "c32 c \<le> c32 d \<longleftrightarrow> (of_char c :: nat) \<le> of_char d"
  by (simp add: word_le_nat_alt unat_c32)

lemma to_char_c32 [simp]: "to_char (c32 c) = c"
  by (simp add: to_char_def unat_c32)

lemma to_char_ucast8 [simp]: "to_char (ucast (w :: u32) :: u8) = to_char w"
proof -
  have "unat (ucast w :: u8) = unat w mod 256" by (simp add: unsigned_ucast_eq take_bit_eq_mod)
  then show ?thesis by (simp add: to_char_def)
qed

subsection \<open>Lists and words\<close>

lemma bind_Some_iff [simp]:
  "(Option.bind m f = Some y) = (\<exists>x. m = Some x \<and> f x = Some y)"
  by (cases m) auto

lemma ucast_of_int:
  "LENGTH('b) \<le> LENGTH('a) \<Longrightarrow>
   (ucast (word_of_int k :: 'a::len word) :: 'b::len word) = word_of_int k"
  by (simp add: unsigned_of_int word_of_int_eq_iff min_def)

lemma word_of_int_0_iff8: "\<bar>k\<bar> < 256 \<Longrightarrow> (word_of_int k :: u8) = 0 \<longleftrightarrow> k = 0"
  by (auto simp: word_of_int_eq_0_iff dest: dvd_imp_le_int)
lemma of_nat32_eq_iff:
  "m < 4294967296 \<Longrightarrow> n < 4294967296 \<Longrightarrow> (of_nat m :: u32) = of_nat n \<longleftrightarrow> m = n"
  by (simp add: word_unat_eq_iff unat_of_nat)

lemma unat_u8_less [simp]: "unat (v :: u8) < 256"
  using unsigned_less [of v] by simp

lemma unat_ucast_u8: "unat (ucast (v :: u8) :: u32) = unat v"
proof -
  have "unat (ucast v :: u32) = unat v mod 4294967296"
    by (simp add: unsigned_ucast_eq) (simp add: take_bit_eq_mod)
  also have "\<dots> = unat v" by (intro mod_less less_trans [OF unat_u8_less]) simp
  finally show ?thesis .
qed

lemma sint_of_nat32: "k < 2147483648 \<Longrightarrow> sint (of_nat k :: u32) = int k"
  by (simp add: signed_of_nat signed_take_bit_int_eq_self)

text \<open>The division of C cuts towards zero; on a non-negative dividend it is \<open>div\<close>.\<close>

lemma sdiv_nonneg: "0 \<le> a \<Longrightarrow> 0 < b \<Longrightarrow> (a :: int) sdiv b = a div b"
  by (cases "a = 0") (simp_all add: signed_divide_int_def)

lemma ucast_8_32_8 [simp]: "(ucast (ucast (v :: u8) :: u32) :: u8) = v"
  by (rule bit_word_eqI) (auto simp: bit_simps)

lemma take_Suc_update: "n < length xs \<Longrightarrow> take (Suc n) (xs[n := v]) = take n xs @ [v]"
  by (simp add: take_Suc_conv_app_nth)

lemma ucast_add_narrow:
  assumes "LENGTH('b) \<le> LENGTH('a)"
  shows "(ucast ((a :: 'a::len word) + b) :: 'b::len word) = ucast a + ucast b"
proof -
  have c: "(ucast (w :: 'a word) :: 'b word) = word_of_int (uint w)" for w
    by (simp add: unsigned_ucast_eq)
  show ?thesis
    using ucast_of_int [where 'a = 'a and 'b = 'b, of "uint a + uint b"] assms by (simp add: c [symmetric])
qed

lemma ucast_add32_8: "(ucast ((a :: u32) + b) :: u8) = ucast a + ucast b"
  by (rule ucast_add_narrow) simp

lemma ucast_add32_16: "(ucast ((a :: u32) + b) :: u16) = ucast a + ucast b"
  by (rule ucast_add_narrow) simp

text \<open>The bytes of a word.\<close>

lemma byte_of_u32: "unat (ucast (drop_bit n (w :: u32) AND 0xff) :: u8) = unat w div 2 ^ n mod 256"
proof -
  have m: "(0xff :: u32) = mask 8" by (simp add: mask_eq_exp_minus_1)
  have "unat (ucast (take_bit 8 v) :: u8) = unat v mod 256" for v :: u32
    by (simp only: unsigned_ucast_eq unsigned_take_bit_eq) (simp add: take_bit_eq_mod)
  moreover have "take_bit 32 (unat w) = unat w"
    using unsigned_less [of w] by (simp add: take_bit_nat_eq_self_iff)
  ultimately show ?thesis
    by (simp only: m take_bit_eq_mask [symmetric] unsigned_drop_bit_eq)
      (simp add: drop_bit_eq_div unsigned_drop_bit_eq)
qed

lemma byte0_of_u32: "unat (ucast ((w :: u32) AND 0xff) :: u8) = unat w mod 256"
  using byte_of_u32 [of 0 w] by simp

lemma two_bytes: "x < 65536 \<Longrightarrow> x mod 256 + 256 * (x div 256 mod 256) = (x :: nat)"
proof -
  assume "x < 65536"
  then have "x div 256 mod 256 = x div 256" by simp
  then show ?thesis using mod_mult_div_eq [of x 256] by simp
qed

lemma three_bytes:
  "x < 16777216 \<Longrightarrow> x mod 256 + 256 * (x div 256 mod 256) + 65536 * (x div 65536 mod 256) = (x :: nat)"
proof -
  assume x: "x < 16777216"
  have "x div 65536 mod 256 = x div 65536" using x by simp
  moreover have "x div 256 mod 256 + 256 * (x div 65536) = x div 256"
    using mod_mult_div_eq [of "x div 256" 256] by (simp add: div_mult2_eq [symmetric])
  ultimately show ?thesis using mod_mult_div_eq [of x 256] by linarith
qed

lemma nth_update_other: "i \<noteq> j \<Longrightarrow> (xs[i := x]) ! j = xs ! j"
  by simp

end
