(* ===== verification/Soc.thy ===== *)
theory Soc
  imports Prelude
begin

text \<open>
  The memory-mapped registers of the S3C2440 that the programs use, by the names and physical
  addresses of \<^verbatim>\<open>s3c2440_soc.h\<close>.  The header declares each as an lvalue of volatile type
  (\<open>__REG\<close>: 32 bits, \<open>__REG_BYTE\<close>: 8 bits); here a name is the address, and the access is
  \<^const>\<open>rd32\<close>/\<^const>\<open>wr32\<close> or \<^const>\<open>rd8\<close>/\<^const>\<open>wr8\<close>.
\<close>

subsection \<open>Memory controller\<close>

abbreviation BWSCON :: u32 where "BWSCON \<equiv> 0x48000000"
abbreviation BANKCON6 :: u32 where "BANKCON6 \<equiv> 0x4800001C"
abbreviation BANKCON7 :: u32 where "BANKCON7 \<equiv> 0x48000020"
abbreviation REFRESH :: u32 where "REFRESH \<equiv> 0x48000024"
abbreviation BANKSIZE :: u32 where "BANKSIZE \<equiv> 0x48000028"
abbreviation MRSRB6 :: u32 where "MRSRB6 \<equiv> 0x4800002C"
abbreviation MRSRB7 :: u32 where "MRSRB7 \<equiv> 0x48000030"

subsection \<open>Interrupt controller\<close>

abbreviation INTMOD :: u32 where "INTMOD \<equiv> 0x4A000004"
abbreviation SRCPND :: u32 where "SRCPND \<equiv> 0x4A000000"
abbreviation INTMSK :: u32 where "INTMSK \<equiv> 0x4A000008"
abbreviation INTPND :: u32 where "INTPND \<equiv> 0x4A000010"
abbreviation INTOFFSET :: u32 where "INTOFFSET \<equiv> 0x4A000014"
abbreviation SUBSRCPND :: u32 where "SUBSRCPND \<equiv> 0x4A000018"
abbreviation INTSUBMSK :: u32 where "INTSUBMSK \<equiv> 0x4A00001C"

subsection \<open>LCD controller\<close>

abbreviation LCDCON1 :: u32 where "LCDCON1 \<equiv> 0x4D000000"
abbreviation LCDCON2 :: u32 where "LCDCON2 \<equiv> 0x4D000004"
abbreviation LCDCON3 :: u32 where "LCDCON3 \<equiv> 0x4D000008"
abbreviation LCDCON4 :: u32 where "LCDCON4 \<equiv> 0x4D00000C"
abbreviation LCDCON5 :: u32 where "LCDCON5 \<equiv> 0x4D000010"
abbreviation LCDSADDR1 :: u32 where "LCDSADDR1 \<equiv> 0x4D000014"
abbreviation LCDSADDR2 :: u32 where "LCDSADDR2 \<equiv> 0x4D000018"

subsection \<open>NAND flash controller\<close>

abbreviation NFCONF :: u32 where "NFCONF \<equiv> 0x4E000000"
abbreviation NFCONT :: u32 where "NFCONT \<equiv> 0x4E000004"
abbreviation NFCMD :: u32 where "NFCMD \<equiv> 0x4E000008"
abbreviation NFADDR :: u32 where "NFADDR \<equiv> 0x4E00000C"
abbreviation NFDATA :: u32 where "NFDATA \<equiv> 0x4E000010"
abbreviation NFSTAT :: u32 where "NFSTAT \<equiv> 0x4E000020"

subsection \<open>UART 0\<close>

abbreviation ULCON0 :: u32 where "ULCON0 \<equiv> 0x50000000"
abbreviation UCON0 :: u32 where "UCON0 \<equiv> 0x50000004"
abbreviation UFCON0 :: u32 where "UFCON0 \<equiv> 0x50000008"
abbreviation UMCON0 :: u32 where "UMCON0 \<equiv> 0x5000000C"
abbreviation UTRSTAT0 :: u32 where "UTRSTAT0 \<equiv> 0x50000010"
abbreviation UTXH0 :: u32 where "UTXH0 \<equiv> 0x50000020"
abbreviation URXH0 :: u32 where "URXH0 \<equiv> 0x50000024"
abbreviation UBRDIV0 :: u32 where "UBRDIV0 \<equiv> 0x50000028"

subsection \<open>PWM timers\<close>

abbreviation TCFG0 :: u32 where "TCFG0 \<equiv> 0x51000000"
abbreviation TCFG1 :: u32 where "TCFG1 \<equiv> 0x51000004"
abbreviation TCON :: u32 where "TCON \<equiv> 0x51000008"
abbreviation TCNTB0 :: u32 where "TCNTB0 \<equiv> 0x5100000C"

subsection \<open>I2C\<close>

abbreviation IICCON :: u32 where "IICCON \<equiv> 0x54000000"
abbreviation IICSTAT :: u32 where "IICSTAT \<equiv> 0x54000004"
abbreviation IICADD :: u32 where "IICADD \<equiv> 0x54000008"
abbreviation IICDS :: u32 where "IICDS \<equiv> 0x5400000C"

subsection \<open>I/O ports and external interrupts\<close>

abbreviation GPBCON :: u32 where "GPBCON \<equiv> 0x56000010"
abbreviation GPBDAT :: u32 where "GPBDAT \<equiv> 0x56000014"
abbreviation GPCCON :: u32 where "GPCCON \<equiv> 0x56000020"
abbreviation GPDCON :: u32 where "GPDCON \<equiv> 0x56000030"
abbreviation GPECON :: u32 where "GPECON \<equiv> 0x56000040"
abbreviation GPEUP :: u32 where "GPEUP \<equiv> 0x56000048"
abbreviation GPFCON :: u32 where "GPFCON \<equiv> 0x56000050"
abbreviation GPFDAT :: u32 where "GPFDAT \<equiv> 0x56000054"
abbreviation GPGCON :: u32 where "GPGCON \<equiv> 0x56000060"
abbreviation GPGDAT :: u32 where "GPGDAT \<equiv> 0x56000064"
abbreviation GPHCON :: u32 where "GPHCON \<equiv> 0x56000070"
abbreviation GPHUP :: u32 where "GPHUP \<equiv> 0x56000078"
abbreviation EXTINT0 :: u32 where "EXTINT0 \<equiv> 0x56000088"
abbreviation EXTINT1 :: u32 where "EXTINT1 \<equiv> 0x5600008C"
abbreviation EXTINT2 :: u32 where "EXTINT2 \<equiv> 0x56000090"
abbreviation EINTMASK :: u32 where "EINTMASK \<equiv> 0x560000A4"
abbreviation EINTPEND :: u32 where "EINTPEND \<equiv> 0x560000A8"

subsection \<open>A/D converter and touch screen\<close>

abbreviation ADCCON :: u32 where "ADCCON \<equiv> 0x58000000"
abbreviation ADCTSC :: u32 where "ADCTSC \<equiv> 0x58000004"
abbreviation ADCDLY :: u32 where "ADCDLY \<equiv> 0x58000008"
abbreviation ADCDAT0 :: u32 where "ADCDAT0 \<equiv> 0x5800000C"
abbreviation ADCDAT1 :: u32 where "ADCDAT1 \<equiv> 0x58000010"

end
