(* ===== verification/Nand.thy ===== *)
theory Nand
  imports Soc
begin

text \<open>
  The NAND flash reader of the boot code, \<^verbatim>\<open>bare_board/code/I2c/20200510_IIC/nand_flash.c\<close>, and its
  specification against the command protocol of the chip: pages of 2048 data bytes and a spare area,
  blocks of 64 pages, a block being bad when the first spare byte of its first page is not 0xFF.  The
  short delay loops of the source touch only local variables and leave no trace in the history.
\<close>

subsection \<open>The driver\<close>

definition nand_init :: "hist \<Rightarrow> hist" where
  "nand_init h =
     (let h = wr32 NFCONF (push_bit 12 0 OR push_bit 8 1 OR push_bit 4 0) h
      in wr32 NFCONT (bitm 4 OR bitm 1 OR bitm 0) h)"

definition nand_select :: "bus \<Rightarrow> hist \<Rightarrow> hist" where
  "nand_select b h = upd32 b NFCONT (bits_clear (bitm 1)) h"

definition nand_deselect :: "bus \<Rightarrow> hist \<Rightarrow> hist" where
  "nand_deselect b h = upd32 b NFCONT (bits_or (bitm 1)) h"

definition nand_cmd :: "u8 \<Rightarrow> hist \<Rightarrow> hist" where
  "nand_cmd c h = wr8 NFCMD c h"

definition nand_page :: "u32 \<Rightarrow> hist \<Rightarrow> hist" where
  "nand_page page h =
     (let h = wr8 NFADDR (ucast (page AND 0xff)) h;
          h = wr8 NFADDR (ucast (drop_bit 8 page AND 0xff)) h
      in wr8 NFADDR (ucast (drop_bit 16 page AND 0xff)) h)"

definition nand_col :: "u32 \<Rightarrow> hist \<Rightarrow> hist" where
  "nand_col col h =
     (let h = wr8 NFADDR (ucast (col AND 0xff)) h
      in wr8 NFADDR (ucast (drop_bit 8 col AND 0xff)) h)"

definition nand_addr :: "u32 \<Rightarrow> hist \<Rightarrow> hist" where
  "nand_addr addr h =
     (let col = addr mod 2048; page = addr div 2048;
          h = wr8 NFADDR (ucast (col AND 0xff)) h;
          h = wr8 NFADDR (ucast (drop_bit 8 col AND 0xff)) h;
          h = wr8 NFADDR (ucast (page AND 0xff)) h;
          h = wr8 NFADDR (ucast (drop_bit 8 page AND 0xff)) h
      in wr8 NFADDR (ucast (drop_bit 16 page AND 0xff)) h)"

definition nand_wait_ready :: "bus \<Rightarrow> hist \<Rightarrow> hist option" where
  "nand_wait_ready b h = spin (bits_set8 b NFSTAT 1) h"

definition nand_data :: "bus \<Rightarrow> hist \<Rightarrow> u8 \<times> hist" where
  "nand_data b h = rd8 b NFDATA h"

definition nand_bad :: "bus \<Rightarrow> u32 \<Rightarrow> hist \<Rightarrow> (bool \<times> hist) option" where
  "nand_bad b addr h = do {
     let page = addr div 2048;
     let h = nand_select b h;
     let h = nand_cmd 0x00 h;
     let h = nand_col 2048 h;
     let h = nand_page page h;
     let h = nand_cmd 0x30 h;
     h \<leftarrow> nand_wait_ready b h;
     let (val, h) = nand_data b h;
     let h = nand_deselect b h;
     Some (val \<noteq> 0xff, h)
   }"

text \<open>The buffer is a list; a store past its end is \<open>None\<close>.\<close>

function read_page ::
  "bus \<Rightarrow> nat \<Rightarrow> nat \<Rightarrow> nat \<Rightarrow> u32 \<Rightarrow> u8 list \<Rightarrow> hist \<Rightarrow> (nat \<times> u32 \<times> u8 list \<times> hist) option" where
  "read_page b len col i addr buf h =
     (if col < 2048 \<and> i < len then
        (if i < length buf
         then (let (v, h) = nand_data b h
               in read_page b len (Suc col) (Suc i) (addr + 1) (buf[i := v]) h)
         else None)
      else Some (i, addr, buf, h))"
  by pat_completeness auto
termination
  by (relation "measure (\<lambda>(b, len, col, i, addr, buf, h). 2048 - col)") auto

declare read_page.simps [simp del]

partial_function (option) nand_read_loop ::
  "bus \<Rightarrow> nat \<Rightarrow> nat \<times> nat \<times> u32 \<times> u8 list \<times> hist \<Rightarrow> (u8 list \<times> hist) option" where
  "nand_read_loop b len st =
     (case st of (col, i, addr, buf, h) \<Rightarrow>
        if i < len then do {
          (bad, h) \<leftarrow> (if addr AND 0x1FFFF = 0 then nand_bad b addr h else Some (False, h));
          if bad then nand_read_loop b len (col, i, addr + 128 * 1024, buf, h)
          else do {
            let h = nand_select b h;
            let h = nand_cmd 0x00 h;
            let h = nand_addr addr h;
            let h = nand_cmd 0x30 h;
            h \<leftarrow> nand_wait_ready b h;
            (i, addr, buf, h) \<leftarrow> read_page b len col i addr buf h;
            let h = nand_deselect b h;
            nand_read_loop b len (0, i, addr, buf, h)
          }
        } else Some (buf, h))"

definition nand_read :: "bus \<Rightarrow> u32 \<Rightarrow> u8 list \<Rightarrow> u32 \<Rightarrow> hist \<Rightarrow> (u8 list \<times> hist) option" where
  "nand_read b addr buf len h = nand_read_loop b (unat len) (unat (addr mod 2048), 0, addr, buf, h)"

subsection \<open>The chip\<close>

text \<open>What the accesses ask of the chip: the address bytes since the last read command, and, once the
  second command byte has come, the page and the column of the next data byte.\<close>

type_synonym nand_view = "u8 list \<times> (nat \<times> nat) option"

fun addr_pos :: "u8 list \<Rightarrow> (nat \<times> nat) option" where
  "addr_pos [c0, c1, p0, p1, p2] =
     Some (unat p0 + 256 * unat p1 + 65536 * unat p2, unat c0 + 256 * unat c1)"
| "addr_pos _ = None"

fun nand_step :: "event \<Rightarrow> nand_view \<Rightarrow> nand_view" where
  "nand_step (Wr8 a v) (bs, pos) =
     (if a = NFCMD then (if v = 0x00 then ([], None) else if v = 0x30 then ([], addr_pos bs) else ([], None))
      else if a = NFADDR then (bs @ [v], pos) else (bs, pos))"
| "nand_step (Rd8 a v) (bs, pos) =
     (if a = NFDATA then (bs, map_option (\<lambda>(p, c). (p, Suc c)) pos) else (bs, pos))"
| "nand_step _ st = st"

definition nand_view :: "hist \<Rightarrow> nand_view" where
  "nand_view h = fold nand_step h ([], None)"

text \<open>The chip delivers the addressed byte, and always becomes ready.\<close>

definition nand_chip :: "(nat \<Rightarrow> nat \<Rightarrow> u8) \<Rightarrow> bus \<Rightarrow> bool" where
  "nand_chip content b \<longleftrightarrow>
     (\<forall>h p c. snd (nand_view h) = Some (p, c) \<longrightarrow> c < 2112 \<longrightarrow> ucast (b h NFDATA) = content p c)
     \<and> (\<forall>h. live (bits_set8 b NFSTAT 1) h)"

lemma nand_view_append: "nand_view (h @ es) = fold nand_step es (nand_view h)"
  by (simp add: nand_view_def)

lemma view_keeps [simp]:
  "nand_view (h @ [Rd32 a v]) = nand_view h" "nand_view (h @ [Wr32 a v]) = nand_view h"
  "nand_view (h @ [Rd32 a v, Wr32 a' v']) = nand_view h"
  "nand_view (h @ [Rd8 NFSTAT w]) = nand_view h"
  by (cases "nand_view h"; simp add: nand_view_append)+

lemma view_Wr8: "nand_view (h @ [Wr8 a v]) = nand_step (Wr8 a v) (nand_view h)"
  by (simp add: nand_view_append)

lemma view_Rd8: "nand_view (h @ [Rd8 a v]) = nand_step (Rd8 a v) (nand_view h)"
  by (simp add: nand_view_append)

lemma spin_view: "spin (bits_set8 b NFSTAT m) h = Some h' \<Longrightarrow> nand_view h' = nand_view h"
  by (erule spin_keeps) simp

lemma view_select [simp]: "nand_view (nand_select b h) = nand_view h"
  "nand_view (nand_deselect b h) = nand_view h"
  by (simp_all add: nand_select_def nand_deselect_def upd32_eq)

lemma view_cmd0: "nand_view (nand_cmd 0x00 h) = ([], None)"
  by (cases "nand_view h") (simp add: nand_cmd_def wr8_def view_Wr8)

lemma view_cmd30: "nand_view h = (bs, pos) \<Longrightarrow> nand_view (nand_cmd 0x30 h) = ([], addr_pos bs)"
  by (simp add: nand_cmd_def wr8_def view_Wr8)

subsection \<open>What reading means\<close>

definition nand_byte :: "(nat \<Rightarrow> nat \<Rightarrow> u8) \<Rightarrow> nat \<Rightarrow> u8" where
  "nand_byte content a = content (a div 2048) (a mod 2048)"

definition bad_block_at :: "(nat \<Rightarrow> nat \<Rightarrow> u8) \<Rightarrow> nat \<Rightarrow> bool" where
  "bad_block_at content a \<longleftrightarrow> a mod 131072 = 0 \<and> content (a div 2048) 2048 \<noteq> 0xff"

text \<open>\<open>reads content a n bs\<close>: the \<open>n\<close> bytes from address \<open>a\<close> on, leaving out the bad blocks that are
  entered at their start, all of them inside the 32-bit address space.\<close>

inductive reads :: "(nat \<Rightarrow> nat \<Rightarrow> u8) \<Rightarrow> nat \<Rightarrow> nat \<Rightarrow> u8 list \<Rightarrow> bool"
  for content :: "nat \<Rightarrow> nat \<Rightarrow> u8"
where
  reads_done: "reads content a 0 []"
| reads_skip: "bad_block_at content a \<Longrightarrow> a + 131072 < 2 ^ 32 \<Longrightarrow> reads content (a + 131072) (Suc n) bs
    \<Longrightarrow> reads content a (Suc n) bs"
| reads_byte: "\<not> bad_block_at content a \<Longrightarrow> a < 2 ^ 32 \<Longrightarrow> reads content (a + 1) n bs
    \<Longrightarrow> reads content a (Suc n) (nand_byte content a # bs)"

inductive_cases reads_0E: "reads content a 0 bs"
inductive_cases reads_SucE: "reads content a (Suc n) bs"
inductive_simps reads_Suc: "reads content a (Suc n) bs"

lemma reads_length: "reads content a n bs \<Longrightarrow> length bs = n"
  by (induction rule: reads.induct) simp_all

lemma div_mod_block: "r < n \<Longrightarrow> (q * n + r) div n = q \<and> (q * n + r) mod n = (r :: nat)"
  by simp

lemma page_bytes:
  "a mod 2048 + k \<le> 2048 \<Longrightarrow>
   map (content (a div 2048)) [a mod 2048..<a mod 2048 + k] = map (nand_byte content) [a..<a + k]"
proof (rule nth_equalityI)
  fix j
  assume k: "a mod 2048 + k \<le> 2048"
    and "j < length (map (content (a div 2048)) [a mod 2048..<a mod 2048 + k])"
  then have j: "j < k" by simp
  with k have l: "a mod 2048 + j < 2048" by simp
  have "(a + j) div 2048 = a div 2048" "(a + j) mod 2048 = a mod 2048 + j"
    using div_mod_block [OF l, of "a div 2048"] div_mult_mod_eq [of a 2048]
    by (simp_all add: add.assoc [symmetric])
  with j show "map (content (a div 2048)) [a mod 2048..<a mod 2048 + k] ! j = map (nand_byte content) [a..<a + k] ! j"
    by (simp add: nand_byte_def)
qed simp

text \<open>Inside a page there is nothing to skip.\<close>

lemma reads_run:
  "reads content a n bs \<Longrightarrow> \<not> bad_block_at content a \<Longrightarrow> m \<le> n \<Longrightarrow> a mod 2048 + m \<le> 2048 \<Longrightarrow>
   (m = 0 \<or> a + m \<le> 2 ^ 32) \<and> (\<exists>rest. bs = map (nand_byte content) [a..<a + m] @ rest \<and> reads content (a + m) (n - m) rest)"
proof (induction m arbitrary: a n bs)
  case 0
  then show ?case by auto
next
  case (Suc m)
  then obtain k where n: "n = Suc k" by (cases n) auto
  from Suc.prems(1,2) obtain bs' where bs: "bs = nand_byte content a # bs'" "reads content (a + 1) k bs'"
    and a: "a < 2 ^ 32"
    unfolding n by (auto elim: reads_SucE)
  show ?case
  proof (cases m)
    case 0
    with bs n a show ?thesis by auto
  next
    case (Suc j)
    have pos: "a mod 2048 + 1 < 2048" using Suc.prems(4) Suc by simp
    then have md: "(a + 1) mod 2048 = a mod 2048 + 1" by (simp add: mod_Suc)
    have "\<not> bad_block_at content (a + 1)"
    proof
      assume "bad_block_at content (a + 1)"
      then have "(a + 1) mod 131072 mod 2048 = 0" by (simp add: bad_block_at_def)
      then have "(a + 1) mod 2048 = 0" by (simp add: mod_mod_cancel)
      with md show False by simp
    qed
    from Suc.IH [OF bs(2) this] Suc.prems(3,4) n md obtain rest where
      IH: "m = 0 \<or> a + 1 + m \<le> 2 ^ 32" "bs' = map (nand_byte content) [a + 1..<a + 1 + m] @ rest"
      "reads content (a + 1 + m) (k - m) rest" by auto
    have "[a..<a + Suc m] = a # [a + 1..<a + 1 + m]" by (simp add: upt_conv_Cons)
    with IH bs n Suc show ?thesis by auto
  qed
qed

subsection \<open>The driver speaks the protocol\<close>

lemma page_bound: "unat (addr :: u32) div 2048 < 16777216"
proof -
  have "unat addr < 2 ^ 32" using unsigned_less [of addr] by simp
  then show ?thesis by (simp add: div_less_iff_less_mult)
qed

lemma addr_phase:
  assumes "nand_view h = ([], None)"
  shows "nand_view (nand_cmd 0x30 (nand_addr addr h)) = ([], Some (unat addr div 2048, unat addr mod 2048))"
proof -
  have v: "nand_view (nand_addr addr h) =
      ([ucast (addr mod 2048 AND 0xff), ucast (drop_bit 8 (addr mod 2048) AND 0xff),
        ucast (addr div 2048 AND 0xff), ucast (drop_bit 8 (addr div 2048) AND 0xff),
        ucast (drop_bit 16 (addr div 2048) AND 0xff)], None)"
    using assms by (simp add: nand_addr_def wr8_def nand_view_append Let_def)
  have "unat (addr mod 2048) < 65536" by (simp add: unat_mod_distrib trans_less_add1 order_less_trans [OF mod_less_divisor])
  then show ?thesis
    unfolding view_cmd30 [OF v]
    using three_bytes [OF page_bound [of addr]] two_bytes [of "unat (addr mod 2048)"]
    by (simp only: addr_pos.simps byte_of_u32 byte0_of_u32)
      (simp add: unat_div_distrib unat_mod_distrib unsigned_drop_bit_eq drop_bit_eq_div)
qed

lemma spare_phase:
  assumes "nand_view h = ([], None)"
  shows "nand_view (nand_cmd 0x30 (nand_page (addr div 2048) (nand_col 2048 h)))
     = ([], Some (unat addr div 2048, 2048))"
proof -
  have v: "nand_view (nand_page (addr div 2048) (nand_col 2048 h)) =
      ([ucast ((2048 :: u32) AND 0xff), ucast (drop_bit 8 (2048 :: u32) AND 0xff),
        ucast (addr div 2048 AND 0xff), ucast (drop_bit 8 (addr div 2048) AND 0xff),
        ucast (drop_bit 16 (addr div 2048) AND 0xff)], None)"
    using assms by (simp add: nand_page_def nand_col_def wr8_def nand_view_append Let_def)
  show ?thesis
    unfolding view_cmd30 [OF v]
    using three_bytes [OF page_bound [of addr]]
    by (simp only: addr_pos.simps byte_of_u32 byte0_of_u32) (simp add: unat_div_distrib unsigned_drop_bit_eq drop_bit_eq_div)
qed

lemma wait_ready_ok:
  assumes "nand_chip content b"
  shows "\<exists>h'. nand_wait_ready b h = Some h' \<and> nand_view h' = nand_view h"
  using assms live_spin [of "bits_set8 b NFSTAT 1" h]
  by (auto simp: nand_chip_def nand_wait_ready_def dest: spin_view)

lemma nand_bad_ok:
  assumes "nand_chip content b"
  shows "\<exists>h'. nand_bad b addr h = Some (content (unat addr div 2048) 2048 \<noteq> 0xff, h')"
proof -
  define g where "g = nand_cmd 0x30 (nand_page (addr div 2048) (nand_col 2048
      (nand_cmd 0x00 (nand_select b h))))"
  have "nand_view g = ([], Some (unat addr div 2048, 2048))"
    unfolding g_def by (rule spare_phase) (rule view_cmd0)
  with wait_ready_ok [OF assms, of g] obtain g' where
    g': "nand_wait_ready b g = Some g'" "snd (nand_view g') = Some (unat addr div 2048, 2048)"
    by auto
  have "(ucast (b g' NFDATA) :: u8) = content (unat addr div 2048) 2048"
    using assms g'(2) by (simp add: nand_chip_def)
  with g'(1) show ?thesis
    by (simp add: nand_bad_def Let_def nand_data_def rd8_def flip: g_def)
qed

lemma read_page_ok:
  assumes "nand_chip content b"
  shows "snd (nand_view h) = Some (p, col) \<Longrightarrow> col \<le> 2048 \<Longrightarrow> k = min (2048 - col) (len - i) \<Longrightarrow>
    i + k \<le> length buf \<Longrightarrow>
    \<exists>h'. read_page b len col i addr buf h
      = Some (i + k, addr + of_nat k, take i buf @ map (content p) [col..<col + k] @ drop (i + k) buf, h')"
proof (induction k arbitrary: col i addr buf h)
  case 0
  then have "\<not> (col < 2048 \<and> i < len)" by (auto simp: min_def split: if_splits)
  then show ?case by (subst read_page.simps) auto
next
  case (Suc k)
  then have c: "col < 2048" "i < len" and i: "i < length buf" by (auto simp: min_def split: if_splits)
  have k: "k = min (2048 - Suc col) (len - Suc i)" using Suc.prems(3) by simp
  define h1 where "h1 = h @ [Rd8 NFDATA (content p col)]"
  have v: "(ucast (b h NFDATA) :: u8) = content p col"
    using assms Suc.prems(1) c by (simp add: nand_chip_def)
  have "snd (nand_view h1) = Some (p, Suc col)"
    using Suc.prems(1) by (cases "nand_view h") (simp add: h1_def view_Rd8)
  from Suc.IH [OF this _ k, of "buf[i := content p col]" "addr + 1"] Suc.prems(4) c i obtain h' where
    h': "read_page b len (Suc col) (Suc i) (addr + 1) (buf[i := content p col]) h1
      = Some (Suc i + k, addr + 1 + of_nat k, take (Suc i) (buf[i := content p col])
          @ map (content p) [Suc col..<Suc col + k] @ drop (Suc i + k) (buf[i := content p col]), h')"
    by (auto simp del: upt_Suc)
  have "read_page b len col i addr buf h
      = read_page b len (Suc col) (Suc i) (addr + 1) (buf[i := content p col]) h1"
    using c i v by (subst read_page.simps) (simp add: nand_data_def rd8_def h1_def)
  moreover have "[col..<col + Suc k] = col # [Suc col..<Suc col + k]" by (simp add: upt_conv_Cons)
  ultimately show ?case using h' i by (simp add: take_Suc_update add.assoc)
qed

lemma block_start: "(addr :: u32) AND 0x1FFFF = 0 \<longleftrightarrow> unat addr mod 131072 = 0"
proof -
  have "(0x1FFFF :: u32) = mask 17" by (simp add: mask_eq_exp_minus_1)
  then have "addr AND 0x1FFFF = take_bit 17 addr" by (simp add: take_bit_eq_mask)
  moreover have "unat (take_bit 17 addr) = unat addr mod 131072"
    by (simp only: unsigned_take_bit_eq) (simp add: take_bit_eq_mod)
  moreover have "take_bit 17 addr = 0 \<longleftrightarrow> unat (take_bit 17 addr) = 0" by (simp only: unat_eq_zero)
  ultimately show ?thesis by simp
qed

text \<open>The loop, from any address: what is left to read goes to the rest of the buffer.\<close>

lemma read_loop_ok:
  assumes chip: "nand_chip content b"
  shows "reads content a n bs \<Longrightarrow> i + n = len \<Longrightarrow> len \<le> length buf \<Longrightarrow>
    n = 0 \<or> col = a mod 2048 \<Longrightarrow>
    \<exists>h'. nand_read_loop b len (col, i, of_nat a, buf, h) = Some (take i buf @ bs @ drop len buf, h')"
proof (induction "4294967296 - a" arbitrary: a n bs i buf col h rule: less_induct)
  case less
  show ?case
  proof (cases n)
    case 0
    with less.prems show ?thesis by (subst nand_read_loop.simps) (auto elim: reads_0E)
  next
    case (Suc m)
    have a: "a < 4294967296" using less.prems(1) unfolding Suc by (auto elim: reads_SucE)
    then have ua: "unat (of_nat a :: u32) = a" by (simp add: unat_of_nat)
    define addr :: u32 where "addr = of_nat a"
    have ua': "unat addr = a" using ua by (simp add: addr_def)
    have i: "i < len" using less.prems(2) Suc by simp
    show ?thesis
    proof (cases "bad_block_at content a")
      case True
      then have z: "addr AND 0x1FFFF = 0" and sp: "content (a div 2048) 2048 \<noteq> 0xff"
        by (auto simp: block_start ua' bad_block_at_def)
      from nand_bad_ok [OF chip, of addr h] sp ua' obtain h1 where
        h1: "nand_bad b addr h = Some (True, h1)" by auto
      from True less.prems(1) have r: "reads content (a + 131072) n bs"
        unfolding Suc by (auto elim: reads_SucE)
      have "\<exists>h'. nand_read_loop b len (col, i, of_nat (a + 131072), buf, h1)
          = Some (take i buf @ bs @ drop len buf, h')"
        by (rule less.hyps [OF _ r]) (use less.prems a Suc in \<open>auto simp: mod_add_right_eq [of a 131072 2048, symmetric]\<close>)
      moreover have "nand_read_loop b len (col, i, addr, buf, h)
          = nand_read_loop b len (col, i, of_nat (a + 131072), buf, h1)"
        using i z h1 by (subst nand_read_loop.simps) (simp add: addr_def)
      ultimately show ?thesis by (simp add: addr_def)
    next
      case False
      define h0 where "h0 = (if addr AND 0x1FFFF = 0 then snd (the (nand_bad b addr h)) else h)"
      have t: "(if addr AND 0x1FFFF = 0 then nand_bad b addr h else Some (False, h)) = Some (False, h0)"
        using nand_bad_ok [OF chip, of addr h] False ua'
        by (auto simp: h0_def block_start bad_block_at_def)
      define g where "g = nand_cmd 0x30 (nand_addr addr (nand_cmd 0x00 (nand_select b h0)))"
      have "nand_view g = ([], Some (a div 2048, a mod 2048))"
        unfolding g_def using addr_phase [OF view_cmd0, of addr] ua' by simp
      with wait_ready_ok [OF chip, of g] obtain g' where
        g': "nand_wait_ready b g = Some g'" "snd (nand_view g') = Some (a div 2048, a mod 2048)"
        by auto
      define k where "k = min (2048 - a mod 2048) n"
      have k: "0 < k" "k \<le> n" "a mod 2048 + k \<le> 2048" using Suc by (auto simp: k_def)
      have col: "col = a mod 2048" using less.prems(4) Suc by simp
      have lk: "k = min (2048 - a mod 2048) (len - i)" using less.prems(2) by (simp add: k_def)
      from reads_run [OF less.prems(1) False k(2,3)] obtain rest where
        rest: "bs = map (nand_byte content) [a..<a + k] @ rest" "reads content (a + k) (n - k) rest"
        by auto
      define buf' where "buf' = take i buf @ map (content (a div 2048)) [a mod 2048..<a mod 2048 + k] @ drop (i + k) buf"
      have run: "map (content (a div 2048)) [a mod 2048..<a mod 2048 + k] = map (nand_byte content) [a..<a + k]"
        by (rule page_bytes) (rule k(3))
      from read_page_ok [OF chip g'(2) _ lk, of buf addr] k less.prems(2,3) obtain h2 where
        h2: "read_page b len col i addr buf g' = Some (i + k, of_nat (a + k), buf', h2)"
        by (auto simp: buf'_def col addr_def)
      have "\<exists>h'. nand_read_loop b len (0, i + k, of_nat (a + k), buf', nand_deselect b h2)
          = Some (take (i + k) buf' @ rest @ drop len buf', h')"
      proof (rule less.hyps [OF _ rest(2)])
        show "n - k = 0 \<or> 0 = (a + k) mod 2048"
        proof (cases "k = n")
          case False
          with k(3) have "a mod 2048 + k = 2048" by (simp add: k_def min_def split: if_splits)
          then show ?thesis using mod_add_left_eq [of a 2048 k] by simp
        qed simp
      qed (use k a less.prems(2,3) in \<open>auto simp: buf'_def\<close>)
      moreover have "nand_read_loop b len (col, i, addr, buf, h)
          = nand_read_loop b len (0, i + k, of_nat (a + k), buf', nand_deselect b h2)"
        using i t g'(1) h2 by (subst nand_read_loop.simps) (simp add: g_def)
      moreover have "take (i + k) buf' @ rest @ drop len buf' = take i buf @ bs @ drop len buf"
        using k less.prems(2,3) by (simp add: buf'_def run rest(1) min_def)
      ultimately show ?thesis by (simp add: addr_def)
    qed
  qed
qed

subsection \<open>Properties\<close>

lemma nand_read_ok:
  assumes "nand_chip content b" and "reads content (unat addr) (unat len) bs" and "unat len \<le> length buf"
  shows "\<exists>h'. nand_read b addr buf len h = Some (bs @ drop (unat len) buf, h')"
proof -
  have "unat (addr mod 2048) = unat addr mod 2048" by (simp add: unat_mod_distrib)
  with read_loop_ok [OF assms(1,2), of 0 "unat len" buf "unat addr mod 2048" h] assms(3)
  show ?thesis by (simp add: nand_read_def)
qed

text \<open>C13: reading returns, fills the first \<open>len\<close> bytes of the buffer with the chip's bytes from the
  address on, across pages and blocks, skipping every bad block it enters at its start (a whole block
  further), and leaves the rest of the buffer as it was.\<close>

lemma nand_read_skips_bad:
  assumes "nand_chip content b" and "reads content (unat addr) (unat len) bs" and "unat len \<le> length buf"
  shows "\<exists>h'. nand_read b addr buf len h = Some (bs @ drop (unat len) buf, h')"
  by (rule nand_read_ok [OF assms])

text \<open>A chip that behaves so, holding the low byte of each address, with its block 1 marked bad.\<close>

definition chip_content :: "nat \<Rightarrow> nat \<Rightarrow> u8" where
  "chip_content p c = (if c = 2048 then (if p = 64 then 0 else 0xff) else of_nat (p + c))"

definition chip_bus :: "(nat \<Rightarrow> nat \<Rightarrow> u8) \<Rightarrow> bus" where
  "chip_bus content h a =
     (if a = NFDATA then (case snd (nand_view h) of None \<Rightarrow> 0 | Some (p, c) \<Rightarrow> ucast (content p c)) else 1)"

lemma nand_chip_bus: "nand_chip content (chip_bus content)"
  by (auto simp: nand_chip_def chip_bus_def live_def intro: exI [of _ 0])

lemma nand_read_skips_bad_witness:
  "\<exists>h'. nand_read (chip_bus chip_content) 0x1FFFF [0, 0, 9] 2 []
     = Some ([chip_content 63 2047, chip_content 128 0, 9], h')"
proof -
  have "reads chip_content 262144 (Suc 0) [nand_byte chip_content 262144]"
    using reads_byte [of chip_content 262144 0 "[]"]
    by (simp add: bad_block_at_def chip_content_def reads_done)
  then have "reads chip_content 131072 (Suc 0) [nand_byte chip_content 262144]"
    using reads_skip [of chip_content 131072 0] by (simp add: bad_block_at_def chip_content_def)
  then have "reads chip_content 131071 (Suc (Suc 0)) [nand_byte chip_content 131071, nand_byte chip_content 262144]"
    using reads_byte [of chip_content 131071 "Suc 0"] by (simp add: bad_block_at_def)
  from this [folded numeral_2_eq_2] show ?thesis
    using nand_read_skips_bad [OF nand_chip_bus, of chip_content "0x1FFFF" 2
        "[chip_content 63 2047, chip_content 128 0]" "[0, 0, 9]" "[]"]
    by (simp add: nand_byte_def)
qed

end
