(* ===== verification/Boot.thy ===== *)
theory Boot
  imports Nand
begin

text \<open>
  Getting the program into SDRAM, \<^verbatim>\<open>bare_board/code/I2c/20200510_IIC/init.c\<close>: the set-up of the memory
  controller, the memory test, telling a NOR from a NAND boot, relocation and clearing of the BSS
  section.  The linker's symbols \<^verbatim>\<open>__code_start\<close>, \<^verbatim>\<open>__bss_start\<close> and \<^verbatim>\<open>_end\<close> are arguments, and so are the
  bytes that lie at \<^verbatim>\<open>__code_start\<close> before relocation; relocation returns the bytes that lie there after it.
\<close>

definition sdram_init :: "hist \<Rightarrow> hist" where
  "sdram_init h =
     (let h = wr32 BWSCON 0x22000000 h;
          h = wr32 BANKCON6 0x18001 h;
          h = wr32 BANKCON7 0x18001 h;
          h = wr32 REFRESH 0x8404f5 h;
          h = wr32 BANKSIZE 0xb1 h;
          h = wr32 MRSRB6 0x20 h
      in wr32 MRSRB7 0x20 h)"

definition sdram_words :: "u32 list" where
  "sdram_words =
     [0x22000000, 0x00000700, 0x00000700, 0x00000700, 0x00000700, 0x00000700, 0x00000700,
      0x18001, 0x18001, 0x8404f5, 0xb1, 0x20, 0x20]"

fun store_words :: "u32 \<Rightarrow> u32 list \<Rightarrow> hist \<Rightarrow> hist" where
  "store_words p [] h = h"
| "store_words p (w # ws) h = store_words (p + 4) ws (wr32 p w h)"

definition sdram_init2 :: "hist \<Rightarrow> hist" where
  "sdram_init2 h = store_words 0x48000000 sdram_words h"

abbreviation SDRAM_BASE :: u32 where "SDRAM_BASE \<equiv> 0x30000000"

primrec sdram_fill :: "nat \<Rightarrow> hist \<Rightarrow> hist" where
  "sdram_fill 0 h = h"
| "sdram_fill (Suc n) h = wr8 (SDRAM_BASE + of_nat n) 0x55 (sdram_fill n h)"

text \<open>The check from index \<open>i\<close> on, \<open>n\<close> rounds being left.\<close>

primrec sdram_check :: "bus \<Rightarrow> nat \<Rightarrow> nat \<Rightarrow> hist \<Rightarrow> int \<times> hist" where
  "sdram_check b 0 i h = (0, h)"
| "sdram_check b (Suc n) i h =
     (let (v, h) = rd8 b (SDRAM_BASE + of_nat i) h
      in if v \<noteq> 0x55 then (-1, h) else sdram_check b n (Suc i) h)"

definition sdram_test :: "bus \<Rightarrow> hist \<Rightarrow> int \<times> hist" where
  "sdram_test b h = sdram_check b 1000 0 (sdram_fill 1000 h)"

definition isBootFromNorFlash :: "bus \<Rightarrow> hist \<Rightarrow> bool \<times> hist" where
  "isBootFromNorFlash b h =
     (let (val, h) = rd32 b 0 h;
          h = wr32 0 0x12345678 h;
          (v, h) = rd32 b 0 h
      in if v = 0x12345678 then (False, wr32 0 val h) else (True, h))"

text \<open>A store of a word into the region: four bytes, the lowest first.\<close>

definition word_bytes :: "u32 \<Rightarrow> u8 list" where
  "word_bytes w = [ucast w, ucast (drop_bit 8 w), ucast (drop_bit 16 w), ucast (drop_bit 24 w)]"

definition put_word :: "nat \<Rightarrow> u32 \<Rightarrow> u8 list \<Rightarrow> u8 list option" where
  "put_word k w region =
     (if k + 4 \<le> length region then Some (take k region @ word_bytes w @ drop (k + 4) region) else None)"

text \<open>The copy of words; the region starts at \<open>start\<close>, which is where \<open>dest\<close> was at first.\<close>

partial_function (option) copy_words ::
  "bus \<Rightarrow> u32 \<Rightarrow> u32 \<times> u32 \<times> u32 \<times> u8 list \<times> hist \<Rightarrow> (u8 list \<times> hist) option" where
  "copy_words b start st =
     (case st of (dest, end, src, region, h) \<Rightarrow>
        if dest < end then do {
          let (w, h) = rd32 b src h;
          let h = wr32 dest w h;
          region \<leftarrow> put_word (unat (dest - start)) w region;
          copy_words b start (dest + 4, end, src + 4, region, h)
        } else Some (region, h))"

definition copy2sdram :: "bus \<Rightarrow> u32 \<Rightarrow> u32 \<Rightarrow> u8 list \<Rightarrow> hist \<Rightarrow> (u8 list \<times> hist) option" where
  "copy2sdram b code_start bss_start region h =
     (let (nor, h) = isBootFromNorFlash b h
      in if nor then copy_words b code_start (code_start, bss_start, 0, region, h)
         else (let h = nand_init h in nand_read b 0 region (bss_start - code_start) h))"

partial_function (option) clean_loop :: "u32 \<Rightarrow> u32 \<times> hist \<Rightarrow> hist option" where
  "clean_loop end st =
     (let (start, h) = st
      in if start \<le> end then clean_loop end (start + 4, wr32 start 0 h) else Some h)"

definition clean_bss :: "u32 \<Rightarrow> u32 \<Rightarrow> hist \<Rightarrow> hist option" where
  "clean_bss bss_start end h = clean_loop end (bss_start, h)"

subsection \<open>The memory controller\<close>

text \<open>Both set-ups leave the same values in the registers that the first one writes; the second also
  writes the six registers of the other banks.\<close>

lemma sdram_init2_agrees:
  "a \<in> {BWSCON, BANKCON6, BANKCON7, REFRESH, BANKSIZE, MRSRB6, MRSRB7} \<Longrightarrow>
   latest32 a (sdram_init2 h) = latest32 a (sdram_init h)"
  "a \<in> {0x48000004, 0x48000008, 0x4800000C, 0x48000010, 0x48000014, 0x48000018} \<Longrightarrow>
   latest32 a (sdram_init2 h) = Some 0x700"
  by (auto simp: sdram_init2_def sdram_init_def sdram_words_def mmio_defs latest32_append)

subsection \<open>Telling the boot medium\<close>

text \<open>NOR flash ignores the store; the internal RAM of a NAND boot does not, and the test restores it.\<close>

lemma boot_from_nor:
  assumes "b (h @ [Rd32 0 (b h 0), Wr32 0 0x12345678]) 0 = b h 0" and "b h 0 \<noteq> 0x12345678"
  shows "\<exists>e. isBootFromNorFlash b h = (True, h @ e)"
  using assms by (auto simp: isBootFromNorFlash_def mmio_defs Let_def)

lemma boot_from_nand:
  assumes "ram_like b rst {0}"
  shows "\<exists>h'. isBootFromNorFlash b h = (False, h') \<and> b h' 0 = b h 0"
  using assms by (auto simp: isBootFromNorFlash_def mmio_defs Let_def ram_like_def latest32_append)

subsection \<open>Clearing\<close>

text \<open>The loop clears every word from the start of the section up to and including the word at its end:
  one word more than the section has.\<close>

lemma clean_loop_stores:
  "unat end = unat start + 4 * n + r \<Longrightarrow> r < 4 \<Longrightarrow> unat end < 0xfffffffc \<Longrightarrow>
   clean_loop end (start, h) = Some (h @ map (\<lambda>i. Wr32 (start + 4 * of_nat i) 0) [0..<Suc n])"
proof (induction n arbitrary: start h)
  case 0
  then have "start \<le> end" "\<not> start + 4 \<le> end"
    using unat_add_lem [of start 4] by (simp_all add: word_le_nat_alt)
  then show ?case
    by (subst clean_loop.simps, simp) (subst clean_loop.simps, simp add: wr32_def)
next
  case (Suc n)
  then have le: "start \<le> end" and u: "unat (start + 4) = unat start + 4"
    using unat_add_lem [of start 4] by (simp_all add: word_le_nat_alt word_less_nat_alt)
  have "map (\<lambda>i. Wr32 (start + 4 * of_nat i) 0) [0..<Suc (Suc n)]
      = Wr32 start 0 # map (\<lambda>i. Wr32 (start + 4 + 4 * of_nat i) 0) [0..<Suc n]"
    by (simp only: upt_conv_Cons zero_less_Suc map_Suc_upt [symmetric] list.map map_map comp_def)
      (simp add: algebra_simps)
  with Suc.IH [of "start + 4" "wr32 start 0 h"] Suc.prems u le show ?case
    by (subst clean_loop.simps) (simp add: wr32_def del: upt_Suc)
qed

text \<open>Clearing the BSS section returns and stores zero to exactly the words from its start up to and
  including the word at its end address, in order.\<close>

lemma clean_bss_stores:
  assumes "bss_start \<le> end" and "end < 0xfffffffc"
  shows "clean_bss bss_start end h =
    Some (h @ map (\<lambda>i. Wr32 (bss_start + 4 * of_nat i) 0) [0..<Suc (unat (end - bss_start) div 4)])"
proof -
  define d where "d = unat (end - bss_start)"
  have "unat end = unat bss_start + d"
    using assms(1) by (simp add: unat_sub word_le_nat_alt d_def)
  then have "unat end = unat bss_start + 4 * (d div 4) + d mod 4" by simp
  moreover have "d mod 4 < 4" "unat end < 0xfffffffc" using assms(2) by (simp_all add: word_less_nat_alt)
  ultimately show ?thesis
    unfolding clean_bss_def d_def [symmetric] by (rule clean_loop_stores)
qed

lemma clean_bss_stores_witness:
  "clean_bss 0x30001000 0x30001008 [] = Some [Wr32 0x30001000 0, Wr32 0x30001004 0, Wr32 0x30001008 0]"
  using clean_bss_stores [of "0x30001000" "0x30001008" "[]"] by (simp add: upt_conv_Cons)

subsection \<open>Relocation\<close>

text \<open>A NOR boot: the flash is mapped at address 0, delivers the words of the image and ignores stores.\<close>

definition nor_boot :: "(nat \<Rightarrow> u32) \<Rightarrow> nat \<Rightarrow> bus \<Rightarrow> bool" where
  "nor_boot img n b \<longleftrightarrow> (\<forall>h i. i < n \<longrightarrow> b h (of_nat (4 * i)) = img i) \<and> img 0 \<noteq> 0x12345678 \<and> 0 < n"

lemma length_word_bytes [simp]: "length (word_bytes w) = 4"
  by (simp add: word_bytes_def)

lemma copy_words_ok:
  assumes img: "\<forall>h i. i < n \<longrightarrow> b h (of_nat (4 * i)) = img i" and fits: "unat start + 4 * n < 2 ^ 32"
  shows "k \<le> n \<Longrightarrow> length region = 4 * n \<Longrightarrow>
    \<exists>h'. copy_words b start (start + of_nat (4 * k), start + of_nat (4 * n), of_nat (4 * k), region, h)
      = Some (take (4 * k) region @ concat (map (\<lambda>i. word_bytes (img i)) [k..<n]), h')"
proof (induction "n - k" arbitrary: k region h)
  case 0
  then show ?case by (subst copy_words.simps) simp
next
  case (Suc j)
  then have k: "k < n" by simp
  have unat_k: "unat (of_nat (4 * i) :: u32) = 4 * i" "unat (start + of_nat (4 * i)) = unat start + 4 * i" if "i \<le> n" for i
  proof -
    have "4 * i < 2 ^ LENGTH(32)" using that fits by simp
    then show u: "unat (of_nat (4 * i) :: u32) = 4 * i" by (simp only: unat_of_nat mod_less)
    show "unat (start + of_nat (4 * i)) = unat start + 4 * i"
      using u that fits unat_add_lem [of start "of_nat (4 * i)"] by (simp del: of_nat_mult)
  qed
  define r where "r = take (4 * k) region @ word_bytes (img k) @ drop (4 * k + 4) region"
  have r: "put_word (unat (start + of_nat (4 * k) - start)) (img k) region = Some r"
    using k Suc.prems(2) unat_k(1) [of k] by (simp add: put_word_def r_def)
  have lt: "start + of_nat (4 * k) < start + (of_nat (4 * n) :: u32)"
    using k unat_k(2) [of k] unat_k(2) [of n] by (simp only: word_less_nat_alt)
  have "\<exists>h'. copy_words b start (start + of_nat (4 * Suc k), start + of_nat (4 * n), of_nat (4 * Suc k), r,
        wr32 (start + of_nat (4 * k)) (img k) (h @ [Rd32 (of_nat (4 * k)) (img k)]))
      = Some (take (4 * Suc k) r @ concat (map (\<lambda>i. word_bytes (img i)) [Suc k..<n]), h')"
    by (rule Suc.hyps(1)) (use Suc.hyps(2) Suc.prems(2) k in \<open>simp_all add: r_def\<close>)
  moreover have "copy_words b start (start + of_nat (4 * k), start + of_nat (4 * n), of_nat (4 * k), region, h)
      = copy_words b start (start + of_nat (4 * Suc k), start + of_nat (4 * n), of_nat (4 * Suc k), r,
        wr32 (start + of_nat (4 * k)) (img k) (h @ [Rd32 (of_nat (4 * k)) (img k)]))"
    using lt r img k by (subst copy_words.simps) (simp add: rd32_def algebra_simps)
  moreover have "take (4 * Suc k) r = take (4 * k) region @ word_bytes (img k)"
    using k Suc.prems(2) by (simp add: r_def)
  moreover have "[k..<n] = k # [Suc k..<n]" using k by (simp add: upt_conv_Cons)
  ultimately show ?case by simp
qed

text \<open>on a NOR boot relocation returns with the program's region holding exactly the words of the
  image, in order.\<close>

lemma copy2sdram_from_nor:
  assumes "nor_boot img n b" and "unat code_start + 4 * n < 2 ^ 32" and "length region = 4 * n"
  shows "\<exists>h'. copy2sdram b code_start (code_start + of_nat (4 * n)) region h
    = Some (concat (map (\<lambda>i. word_bytes (img i)) [0..<n]), h')"
proof -
  have "b g 0 = img 0" for g
    using assms(1) [unfolded nor_boot_def, THEN conjunct1, rule_format, of 0 g] assms(1)
    by (simp add: nor_boot_def)
  then obtain e where "isBootFromNorFlash b h = (True, h @ e)"
    using boot_from_nor [of b h] assms(1) by (auto simp: nor_boot_def)
  with copy_words_ok [of n b img code_start 0 region "h @ e"] assms show ?thesis
    by (simp add: copy2sdram_def nor_boot_def)
qed

lemma copy2sdram_from_nor_witness:
  "\<exists>h'. copy2sdram (\<lambda>h a. a + 0xEA000000) 0x30000000 0x30000008 [9, 9, 9, 9, 9, 9, 9, 9] []
     = Some ([0, 0, 0, 0xEA, 4, 0, 0, 0xEA], h')"
proof -
  have "nor_boot (\<lambda>i. of_nat (4 * i) + 0xEA000000) 2 (\<lambda>h a. a + 0xEA000000)"
    by (simp add: nor_boot_def)
  note copy2sdram_from_nor [OF this, of "0x30000000" "[9, 9, 9, 9, 9, 9, 9, 9]" "[]"]
  moreover have "concat (map (\<lambda>i. word_bytes (of_nat (4 * i) + 0xEA000000)) [0..<2])
      = [0, 0, 0, 0xEA, 4, 0, 0, 0xEA]" by code_simp
  ultimately show ?thesis by simp
qed

text \<open>C16: on a NAND boot relocation returns with the program's region holding the bytes of the chip from
  address 0 on, bad blocks left out.\<close>

lemma copy2sdram_from_nand:
  assumes "nand_chip content b" and "ram_like b rst {0}"
    and "reads content 0 (unat (bss_start - code_start)) bs" and "length region = unat (bss_start - code_start)"
  shows "\<exists>h'. copy2sdram b code_start bss_start region h = Some (bs, h')"
proof -
  from boot_from_nand [OF assms(2)] obtain g where g: "isBootFromNorFlash b h = (False, g)" by blast
  with nand_read_ok [OF assms(1), of 0 "bss_start - code_start" bs region "nand_init g"] assms(3,4)
  show ?thesis by (simp add: copy2sdram_def Let_def)
qed

lemma copy2sdram_from_nand_witness:
  "\<exists>h'. copy2sdram (\<lambda>h a. if a = 0 then ram_bus (\<lambda>_. 0) h a else chip_bus chip_content h a)
     0x30000000 0x30000002 [9, 9] [] = Some ([0, 1], h')"
proof -
  let ?b = "\<lambda>h a. if a = 0 then ram_bus (\<lambda>_. 0) h a else chip_bus chip_content h a"
  have "nand_chip chip_content ?b"
    by (auto simp: nand_chip_def chip_bus_def live_def intro: exI [of _ 0])
  moreover have "ram_like ?b (\<lambda>_. 0) {0}" by (simp add: ram_like_def ram_bus_def)
  moreover have "reads chip_content 0 (Suc (Suc 0)) [0, 1]"
    using reads_byte [OF _ _ reads_byte [OF _ _ reads_done], of chip_content 0]
    by (simp add: bad_block_at_def chip_content_def nand_byte_def)
  note reads = this [folded numeral_2_eq_2]
  ultimately show ?thesis
    using copy2sdram_from_nand [of chip_content ?b "\<lambda>_. 0" "0x30000002" "0x30000000" "[0, 1]" "[9, 9]" "[]"] reads
    by simp
qed

subsection \<open>The memory test\<close>

text \<open>On memory that keeps what is stored to it, byte by byte, the test succeeds.\<close>

fun latest8 :: "u32 \<Rightarrow> hist \<Rightarrow> u8 option" where
  "latest8 a [] = None"
| "latest8 a (e # es) =
     (case latest8 a es of
        Some v \<Rightarrow> Some v
      | None \<Rightarrow> (case e of Wr8 a' v \<Rightarrow> if a' = a then Some v else None | _ \<Rightarrow> None))"

lemma latest8_append:
  "latest8 a (h @ h') = (case latest8 a h' of None \<Rightarrow> latest8 a h | Some v \<Rightarrow> Some v)"
  by (induction h) (auto split: option.splits)

definition byte_ram :: "bus \<Rightarrow> bool" where
  "byte_ram b \<longleftrightarrow> (\<forall>h a v. latest8 a h = Some v \<longrightarrow> ucast (b h a) = v)"

lemma sdram_fill_latest:
  "i < n \<Longrightarrow> n \<le> 1000 \<Longrightarrow> latest8 (SDRAM_BASE + of_nat i) (sdram_fill n h) = Some 0x55"
proof (induction n)
  case 0
  then show ?case by simp
next
  case (Suc n)
  then show ?case
    by (cases "i = n") (simp_all add: wr8_def latest8_append of_nat32_eq_iff)
qed

lemma sdram_check_ok:
  assumes "byte_ram b"
  shows "\<forall>j < n. latest8 (SDRAM_BASE + of_nat (i + j)) h = Some 0x55 \<Longrightarrow> fst (sdram_check b n i h) = 0"
proof (induction n arbitrary: i h)
  case 0
  then show ?case by simp
next
  case (Suc n)
  then have "(ucast (b h (SDRAM_BASE + of_nat i)) :: u8) = 0x55"
    using assms unfolding byte_ram_def by (metis add_0_right zero_less_Suc)
  moreover have "\<forall>j < n. latest8 (SDRAM_BASE + of_nat (Suc i + j)) (h @ [Rd8 (SDRAM_BASE + of_nat i) 0x55]) = Some 0x55"
    using Suc.prems by (auto simp: latest8_append dest: spec [of _ "Suc _"])
  ultimately show ?case using Suc.IH [of "Suc i"] by (simp add: rd8_def)
qed

lemma sdram_test_ok: "byte_ram b \<Longrightarrow> fst (sdram_test b h) = 0"
  unfolding sdram_test_def by (rule sdram_check_ok) (simp_all add: sdram_fill_latest)

end
