(* ===== verification/Interfaces.thy ===== *)
theory Interfaces
  imports Prelude
begin

text \<open>
  The interfaces between the components, one locale each: the operations a client calls, the laws
  the provider promises, and the client lemmas that need nothing else.  Each is interpreted in the
  theory of its provider.
\<close>

subsection \<open>A character sink\<close>

text \<open>What the printing code needs of \<^verbatim>\<open>putchar\<close>: a call that returns has appended exactly its
  character to the output, and while the device is alive every call returns.\<close>

locale char_sink =
  fixes putc :: "u32 \<Rightarrow> hist \<Rightarrow> hist option"
    and out :: "hist \<Rightarrow> string"
    and ok :: "hist \<Rightarrow> bool"
  assumes putc_out: "putc c h = Some h' \<Longrightarrow> out h' = out h @ [to_char c]"
    and putc_live: "ok h \<Longrightarrow> \<exists>h'. putc c h = Some h'"
    and putc_ok: "ok h \<Longrightarrow> putc c h = Some h' \<Longrightarrow> ok h'"
begin

text \<open>A printer is an operation on the history; \<open>prints f s\<close> says that it emits \<open>s\<close> and that it
  returns while the device is alive.\<close>

definition prints :: "(hist \<Rightarrow> hist option) \<Rightarrow> string \<Rightarrow> bool" where
  "prints f s \<longleftrightarrow>
     (\<forall>h h'. f h = Some h' \<longrightarrow> out h' = out h @ s)
     \<and> (\<forall>h. ok h \<longrightarrow> (\<exists>h'. f h = Some h' \<and> ok h'))"

lemma prints_putc: "prints (putc c) [to_char c]"
  unfolding prints_def using putc_out putc_live putc_ok by blast

lemma prints_skip: "prints Some []"
  by (simp add: prints_def)

lemma prints_seq:
  assumes "prints f s" and "prints g t"
  shows "prints (\<lambda>h. Option.bind (f h) g) (s @ t)"
  unfolding prints_def
proof (intro conjI allI impI)
  fix h h'
  assume "Option.bind (f h) g = Some h'"
  then obtain h1 where "f h = Some h1" "g h1 = Some h'" by auto
  with assms show "out h' = out h @ s @ t" by (simp add: prints_def)
next
  fix h
  assume "ok h"
  with assms(1) obtain h1 where "f h = Some h1" "ok h1" by (auto simp: prints_def)
  with assms(2) show "\<exists>h'. Option.bind (f h) g = Some h' \<and> ok h'" by (auto simp: prints_def)
qed

lemma printsD: "prints f s \<Longrightarrow> f h = Some h' \<Longrightarrow> out h' = out h @ s"
  by (simp add: prints_def)

lemma prints_live: "prints f s \<Longrightarrow> ok h \<Longrightarrow> \<exists>h'. f h = Some h' \<and> ok h' \<and> out h' = out h @ s"
  by (auto simp: prints_def)

lemma prints_cong: "prints f s \<Longrightarrow> s = t \<Longrightarrow> prints f t"
  by simp

lemma prints_eqI: "prints f s \<Longrightarrow> (\<And>h. g h = f h) \<Longrightarrow> t = s \<Longrightarrow> prints g t"
  by (simp add: prints_def)

end

subsection \<open>A registry\<close>

text \<open>The drivers register their operations in small tables and the application selects one by name.
  The contract: the contents of a table as the list of what was registered, in order; adding
  appends while there is room; looking up returns the first entry of that name.\<close>

locale registry =
  fixes add :: "'e \<Rightarrow> 't \<Rightarrow> 't"
    and find :: "string \<Rightarrow> 't \<Rightarrow> 'e option"
    and name_of :: "'e \<Rightarrow> string"
    and items :: "'t \<Rightarrow> 'e list"
    and capacity :: nat
    and wf :: "'t \<Rightarrow> bool"
    and named :: "string \<Rightarrow> bool"
  assumes add_wf: "wf t \<Longrightarrow> named (name_of e) \<Longrightarrow> wf (add e t)"
    and add_items: "wf t \<Longrightarrow> named (name_of e) \<Longrightarrow>
        items (add e t) = (if length (items t) < capacity then items t @ [e] else items t)"
    and find_items: "wf t \<Longrightarrow> named n \<Longrightarrow> find n t = List.find (\<lambda>e. name_of e = n) (items t)"
begin

lemma find_added:
  assumes "wf t" and "named (name_of e)" and "length (items t) < capacity"
    and "find (name_of e) t = None"
  shows "find (name_of e) (add e t) = Some e"
proof -
  have "List.find P (xs @ [e]) = (case List.find P xs of None \<Rightarrow> if P e then Some e else None | r \<Rightarrow> r)"
    for P and xs :: "'e list"
    by (induction xs) auto
  with assms show ?thesis by (simp add: find_items add_items add_wf)
qed

lemma find_first_wins:
  assumes "wf t" and "named (name_of e)" and "named n" and "find n t = Some e'"
  shows "find n (add e t) = Some e'"
proof -
  have "List.find P xs = Some e' \<Longrightarrow> List.find P (xs @ [e]) = Some e'" for P and xs :: "'e list"
    by (induction xs) auto
  with assms show ?thesis by (simp add: find_items add_items add_wf)
qed

lemma add_full: "wf t \<Longrightarrow> named (name_of e) \<Longrightarrow> capacity \<le> length (items t) \<Longrightarrow> items (add e t) = items t"
  by (simp add: add_items)

lemma items_bounded:
  assumes "wf t" and "\<forall>e \<in> set es. named (name_of e)" and "length (items t) \<le> capacity"
  shows "wf (fold add es t) \<and> items (fold add es t) = items t @ take (capacity - length (items t)) es"
  using assms
proof (induction es arbitrary: t)
  case Nil
  then show ?case by simp
next
  case (Cons e es)
  have "capacity - length (items t) = Suc (capacity - Suc (length (items t)))"
    if "length (items t) < capacity"
    using that by simp
  with Cons show ?case
    by (cases "length (items t) < capacity") (auto simp: add_items add_wf)
qed

end

subsection \<open>A pixel sink\<close>

text \<open>What the drawing code needs of \<^verbatim>\<open>fb_put_pixel\<close>: a call appends the stores of its pixel to the
  history and does nothing else.\<close>

type_synonym point = "int \<times> int"

locale pixel_sink =
  fixes put :: "int \<Rightarrow> int \<Rightarrow> u32 \<Rightarrow> hist \<Rightarrow> hist"
    and pix :: "u32 \<Rightarrow> point \<Rightarrow> hist"
  assumes put_eq: "put x y c h = h @ pix c (x, y)"
begin

definition paint :: "u32 \<Rightarrow> point list \<Rightarrow> hist \<Rightarrow> hist" where
  "paint c ps h = h @ concat (map (pix c) ps)"

lemma paint_Nil [simp]: "paint c [] h = h"
  by (simp add: paint_def)

lemma paint_put: "paint c ps (put x y c h) = paint c ((x, y) # ps) h"
  by (simp add: paint_def put_eq)

lemma paint_append: "paint c qs (paint c ps h) = paint c (ps @ qs) h"
  by (simp add: paint_def)

end

end
