(* ===== verification/Uart.thy ===== *)
theory Uart
  imports Soc Interfaces
begin

text \<open>
  The polled UART driver of the monitor, \<^verbatim>\<open>bare_board/code/I2c/20200510_IIC/uart.c\<close>, and the
  exception report of \<^verbatim>\<open>exception.c\<close> that prints through it.  \<open>uart_tx\<close> reads off a history what
  the program has transmitted; the driver is then a character sink.
\<close>

subsection \<open>The driver\<close>

definition uart0_init :: "bus \<Rightarrow> hist \<Rightarrow> hist" where
  "uart0_init b h =
     (let h = upd32 b GPHCON (bits_clear (push_bit 4 3 OR push_bit 6 3)) h;
          h = upd32 b GPHCON (bits_or (push_bit 4 2 OR push_bit 6 2)) h;
          h = upd32 b GPHUP (bits_clear (bitm 2 OR bitm 3)) h;
          h = wr32 UCON0 0x00000005 h;
          h = wr32 UBRDIV0 26 h
      in wr32 ULCON0 0x00000003 h)"

definition putchar :: "bus \<Rightarrow> u32 \<Rightarrow> hist \<Rightarrow> hist option" where
  "putchar b c h = do {
     h1 \<leftarrow> spin (bits_set32 b UTRSTAT0 (bitm 2)) h;
     Some (wr8 UTXH0 (ucast c) h1)
   }"

definition getchar :: "bus \<Rightarrow> hist \<Rightarrow> (u8 \<times> hist) option" where
  "getchar b h = do {
     h1 \<leftarrow> spin (bits_set32 b UTRSTAT0 (bitm 0)) h;
     Some (rd8 b URXH0 h1)
   }"

fun puts :: "(u32 \<Rightarrow> hist \<Rightarrow> hist option) \<Rightarrow> string \<Rightarrow> hist \<Rightarrow> hist option" where
  "puts putc [] h = Some h"
| "puts putc (c # s) h = do { h1 \<leftarrow> putc (c32 c) h; puts putc s h1 }"

text \<open>The first loop of \<^verbatim>\<open>printHex\<close> stores the nibbles of the value, the lowest first.\<close>

fun nibbles :: "nat \<Rightarrow> u32 \<Rightarrow> u32 list" where
  "nibbles 0 v = []"
| "nibbles (Suc n) v = (v AND 0xf) # nibbles n (drop_bit 4 v)"

definition put_nibble :: "(u32 \<Rightarrow> hist \<Rightarrow> hist option) \<Rightarrow> u32 \<Rightarrow> hist \<Rightarrow> hist option" where
  "put_nibble putc d h =
     (if d \<le> 9 then putc (d + c32 CHR ''0'') h
      else if 0xA \<le> d \<and> d \<le> 0xF then putc (d - 0xA + c32 CHR ''A'') h
      else Some h)"

fun put_nibbles :: "(u32 \<Rightarrow> hist \<Rightarrow> hist option) \<Rightarrow> u32 list \<Rightarrow> hist \<Rightarrow> hist option" where
  "put_nibbles putc [] h = Some h"
| "put_nibbles putc (d # ds) h = do { h1 \<leftarrow> put_nibble putc d h; put_nibbles putc ds h1 }"

definition printHex :: "(u32 \<Rightarrow> hist \<Rightarrow> hist option) \<Rightarrow> u32 \<Rightarrow> hist \<Rightarrow> hist option" where
  "printHex putc val h = do {
     h1 \<leftarrow> puts putc ''0x'' h;
     put_nibbles putc (rev (nibbles 8 val)) h1
   }"

definition CRLF :: string where
  "CRLF = [CHR 0x0A, CHR 0x0D]"

definition print1 :: "(u32 \<Rightarrow> hist \<Rightarrow> hist option) \<Rightarrow> hist \<Rightarrow> hist option" where
  "print1 putc = puts putc (''abc'' @ CRLF)"

definition print2 :: "(u32 \<Rightarrow> hist \<Rightarrow> hist option) \<Rightarrow> hist \<Rightarrow> hist option" where
  "print2 putc = puts putc (''123'' @ CRLF)"

text \<open>The argument of \<^verbatim>\<open>printSWIVal\<close> points to the trapping instruction, which the load returns.\<close>

definition printSWIVal :: "bus \<Rightarrow> u32 \<Rightarrow> hist \<Rightarrow> hist option" where
  "printSWIVal b pSWI h = do {
     h1 \<leftarrow> puts (putchar b) ''SWI val = '' h;
     let (v, h2) = rd32 b pSWI h1;
     h3 \<leftarrow> printHex (putchar b) (v AND NOT 0xff000000) h2;
     puts (putchar b) CRLF h3
   }"

definition printException :: "(u32 \<Rightarrow> hist \<Rightarrow> hist option) \<Rightarrow> u32 \<Rightarrow> string \<Rightarrow> hist \<Rightarrow> hist option" where
  "printException putc cpsr str h = do {
     h1 \<leftarrow> puts putc ''Exception! cpsr = '' h;
     h2 \<leftarrow> printHex putc cpsr h1;
     h3 \<leftarrow> puts putc '' '' h2;
     h4 \<leftarrow> puts putc str h3;
     puts putc CRLF h4
   }"

subsection \<open>The printers over any sink\<close>

definition hex_digit :: "u32 \<Rightarrow> char" where
  "hex_digit d = (''0123456789ABCDEF'' ! unat (d AND 0xf))"

definition hex8 :: "u32 \<Rightarrow> string" where
  "hex8 v = map (\<lambda>i. hex_digit (drop_bit (4 * i) v)) [7, 6, 5, 4, 3, 2, 1, 0]"

lemma nibble_nat: "(d :: u32) AND 0xf \<in> of_nat ` {0..<16}"
proof
  show "unat (d AND 15) \<in> {0..<16}"
    using word_and_le1 [of d 15] by (simp add: word_le_nat_alt)
  show "d AND 15 = of_nat (unat (d AND 15))" by simp
qed

lemma nibble_less: "unat ((d :: u32) AND 0xf) < 16"
  using word_and_le1 [of d 15] by (simp add: word_le_nat_alt)

lemma nibble_cases: "(d :: u32) AND 0xf \<in> {0,1,2,3,4,5,6,7,8,9,10,11,12,13,14,15}"
  using nibble_nat [of d] by (auto simp: atLeastLessThan_nat_numeral)

context char_sink begin

lemma prints_puts: "prints (puts putc s) s"
proof (induction s)
  case Nil
  show ?case by (simp add: prints_skip)
next
  case (Cons c s)
  from prints_seq [OF prints_putc [of "c32 c"] Cons] show ?case by simp
qed

lemma prints_put_nibble: "prints (put_nibble putc (d AND 0xf)) [hex_digit d]"
proof -
  have "put_nibble putc (d AND 0xf) = putc (c32 (hex_digit d))"
    using nibble_cases [of d] unfolding put_nibble_def hex_digit_def c32_def by auto
  then show ?thesis using prints_putc [of "c32 (hex_digit d)"] by simp
qed

lemma prints_put_nibbles: "prints (put_nibbles putc (map (\<lambda>d. d AND 0xf) ds)) (map hex_digit ds)"
proof (induction ds)
  case Nil
  show ?case by (simp add: prints_skip)
next
  case (Cons d ds)
  from prints_seq [OF prints_put_nibble [of d] Cons] show ?case by simp
qed

lemma prints_printHex: "prints (printHex putc v) (''0x'' @ hex8 v)"
proof -
  let ?ds = "map (\<lambda>i. drop_bit (4 * i) v) [7, 6, 5, 4, 3, 2, 1, 0]"
  have "rev (nibbles 8 v) = map (\<lambda>d. d AND 0xf) ?ds"
    by (simp add: eval_nat_numeral)
  then have "prints (put_nibbles putc (rev (nibbles 8 v))) (hex8 v)"
    using prints_put_nibbles [of ?ds] by (simp add: hex8_def)
  then show ?thesis
    unfolding printHex_def [abs_def] by (rule prints_seq [OF prints_puts])
qed

lemma prints_printException:
  "prints (printException putc cpsr str)
     (''Exception! cpsr = 0x'' @ hex8 cpsr @ '' '' @ str @ CRLF)"
proof (rule prints_cong)
  show "prints (printException putc cpsr str)
      (''Exception! cpsr = '' @ (''0x'' @ hex8 cpsr) @ '' '' @ str @ CRLF)"
    unfolding printException_def [abs_def]
    by (rule prints_seq [OF prints_puts])
      (rule prints_seq [OF prints_printHex],
       rule prints_seq [OF prints_puts], rule prints_seq [OF prints_puts], rule prints_puts)
qed simp

end

subsection \<open>What the driver transmits\<close>

fun uart_tx :: "hist \<Rightarrow> string" where
  "uart_tx [] = []"
| "uart_tx (Wr8 a v # h) = (if a = UTXH0 then to_char v # uart_tx h else uart_tx h)"
| "uart_tx (_ # h) = uart_tx h"

lemma uart_tx_append [simp]: "uart_tx (h @ h') = uart_tx h @ uart_tx h'"
  by (induction h rule: uart_tx.induct) auto

definition tx_live :: "bus \<Rightarrow> hist \<Rightarrow> bool" where
  "tx_live b = live (bits_set32 b UTRSTAT0 (bitm 2))"

definition rx_live :: "bus \<Rightarrow> hist \<Rightarrow> bool" where
  "rx_live b = live (bits_set32 b UTRSTAT0 (bitm 0))"

lemma putchar_out:
  assumes "putchar b c h = Some h'"
  shows "uart_tx h' = uart_tx h @ [to_char c]"
proof -
  from assms obtain h1 where h1: "spin (bits_set32 b UTRSTAT0 (bitm 2)) h = Some h1"
    and h': "h' = wr8 UTXH0 (ucast c) h1"
    by (auto simp: putchar_def)
  from h1 have "uart_tx h1 = uart_tx h" by (rule spin_keeps) simp
  with h' show ?thesis by (simp add: wr8_def)
qed

lemma putchar_extends:
  assumes "putchar b c h = Some h'"
  shows "\<exists>e. h' = h @ e"
proof -
  from assms obtain h1 where "spin (bits_set32 b UTRSTAT0 (bitm 2)) h = Some h1"
    and "h' = wr8 UTXH0 (ucast c) h1"
    by (auto simp: putchar_def)
  with spin_extends [of _ h h1] show ?thesis by (fastforce simp: wr8_def)
qed

interpretation uart: char_sink "putchar b" uart_tx "tx_live b" for b
proof unfold_locales
  fix c h h'
  show "putchar b c h = Some h' \<Longrightarrow> uart_tx h' = uart_tx h @ [to_char c]"
    by (rule putchar_out)
  show "tx_live b h \<Longrightarrow> \<exists>h'. putchar b c h = Some h'"
    by (auto simp: tx_live_def putchar_def dest: live_spin)
  show "tx_live b h \<Longrightarrow> putchar b c h = Some h' \<Longrightarrow> tx_live b h'"
    using putchar_extends by (fastforce simp: tx_live_def intro: live_append)
qed

end
