(* ===== verification/Strings.thy ===== *)
theory Strings
  imports Uart
begin

text \<open>
  The string utilities of the monitor, \<^verbatim>\<open>bare_board/code/I2c/20200510_IIC/string_utils.c\<close>: the
  character classes (a table of flag bytes indexed by the character), the number parsers, line
  input over the UART, and \<^verbatim>\<open>strcmp\<close>/\<^verbatim>\<open>strlen\<close>.
\<close>

subsection \<open>Character classes\<close>

abbreviation (input) ct_U :: u8 where "ct_U \<equiv> 0x01"
abbreviation (input) ct_L :: u8 where "ct_L \<equiv> 0x02"
abbreviation (input) ct_D :: u8 where "ct_D \<equiv> 0x04"
abbreviation (input) ct_C :: u8 where "ct_C \<equiv> 0x08"
abbreviation (input) ct_P :: u8 where "ct_P \<equiv> 0x10"
abbreviation (input) ct_S :: u8 where "ct_S \<equiv> 0x20"
abbreviation (input) ct_X :: u8 where "ct_X \<equiv> 0x40"
abbreviation (input) ct_SP :: u8 where "ct_SP \<equiv> 0x80"

definition ctype_tab :: "u8 list" where
  "ctype_tab =
     [ct_C, ct_C, ct_C, ct_C, ct_C, ct_C, ct_C, ct_C,
      ct_C, ct_C OR ct_S, ct_C OR ct_S, ct_C OR ct_S, ct_C OR ct_S, ct_C OR ct_S, ct_C, ct_C]
     @ replicate 16 ct_C
     @ [ct_S OR ct_SP] @ replicate 15 ct_P
     @ replicate 10 ct_D @ replicate 6 ct_P
     @ [ct_P] @ replicate 6 (ct_U OR ct_X) @ replicate 20 ct_U @ replicate 5 ct_P
     @ [ct_P] @ replicate 6 (ct_L OR ct_X) @ replicate 20 ct_L @ replicate 4 ct_P @ [ct_C]
     @ replicate 32 0
     @ [ct_S OR ct_SP] @ replicate 31 ct_P
     @ replicate 23 ct_U @ [ct_P] @ replicate 7 ct_U @ replicate 24 ct_L @ [ct_P] @ replicate 8 ct_L"

lemma length_ctype_tab: "length ctype_tab = 256"
  by (simp add: ctype_tab_def)

definition ismask :: "char \<Rightarrow> u8" where
  "ismask c = ctype_tab ! of_char c"

definition isalnum :: "char \<Rightarrow> bool" where "isalnum c \<longleftrightarrow> ismask c AND (ct_U OR ct_L OR ct_D) \<noteq> 0"
definition isalpha :: "char \<Rightarrow> bool" where "isalpha c \<longleftrightarrow> ismask c AND (ct_U OR ct_L) \<noteq> 0"
definition iscntrl :: "char \<Rightarrow> bool" where "iscntrl c \<longleftrightarrow> ismask c AND ct_C \<noteq> 0"
definition isdigit :: "char \<Rightarrow> bool" where "isdigit c \<longleftrightarrow> ismask c AND ct_D \<noteq> 0"
definition islower :: "char \<Rightarrow> bool" where "islower c \<longleftrightarrow> ismask c AND ct_L \<noteq> 0"
definition isspace :: "char \<Rightarrow> bool" where "isspace c \<longleftrightarrow> ismask c AND ct_S \<noteq> 0"
definition isupper :: "char \<Rightarrow> bool" where "isupper c \<longleftrightarrow> ismask c AND ct_U \<noteq> 0"
definition isxdigit :: "char \<Rightarrow> bool" where "isxdigit c \<longleftrightarrow> ismask c AND (ct_D OR ct_X) \<noteq> 0"

definition tolower :: "char \<Rightarrow> char" where
  "tolower c = (if isupper c then to_char (c32 c - (c32 CHR ''A'' - c32 CHR ''a'')) else c)"

definition toupper :: "char \<Rightarrow> char" where
  "toupper c = (if islower c then to_char (c32 c - (c32 CHR ''a'' - c32 CHR ''A'')) else c)"

subsection \<open>Number parsers\<close>

text \<open>Each parser returns the value and the rest of the text (the pointer stored through
  \<^verbatim>\<open>endp\<close>).\<close>

definition digit_value :: "char \<Rightarrow> u32" where
  "digit_value c =
     (if isdigit c then c32 c - c32 CHR ''0''
      else c32 (if islower c then toupper c else c) - c32 CHR ''A'' + 10)"

fun strtoul_loop :: "u32 \<Rightarrow> u32 \<Rightarrow> string \<Rightarrow> u32 \<times> string" where
  "strtoul_loop base result [] = (result, [])"
| "strtoul_loop base result (c # cp) =
     (if isxdigit c \<and> digit_value c < base
      then strtoul_loop base (result * base + digit_value c) cp
      else (result, c # cp))"

definition strtoul_prefix :: "string \<Rightarrow> u32 \<Rightarrow> string \<times> u32" where
  "strtoul_prefix cp base =
     (let (cp, base) =
        (if cur cp = CHR ''0'' then
           (let cp = tl cp;
                (cp, base) = (if (cur cp = CHR ''x'' \<or> cur cp = CHR ''X'') \<and> isxdigit (cur (tl cp))
                              then (tl cp, 16) else (cp, base))
            in (cp, if base = 0 then 8 else base))
         else (cp, base))
      in (cp, if base = 0 then 10 else base))"

definition simple_strtoul :: "string \<Rightarrow> u32 \<Rightarrow> u32 \<times> string" where
  "simple_strtoul cp base =
     (let (cp, base) = strtoul_prefix cp base in strtoul_loop base 0 cp)"

definition simple_strtol :: "string \<Rightarrow> u32 \<Rightarrow> u32 \<times> string" where
  "simple_strtol cp base =
     (if cur cp = CHR ''-''
      then (let (v, rest) = simple_strtoul (tl cp) base in (- v, rest))
      else simple_strtoul cp base)"

subsection \<open>Line input\<close>

text \<open>\<open>gets\<close> stores the received characters one after the other and never checks the length of
  the buffer; the model returns what it stores before the terminator.  The buffers of its callers
  hold 100 characters: a longer line is written past them, which the callers' models give as
  \<open>None\<close>, as they do an input that never arrives.\<close>

partial_function (option) gets_loop :: "bus \<Rightarrow> string \<Rightarrow> hist \<Rightarrow> (string \<times> hist) option" where
  "gets_loop b s h = do {
     (c, h1) \<leftarrow> getchar b h;
     h2 \<leftarrow> putchar b (ucast c) h1;
     if c = 0x0A then do { h3 \<leftarrow> putchar b 0x0D h2; Some (s, h3) }
     else if c = 0x0D then do { h3 \<leftarrow> putchar b 0x0A h2; Some (s, h3) }
     else gets_loop b (s @ [to_char c]) h2
   }"

definition gets :: "bus \<Rightarrow> hist \<Rightarrow> (string \<times> hist) option" where
  "gets b h = gets_loop b [] h"

definition c_text :: "string \<Rightarrow> string" where
  "c_text s = takeWhile (\<lambda>c. c \<noteq> NUL) s"

definition get_int :: "bus \<Rightarrow> hist \<Rightarrow> (u32 \<times> hist) option" where
  "get_int b h = do {
     (str, h1) \<leftarrow> gets b h;
     if length str < 100 then Some (fst (simple_strtol (c_text str) 0), h1) else None
   }"

definition get_uint :: "bus \<Rightarrow> hist \<Rightarrow> (u32 \<times> hist) option" where
  "get_uint b h = do {
     (str, h1) \<leftarrow> gets b h;
     if length str < 100 then Some (fst (simple_strtoul (c_text str) 0), h1) else None
   }"

subsection \<open>Comparison and length\<close>

text \<open>The difference of two characters is kept in a \<open>signed char\<close>: eight bits.\<close>

function strcmp :: "string \<Rightarrow> string \<Rightarrow> int" where
  "strcmp cs ct =
     (let res = ucast (c32 (cur cs) - c32 (cur ct)) :: u8
      in if res \<noteq> 0 \<or> cur cs = NUL then sint res else strcmp (tl cs) (tl ct))"
  by pat_completeness auto
termination
  by (relation "measure (\<lambda>(cs, ct). length cs)") (auto simp: cur_def split: list.splits)

declare strcmp.simps [simp del]

text \<open>The loop of \<open>strlen\<close> has no body of its own: the \<^verbatim>\<open>return sc - s\<close> after it is its body, so
  it runs in the first round.  On the empty string the function ends without a \<^verbatim>\<open>return\<close>, which
  is no value at all.\<close>

definition strlen :: "string \<Rightarrow> nat option" where
  "strlen s = (if cur s \<noteq> NUL then Some 0 else None)"

subsection \<open>The character classes are those of the alphabet\<close>

text \<open>The table, flag by flag, as runs.\<close>

lemma replicate_numeral_eq: "replicate (numeral k) x = x # replicate (pred_numeral k) x"
  by (simp add: numeral_eq_Suc)

lemma ctype_runs:
  "map (\<lambda>x. x AND ct_D \<noteq> 0) ctype_tab = replicate 48 False @ replicate 10 True @ replicate 198 False"
  "map (\<lambda>x. x AND (ct_D OR ct_X) \<noteq> 0) ctype_tab =
     replicate 48 False @ replicate 10 True @ replicate 7 False @ replicate 6 True
     @ replicate 26 False @ replicate 6 True @ replicate 153 False"
  "map (\<lambda>x. x AND ct_U \<noteq> 0) (take 128 ctype_tab) =
     replicate 65 False @ replicate 26 True @ replicate 37 False"
  "map (\<lambda>x. x AND ct_L \<noteq> 0) (take 128 ctype_tab) =
     replicate 97 False @ replicate 26 True @ replicate 5 False"
  by (simp_all add: ctype_tab_def replicate_numeral_eq)

lemma replicate_run: "(replicate k x @ ys) ! n = (if n < k then x else ys ! (n - k))"
  by (simp add: nth_append)

lemma ismask_flag:
  "map f ctype_tab = bs \<Longrightarrow> f (ismask c) = bs ! of_char c"
  using nat_of_char_less_256 [of c] by (auto simp: ismask_def length_ctype_tab)

lemma ismask_flag_ascii:
  "map f (take 128 ctype_tab) = bs \<Longrightarrow> of_char c < (128 :: nat) \<Longrightarrow> f (ismask c) = bs ! of_char c"
  by (auto simp: ismask_def length_ctype_tab)

lemma isdigit_iff: "isdigit c \<longleftrightarrow> 48 \<le> (of_char c :: nat) \<and> (of_char c :: nat) \<le> 57"
proof -
  define n where "n = (of_char c :: nat)"
  have n: "n < 256" by (simp add: n_def)
  have "isdigit c \<longleftrightarrow> (replicate 48 False @ replicate 10 True @ replicate 198 False) ! n"
    using ismask_flag [OF ctype_runs(1), of c] by (simp add: isdigit_def n_def)
  also have "\<dots> \<longleftrightarrow> 48 \<le> n \<and> n \<le> 57" using n by (auto simp: replicate_run)
  finally show ?thesis by (simp add: n_def)
qed

lemma isxdigit_iff:
  "isxdigit c \<longleftrightarrow> (of_char c :: nat) \<in> {48..57} \<union> {65..70} \<union> {97..102}"
proof -
  define n where "n = (of_char c :: nat)"
  have n: "n < 256" by (simp add: n_def)
  have "isxdigit c \<longleftrightarrow> (replicate 48 False @ replicate 10 True @ replicate 7 False @ replicate 6 True
     @ replicate 26 False @ replicate 6 True @ replicate 153 False) ! n"
    using ismask_flag [OF ctype_runs(2), of c] by (simp add: isxdigit_def n_def)
  also have "\<dots> \<longleftrightarrow> n \<in> {48..57} \<union> {65..70} \<union> {97..102}"
    using n by (auto simp: replicate_run)
  finally show ?thesis by (simp add: n_def)
qed

lemma isupper_ascii:
  "of_char c < (128 :: nat) \<Longrightarrow> isupper c \<longleftrightarrow> 65 \<le> (of_char c :: nat) \<and> (of_char c :: nat) \<le> 90"
  using ismask_flag_ascii [OF ctype_runs(3), of c] by (auto simp: isupper_def nth_append)

lemma islower_ascii:
  "of_char c < (128 :: nat) \<Longrightarrow> islower c \<longleftrightarrow> 97 \<le> (of_char c :: nat) \<and> (of_char c :: nat) \<le> 122"
  using ismask_flag_ascii [OF ctype_runs(4), of c] by (auto simp: islower_def nth_append)

lemma of_char_c32: "c32 c = of_nat (of_char c)"
  by (simp add: c32_def)

lemma to_char_of_nat: "n < 256 \<Longrightarrow> to_char (of_nat n :: u32) = char_of n"
  by (simp add: to_char_def unat_of_nat)

lemma tolower_ascii:
  assumes "of_char c < (128 :: nat)" and "isupper c"
  shows "(of_char (tolower c) :: nat) = of_char c + 32"
proof -
  have "c32 c - (c32 CHR ''A'' - c32 CHR ''a'') = of_nat (of_char c + 32)"
    by (simp add: c32_def)
  then have "to_char (c32 c - (c32 CHR ''A'' - c32 CHR ''a'')) = char_of (of_char c + 32 :: nat)"
    using assms by (simp only: to_char_of_nat)
  then show ?thesis using assms by (simp add: tolower_def)
qed

lemma toupper_ascii:
  assumes "of_char c < (128 :: nat)" and "islower c"
  shows "(of_char (toupper c) :: nat) = of_char c - 32"
proof -
  have "32 \<le> (of_char c :: nat)" using assms islower_ascii by auto
  then have "c32 c - (c32 CHR ''a'' - c32 CHR ''A'') = of_nat (of_char c - 32)"
    by (simp add: c32_def of_nat_diff)
  moreover have "of_char c - 32 < (256 :: nat)" using assms by simp
  ultimately show ?thesis using assms by (simp add: toupper_def to_char_of_nat)
qed

text \<open>On ASCII, folding the case up undoes folding it down.\<close>

lemma case_roundtrip:
  assumes "of_char c < (128 :: nat)"
  shows "isupper c \<Longrightarrow> toupper (tolower c) = c" and "islower c \<Longrightarrow> tolower (toupper c) = c"
proof -
  have inj: "(of_char x :: nat) = of_char y \<Longrightarrow> x = y" for x y :: char by simp
  show "toupper (tolower c) = c" if "isupper c"
    using that assms tolower_ascii [of c] isupper_ascii [of c]
      toupper_ascii [of "tolower c"] islower_ascii [of "tolower c"]
    by (intro inj) auto
  show "tolower (toupper c) = c" if "islower c"
    using that assms toupper_ascii [of c] islower_ascii [of c]
      tolower_ascii [of "toupper c"] isupper_ascii [of "toupper c"]
    by (intro inj) linarith
qed

lemma less_16: "(d :: nat) < 16 \<longleftrightarrow> d \<in> {0, 1, 2, 3, 4, 5, 6, 7, 8, 9, 10, 11, 12, 13, 14, 15}"
  by (simp only: insert_iff empty_iff) presburger

lemma digit_value_iff:
  "digit_value c = (if isdigit c then of_nat (of_char c) - 48
     else of_nat (of_char (if islower c then toupper c else c)) - 55)"
  by (simp add: digit_value_def c32_def)

lemma hex_digit_value:
  assumes "d < 16" and "c = ''0123456789abcdef'' ! d \<or> c = ''0123456789ABCDEF'' ! d"
  shows "isxdigit c" and "digit_value c = of_nat d"
proof -
  show "isxdigit c" using assms by (auto simp: less_16 isxdigit_iff)
  show "digit_value c = of_nat d" using assms
    by (auto simp: less_16 digit_value_iff isdigit_iff islower_ascii toupper_ascii)
qed

subsection \<open>The parsers read positional notation\<close>

text \<open>The digits of a text denote the value that the loop accumulates.\<close>

lemma strtoul_loop_digits:
  assumes "list_all (\<lambda>d. d < 16 \<and> d < unat base) ds"
    and "\<And>d. d < 16 \<Longrightarrow> hex ! d = ''0123456789abcdef'' ! d \<or> hex ! d = ''0123456789ABCDEF'' ! d"
  shows "strtoul_loop base r (map (\<lambda>d. hex ! d) ds @ rest) =
    strtoul_loop base (foldl (\<lambda>r d. r * base + of_nat d) r ds) rest"
  using assms(1)
proof (induction ds arbitrary: r)
  case Nil
  show ?case by simp
next
  case (Cons d ds)
  then have d: "d < 16" "d < unat base" by simp_all
  have "(of_nat d :: u32) < base"
    using d by (simp add: word_less_nat_alt unat_of_nat)
  with hex_digit_value [OF d(1) assms(2) [OF d(1)]] Cons show ?case by simp
qed

lemma strtoul_loop_stop: "cur s = NUL \<Longrightarrow> strtoul_loop base r s = (r, s)"
  by (cases s) (auto simp: isxdigit_iff)

subsection \<open>Comparison decides equality\<close>

lemma char_diff:
  "(ucast (c32 c - c32 d) :: u8) = word_of_int (int (of_char c) - int (of_char d))"
proof -
  have "c32 c - c32 d = word_of_int (int (of_char c) - int (of_char d))"
    by (simp add: c32_def)
  then have "(ucast (c32 c - c32 d) :: u8)
      = ucast (word_of_int (int (of_char c) - int (of_char d)) :: u32)"
    by (simp only:)
  also have "\<dots> = word_of_int (int (of_char c) - int (of_char d))"
    by (rule ucast_of_int) simp
  finally show ?thesis .
qed

lemma char_diff_zero: "(ucast (c32 c - c32 d) :: u8) = 0 \<longleftrightarrow> c = d"
proof -
  have "\<bar>int (of_char c) - int (of_char d)\<bar> < 256"
    using nat_of_char_less_256 [of c] nat_of_char_less_256 [of d] by linarith
  then show ?thesis by (simp only: char_diff word_of_int_0_iff8) simp
qed

lemma strcmp_Nil: "strcmp [] t = sint (ucast (c32 NUL - c32 (cur t)) :: u8)"
  by (subst strcmp.simps) (simp only: cur_simps Let_def simp_thms if_True)

lemma strcmp_Cons_same: "c \<noteq> NUL \<Longrightarrow> strcmp (c # s) (c # t) = strcmp s t"
  by (subst strcmp.simps) simp

lemma strcmp_differ:
  "cur s \<noteq> cur t \<Longrightarrow> strcmp s t = sint (ucast (c32 (cur s) - c32 (cur t)) :: u8)"
  by (subst strcmp.simps) (simp add: char_diff_zero [simplified])

lemma strcmp_zero:
  assumes "NUL \<notin> set s" and "NUL \<notin> set t"
  shows "strcmp s t = 0 \<longleftrightarrow> s = t"
  using assms
proof (induction s arbitrary: t)
  case Nil
  then show ?case
    by (cases t) (auto simp: strcmp_Nil signed_eq_0_iff char_diff_zero)
next
  case (Cons c s)
  show ?case
  proof (cases "cur t = c")
    case True
    then obtain t' where "t = c # t'" using Cons.prems by (cases t) auto
    moreover have "c \<noteq> NUL" using Cons.prems by auto
    ultimately show ?thesis using Cons by (simp add: strcmp_Cons_same)
  next
    case False
    then have "strcmp (c # s) t \<noteq> 0"
      by (simp add: strcmp_differ signed_eq_0_iff char_diff_zero)
    moreover have "c # s \<noteq> t" using False by auto
    ultimately show ?thesis by blast
  qed
qed

text \<open>On ASCII text the sign of the result is the order of the texts; the eight-bit difference
  gives the wrong sign for characters 128 or more apart.\<close>

definition char_less :: "(char \<times> char) set" where
  "char_less = {(c, d). (of_char c :: nat) < of_char d}"

abbreviation ascii :: "string \<Rightarrow> bool" where
  "ascii s \<equiv> \<forall>c \<in> set s. c \<noteq> NUL \<and> of_char c < (128 :: nat)"

lemma sint_char_diff:
  assumes "of_char c < (128 :: nat)" and "of_char d < (128 :: nat)"
  shows "sint (ucast (c32 c - c32 d) :: u8) = int (of_char c) - int (of_char d)"
  using assms unfolding char_diff
  by (simp only: signed_of_int) (simp add: signed_take_bit_int_eq_self)

lemma strcmp_order:
  assumes "ascii s" and "ascii t"
  shows "strcmp s t < 0 \<longleftrightarrow> (s, t) \<in> lexord char_less"
  using assms
proof (induction s arbitrary: t)
  case Nil
  show ?case
  proof (cases t)
    case Nil
    then show ?thesis by (simp add: strcmp_Nil)
  next
    case (Cons d t')
    moreover from Cons Nil.prems have "(of_char d :: nat) \<noteq> of_char NUL"
      by (subst of_char_eq_iff) auto
    ultimately show ?thesis using Nil.prems
      by (simp add: strcmp_Nil sint_char_diff)
  qed
next
  case (Cons c s)
  show ?case
  proof (cases "cur t = c")
    case True
    then obtain t' where "t = c # t'" using Cons.prems by (cases t) auto
    with Cons show ?thesis by (simp add: strcmp_Cons_same char_less_def)
  next
    case False
    with Cons.prems sint_char_diff [of c "cur t"] show ?thesis
      by (cases t) (auto simp: strcmp_differ char_less_def)
  qed
qed

lemma strcmp_sign_non_ascii: "strcmp [CHR 0xC8] [CHR 0x01] < 0"
  by (subst strcmp.simps) (simp add: c32_def)

lemma strlen_zero: "c \<noteq> NUL \<Longrightarrow> strlen (c # s) = Some 0"
  by (simp add: strlen_def)

end
