(* ===== verification/Registry.thy ===== *)
theory Registry
  imports Strings
begin

text \<open>
  The registration tables of the drivers: an array of ten pointers, of which the first free one is
  taken, searched by name with \<^verbatim>\<open>strcmp\<close>.  The same two loops stand in \<^verbatim>\<open>lcd/lcd.c\<close>,
  \<^verbatim>\<open>lcd/lcd_controller.c\<close> and \<^verbatim>\<open>i2c/i2c_controller.c\<close>; each component has its own operations over
  them and interprets the contract of a registry on these.
\<close>

definition tab_add :: "'e \<Rightarrow> 'e option list \<Rightarrow> 'e option list \<times> int" where
  "tab_add e tab =
     (case first_idx (\<lambda>x. x = None) tab of
        Some i \<Rightarrow> (tab[i := Some e], int i)
      | None \<Rightarrow> (tab, -1))"

definition tab_search :: "('e \<Rightarrow> string) \<Rightarrow> string \<Rightarrow> 'e option list \<Rightarrow> nat option" where
  "tab_search name_of n tab =
     first_idx (\<lambda>x. case x of None \<Rightarrow> False | Some e \<Rightarrow> strcmp (name_of e) n = 0) tab"

definition tab_find :: "('e \<Rightarrow> string) \<Rightarrow> string \<Rightarrow> 'e option list \<Rightarrow> 'e option" where
  "tab_find name_of n tab =
     (case tab_search name_of n tab of None \<Rightarrow> None | Some i \<Rightarrow> tab ! i)"

abbreviation c_name :: "string \<Rightarrow> bool" where
  "c_name n \<equiv> NUL \<notin> set n"

text \<open>A table that only registration has changed: its entries, then its free slots.\<close>

definition tab_ok :: "('e \<Rightarrow> string) \<Rightarrow> 'e option list \<Rightarrow> bool" where
  "tab_ok name_of tab \<longleftrightarrow> length tab = 10 \<and>
     (\<exists>es k. tab = map Some es @ replicate k None \<and> (\<forall>e \<in> set es. c_name (name_of e)))"

definition tab_items :: "'e option list \<Rightarrow> 'e list" where
  "tab_items tab = List.map_filter id tab"

lemma tab_items_split: "tab_items (map Some es @ replicate k None) = es"
  by (induction es) (simp_all add: tab_items_def List.map_filter_def)

lemma tab_okD:
  assumes "tab_ok name_of tab"
  obtains k where "tab = map Some (tab_items tab) @ replicate k None"
    and "length (tab_items tab) + k = 10" and "\<forall>e \<in> set (tab_items tab). c_name (name_of e)"
proof -
  from assms obtain es k where "tab = map Some es @ replicate k None" "length tab = 10"
    "\<forall>e \<in> set es. c_name (name_of e)"
    by (auto simp: tab_ok_def)
  then show ?thesis using that [of k] by (auto simp: tab_items_split)
qed

lemma tab_ok_names: "tab_ok name_of tab \<Longrightarrow> Some e \<in> set tab \<Longrightarrow> c_name (name_of e)"
  by (auto simp: tab_ok_def)

lemma first_free: "first_idx (\<lambda>x. x = None) (map Some es @ replicate k None)
    = (if k = 0 then None else Some (length es))"
  by (induction es) (auto simp: gr0_conv_Suc)

lemma tab_add_eq:
  assumes "tab_ok name_of tab" and "c_name (name_of e)"
  shows "tab_ok name_of (fst (tab_add e tab))
    \<and> tab_items (fst (tab_add e tab)) =
        (if length (tab_items tab) < 10 then tab_items tab @ [e] else tab_items tab)
    \<and> snd (tab_add e tab) = (if length (tab_items tab) < 10 then int (length (tab_items tab)) else -1)"
proof -
  define es where "es = tab_items tab"
  from tab_okD [OF assms(1)] obtain k where tab: "tab = map Some es @ replicate k None"
    and len: "length es + k = 10" and names: "\<forall>e \<in> set es. c_name (name_of e)"
    by (metis es_def)
  show ?thesis
  proof (cases k)
    case 0
    have "tab_add e tab = (tab, -1)"
      unfolding tab_add_def tab first_free by (simp add: 0)
    with len assms(1) 0 show ?thesis by (simp add: es_def [symmetric])
  next
    case (Suc j)
    have add: "fst (tab_add e tab) = map Some (es @ [e]) @ replicate j None"
      "snd (tab_add e tab) = int (length es)"
      unfolding tab_add_def tab first_free by (simp_all add: Suc list_update_append)
    have "tab_ok name_of (map Some (es @ [e]) @ replicate j None)"
      unfolding tab_ok_def using names assms(2) len Suc
      by (intro conjI exI [of _ "es @ [e]"] exI [of _ j]) auto
    then show ?thesis unfolding add using len Suc
      by (simp only: tab_items_split es_def [symmetric]) auto
  qed
qed

lemma tab_find_eq:
  assumes "tab_ok name_of tab" and "c_name n"
  shows "tab_find name_of n tab = List.find (\<lambda>e. name_of e = n) (tab_items tab)"
proof -
  define es where "es = tab_items tab"
  from tab_okD [OF assms(1)] obtain k where tab: "tab = map Some es @ replicate k None"
    and names: "\<forall>e \<in> set es. c_name (name_of e)"
    by (metis es_def)
  have none: "first_idx (\<lambda>x. case x of None \<Rightarrow> False | Some e \<Rightarrow> strcmp (name_of e) n = 0)
      (replicate k None) = None"
    by (simp add: first_idx_None)
  have "tab_find name_of n (map Some es @ replicate k None) = List.find (\<lambda>e. name_of e = n) es"
    using names
    by (induction es)
      (auto simp: tab_find_def tab_search_def none strcmp_zero assms(2) split: option.splits)
  then show ?thesis by (simp add: tab es_def [symmetric] tab_items_split)
qed

text \<open>The table itself is a registry; the components build on it.\<close>

interpretation tab: registry "\<lambda>e t. fst (tab_add e t)" "tab_find name_of" name_of tab_items 10
  "tab_ok name_of" c_name for name_of :: "'e \<Rightarrow> string"
  by unfold_locales (auto simp: tab_add_eq tab_find_eq)

end
