(* ===== verification/Lcd.thy ===== *)
theory Lcd
  imports Registry
begin

text \<open>
  The LCD stack of \<^verbatim>\<open>bare_board/code/I2c/20200510_IIC/lcd\<close> below the frame buffer: the registered
  panels and controllers (\<^verbatim>\<open>lcd.c\<close>, \<^verbatim>\<open>lcd_controller.c\<close>), the 4.3 inch panel (\<^verbatim>\<open>lcd_4.3.c\<close>) and
  the S3C2440 controller (\<^verbatim>\<open>s3c2440_lcd_controller.c\<close>).  A pointer to a constant structure is the
  structure; a call through an unset pointer is \<open>None\<close>.
\<close>

subsection \<open>Panels\<close>

abbreviation (input) NORMAL :: int where "NORMAL \<equiv> 0"
abbreviation (input) INVERT :: int where "INVERT \<equiv> 1"

record pins_polarity =
  pp_de :: int
  pp_pwren :: int
  pp_vclk :: int
  pp_rgb :: int
  pp_hsync :: int
  pp_vsync :: int

record time_sequence =
  ts_tvp :: int
  ts_tvb :: int
  ts_tvf :: int
  ts_thp :: int
  ts_thb :: int
  ts_thf :: int
  ts_vclk :: int

record lcd_params =
  lcd_name :: string
  pins_pol :: pins_polarity
  time_seq :: time_sequence
  lp_xres :: int
  lp_yres :: int
  lp_bpp :: int
  lp_fb_base :: u32

definition lcd_4_3_params :: lcd_params where
  "lcd_4_3_params =
     \<lparr>lcd_name = ''lcd_4.3'',
      pins_pol = \<lparr>pp_de = NORMAL, pp_pwren = NORMAL, pp_vclk = NORMAL, pp_rgb = NORMAL,
                  pp_hsync = INVERT, pp_vsync = INVERT\<rparr>,
      time_seq = \<lparr>ts_tvp = 10, ts_tvb = 2, ts_tvf = 2, ts_thp = 41, ts_thb = 2, ts_thf = 2,
                  ts_vclk = 9\<rparr>,
      lp_xres = 480, lp_yres = 272, lp_bpp = 32, lp_fb_base = 0x33c00000\<rparr>"

subsection \<open>The S3C2440 controller\<close>

abbreviation HCLK :: int where "HCLK \<equiv> 100"

definition jz2440_lcd_pin_init :: "bus \<Rightarrow> hist \<Rightarrow> hist" where
  "jz2440_lcd_pin_init b h =
     (let h = upd32 b GPBCON (bits_clear 0x3) h;
          h = upd32 b GPBCON (bits_or 0x01) h;
          h = wr32 GPCCON 0xaaaaaaaa h;
          h = wr32 GPDCON 0xaaaaaaaa h
      in upd32 b GPGCON (bits_or (push_bit 8 3)) h)"

text \<open>\<^verbatim>\<open>(float)HCLK / vclk / 2 - 1 + 0.5\<close>, cut to an integer: the exact quotient, cut towards zero.
  (The single-precision value differs from the exact one by less than its distance to the next
  integer.)  A zero pixel clock is undefined.\<close>

definition clkval :: "int \<Rightarrow> int option" where
  "clkval vclk = (if vclk = 0 then None else Some ((HCLK - vclk) sdiv (2 * vclk)))"

definition bppmode :: "int \<Rightarrow> u32" where
  "bppmode bpp = (if bpp = 8 then 0xb else if bpp = 16 then 0xc else 0xd)"

definition lcdcon2 :: "lcd_params \<Rightarrow> u32" where
  "lcdcon2 p =
     push_bit 24 (of_int (ts_tvb (time_seq p) - 1)) OR push_bit 14 (of_int (lp_yres p - 1))
     OR push_bit 6 (of_int (ts_tvf (time_seq p) - 1)) OR push_bit 0 (of_int (ts_tvp (time_seq p) - 1))"

definition lcdcon3 :: "lcd_params \<Rightarrow> u32" where
  "lcdcon3 p =
     push_bit 19 (of_int (ts_thb (time_seq p) - 1)) OR push_bit 8 (of_int (lp_xres p - 1))
     OR push_bit 0 (of_int (ts_thf (time_seq p) - 1))"

definition lcdcon4 :: "lcd_params \<Rightarrow> u32" where
  "lcdcon4 p = push_bit 0 (of_int (ts_thp (time_seq p) - 1))"

definition lcdcon5 :: "lcd_params \<Rightarrow> u32" where
  "lcdcon5 p =
     (let pixelplace = (if lp_bpp p = 32 then 0 else if lp_bpp p = 16 then 1 else bitm 1);
          pol = pins_pol p
      in push_bit 10 (of_int (pp_vclk pol)) OR push_bit 7 (of_int (pp_rgb pol))
         OR push_bit 9 (of_int (pp_hsync pol)) OR push_bit 8 (of_int (pp_vsync pol))
         OR push_bit 6 (of_int (pp_de pol)) OR push_bit 5 (of_int (pp_pwren pol))
         OR bitm 11 OR pixelplace)"

definition lcdsaddr1 :: "lcd_params \<Rightarrow> u32" where
  "lcdsaddr1 p = drop_bit 1 (lp_fb_base p AND NOT (bitm 31))"

definition lcdsaddr2 :: "lcd_params \<Rightarrow> u32" where
  "lcdsaddr2 p =
     (let addr = lp_fb_base p + of_int ((lp_xres p * lp_yres p * lp_bpp p) sdiv 8)
      in drop_bit 1 addr AND 0x1fffff)"

definition s3c2440_lcd_controller_init :: "bus \<Rightarrow> lcd_params \<Rightarrow> hist \<Rightarrow> hist option" where
  "s3c2440_lcd_controller_init b p h = do {
     let h = jz2440_lcd_pin_init b h;
     cv \<leftarrow> clkval (ts_vclk (time_seq p));
     let h = wr32 LCDCON1 (push_bit 8 (of_int cv) OR push_bit 5 3 OR push_bit 1 (bppmode (lp_bpp p))) h;
     let h = wr32 LCDCON2 (lcdcon2 p) h;
     let h = wr32 LCDCON3 (lcdcon3 p) h;
     let h = wr32 LCDCON4 (lcdcon4 p) h;
     let h = wr32 LCDCON5 (lcdcon5 p) h;
     let h = wr32 LCDSADDR1 (lcdsaddr1 p) h;
     Some (wr32 LCDSADDR2 (lcdsaddr2 p) h)
   }"

definition s3c2440_lcd_controller_enable :: "bus \<Rightarrow> hist \<Rightarrow> hist" where
  "s3c2440_lcd_controller_enable b h =
     (let h = upd32 b GPBDAT (bits_or (bitm 0)) h;
          h = upd32 b LCDCON5 (bits_or (bitm 3)) h
      in upd32 b LCDCON1 (bits_or (bitm 0)) h)"

definition s3c2440_lcd_controller_disable :: "bus \<Rightarrow> hist \<Rightarrow> hist" where
  "s3c2440_lcd_controller_disable b h =
     (let h = upd32 b GPBDAT (bits_clear (bitm 0)) h;
          h = upd32 b LCDCON5 (bits_clear (bitm 3)) h
      in upd32 b LCDCON1 (bits_clear (bitm 0)) h)"

primrec palette_loop :: "nat \<Rightarrow> nat \<Rightarrow> hist \<Rightarrow> hist" where
  "palette_loop i 0 h = h"
| "palette_loop i (Suc n) h = palette_loop (Suc i) n (wr32 (0x4D000400 + 4 * of_nat i) (of_nat i) h)"

definition s3c2440_lcd_controller_init_palette :: "bus \<Rightarrow> hist \<Rightarrow> hist" where
  "s3c2440_lcd_controller_init_palette b h =
     (let (v, h) = rd32 b LCDCON1 h;
          bt = v AND bitm 0;
          h = (if bt \<noteq> 0 then upd32 b LCDCON1 (bits_clear (bitm 0)) h else h);
          h = palette_loop 0 256 h
      in if bt \<noteq> 0 then upd32 b LCDCON1 (bits_or (bitm 0)) h else h)"

subsection \<open>The two tables\<close>

record lcd_controller =
  con_name :: string
  con_init :: "lcd_params \<Rightarrow> hist \<Rightarrow> hist option"
  con_enable :: "hist \<Rightarrow> hist"
  con_disable :: "hist \<Rightarrow> hist"
  con_init_palette :: "hist \<Rightarrow> hist"

definition s3c2440_lcd_controller :: "bus \<Rightarrow> lcd_controller" where
  "s3c2440_lcd_controller b =
     \<lparr>con_name = ''s3c2440'',
      con_init = s3c2440_lcd_controller_init b,
      con_enable = s3c2440_lcd_controller_enable b,
      con_disable = s3c2440_lcd_controller_disable b,
      con_init_palette = s3c2440_lcd_controller_init_palette b\<rparr>"

record lcd_state =
  p_array_lcd :: "lcd_params option list"
  lcd_selected :: "lcd_params option"
  p_array_lcd_controller :: "lcd_controller option list"
  lcd_controller_selected :: "lcd_controller option"

definition lcd_state0 :: lcd_state where
  "lcd_state0 = \<lparr>p_array_lcd = replicate 10 None, lcd_selected = None,
     p_array_lcd_controller = replicate 10 None, lcd_controller_selected = None\<rparr>"

definition register_lcd :: "lcd_params \<Rightarrow> lcd_state \<Rightarrow> lcd_state \<times> int" where
  "register_lcd plcd s =
     (let (tab, r) = tab_add plcd (p_array_lcd s) in (s\<lparr>p_array_lcd := tab\<rparr>, r))"

definition select_lcd :: "string \<Rightarrow> lcd_state \<Rightarrow> lcd_state \<times> int" where
  "select_lcd name s =
     (case tab_search lcd_name name (p_array_lcd s) of
        Some i \<Rightarrow> (s\<lparr>lcd_selected := p_array_lcd s ! i\<rparr>, int i)
      | None \<Rightarrow> (s, -1))"

definition get_lcd_params :: "lcd_state \<Rightarrow> (u32 \<times> int \<times> int \<times> int) option" where
  "get_lcd_params s =
     map_option (\<lambda>p. (lp_fb_base p, lp_xres p, lp_yres p, lp_bpp p)) (lcd_selected s)"

definition register_lcd_controller :: "lcd_controller \<Rightarrow> lcd_state \<Rightarrow> lcd_state \<times> int" where
  "register_lcd_controller c s =
     (let (tab, r) = tab_add c (p_array_lcd_controller s) in (s\<lparr>p_array_lcd_controller := tab\<rparr>, r))"

definition select_lcd_controller :: "string \<Rightarrow> lcd_state \<Rightarrow> lcd_state \<times> int" where
  "select_lcd_controller name s =
     (case tab_search con_name name (p_array_lcd_controller s) of
        Some i \<Rightarrow> (s\<lparr>lcd_controller_selected := p_array_lcd_controller s ! i\<rparr>, int i)
      | None \<Rightarrow> (s, -1))"

text \<open>The parameters go to the controller as a pointer: with a controller selected and no panel, the
  controller reads through a null pointer.\<close>

definition lcd_controller_init :: "lcd_params option \<Rightarrow> lcd_state \<Rightarrow> hist \<Rightarrow> (int \<times> hist) option" where
  "lcd_controller_init p s h =
     (case lcd_controller_selected s of
        Some c \<Rightarrow> do {
          p \<leftarrow> p;
          h \<leftarrow> con_init c p h;
          let h = con_init_palette c h;
          Some (0, h)
        }
      | None \<Rightarrow> Some (-1, h))"

definition lcd_controller_enable :: "lcd_state \<Rightarrow> hist \<Rightarrow> hist" where
  "lcd_controller_enable s h =
     (case lcd_controller_selected s of Some c \<Rightarrow> con_enable c h | None \<Rightarrow> h)"

definition lcd_controller_disable :: "lcd_state \<Rightarrow> hist \<Rightarrow> hist" where
  "lcd_controller_disable s h =
     (case lcd_controller_selected s of Some c \<Rightarrow> con_disable c h | None \<Rightarrow> h)"

definition lcd_enable :: "lcd_state \<Rightarrow> hist \<Rightarrow> hist" where
  "lcd_enable s h = lcd_controller_enable s h"

definition lcd_disable :: "lcd_state \<Rightarrow> hist \<Rightarrow> hist" where
  "lcd_disable s h = lcd_controller_disable s h"

definition lcd_4_3_add :: "lcd_state \<Rightarrow> lcd_state" where
  "lcd_4_3_add s = fst (register_lcd lcd_4_3_params s)"

definition s3c2440_lcd_contoller_add :: "bus \<Rightarrow> lcd_state \<Rightarrow> lcd_state" where
  "s3c2440_lcd_contoller_add b s = fst (register_lcd_controller (s3c2440_lcd_controller b) s)"

definition lcd_contoller_add :: "bus \<Rightarrow> lcd_state \<Rightarrow> lcd_state" where
  "lcd_contoller_add b s = s3c2440_lcd_contoller_add b s"

definition lcd_init :: "bus \<Rightarrow> lcd_state \<times> hist \<Rightarrow> (lcd_state \<times> hist) option" where
  "lcd_init b sh =
     (let s = lcd_4_3_add (fst sh);
          s = lcd_contoller_add b s;
          s = fst (select_lcd ''lcd_4.3'' s);
          s = fst (select_lcd_controller ''s3c2440'' s)
      in do {
           (r, h) \<leftarrow> lcd_controller_init (lcd_selected s) s (snd sh);
           Some (s, h)
         })"

subsection \<open>The tables are registries\<close>

definition lcd_lookup :: "string \<Rightarrow> lcd_state \<Rightarrow> lcd_params option" where
  "lcd_lookup n s = (let (s', r) = select_lcd n s in if r = -1 then None else lcd_selected s')"

definition lcd_con_lookup :: "string \<Rightarrow> lcd_state \<Rightarrow> lcd_controller option" where
  "lcd_con_lookup n s =
     (let (s', r) = select_lcd_controller n s in if r = -1 then None else lcd_controller_selected s')"

lemma lcd_lookup_eq: "lcd_lookup n s = tab_find lcd_name n (p_array_lcd s)"
  by (simp add: lcd_lookup_def select_lcd_def tab_find_def split: option.split)

lemma lcd_con_lookup_eq: "lcd_con_lookup n s = tab_find con_name n (p_array_lcd_controller s)"
  by (simp add: lcd_con_lookup_def select_lcd_controller_def tab_find_def split: option.split)

interpretation lcds: registry "\<lambda>p s. fst (register_lcd p s)" lcd_lookup lcd_name
  "\<lambda>s. tab_items (p_array_lcd s)" 10 "\<lambda>s. tab_ok lcd_name (p_array_lcd s)" c_name
  by unfold_locales
    (simp_all add: register_lcd_def lcd_lookup_eq tab.add_wf tab.add_items tab.find_items case_prod_unfold Let_def)

interpretation lcd_cons: registry "\<lambda>c s. fst (register_lcd_controller c s)" lcd_con_lookup con_name
  "\<lambda>s. tab_items (p_array_lcd_controller s)" 10 "\<lambda>s. tab_ok con_name (p_array_lcd_controller s)" c_name
  by unfold_locales
    (simp_all add: register_lcd_controller_def lcd_con_lookup_eq tab.add_wf tab.add_items
      tab.find_items case_prod_unfold Let_def)

lemma tab_ok_empty: "tab_ok f (replicate 10 None)"
  unfolding tab_ok_def by (intro conjI exI [of _ "[]"] exI [of _ 10]) auto

subsection \<open>The registers hold the panel's parameters\<close>

text \<open>A register is a disjunction of shifted fields; a field is read back by shifting and masking.\<close>

lemma take_bit_small:
  fixes i :: int
  assumes "0 \<le> i" and "i < 2 ^ w"
  shows "(of_int i :: u32) = take_bit w (of_int i)"
proof (cases "w < 32")
  case True
  have "take_bit w (of_int i :: u32) = of_int (take_bit w i)"
    by (simp add: take_bit_word_eq_self of_int_take_bit True)
  also have "take_bit w i = i" using assms by (simp add: take_bit_int_eq_self)
  finally show ?thesis by simp
next
  case False
  then show ?thesis by (simp add: take_bit_word_eq_self)
qed

lemma fields4:
  fixes a c d e :: u32
  assumes "w = push_bit 24 (take_bit 8 a) OR push_bit 14 (take_bit 10 c)
       OR push_bit 6 (take_bit 8 d) OR push_bit 0 (take_bit 6 e)"
  shows "drop_bit 24 w = take_bit 8 a" and "take_bit 10 (drop_bit 14 w) = take_bit 10 c"
    and "take_bit 8 (drop_bit 6 w) = take_bit 8 d" and "take_bit 6 w = take_bit 6 e"
  unfolding assms by (rule bit_word_eqI; auto simp: bit_simps)+

lemma fields3:
  fixes a c d :: u32
  assumes "w = push_bit 19 (take_bit 7 a) OR push_bit 8 (take_bit 11 c) OR push_bit 0 (take_bit 8 d)"
  shows "take_bit 7 (drop_bit 19 w) = take_bit 7 a" and "take_bit 11 (drop_bit 8 w) = take_bit 11 c"
    and "take_bit 8 w = take_bit 8 d"
  unfolding assms by (rule bit_word_eqI; auto simp: bit_simps)+

definition panel_fits :: "lcd_params \<Rightarrow> bool" where
  "panel_fits p \<longleftrightarrow>
     ts_tvb (time_seq p) \<in> {1..256} \<and> lp_yres p \<in> {1..1024} \<and> ts_tvf (time_seq p) \<in> {1..256}
     \<and> ts_tvp (time_seq p) \<in> {1..64} \<and> ts_thb (time_seq p) \<in> {1..128} \<and> lp_xres p \<in> {1..2048}
     \<and> ts_thf (time_seq p) \<in> {1..256} \<and> ts_thp (time_seq p) \<in> {1..256}"

lemma uint_field:
  fixes i :: int
  assumes "0 \<le> i" and "i < 2 ^ w" and "w < 32"
  shows "uint (take_bit w (of_int i :: u32)) = i"
proof -
  have "(2 :: int) ^ w \<le> 2 ^ 32" using assms(3) by (intro power_increasing) simp_all
  with assms have "i mod 2 ^ 32 = i" by (simp add: mod_pos_pos_trivial)
  then show ?thesis using assms
    by (simp add: unsigned_take_bit_eq uint_word_of_int take_bit_int_eq_self)
qed

lemma controller_init_writes:
  assumes "s3c2440_lcd_controller_init b p h = Some h'"
  shows "latest32 LCDCON2 h' = Some (lcdcon2 p)" and "latest32 LCDCON3 h' = Some (lcdcon3 p)"
    and "latest32 LCDCON4 h' = Some (lcdcon4 p)" and "latest32 LCDCON5 h' = Some (lcdcon5 p)"
    and "latest32 LCDSADDR1 h' = Some (lcdsaddr1 p)" and "latest32 LCDSADDR2 h' = Some (lcdsaddr2 p)"
  using assms by (auto simp: s3c2440_lcd_controller_init_def Let_def wr32_def latest32_append)

text \<open>Initialising the controller for a panel whose timings fit their register fields leaves in the
  registers, field by field, exactly the panel's porches, sync widths and resolution, each less one:
  no field spills into its neighbour.\<close>

lemma lcd_registers_decode:
  assumes "panel_fits p" and "s3c2440_lcd_controller_init b p h = Some h'"
  shows "\<exists>r2 r3 r4. latest32 LCDCON2 h' = Some r2 \<and> latest32 LCDCON3 h' = Some r3
     \<and> latest32 LCDCON4 h' = Some r4
     \<and> uint (drop_bit 24 r2) = ts_tvb (time_seq p) - 1
     \<and> uint (take_bit 10 (drop_bit 14 r2)) = lp_yres p - 1
     \<and> uint (take_bit 8 (drop_bit 6 r2)) = ts_tvf (time_seq p) - 1
     \<and> uint (take_bit 6 r2) = ts_tvp (time_seq p) - 1
     \<and> uint (take_bit 7 (drop_bit 19 r3)) = ts_thb (time_seq p) - 1
     \<and> uint (take_bit 11 (drop_bit 8 r3)) = lp_xres p - 1
     \<and> uint (take_bit 8 r3) = ts_thf (time_seq p) - 1
     \<and> uint (take_bit 8 r4) = ts_thp (time_seq p) - 1"
proof -
  note fits = assms(1) [unfolded panel_fits_def]
  have r2: "lcdcon2 p = push_bit 24 (take_bit 8 (of_int (ts_tvb (time_seq p) - 1)))
      OR push_bit 14 (take_bit 10 (of_int (lp_yres p - 1)))
      OR push_bit 6 (take_bit 8 (of_int (ts_tvf (time_seq p) - 1)))
      OR push_bit 0 (take_bit 6 (of_int (ts_tvp (time_seq p) - 1)))"
    unfolding lcdcon2_def using fits
    by (intro arg_cong2 [where f = "(OR)"] arg_cong [where f = "push_bit _"] take_bit_small) simp_all
  have r3: "lcdcon3 p = push_bit 19 (take_bit 7 (of_int (ts_thb (time_seq p) - 1)))
      OR push_bit 8 (take_bit 11 (of_int (lp_xres p - 1)))
      OR push_bit 0 (take_bit 8 (of_int (ts_thf (time_seq p) - 1)))"
    unfolding lcdcon3_def using fits
    by (intro arg_cong2 [where f = "(OR)"] arg_cong [where f = "push_bit _"] take_bit_small) simp_all
  have r4: "take_bit 8 (lcdcon4 p) = take_bit 8 (of_int (ts_thp (time_seq p) - 1))"
    by (simp add: lcdcon4_def)
  show ?thesis
    unfolding controller_init_writes [OF assms(2)]
    by (intro exI conjI, (rule refl)+, unfold fields4 [OF r2] fields3 [OF r3] r4)
      (rule uint_field; use fits in simp)+
qed

lemma controller_init_returns:
  "ts_vclk (time_seq p) \<noteq> 0 \<Longrightarrow> \<exists>h'. s3c2440_lcd_controller_init b p h = Some h'"
  by (simp add: s3c2440_lcd_controller_init_def clkval_def Let_def)

lemma lcd_registers_decode_witness:
  "\<exists>h' r2. s3c2440_lcd_controller_init (ram_bus (\<lambda>_. 0)) lcd_4_3_params [] = Some h'
     \<and> latest32 LCDCON2 h' = Some r2 \<and> uint (take_bit 10 (drop_bit 14 r2)) = 271"
proof -
  obtain h' where h': "s3c2440_lcd_controller_init (ram_bus (\<lambda>_. 0)) lcd_4_3_params [] = Some h'"
    using controller_init_returns [of lcd_4_3_params] by (auto simp: lcd_4_3_params_def)
  have "panel_fits lcd_4_3_params" by (simp add: panel_fits_def lcd_4_3_params_def)
  from lcd_registers_decode [OF this h'] h' show ?thesis
    by (auto simp: lcd_4_3_params_def)
qed

subsection \<open>Bringing the display up\<close>

lemma palette_loop_stores:
  "palette_loop i n h = h @ map (\<lambda>k. Wr32 (0x4D000400 + 4 * of_nat k) (of_nat k)) [i..<i + n]"
proof (induction n arbitrary: i h)
  case 0
  show ?case by simp
next
  case (Suc n)
  have "[i..<i + Suc n] = i # [Suc i..<Suc i + n]" by (simp add: upt_conv_Cons del: upt_Suc)
  with Suc show ?case by (simp add: wr32_def del: upt_Suc)
qed

lemma palette_keeps:
  assumes "a < 0x4D000400"
  shows "latest32 a (palette_loop 0 256 h) = latest32 a h"
proof -
  have "(0x4D000400 + 4 * of_nat k :: u32) \<noteq> a" if "k < 256" for k
  proof -
    have "(0x4D000400 + 4 * of_nat k :: u32) = of_nat (0x4D000400 + 4 * k)" by simp
    then have "unat (0x4D000400 + 4 * of_nat k :: u32) = 0x4D000400 + 4 * k"
      using that by (simp only: unat_of_nat) simp
    with assms show ?thesis by (auto simp: word_less_nat_alt)
  qed
  then have "latest32 a (map (\<lambda>k. Wr32 (0x4D000400 + 4 * of_nat k) (of_nat k)) [0..<256]) = None"
    by (fastforce simp: latest32_None_iff)
  then show ?thesis by (simp add: palette_loop_stores latest32_append)
qed

lemma lcd_init_ok:
  "\<exists>s h'. lcd_init b (lcd_state0, h) = Some (s, h')
     \<and> get_lcd_params s = Some (0x33c00000, 480, 272, 32)
     \<and> map_option con_name (lcd_controller_selected s) = Some ''s3c2440''
     \<and> latest32 LCDSADDR1 h' = Some 0x19e00000
     \<and> latest32 LCDSADDR2 h' = Some (drop_bit 1 (0x33c00000 + 480 * 272 * 4) AND 0x1fffff)"
proof -
  define s1 where "s1 = lcd_4_3_add lcd_state0"
  define s2 where "s2 = lcd_contoller_add b s1"
  have l: "p_array_lcd s2 = Some lcd_4_3_params # replicate 9 None"
    by (simp add: s2_def s1_def lcd_contoller_add_def s3c2440_lcd_contoller_add_def lcd_4_3_add_def
        register_lcd_controller_def register_lcd_def lcd_state0_def tab_add_def Let_def
        case_prod_unfold replicate_numeral_eq split: option.split)
  have c: "p_array_lcd_controller s2 = Some (s3c2440_lcd_controller b) # replicate 9 None"
    by (simp add: s2_def s1_def lcd_contoller_add_def s3c2440_lcd_contoller_add_def lcd_4_3_add_def
        register_lcd_controller_def register_lcd_def lcd_state0_def tab_add_def Let_def
        case_prod_unfold replicate_numeral_eq split: option.split)
  define s3 where "s3 = fst (select_lcd_controller ''s3c2440'' (fst (select_lcd ''lcd_4.3'' s2)))"
  have s3: "lcd_selected s3 = Some lcd_4_3_params"
    "lcd_controller_selected s3 = Some (s3c2440_lcd_controller b)"
    by (simp_all add: s3_def select_lcd_def select_lcd_controller_def tab_search_def l c strcmp_zero
        lcd_4_3_params_def s3c2440_lcd_controller_def)
  obtain h1 where h1: "s3c2440_lcd_controller_init b lcd_4_3_params h = Some h1"
    using controller_init_returns [of lcd_4_3_params] by (auto simp: lcd_4_3_params_def)
  define h2 where "h2 = s3c2440_lcd_controller_init_palette b h1"
  have run: "lcd_init b (lcd_state0, h) = Some (s3, h2)"
    unfolding lcd_init_def lcd_controller_init_def Let_def fst_conv snd_conv
    using h1 s3 by (simp add: s1_def [symmetric] s2_def [symmetric] s3_def [symmetric]
        s3c2440_lcd_controller_def h2_def)
  have keep: "latest32 a h2 = latest32 a h1" if "a \<in> {LCDSADDR1, LCDSADDR2}" for a
    using that palette_keeps [of a]
    by (auto simp: h2_def s3c2440_lcd_controller_init_palette_def Let_def rd32_def upd32_eq
        latest32_append)
  show ?thesis
    using controller_init_writes [OF h1] s3
    by (simp add: run keep get_lcd_params_def s3c2440_lcd_controller_def)
      (simp add: lcd_4_3_params_def lcdsaddr1_def lcdsaddr2_def)
qed

text \<open>Bringing the display up from reset always returns: the 4.3 inch panel and the S3C2440
  controller are registered and selected, the parameters that the frame buffer gets are the
  panel's, and the last store to each address register is the start and end of the frame buffer at
  0x33c00000.\<close>

lemma lcd_init_selects:
  "\<exists>s h'. lcd_init b (lcd_state0, h) = Some (s, h')
     \<and> get_lcd_params s = Some (0x33c00000, 480, 272, 32)
     \<and> map_option con_name (lcd_controller_selected s) = Some ''s3c2440''
     \<and> latest32 LCDSADDR1 h' = Some 0x19e00000
     \<and> latest32 LCDSADDR2 h' = Some (drop_bit 1 (0x33c00000 + 480 * 272 * 4) AND 0x1fffff)"
  by (rule lcd_init_ok)

end
