(* ===== verification/Interrupt.thy ===== *)
theory Interrupt
  imports Soc
begin

text \<open>
  Interrupt dispatch and the push buttons, \<^verbatim>\<open>bare_board/code/I2c/20200510_IIC/interrupt.c\<close>.  The table
  \<^verbatim>\<open>irq_array\<close> is a list of 32 optional function names; what a name does is the argument \<open>call\<close>
  of the dispatcher, on the state \<open>'s\<close> that the handlers share.  A call through an empty slot, or a
  source number outside the table, is \<open>None\<close>.
\<close>

type_synonym ('f, 's) caller = "'f \<Rightarrow> nat \<Rightarrow> 's \<times> hist \<Rightarrow> ('s \<times> hist) option"

definition interrupt_init :: "bus \<Rightarrow> hist \<Rightarrow> hist" where
  "interrupt_init b h =
     (let h = upd32 b INTMSK (bits_clear (bitm 0 OR bitm 2 OR bitm 5)) h
      in upd32 b INTMSK (bits_clear (bitm 10)) h)"

text \<open>What the handler does to the port of the LEDs, from the three words it has read.\<close>

definition key_leds :: "nat \<Rightarrow> u32 \<Rightarrow> u32 \<Rightarrow> u32 \<Rightarrow> (u32 \<Rightarrow> u32) option" where
  "key_leds irq val val1 val2 =
     (if irq = 0 then
        (if val1 AND bitm 0 \<noteq> 0 then Some (bits_or (bitm 6)) else Some (bits_clear (bitm 6)))
      else if irq = 2 then
        (if val1 AND bitm 2 \<noteq> 0 then Some (bits_or (bitm 5)) else Some (bits_clear (bitm 5)))
      else if irq = 5 then
        (if val AND bitm 11 \<noteq> 0 then
           (if val2 AND bitm 3 \<noteq> 0 then Some (bits_or (bitm 4)) else Some (bits_clear (bitm 4)))
         else if val AND bitm 19 \<noteq> 0 then
           (if val2 AND bitm 11 \<noteq> 0 then Some (bits_or (bitm 4 OR bitm 5 OR bitm 6))
            else Some (bits_clear (bitm 4 OR bitm 5 OR bitm 6)))
         else None)
      else None)"

definition key_eint_irq :: "bus \<Rightarrow> nat \<Rightarrow> hist \<Rightarrow> hist" where
  "key_eint_irq b irq h =
     (let (val, h) = rd32 b EINTPEND h;
          (val1, h) = rd32 b GPFDAT h;
          (val2, h) = rd32 b GPGDAT h;
          h = (case key_leds irq val val1 val2 of
                 Some f \<Rightarrow> upd32 b GPFDAT f h
               | None \<Rightarrow> h)
      in wr32 EINTPEND val h)"

definition handle_irq_c ::
  "bus \<Rightarrow> ('f, 's) caller \<Rightarrow> 'f option list \<Rightarrow> 's \<times> hist \<Rightarrow> ('s \<times> hist) option" where
  "handle_irq_c b call irq_array sh =
     (let (off, h) = rd32 b INTOFFSET (snd sh); bit = unat off
      in if bit < length irq_array then
           (case irq_array ! bit of
              None \<Rightarrow> None
            | Some f \<Rightarrow> do {
                (s, h) \<leftarrow> call f bit (fst sh, h);
                let h = wr32 SRCPND (bitm bit) h;
                let h = wr32 INTPND (bitm bit) h;
                Some (s, h)
              })
         else None)"

definition register_irq ::
  "bus \<Rightarrow> nat \<Rightarrow> 'f \<Rightarrow> 'f option list \<times> hist \<Rightarrow> ('f option list \<times> hist) option" where
  "register_irq b irq fp th =
     (if irq < length (fst th)
      then Some ((fst th)[irq := Some fp], upd32 b INTMSK (bits_clear (bitm irq)) (snd th))
      else None)"

definition key_eint_init ::
  "bus \<Rightarrow> 'f \<Rightarrow> 'f option list \<times> hist \<Rightarrow> ('f option list \<times> hist) option" where
  "key_eint_init b key_fn th =
     (let h = snd th;
          h = upd32 b GPFCON (bits_clear (push_bit 0 3 OR push_bit 4 3)) h;
          h = upd32 b GPFCON (bits_or (push_bit 0 2 OR push_bit 4 2)) h;
          h = upd32 b GPGCON (bits_clear (push_bit 6 3 OR push_bit 22 3)) h;
          h = upd32 b GPGCON (bits_or (push_bit 6 2 OR push_bit 22 2)) h;
          h = upd32 b EXTINT0 (bits_or (push_bit 0 7 OR push_bit 8 7)) h;
          h = upd32 b EXTINT1 (bits_or (push_bit 12 7)) h;
          h = upd32 b EXTINT2 (bits_or (push_bit 12 7)) h;
          h = upd32 b EINTMASK (bits_clear (bitm 11 OR bitm 19)) h
      in do {
           th \<leftarrow> register_irq b 0 key_fn (fst th, h);
           th \<leftarrow> register_irq b 2 key_fn th;
           register_irq b 5 key_fn th
         })"

subsection \<open>What the handlers store\<close>

text \<open>The stores of a history, oldest first.\<close>

fun stores :: "hist \<Rightarrow> (u32 \<times> u32) list" where
  "stores [] = []"
| "stores (Wr32 a v # h) = (a, v) # stores h"
| "stores (_ # h) = stores h"

lemma stores_append [simp]: "stores (h @ h') = stores h @ stores h'"
  by (induction h rule: stores.induct) auto

lemmas mmio_stores = mmio_defs Let_def

abbreviation led_bits :: u32 where
  "led_bits \<equiv> bitm 4 OR bitm 5 OR bitm 6"

lemma led_masks:
  fixes v k :: u32
  assumes "k AND NOT m = 0"
  shows "(v OR k) AND NOT m = v AND NOT m" and "(v AND NOT k) AND NOT m = v AND NOT m"
proof -
  have k: "\<And>n. n < 32 \<Longrightarrow> bit k n \<Longrightarrow> bit m n"
    using arg_cong [OF assms, of "\<lambda>w. bit w _"] by (auto simp: bit_simps)
  show "(v OR k) AND NOT m = v AND NOT m" and "(v AND NOT k) AND NOT m = v AND NOT m"
    by (rule bit_word_eqI; use k in \<open>auto simp: bit_simps\<close>)+
qed

lemma key_leds_frame:
  assumes "key_leds irq val val1 val2 = Some f"
  shows "f v AND NOT led_bits = v AND NOT led_bits"
proof -
  have "f \<in> {bits_or (bitm 4), bits_or (bitm 5), bits_or (bitm 6), bits_or led_bits,
             bits_clear (bitm 4), bits_clear (bitm 5), bits_clear (bitm 6), bits_clear led_bits}"
    using assms unfolding key_leds_def by (simp split: if_splits)
  moreover have "bitm 4 AND NOT led_bits = 0" "bitm 5 AND NOT led_bits = 0"
    "bitm 6 AND NOT led_bits = 0" "led_bits AND NOT led_bits = 0" by simp_all
  note this [THEN led_masks(1), of v] this [THEN led_masks(2), of v]
  ultimately show ?thesis by (elim insertE) (simp_all only: empty_iff)
qed

text \<open>A button interrupt acknowledges exactly the external interrupts it has read, as its last
  store, and between the loads and that store it writes at most one register, the port of the
  LEDs, changing no bit but those of the three LEDs.\<close>

lemma key_eint_irq_frame:
  "\<exists>ws. stores (key_eint_irq b irq h) = stores h @ ws @ [(EINTPEND, b h EINTPEND)]
     \<and> (ws = [] \<or> (\<exists>h' v. ws = [(GPFDAT, v)] \<and> v AND NOT led_bits = b h' GPFDAT AND NOT led_bits))"
proof -
  define h1 where "h1 = h @ [Rd32 EINTPEND (b h EINTPEND)]"
  define h2 where "h2 = h1 @ [Rd32 GPFDAT (b h1 GPFDAT)]"
  define h3 where "h3 = h2 @ [Rd32 GPGDAT (b h2 GPGDAT)]"
  have st: "stores h3 = stores h" by (simp add: h1_def h2_def h3_def)
  have irq: "key_eint_irq b irq h =
      wr32 EINTPEND (b h EINTPEND)
        (case key_leds irq (b h EINTPEND) (b h1 GPFDAT) (b h2 GPGDAT) of
           Some f \<Rightarrow> upd32 b GPFDAT f h3 | None \<Rightarrow> h3)"
    unfolding h3_def h2_def h1_def key_eint_irq_def rd32_def Let_def by simp
  show ?thesis
  proof (cases "key_leds irq (b h EINTPEND) (b h1 GPFDAT) (b h2 GPGDAT)")
    case None
    then show ?thesis by (simp add: irq st wr32_def)
  next
    case (Some f)
    with key_leds_frame [OF this, of "b h3 GPFDAT"] show ?thesis
      by (auto simp: irq st wr32_def upd32_eq)
  qed
qed

text \<open>A dispatched interrupt runs the registered handler of the source that the controller
  reports, and then acknowledges that source and no other, at the source register first and the
  pending register last.\<close>

lemma handle_irq_c_acks:
  assumes "handle_irq_c b call irq_array (s, h) = Some (s', h')"
  defines "n \<equiv> unat (b h INTOFFSET)"
  shows "n < length irq_array \<and>
    (\<exists>f h1. irq_array ! n = Some f
       \<and> call f n (s, h @ [Rd32 INTOFFSET (b h INTOFFSET)]) = Some (s', h1)
       \<and> h' = h1 @ [Wr32 SRCPND (bitm n), Wr32 INTPND (bitm n)])"
  using assms
  by (auto simp: handle_irq_c_def mmio_stores split: if_splits option.splits)

lemma handle_irq_c_acks_witness:
  "[Wr32 SRCPND 4, Wr32 INTPND 4] = drop 1 (snd (the
     (handle_irq_c (\<lambda>h a. 2) (\<lambda>f n sh. Some sh) (replicate 32 (Some ())) ((), []))))"
proof -
  have run: "handle_irq_c (\<lambda>h a. 2) (\<lambda>f n sh. Some sh) (replicate 32 (Some ())) ((), [])
      = Some ((), [Rd32 INTOFFSET 2, Wr32 SRCPND 4, Wr32 INTPND 4])"
    by (simp add: handle_irq_c_def mmio_stores)
  from handle_irq_c_acks [OF run] show ?thesis by (auto simp: run)
qed

text \<open>A registered handler is the one that runs, and its source is unmasked.\<close>

lemma register_irq_eq:
  "register_irq b irq fp (tab, h) = Some (tab', h') \<longleftrightarrow>
     irq < length tab \<and> tab' = tab[irq := Some fp] \<and> h' = upd32 b INTMSK (bits_clear (bitm irq)) h"
  by (auto simp: register_irq_def)

lemma key_eint_init_table:
  assumes "length tab = 32"
  shows "\<exists>h'. key_eint_init b f (tab, h) = Some (tab[0 := Some f, 2 := Some f, 5 := Some f], h')"
  using assms by (simp add: key_eint_init_def Let_def register_irq_def)

end
