(* ===== verification/Timer.thy ===== *)
theory Timer
  imports Interrupt Strings
begin

text \<open>
  The timer service and its LED client, \<^verbatim>\<open>timer.c\<close> and \<^verbatim>\<open>led.c\<close> of
  \<^verbatim>\<open>bare_board/code/I2c/20200510_IIC\<close>.  \<^verbatim>\<open>timer_array\<close> holds 32 descriptors with a name and a
  callback; every tick of timer 0 calls the callbacks in slot order.  What a callback does is the
  argument \<open>call\<close>, as for the interrupt table.
\<close>

subsection \<open>The table\<close>

record 'g timer_desc =
  tname :: "string option"
  tfp :: "'g option"

abbreviation TIMER_NUM :: nat where "TIMER_NUM \<equiv> 32"

definition empty_timers :: "'g timer_desc list" where
  "empty_timers = replicate TIMER_NUM \<lparr>tname = None, tfp = None\<rparr>"

definition register_timer ::
  "string \<Rightarrow> 'g \<Rightarrow> 'g timer_desc list \<Rightarrow> 'g timer_desc list \<times> int" where
  "register_timer name fp tab =
     (case first_idx (\<lambda>d. tfp d = None) tab of
        Some i \<Rightarrow> (tab[i := \<lparr>tname = Some name, tfp = Some fp\<rparr>], 0)
      | None \<Rightarrow> (tab, -1))"

text \<open>The search hands every name to \<open>strcmp\<close>, the null names of the free slots too: reading a null
  name is \<open>None\<close>.\<close>

fun find_timer :: "string \<Rightarrow> 'g timer_desc list \<Rightarrow> nat option option" where
  "find_timer name [] = Some None"
| "find_timer name (d # ds) =
     (case tname d of
        None \<Rightarrow> None
      | Some n \<Rightarrow> if strcmp n name = 0 then Some (Some 0)
                  else map_option (map_option Suc) (find_timer name ds))"

definition unregister_timer :: "string \<Rightarrow> 'g timer_desc list \<Rightarrow> 'g timer_desc list option" where
  "unregister_timer name tab =
     (case find_timer name tab of
        None \<Rightarrow> None
      | Some None \<Rightarrow> Some tab
      | Some (Some i) \<Rightarrow> Some (tab[i := \<lparr>tname = None, tfp = None\<rparr>]))"

fun timer_irq ::
  "('g \<Rightarrow> 's \<times> hist \<Rightarrow> ('s \<times> hist) option) \<Rightarrow> 'g timer_desc list \<Rightarrow> 's \<times> hist
   \<Rightarrow> ('s \<times> hist) option" where
  "timer_irq call [] sh = Some sh"
| "timer_irq call (d # ds) sh =
     (case tfp d of
        None \<Rightarrow> timer_irq call ds sh
      | Some f \<Rightarrow> do { sh1 \<leftarrow> call f sh; timer_irq call ds sh1 })"

definition timer_init ::
  "bus \<Rightarrow> 'f \<Rightarrow> 'f option list \<times> hist \<Rightarrow> ('f option list \<times> hist) option" where
  "timer_init b timer_fn th =
     (let h = snd th;
          h = wr32 TCFG0 49 h;
          h = upd32 b TCFG1 (bits_clear 0xf) h;
          h = upd32 b TCFG1 (bits_or 3) h;
          h = wr32 TCNTB0 625 h;
          h = upd32 b TCON (bits_or (bitm 1)) h;
          h = upd32 b TCON (bits_clear (bitm 1)) h;
          h = upd32 b TCON (bits_or (bitm 0 OR bitm 3)) h
      in register_irq b 10 timer_fn (fst th, h))"

subsection \<open>The LEDs\<close>

partial_function (option) delay :: "u32 \<Rightarrow> unit option" where
  "delay d = (if d \<noteq> 0 then delay (d - 1) else Some ())"

record led_state =
  timer_num :: u32
  led_cnt :: u32

definition led_show :: "bus \<Rightarrow> u32 \<Rightarrow> hist \<Rightarrow> hist" where
  "led_show b v h =
     (let tmp = NOT v AND 7;
          h = upd32 b GPFDAT (bits_clear (push_bit 4 7)) h
      in upd32 b GPFDAT (bits_or (push_bit 4 tmp)) h)"

definition led_timer_irq :: "bus \<Rightarrow> led_state \<times> hist \<Rightarrow> led_state \<times> hist" where
  "led_timer_irq b sh =
     (let (s, h) = sh; s = s\<lparr>timer_num := timer_num s + 1\<rparr>
      in if timer_num s <s 50 then (s, h)
         else (let s = s\<lparr>timer_num := 0\<rparr>; s = s\<lparr>led_cnt := led_cnt s + 1\<rparr>
               in (s, led_show b (led_cnt s) h)))"

definition led_pins :: "bus \<Rightarrow> hist \<Rightarrow> hist" where
  "led_pins b h =
     (let h = upd32 b GPFCON (bits_clear (push_bit 8 3 OR push_bit 10 3 OR push_bit 12 3)) h
      in upd32 b GPFCON (bits_or (push_bit 8 1 OR push_bit 10 1 OR push_bit 12 1)) h)"

definition led_init ::
  "bus \<Rightarrow> 'g \<Rightarrow> 'g timer_desc list \<times> hist \<Rightarrow> 'g timer_desc list \<times> hist" where
  "led_init b led_fn th =
     (let h = led_pins b (snd th) in (fst (register_timer ''led'' led_fn (fst th)), h))"

text \<open>\<open>led_test\<close> never returns; these are its first \<open>n\<close> rounds.\<close>

definition led_round :: "bus \<Rightarrow> u32 \<times> hist \<Rightarrow> (u32 \<times> hist) option" where
  "led_round b vh =
     (let h = led_show b (fst vh) (snd vh)
      in do { _ \<leftarrow> delay 100000;
              let val = fst vh + 1;
              Some (if val = 8 then 0 else val, h) })"

fun led_rounds :: "bus \<Rightarrow> nat \<Rightarrow> u32 \<times> hist \<Rightarrow> (u32 \<times> hist) option" where
  "led_rounds b 0 vh = Some vh"
| "led_rounds b (Suc n) vh = do { vh1 \<leftarrow> led_round b vh; led_rounds b n vh1 }"

definition led_test :: "bus \<Rightarrow> nat \<Rightarrow> hist \<Rightarrow> (u32 \<times> hist) option" where
  "led_test b n h = led_rounds b n (0, led_pins b h)"

subsection \<open>The table as a list of callbacks\<close>

text \<open>A slot without a callback has no name, and names are C strings.\<close>

definition timers_ok :: "'g timer_desc list \<Rightarrow> bool" where
  "timers_ok tab \<longleftrightarrow> length tab = TIMER_NUM \<and>
     (\<forall>d \<in> set tab. (tname d = None \<longleftrightarrow> tfp d = None) \<and>
       (\<forall>n. tname d = Some n \<longrightarrow> NUL \<notin> set n))"

definition callbacks :: "'g timer_desc list \<Rightarrow> 'g list" where
  "callbacks tab = List.map_filter tfp tab"

fun run_all :: "('g \<Rightarrow> 'a \<Rightarrow> 'a option) \<Rightarrow> 'g list \<Rightarrow> 'a \<Rightarrow> 'a option" where
  "run_all call [] a = Some a"
| "run_all call (f # fs) a = do { a1 \<leftarrow> call f a; run_all call fs a1 }"

lemma timers_ok_empty: "timers_ok empty_timers"
  by (simp add: timers_ok_def empty_timers_def)

lemma timer_irq_runs: "timer_irq call tab sh = run_all call (callbacks tab) sh"
  unfolding callbacks_def
  by (induction call tab sh rule: timer_irq.induct)
    (simp_all add: List.map_filter_simps split: option.splits cong: Option.bind_cong)

lemma register_timer_ok:
  assumes "timers_ok tab" and "NUL \<notin> set name"
  shows "timers_ok (fst (register_timer name fp tab))"
proof -
  have "(\<forall>d \<in> set (tab[i := \<lparr>tname = Some name, tfp = Some fp\<rparr>]).
      (tname d = None \<longleftrightarrow> tfp d = None) \<and> (\<forall>n. tname d = Some n \<longrightarrow> NUL \<notin> set n))" for i
    using assms set_update_subset_insert [of tab i] by (fastforce simp: timers_ok_def)
  then show ?thesis using assms
    by (simp add: timers_ok_def register_timer_def split: option.split)
qed

lemma find_timer_Some:
  assumes "i < length tab" and "tname (tab ! i) = Some name" and "NUL \<notin> set name"
    and "\<And>j. j < i \<Longrightarrow> \<exists>n. tname (tab ! j) = Some n \<and> NUL \<notin> set n \<and> n \<noteq> name"
  shows "find_timer name tab = Some (Some i)"
  using assms
proof (induction tab arbitrary: i)
  case Nil
  then show ?case by simp
next
  case (Cons d tab)
  show ?case
  proof (cases i)
    case 0
    with Cons.prems show ?thesis by (simp add: strcmp_zero)
  next
    case (Suc k)
    have "find_timer name tab = Some (Some k)"
      using Cons.prems(1-3) Cons.prems(4) [of "Suc _"] Suc by (intro Cons.IH) auto
    with Cons.prems(3) Cons.prems(4) [of 0] Suc show ?thesis by (auto simp: strcmp_zero)
  qed
qed

lemma find_timer_null:
  assumes "timers_ok tab" and "NUL \<notin> set name" and "\<forall>d \<in> set tab. tname d \<noteq> Some name"
    and "\<exists>d \<in> set tab. tfp d = None"
  shows "find_timer name tab = None"
proof -
  have null: "find_timer name ds = None"
    if "\<forall>d \<in> set ds. (tname d = None \<longleftrightarrow> tfp d = None) \<and> (\<forall>n. tname d = Some n \<longrightarrow> NUL \<notin> set n)"
      "\<forall>d \<in> set ds. tname d \<noteq> Some name" "\<exists>d \<in> set ds. tfp d = None" for ds
    using that assms(2) by (induction ds) (auto simp: strcmp_zero split: option.splits)
  show ?thesis by (rule null) (use assms in \<open>auto simp: timers_ok_def\<close>)
qed

subsection \<open>Properties\<close>

lemma callbacks_append: "callbacks (xs @ ys) = callbacks xs @ callbacks ys"
  by (simp add: callbacks_def List.map_filter_def)

lemma callbacks_Cons:
  "callbacks (d # ds) = (case tfp d of None \<Rightarrow> [] | Some f \<Rightarrow> [f]) @ callbacks ds"
  by (simp add: callbacks_def List.map_filter_simps split: option.split)

lemma callbacks_split:
  assumes "i < length tab"
  shows "callbacks tab = callbacks (take i tab)
     @ (case tfp (tab ! i) of None \<Rightarrow> [] | Some f \<Rightarrow> [f]) @ callbacks (drop (Suc i) tab)"
proof -
  have "callbacks tab = callbacks (take i tab @ tab ! i # drop (Suc i) tab)"
    using id_take_nth_drop [OF assms] by simp
  then show ?thesis by (simp only: callbacks_append callbacks_Cons)
qed

text \<open>Registering a timer with a free slot succeeds and adds exactly its callback to those that
  every later tick runs, keeping the others in their order; with the table full it fails and
  changes nothing.\<close>

lemma register_timer_runs:
  assumes "timers_ok tab" and "register_timer name fp tab = (tab', r)"
  shows "if \<exists>d \<in> set tab. tfp d = None
     then r = 0 \<and> (\<exists>fs gs. callbacks tab = fs @ gs
            \<and> (\<forall>call (sh :: 's \<times> hist). timer_irq call tab' sh = run_all call (fs @ fp # gs) sh))
     else r = -1 \<and> tab' = tab"
proof (cases "first_idx (\<lambda>d. tfp d = None) tab")
  case None
  with assms(2) show ?thesis by (auto simp: register_timer_def first_idx_None)
next
  case (Some i)
  from first_idx_SomeD [OF Some] have i: "i < length tab" "tfp (tab ! i) = None" by auto
  have tab': "tab' = tab[i := \<lparr>tname = Some name, tfp = Some fp\<rparr>]" "r = 0"
    using assms(2) Some by (auto simp: register_timer_def)
  have "callbacks tab = callbacks (take i tab) @ callbacks (drop (Suc i) tab)"
    using callbacks_split [OF i(1)] i(2) by simp
  moreover have "callbacks tab' = callbacks (take i tab) @ fp # callbacks (drop (Suc i) tab)"
    using callbacks_split [of i tab'] i(1) by (simp add: tab'(1))
  moreover have "\<exists>d \<in> set tab. tfp d = None" using i nth_mem by blast
  ultimately show ?thesis using tab'(2) by (auto simp: timer_irq_runs)
qed

lemma register_timer_runs_witness:
  "fst (the (timer_irq (\<lambda>f (s, h). Some (f # s, h))
      (fst (register_timer ''a'' (7 :: nat) empty_timers)) ([], []))) = [7]"
proof -
  obtain tab r where reg: "register_timer ''a'' (7 :: nat) empty_timers = (tab, r)" by fastforce
  have "\<exists>d \<in> set (empty_timers :: nat timer_desc list). tfp d = None" by (simp add: empty_timers_def)
  with register_timer_runs [OF timers_ok_empty reg, where 's = "nat list"] obtain fs gs where
    "callbacks empty_timers = fs @ gs"
    "\<And>call (sh :: nat list \<times> hist). timer_irq call tab sh = run_all call (fs @ 7 # gs) sh"
    by auto
  moreover have "callbacks (empty_timers :: nat timer_desc list) = []"
    by (simp add: empty_timers_def callbacks_def List.map_filter_def)
  ultimately show ?thesis by (simp add: reg)
qed

text \<open>unregistering the name just registered restores the table, for a name that was not in
  it.\<close>

lemma unregister_restores:
  assumes "timers_ok tab" and "NUL \<notin> set name" and "\<forall>d \<in> set tab. tname d \<noteq> Some name"
    and "register_timer name fp tab = (tab', 0)"
  shows "unregister_timer name tab' = Some tab"
proof (cases "first_idx (\<lambda>d. tfp d = None) tab")
  case None
  with assms show ?thesis by (simp add: register_timer_def)
next
  case (Some i)
  from first_idx_SomeD [OF Some] have i: "i < length tab" "tfp (tab ! i) = None"
    and before: "\<And>j. j < i \<Longrightarrow> tfp (tab ! j) \<noteq> None" by auto
  have tab': "tab' = tab[i := \<lparr>tname = Some name, tfp = Some fp\<rparr>]"
    using assms(4) Some by (auto simp: register_timer_def)
  have ok: "(tname (tab ! j) = None \<longleftrightarrow> tfp (tab ! j) = None)
      \<and> (\<forall>n. tname (tab ! j) = Some n \<longrightarrow> NUL \<notin> set n \<and> n \<noteq> name)" if "j < length tab" for j
    using assms(1,3) that by (auto simp: timers_ok_def dest: nth_mem)
  have "find_timer name tab' = Some (Some i)"
  proof (rule find_timer_Some)
    show "\<exists>n. tname (tab' ! j) = Some n \<and> NUL \<notin> set n \<and> n \<noteq> name" if "j < i" for j
      using that before [OF that] ok [of j] i by (auto simp: tab')
  qed (use i assms in \<open>simp_all add: tab'\<close>)
  moreover have "tab ! i = \<lparr>tname = None, tfp = None\<rparr>"
    using i ok [of i] by (intro timer_desc.equality) simp_all
  ultimately show ?thesis using i
    by (simp add: unregister_timer_def tab' list_update_same_conv)
qed

lemma unregister_restores_witness:
  "unregister_timer ''led'' (fst (register_timer ''led'' (0 :: nat) empty_timers)) = Some empty_timers"
proof -
  obtain tab r where reg: "register_timer ''led'' (0 :: nat) empty_timers = (tab, r)" by fastforce
  then have "r = 0"
    by (auto simp: register_timer_def empty_timers_def replicate_numeral_eq split: option.splits)
  with unregister_restores [OF timers_ok_empty, of "''led''"] reg show ?thesis
    by (simp add: empty_timers_def)
qed

text \<open>The converse case is the hazard: looking for a name that is not registered while a slot is
  free passes the null name of that slot to \<open>strcmp\<close>.\<close>

lemma unregister_absent_null:
  assumes "timers_ok tab" and "NUL \<notin> set name" and "\<forall>d \<in> set tab. tname d \<noteq> Some name"
    and "\<exists>d \<in> set tab. tfp d = None"
  shows "unregister_timer name tab = None"
  using find_timer_null [OF assms] by (simp add: unregister_timer_def)

subsection \<open>The LEDs count half seconds\<close>

lemma delay_returns: "delay d = Some ()"
proof (induction "unat d" arbitrary: d rule: less_induct)
  case less
  show ?case
  proof (cases "d = 0")
    case True
    then show ?thesis by (simp add: delay.simps)
  next
    case False
    then have "unat (d - 1) < unat d" by (simp add: unat_gt_0 unat_minus_one)
    from less [OF this] False show ?thesis by (subst delay.simps) simp
  qed
qed

definition led_ticks :: "bus \<Rightarrow> nat \<Rightarrow> led_state \<times> hist \<Rightarrow> led_state \<times> hist" where
  "led_ticks b n = led_timer_irq b ^^ n"

lemma led_ticks_Suc: "led_ticks b (Suc n) sh = led_timer_irq b (led_ticks b n sh)"
  by (simp add: led_ticks_def)

lemma led_tick:
  assumes "k < 50"
  shows "led_timer_irq b (\<lparr>timer_num = of_nat k, led_cnt = c\<rparr>, h) =
    (if k < 49 then (\<lparr>timer_num = of_nat (Suc k), led_cnt = c\<rparr>, h)
     else (\<lparr>timer_num = 0, led_cnt = c + 1\<rparr>, led_show b (c + 1) h))"
proof -
  have "sint (of_nat k + 1 :: u32) = int k + 1"
  proof -
    have "(of_nat k + 1 :: u32) = word_of_int (int k + 1)" by simp
    then show ?thesis using assms
      by (simp only: signed_of_int) (simp add: signed_take_bit_int_eq_self)
  qed
  then have "(of_nat k + 1 <s (50 :: u32)) = (k < 49)"
    by (simp add: word_sless_alt)
  then show ?thesis by (simp add: led_timer_irq_def Let_def add.commute)
qed

abbreviation led_field :: u32 where "led_field \<equiv> push_bit 4 7"

lemma led_show_value:
  assumes "ram_like b rst {GPFDAT}"
  shows "b (led_show b v h) GPFDAT AND led_field = push_bit 4 (NOT v AND 7)
    \<and> b (led_show b v h) GPFDAT AND NOT led_field = b h GPFDAT AND NOT led_field"
proof -
  have upd: "b (upd32 b GPFDAT f g) GPFDAT = f (b g GPFDAT)" for f g
    using ram_like_upd32 [OF assms] by simp
  have "b (led_show b v h) GPFDAT = (b h GPFDAT AND NOT led_field) OR push_bit 4 (NOT v AND 7)"
    unfolding led_show_def Let_def upd ..
  moreover have "push_bit 4 (NOT v AND 7) AND NOT led_field = 0"
    "push_bit 4 (NOT v AND 7) AND led_field = push_bit 4 (NOT v AND 7)"
    by (simp_all only: push_bit_and and.assoc and.idem bit.conj_cancel_right bit.conj_zero_right)
  ultimately show ?thesis
    by (simp add: bit.conj_disj_distrib2 and.assoc)
qed

text \<open>The LED timer counts half seconds: after \<open>n\<close> ticks of 10 ms from reset, for every \<open>n\<close>, the
  tick counter is \<open>n mod 50\<close> and the count \<open>n div 50\<close>; from the first half second on the three LED
  bits of the port hold the complement of the low three bits of the count (a lit LED is a zero),
  and every other bit of the port keeps its reset value.\<close>

lemma led_timer_counts:
  assumes "ram_like b rst {GPFDAT}"
  shows "case led_ticks b n (\<lparr>timer_num = 0, led_cnt = 0\<rparr>, []) of (s, h) \<Rightarrow>
     timer_num s = of_nat (n mod 50) \<and> led_cnt s = of_nat (n div 50)
     \<and> b h GPFDAT AND NOT led_field = rst GPFDAT AND NOT led_field
     \<and> b h GPFDAT AND led_field =
         (if n < 50 then rst GPFDAT AND led_field
          else push_bit 4 (NOT (of_nat (n div 50)) AND 7))"
proof (induction n)
  case 0
  show ?case using assms by (simp add: led_ticks_def ram_like_def)
next
  case (Suc n)
  obtain s h where st: "led_ticks b n (\<lparr>timer_num = 0, led_cnt = 0\<rparr>, []) = (s, h)" by fastforce
  with Suc have s: "s = \<lparr>timer_num = of_nat (n mod 50), led_cnt = of_nat (n div 50)\<rparr>" by simp
  show ?case
  proof (cases "n mod 50 < 49")
    case True
    then have "Suc n mod 50 = Suc (n mod 50)" "Suc n div 50 = n div 50" "Suc n < 50 \<longleftrightarrow> n < 50"
      by (auto simp: mod_Suc div_Suc)
    with True Suc st s show ?thesis by (simp add: led_ticks_Suc led_tick)
  next
    case False
    then have "n mod 50 = 49" using mod_less_divisor [of 50 n] by linarith
    then have "Suc n mod 50 = 0" "Suc n div 50 = Suc (n div 50)" "\<not> Suc n < 50"
      by (auto simp: mod_Suc div_Suc)
    with False Suc st s led_show_value [OF assms, of "of_nat (n div 50) + 1" h] show ?thesis
      by (simp add: led_ticks_Suc led_tick add.commute)
  qed
qed

lemma led_timer_counts_witness:
  "case led_ticks (ram_bus (\<lambda>_. 0xFF)) 151 (\<lparr>timer_num = 0, led_cnt = 0\<rparr>, []) of (s, h) \<Rightarrow>
     led_cnt s = 3 \<and> ram_bus (\<lambda>_. 0xFF) h GPFDAT AND led_field = 0x40"
  using led_timer_counts [OF ram_like_ram_bus [of "\<lambda>_. 0xFF"], of 151] by (simp split: prod.splits)

text \<open>The LED test shows the values 0 to 7 in turn, without end.\<close>

lemma led_test_rounds:
  "\<exists>h'. led_test b n h = Some (of_nat (n mod 8), h')"
proof -
  have "\<exists>h'. led_rounds b n (of_nat k, h) = Some (of_nat ((k + n) mod 8), h')" if "k < 8" for k h
    using that
  proof (induction n arbitrary: k h)
    case 0
    then show ?case by simp
  next
    case (Suc n)
    have "(of_nat (Suc k) :: u32) = 8 \<longleftrightarrow> Suc k = 8"
      using Suc.prems of_nat32_eq_iff [of "Suc k" 8] by simp
    then have "fst (the (led_round b (of_nat k, h))) = of_nat (Suc k mod 8)"
      using Suc.prems by (auto simp: led_round_def Let_def delay_returns add.commute mod_Suc)
    then obtain h1 where "led_round b (of_nat k, h) = Some (of_nat (Suc k mod 8), h1)"
      by (auto simp: led_round_def Let_def delay_returns)
    with Suc.IH [of "Suc k mod 8" h1] show ?case by (simp add: mod_simps)
  qed
  from this [of 0] show ?thesis by (simp add: led_test_def)
qed

end
