(* ===== verification/Geometry.thy ===== *)
theory Geometry
  imports Interfaces "HOL-Library.While_Combinator"
begin

text \<open>
  Lines and circles, \<^verbatim>\<open>lcd/geometry.c\<close>, over the pixel operation they call.  The arithmetic is that
  of \<^verbatim>\<open>int\<close> without overflow.  The eight loops of \<^verbatim>\<open>draw_line\<close> are two, one per major axis, with the
  direction of each coordinate as a parameter: \<open>True\<close> for the loops that count up (\<^verbatim>\<open>+= 1\<close>, \<^verbatim>\<open><=\<close>),
  \<open>False\<close> for those that count down (\<^verbatim>\<open>-= 1\<close>, \<^verbatim>\<open>>=\<close>).
\<close>

type_synonym putter = "int \<Rightarrow> int \<Rightarrow> u32 \<Rightarrow> hist \<Rightarrow> hist"

definition more :: "bool \<Rightarrow> int \<Rightarrow> int \<Rightarrow> bool" where
  "more up v end_v = (if up then v \<le> end_v else v \<ge> end_v)"

definition move :: "bool \<Rightarrow> int \<Rightarrow> int" where
  "move up v = (if up then v + 1 else v - 1)"

function line_x ::
  "putter \<Rightarrow> bool \<Rightarrow> bool \<Rightarrow> int \<Rightarrow> int \<Rightarrow> int \<Rightarrow> u32 \<Rightarrow> int \<Rightarrow> int \<Rightarrow> int \<Rightarrow> hist \<Rightarrow> hist" where
  "line_x put upx upy dx dy x2 color x1 y1 e h =
     (if more upx x1 x2 then
        (let h = put x1 y1 color h;
             (y1, e) = (if e > 0 then (move upy y1, e - dx) else (y1, e))
         in line_x put upx upy dx dy x2 color (move upx x1) y1 (e + dy) h)
      else h)"
  by pat_completeness auto
termination
  by (relation "measure (\<lambda>(put, upx, upy, dx, dy, x2, c, x1, y1, e, h).
        nat (if upx then x2 - x1 + 1 else x1 - x2 + 1))")
    (auto simp: more_def move_def)

function line_y ::
  "putter \<Rightarrow> bool \<Rightarrow> bool \<Rightarrow> int \<Rightarrow> int \<Rightarrow> int \<Rightarrow> u32 \<Rightarrow> int \<Rightarrow> int \<Rightarrow> int \<Rightarrow> hist \<Rightarrow> hist" where
  "line_y put upx upy dx dy y2 color x1 y1 e h =
     (if more upy y1 y2 then
        (let h = put x1 y1 color h;
             (x1, e) = (if e > 0 then (move upx x1, e - dy) else (x1, e))
         in line_y put upx upy dx dy y2 color x1 (move upy y1) (e + dx) h)
      else h)"
  by pat_completeness auto
termination
  by (relation "measure (\<lambda>(put, upx, upy, dx, dy, y2, c, x1, y1, e, h).
        nat (if upy then y2 - y1 + 1 else y1 - y2 + 1))")
    (auto simp: more_def move_def)

declare line_x.simps [simp del] line_y.simps [simp del]

definition draw_line :: "putter \<Rightarrow> int \<Rightarrow> int \<Rightarrow> int \<Rightarrow> int \<Rightarrow> u32 \<Rightarrow> hist \<Rightarrow> hist" where
  "draw_line put x1 y1 x2 y2 color h =
     (let dx = x2 - x1; dy = y2 - y1
      in if dx \<ge> 0 then
           (if dy \<ge> 0 then
              (if dx \<ge> dy then line_x put True True dx dy x2 color x1 y1 (dy - dx sdiv 2) h
               else line_y put True True dx dy y2 color x1 y1 (dx - dy sdiv 2) h)
            else
              (let dy = - dy
               in if dx \<ge> dy then line_x put True False dx dy x2 color x1 y1 (dy - dx sdiv 2) h
                  else line_y put True False dx dy y2 color x1 y1 (dx - dy sdiv 2) h))
         else
           (let dx = - dx
            in if dy \<ge> 0 then
                 (if dx \<ge> dy then line_x put False True dx dy x2 color x1 y1 (dy - dx sdiv 2) h
                  else line_y put False True dx dy y2 color x1 y1 (dx - dy sdiv 2) h)
               else
                 (let dy = - dy
                  in if dx \<ge> dy then line_x put False False dx dy x2 color x1 y1 (dy - dx sdiv 2) h
                     else line_y put False False dx dy y2 color x1 y1 (dx - dy sdiv 2) h)))"

definition fb_disp_cross :: "putter \<Rightarrow> int \<Rightarrow> int \<Rightarrow> u32 \<Rightarrow> hist \<Rightarrow> hist" where
  "fb_disp_cross put x y color h =
     (let h = draw_line put (x - 10) y (x + 10) y color h
      in draw_line put x (y - 10) x (y + 10) color h)"

definition put8 :: "putter \<Rightarrow> int \<Rightarrow> int \<Rightarrow> int \<Rightarrow> int \<Rightarrow> u32 \<Rightarrow> hist \<Rightarrow> hist" where
  "put8 put x y a b color h =
     (let h = put (x + a) (y - b) color h;
          h = put (x - a) (y - b) color h;
          h = put (x - a) (y + b) color h;
          h = put (x + a) (y + b) color h;
          h = put (x + b) (y + a) color h;
          h = put (x + b) (y - a) color h;
          h = put (x - b) (y - a) color h
      in put (x - b) (y + a) color h)"

definition circle_step ::
  "putter \<Rightarrow> int \<Rightarrow> int \<Rightarrow> int \<Rightarrow> u32 \<Rightarrow> int \<times> int \<times> hist \<Rightarrow> int \<times> int \<times> hist" where
  "circle_step put x y r color = (\<lambda>(a, b, h).
     (let h = put8 put x y a b color h;
          a = a + 1;
          num = (a * a + b * b) - r * r
      in if num > 0 then (a - 1, b - 1, h) else (a, b, h)))"

definition circle_loop ::
  "putter \<Rightarrow> int \<Rightarrow> int \<Rightarrow> int \<Rightarrow> u32 \<Rightarrow> int \<times> int \<times> hist \<Rightarrow> (int \<times> int \<times> hist) option" where
  "circle_loop put x y r color =
     while_option (\<lambda>(a, b, h). 22 * b * b \<ge> r * r) (circle_step put x y r color)"

definition draw_circle :: "putter \<Rightarrow> int \<Rightarrow> int \<Rightarrow> int \<Rightarrow> u32 \<Rightarrow> hist \<Rightarrow> hist option" where
  "draw_circle put x y r color h =
     map_option (\<lambda>(a, b, h). h) (circle_loop put x y r color (0, r, h))"

subsection \<open>The reference line\<close>

text \<open>The point of a line with long side \<open>M\<close> and short side \<open>m\<close> at distance \<open>i\<close> along the long side
  is the exact height \<open>m i / M\<close> rounded to the nearest integer.\<close>

definition rnd :: "int \<Rightarrow> int \<Rightarrow> int \<Rightarrow> int" where
  "rnd m M i = (m * i + (M - 1 - M div 2)) div M"

definition sg :: "bool \<Rightarrow> int" where
  "sg up = (if up then 1 else -1)"

definition line_points :: "int \<Rightarrow> int \<Rightarrow> int \<Rightarrow> int \<Rightarrow> point list" where
  "line_points x1 y1 x2 y2 =
     (let dx = x2 - x1; dy = y2 - y1; sx = sg (dx \<ge> 0); sy = sg (dy \<ge> 0)
      in if \<bar>dx\<bar> \<ge> \<bar>dy\<bar> then map (\<lambda>i. (x1 + sx * i, y1 + sy * rnd \<bar>dy\<bar> \<bar>dx\<bar> i)) [0..\<bar>dx\<bar>]
         else map (\<lambda>i. (x1 + sx * rnd \<bar>dx\<bar> \<bar>dy\<bar> i, y1 + sy * i)) [0..\<bar>dy\<bar>])"

text \<open>The error term of the loop is that of the rounding.\<close>

lemma rnd_0: "0 \<le> M \<Longrightarrow> rnd m M 0 = 0"
  by (cases "M = 0") (auto simp: rnd_def intro: div_pos_pos_trivial)

lemma rnd_step:
  assumes "0 < M" and "0 \<le> m" and "m \<le> M"
  shows "rnd m M (i + 1) =
    (if m * (i + 1) - M div 2 - M * rnd m M i > 0 then rnd m M i + 1 else rnd m M i)"
proof -
  define k where "k = rnd m M i"
  define c where "c = M - 1 - M div 2"
  have k: "M * k \<le> m * i + c" "m * i + c < M * k + M"
  proof -
    have "M * k = m * i + c - (m * i + c) mod M"
      by (simp add: k_def rnd_def c_def minus_mod_eq_mult_div)
    moreover have "0 \<le> (m * i + c) mod M" "(m * i + c) mod M < M" using assms(1) by simp_all
    ultimately show "M * k \<le> m * i + c" "m * i + c < M * k + M" by linarith+
  qed
  have e: "m * (i + 1) - M div 2 - M * k > 0 \<longleftrightarrow> M * (k + 1) \<le> m * (i + 1) + c"
    by (auto simp: c_def algebra_simps)
  have up: "m * (i + 1) + c < M * (k + 1) + M"
    using k assms by (simp add: algebra_simps)
  show ?thesis
  proof (cases "M * (k + 1) \<le> m * (i + 1) + c")
    case True
    have "(m * (i + 1) + c) div M = k + 1"
      using True up assms(1) by (intro int_div_pos_eq [of _ _ _ "m * (i + 1) + c - M * (k + 1)"]) auto
    with True e show ?thesis by (simp add: k_def [symmetric]) (simp add: rnd_def c_def)
  next
    case False
    have "M * k \<le> m * (i + 1) + c" using k assms by (simp add: algebra_simps)
    then have "(m * (i + 1) + c) div M = k"
      using False assms(1) by (intro int_div_pos_eq [of _ _ _ "m * (i + 1) + c - M * k"]) (auto simp: algebra_simps)
    with False e show ?thesis by (simp add: k_def [symmetric]) (simp add: rnd_def c_def)
  qed
qed

context pixel_sink begin

lemma line_x_done: "\<not> more upx x1 x2 \<Longrightarrow> line_x put upx upy dx dy x2 c x1 y1 e h = h"
  by (simp add: line_x.simps)

lemma line_y_done: "\<not> more upy y1 y2 \<Longrightarrow> line_y put upx upy dx dy y2 c x1 y1 e h = h"
  by (simp add: line_y.simps)

lemma line_x_paints:
  assumes "0 \<le> m" and "m \<le> M"
  shows "0 \<le> i \<Longrightarrow> i \<le> M + 1 \<Longrightarrow>
    line_x put upx upy M m (x1 + sg upx * M) c (x1 + sg upx * i) (y1 + sg upy * rnd m M i)
      (m * (i + 1) - M div 2 - M * rnd m M i) h
    = paint c (map (\<lambda>j. (x1 + sg upx * j, y1 + sg upy * rnd m M j)) [i..M]) h"
proof (induction "nat (M + 1 - i)" arbitrary: i h)
  case 0
  then have "i = M + 1" by simp
  then show ?case by (simp add: line_x_done more_def sg_def)
next
  case (Suc n)
  then have iM: "i \<le> M" by simp
  define x where "x = x1 + sg upx * i"
  define y where "y = y1 + sg upy * rnd m M i"
  define e where "e = m * (i + 1) - M div 2 - M * rnd m M i"
  have nx: "move upx x = x1 + sg upx * (i + 1)" by (simp add: x_def move_def sg_def)
  have "more upx x (x1 + sg upx * M)" using iM by (simp add: x_def more_def sg_def)
  then have "line_x put upx upy M m (x1 + sg upx * M) c x y e h =
      line_x put upx upy M m (x1 + sg upx * M) c (x1 + sg upx * (i + 1))
        (if e > 0 then move upy y else y) ((if e > 0 then e - M else e) + m) (put x y c h)"
    by (subst line_x.simps) (simp add: nx Let_def)
  also have "\<dots> = paint c (map (\<lambda>j. (x1 + sg upx * j, y1 + sg upy * rnd m M j)) [i + 1..M]) (put x y c h)"
  proof (cases "i = M")
    case True
    then show ?thesis by (simp add: line_x_done more_def sg_def)
  next
    case False
    then have M: "0 < M" using iM Suc.prems by simp
    have "(if e > 0 then move upy y else y) = y1 + sg upy * rnd m M (i + 1)"
      using rnd_step [OF M assms, of i] by (simp add: e_def y_def move_def sg_def)
    moreover have "(if e > 0 then e - M else e) + m
        = m * (i + 1 + 1) - M div 2 - M * rnd m M (i + 1)"
      using rnd_step [OF M assms, of i] by (simp add: e_def algebra_simps)
    ultimately show ?thesis
      using Suc.hyps(1) [of "i + 1"] Suc.hyps(2) Suc.prems iM by simp
  qed
  also have "\<dots> = paint c (map (\<lambda>j. (x1 + sg upx * j, y1 + sg upy * rnd m M j)) [i..M]) h"
    using iM by (simp add: paint_put x_def y_def upto_rec1)
  finally show ?case by (simp add: x_def y_def e_def)
qed

lemma line_y_paints:
  assumes "0 \<le> m" and "m \<le> M"
  shows "0 \<le> i \<Longrightarrow> i \<le> M + 1 \<Longrightarrow>
    line_y put upx upy m M (y1 + sg upy * M) c (x1 + sg upx * rnd m M i) (y1 + sg upy * i)
      (m * (i + 1) - M div 2 - M * rnd m M i) h
    = paint c (map (\<lambda>j. (x1 + sg upx * rnd m M j, y1 + sg upy * j)) [i..M]) h"
proof (induction "nat (M + 1 - i)" arbitrary: i h)
  case 0
  then have "i = M + 1" by simp
  then show ?case by (simp add: line_y_done more_def sg_def)
next
  case (Suc n)
  then have iM: "i \<le> M" by simp
  define x where "x = x1 + sg upx * rnd m M i"
  define y where "y = y1 + sg upy * i"
  define e where "e = m * (i + 1) - M div 2 - M * rnd m M i"
  have ny: "move upy y = y1 + sg upy * (i + 1)" by (simp add: y_def move_def sg_def)
  have "more upy y (y1 + sg upy * M)" using iM by (simp add: y_def more_def sg_def)
  then have "line_y put upx upy m M (y1 + sg upy * M) c x y e h =
      line_y put upx upy m M (y1 + sg upy * M) c (if e > 0 then move upx x else x)
        (y1 + sg upy * (i + 1)) ((if e > 0 then e - M else e) + m) (put x y c h)"
    by (subst line_y.simps) (simp add: ny Let_def)
  also have "\<dots> = paint c (map (\<lambda>j. (x1 + sg upx * rnd m M j, y1 + sg upy * j)) [i + 1..M]) (put x y c h)"
  proof (cases "i = M")
    case True
    then show ?thesis by (simp add: line_y_done more_def sg_def)
  next
    case False
    then have M: "0 < M" using iM Suc.prems by simp
    have "(if e > 0 then move upx x else x) = x1 + sg upx * rnd m M (i + 1)"
      using rnd_step [OF M assms, of i] by (simp add: e_def x_def move_def sg_def)
    moreover have "(if e > 0 then e - M else e) + m
        = m * (i + 1 + 1) - M div 2 - M * rnd m M (i + 1)"
      using rnd_step [OF M assms, of i] by (simp add: e_def algebra_simps)
    ultimately show ?thesis
      using Suc.hyps(1) [of "i + 1"] Suc.hyps(2) Suc.prems iM by simp
  qed
  also have "\<dots> = paint c (map (\<lambda>j. (x1 + sg upx * rnd m M j, y1 + sg upy * j)) [i..M]) h"
    using iM by (simp add: paint_put x_def y_def upto_rec1)
  finally show ?case by (simp add: x_def y_def e_def)
qed

lemma draw_line_paints: "draw_line put x1 y1 x2 y2 c h = paint c (line_points x1 y1 x2 y2) h"
proof -
  define M where "M = \<bar>x2 - x1\<bar>"
  define N where "N = \<bar>y2 - y1\<bar>"
  have pos: "0 \<le> M" "0 \<le> N" by (simp_all add: M_def N_def)
  have x2: "x1 + sg (x2 - x1 \<ge> 0) * M = x2" and y2: "y1 + sg (y2 - y1 \<ge> 0) * N = y2"
    by (simp_all add: M_def N_def sg_def)
  have X: "line_x put upx upy M N x2 c x1 y1 (N - M sdiv 2) h
      = paint c (map (\<lambda>j. (x1 + sg upx * j, y1 + sg upy * rnd N M j)) [0..M]) h"
    if "N \<le> M" "x2 = x1 + sg upx * M" for upx upy
    using line_x_paints [of N M 0 upx upy x1 c y1 h] that pos by (simp add: rnd_0 sdiv_nonneg)
  have Y: "line_y put upx upy M N y2 c x1 y1 (M - N sdiv 2) h
      = paint c (map (\<lambda>j. (x1 + sg upx * rnd M N j, y1 + sg upy * j)) [0..N]) h"
    if "M \<le> N" "y2 = y1 + sg upy * N" for upx upy
    using line_y_paints [of M N 0 upx upy y1 c x1 h] that pos by (simp add: rnd_0 sdiv_nonneg)
  show ?thesis
  proof (cases "N \<le> M")
    case True
    have "draw_line put x1 y1 x2 y2 c h
        = line_x put (x2 - x1 \<ge> 0) (y2 - y1 \<ge> 0) M N x2 c x1 y1 (N - M sdiv 2) h"
      using True by (cases "x2 - x1 \<ge> 0"; cases "y2 - y1 \<ge> 0")
        (simp_all add: draw_line_def Let_def M_def N_def abs_if)
    also have "\<dots> = paint c (line_points x1 y1 x2 y2) h"
      unfolding X [OF True x2 [symmetric]]
      using True by (simp add: line_points_def Let_def M_def N_def)
    finally show ?thesis .
  next
    case False
    have "draw_line put x1 y1 x2 y2 c h
        = line_y put (x2 - x1 \<ge> 0) (y2 - y1 \<ge> 0) M N y2 c x1 y1 (M - N sdiv 2) h"
      using False by (cases "x2 - x1 \<ge> 0"; cases "y2 - y1 \<ge> 0")
        (simp_all add: draw_line_def Let_def M_def N_def abs_if)
    also have "\<dots> = paint c (line_points x1 y1 x2 y2) h"
      unfolding Y [OF less_imp_le [OF False [unfolded not_le]] y2 [symmetric]]
      using False by (simp add: line_points_def Let_def M_def N_def)
    finally show ?thesis .
  qed
qed

end

subsection \<open>The reference line is the line\<close>

lemma rnd_error:
  assumes "0 \<le> M"
  shows "2 * \<bar>M * rnd m M i - m * i\<bar> \<le> M \<or> M = 0"
proof (cases "M = 0")
  case False
  define c where "c = M - 1 - M div 2"
  have M: "0 < M" using assms False by simp
  have "M * rnd m M i = m * i + c - (m * i + c) mod M"
    by (simp add: rnd_def c_def minus_mod_eq_mult_div)
  moreover have "0 \<le> (m * i + c) mod M" "(m * i + c) mod M < M" using M by simp_all
  ultimately have d: "M * rnd m M i - m * i \<le> c" "c - (M - 1) \<le> M * rnd m M i - m * i" by linarith+
  have M2: "2 * c \<le> M" "M - 1 - c = M div 2" "2 * (M div 2) \<le> M"
    unfolding c_def by presburger+
  have "2 * \<bar>k\<bar> \<le> M" if "k \<le> c" "c - (M - 1) \<le> k" for k
    using that M2 by linarith
  from this [OF d] have "2 * \<bar>M * rnd m M i - m * i\<bar> \<le> M" .
  then show ?thesis ..
qed simp

lemma rnd_end:
  assumes "0 \<le> M" and "0 \<le> m" and "m \<le> M"
  shows "rnd m M M = m"
proof (cases "M = 0")
  case True
  with assms show ?thesis by (simp add: rnd_def)
next
  case False
  then have "(M - 1 - M div 2) div M = 0" using assms by (intro div_pos_pos_trivial) simp_all
  with False show ?thesis by (simp add: rnd_def div_mult_self3)
qed

text \<open>Twice the distance of a point from the line, times the length of the long side.\<close>

definition line_error :: "int \<Rightarrow> int \<Rightarrow> int \<Rightarrow> int \<Rightarrow> point \<Rightarrow> int" where
  "line_error x1 y1 x2 y2 p = 2 * \<bar>(x2 - x1) * (snd p - y1) - (y2 - y1) * (fst p - x1)\<bar>"

lemma line_points_error:
  "list_all (\<lambda>p. line_error x1 y1 x2 y2 p \<le> max \<bar>x2 - x1\<bar> \<bar>y2 - y1\<bar>) (line_points x1 y1 x2 y2)"
proof -
  define M where "M = \<bar>x2 - x1\<bar>"
  define N where "N = \<bar>y2 - y1\<bar>"
  have dx: "x2 - x1 = sg (x2 - x1 \<ge> 0) * M" and dy: "y2 - y1 = sg (y2 - y1 \<ge> 0) * N"
    by (simp_all add: M_def N_def sg_def)
  have E: "\<bar>(x2 - x1) * (sg (y1 \<le> y2) * k) - (y2 - y1) * (sg (x1 \<le> x2) * i)\<bar> = \<bar>M * k - N * i\<bar>"
    for k i
    by (subst dx, subst dy) (simp add: sg_def abs_minus_commute)
  have "2 * \<bar>M * rnd N M i - N * i\<bar> \<le> M" if "N \<le> M" "0 \<le> i" "i \<le> M" for i
    using rnd_error [of M N i] that by (auto simp: M_def N_def rnd_def)
  moreover have "2 * \<bar>M * i - N * rnd M N i\<bar> \<le> N" if "M \<le> N" "0 \<le> i" "i \<le> N" for i
    using rnd_error [of N M i] that by (auto simp: M_def N_def rnd_def abs_minus_commute)
  ultimately show ?thesis
    unfolding line_points_def line_error_def Let_def M_def [symmetric] N_def [symmetric] list_all_iff
    by (auto simp: E)
qed

lemma line_points_shape:
  "length (line_points x1 y1 x2 y2) = nat (max \<bar>x2 - x1\<bar> \<bar>y2 - y1\<bar> + 1)"
  "hd (line_points x1 y1 x2 y2) = (x1, y1)"
  "last (line_points x1 y1 x2 y2) = (x2, y2)"
proof -
  have up: "[0..M] \<noteq> []" "hd [0..M] = 0" "last [0..M] = M" if "0 \<le> M" for M :: int
  proof -
    show "[0..M] \<noteq> []" using that by simp
    show "hd [0..M] = 0" using upto_rec1 [OF that] by simp
    show "last [0..M] = M" using upto_rec2 [OF that] by simp
  qed
  show "length (line_points x1 y1 x2 y2) = nat (max \<bar>x2 - x1\<bar> \<bar>y2 - y1\<bar> + 1)"
    by (simp add: line_points_def Let_def max_def)
  show "hd (line_points x1 y1 x2 y2) = (x1, y1)"
    by (simp add: line_points_def Let_def hd_map up rnd_0)
  show "last (line_points x1 y1 x2 y2) = (x2, y2)"
    by (simp add: line_points_def Let_def last_map up rnd_end sg_def)
qed

subsection \<open>Circles\<close>

text \<open>A point inside the circle whose outer diagonal neighbour is outside.\<close>

definition on_rim :: "int \<Rightarrow> int \<Rightarrow> int \<Rightarrow> point \<Rightarrow> bool" where
  "on_rim x y r p \<longleftrightarrow>
     (fst p - x)\<^sup>2 + (snd p - y)\<^sup>2 \<le> r\<^sup>2 \<and> r\<^sup>2 < (\<bar>fst p - x\<bar> + 1)\<^sup>2 + (\<bar>snd p - y\<bar> + 1)\<^sup>2"

definition octants :: "int \<Rightarrow> int \<Rightarrow> int \<Rightarrow> int \<Rightarrow> point list" where
  "octants x y a b =
     [(x + a, y - b), (x - a, y - b), (x - a, y + b), (x + a, y + b),
      (x + b, y + a), (x + b, y - a), (x - b, y - a), (x - b, y + a)]"

lemma octants_on_rim:
  assumes "0 \<le> a" and "0 \<le> b" and "a * a + b * b \<le> r * r" and "r * r < (a + 1) * (a + 1) + (b + 1) * (b + 1)"
  shows "list_all (on_rim x y r) (octants x y a b)"
  using assms by (simp add: octants_def on_rim_def power2_eq_square algebra_simps)

lemma square_bound: "a * a + b * b \<le> r * r \<Longrightarrow> 0 < r \<Longrightarrow> a \<le> r" for a b r :: int
proof -
  assume le: "a * a + b * b \<le> r * r" and "0 < r"
  have "a * a \<le> r * r" by (rule order_trans [OF _ le]) simp
  then have "a\<^sup>2 \<le> r\<^sup>2" by (simp only: power2_eq_square)
  then show "a \<le> r" by (rule power2_le_imp_le) (use \<open>0 < r\<close> in simp)
qed

context pixel_sink begin

lemma put8_paints: "put8 put x y a b c h = paint c (octants x y a b) h"
  by (simp add: put8_def octants_def paint_def put_eq Let_def)

lemma circle_loop_paints:
  assumes "0 < r"
  shows "0 \<le> a \<Longrightarrow> 0 \<le> b \<Longrightarrow> a * a + b * b \<le> r * r \<Longrightarrow>
    r * r < (a + 1) * (a + 1) + (b + 1) * (b + 1) \<Longrightarrow>
    \<exists>ps a' b'. circle_loop put x y r c (a, b, h) = Some (a', b', paint c ps h)
      \<and> list_all (on_rim x y r) ps"
proof (induction "nat (r - a + 2 * b)" arbitrary: a b h rule: less_induct)
  case less
  show ?case
  proof (cases "22 * b * b \<ge> r * r")
    case False
    then show ?thesis
      by (intro exI [of _ "[]"]) (simp add: circle_loop_def, subst while_option_unfold, simp)
  next
    case True
    have "b \<noteq> 0"
    proof
      assume "b = 0"
      with True have "r * r \<le> 0" by simp
      with mult_pos_pos [OF assms assms] show False by linarith
    qed
    with less.prems(2) have "0 < b" by linarith
    have "a \<le> r" using less.prems(3) assms by (rule square_bound)
    have rim: "list_all (on_rim x y r) (octants x y a b)"
      using less.prems by (intro octants_on_rim)
    have step: "circle_loop put x y r c (a, b, h) = circle_loop put x y r c
        (if ((a + 1) * (a + 1) + b * b) - r * r > 0
         then (a, b - 1, paint c (octants x y a b) h)
         else (a + 1, b, paint c (octants x y a b) h))"
      using True unfolding circle_loop_def
      by (subst while_option_unfold) (simp add: circle_step_def put8_paints Let_def)
    have "\<exists>ps a' b'. circle_loop put x y r c (a, b, h)
        = Some (a', b', paint c ps (paint c (octants x y a b) h)) \<and> list_all (on_rim x y r) ps"
    proof (cases "((a + 1) * (a + 1) + b * b) - r * r > 0")
      case True': True
      have "(b - 1) * (b - 1) = b * b - 2 * b + 1" by (simp add: algebra_simps)
      then have "a * a + (b - 1) * (b - 1) \<le> r * r"
        "r * r < (a + 1) * (a + 1) + (b - 1 + 1) * (b - 1 + 1)"
        using less.prems(3) \<open>0 < b\<close> True' by simp_all
      with less.hyps [of a "b - 1"] less.prems(1) \<open>0 < b\<close> \<open>a \<le> r\<close> True' show ?thesis
        unfolding step by simp
    next
      case False
      have "(a + 1 + 1) * (a + 1 + 1) = (a + 1) * (a + 1) + 2 * a + 3" by (simp add: algebra_simps)
      then have "(a + 1) * (a + 1) + b * b \<le> r * r"
        "r * r < (a + 1 + 1) * (a + 1 + 1) + (b + 1) * (b + 1)"
        using less.prems False by linarith+
      with less.hyps [of "a + 1" b] less.prems(1,2) \<open>0 < b\<close> \<open>a \<le> r\<close> False show ?thesis
        unfolding step by simp
    qed
    then obtain ps a' b' where
      "circle_loop put x y r c (a, b, h) = Some (a', b', paint c (octants x y a b @ ps) h)"
      "list_all (on_rim x y r) (octants x y a b @ ps)"
      using rim by (auto simp: paint_append)
    then show ?thesis by blast
  qed
qed

lemma draw_circle_paints:
  assumes "0 < r"
  shows "\<exists>ps. draw_circle put x y r c h = Some (paint c ps h) \<and> list_all (on_rim x y r) ps"
proof -
  have "r * r < (0 + 1) * (0 + 1) + (r + 1) * (r + 1)" using assms by (simp add: algebra_simps)
  with circle_loop_paints [OF assms, of 0 r x y c h] assms show ?thesis
    by (fastforce simp: draw_circle_def)
qed

text \<open>With a radius that is not positive the loop never ends.\<close>

lemma draw_circle_diverges:
  assumes "r \<le> 0"
  shows "draw_circle put x y r c h = None"
proof -
  define inv where "inv = (\<lambda>(a :: int, b :: int, h :: hist). b \<le> r \<and> 0 \<le> a)"
  have "circle_loop put x y r c (0, r, h) = None"
  proof (rule ccontr)
    assume "circle_loop put x y r c (0, r, h) \<noteq> None"
    then obtain a b h' where run: "circle_loop put x y r c (0, r, h) = Some (a, b, h')"
      by (cases "circle_loop put x y r c (0, r, h)") auto
    have "inv (circle_step put x y r c s)" if "inv s" for s
      using that by (auto simp: inv_def circle_step_def Let_def split: prod.splits)
    then have "inv (a, b, h')"
      using while_option_rule [of inv, OF _ run [unfolded circle_loop_def]] by (simp add: inv_def)
    then have "b \<le> r" by (simp add: inv_def)
    then have "(- r) * (- r) \<le> (- b) * (- b)" using assms by (intro mult_mono) auto
    then have "r * r \<le> b * b" by simp
    moreover have "22 * b * b = 22 * (b * b)" by simp
    ultimately have "22 * b * b \<ge> r * r" using zero_le_square [of b] by linarith
    with while_option_stop [OF run [unfolded circle_loop_def]] show False by simp
  qed
  then show ?thesis by (simp add: draw_circle_def)
qed

end

end
