(* ===== verification/Framebuffer.thy ===== *)
theory Framebuffer
  imports Lcd Timer Geometry
begin

text \<open>
  The frame buffer, \<^verbatim>\<open>lcd/framebuffer.c\<close>: the address of a pixel, a single pixel in the three
  depths, and filling the screen.  The statics of the file are the record \<open>fb\<close>.
\<close>

record fb =
  fb_base :: u32
  xres :: int
  yres :: int
  bpp :: int

definition fb_get_lcd_params :: "lcd_state \<Rightarrow> fb option" where
  "fb_get_lcd_params s =
     map_option (\<lambda>(f, x, y, d). \<lparr>fb_base = f, xres = x, yres = y, bpp = d\<rparr>) (get_lcd_params s)"

definition convert32bppto16bpp :: "u32 \<Rightarrow> u16" where
  "convert32bppto16bpp rgb =
     (let r = drop_bit 16 rgb AND 0xff;
          g = drop_bit 8 rgb AND 0xff;
          b = rgb AND 0xff;
          r = drop_bit 3 r;
          g = drop_bit 2 g;
          b = drop_bit 3 b
      in ucast (push_bit 11 r OR push_bit 5 g OR b))"

definition pixel_base :: "fb \<Rightarrow> int \<Rightarrow> int \<Rightarrow> u32" where
  "pixel_base f x y =
     fb_base f + of_int (((xres f * bpp f) sdiv 8) * y) + of_int ((x * bpp f) sdiv 8)"

definition fb_put_pixel :: "fb \<Rightarrow> int \<Rightarrow> int \<Rightarrow> u32 \<Rightarrow> hist \<Rightarrow> hist" where
  "fb_put_pixel f x y color h =
     (let a = pixel_base f x y
      in if bpp f = 8 then wr8 a (ucast color) h
         else if bpp f = 16 then wr16 a (convert32bppto16bpp color) h
         else if bpp f = 32 then wr32 a color h
         else h)"

text \<open>The fill loops: \<open>x\<close> outside, \<open>y\<close> inside, one store and one step of the pointer each.\<close>

fun fill_inner :: "(u32 \<Rightarrow> hist \<Rightarrow> hist) \<Rightarrow> u32 \<Rightarrow> nat \<Rightarrow> u32 \<Rightarrow> hist \<Rightarrow> u32 \<times> hist" where
  "fill_inner st sz 0 p h = (p, h)"
| "fill_inner st sz (Suc n) p h = fill_inner st sz n (p + sz) (st p h)"

fun fill_outer :: "(u32 \<Rightarrow> hist \<Rightarrow> hist) \<Rightarrow> u32 \<Rightarrow> nat \<Rightarrow> nat \<Rightarrow> u32 \<Rightarrow> hist \<Rightarrow> hist" where
  "fill_outer st sz ys 0 p h = h"
| "fill_outer st sz ys (Suc n) p h =
     (let (p, h) = fill_inner st sz ys p h in fill_outer st sz ys n p h)"

definition clear_screen :: "fb \<Rightarrow> u32 \<Rightarrow> hist \<Rightarrow> hist" where
  "clear_screen f color h =
     (if bpp f = 8 then
        fill_outer (\<lambda>p. wr8 p (ucast color)) 1 (nat (yres f)) (nat (xres f)) (fb_base f) h
      else if bpp f = 16 then
        fill_outer (\<lambda>p. wr16 p (convert32bppto16bpp color)) 2 (nat (yres f)) (nat (xres f)) (fb_base f) h
      else if bpp f = 32 then
        fill_outer (\<lambda>p. wr32 p color) 4 (nat (yres f)) (nat (xres f)) (fb_base f) h
      else h)"

subsection \<open>The frame buffer is a pixel sink\<close>

definition fb_pix :: "fb \<Rightarrow> u32 \<Rightarrow> point \<Rightarrow> hist" where
  "fb_pix f c p =
     (let a = pixel_base f (fst p) (snd p)
      in if bpp f = 8 then [Wr8 a (ucast c)]
         else if bpp f = 16 then [Wr16 a (convert32bppto16bpp c)]
         else if bpp f = 32 then [Wr32 a c]
         else [])"

interpretation fb: pixel_sink "fb_put_pixel f" "fb_pix f" for f
  by unfold_locales (simp add: fb_put_pixel_def fb_pix_def mmio_defs Let_def)

subsection \<open>Pixels stay in the buffer and do not overlap\<close>







subsection \<open>Filling covers the buffer\<close>

lemma fill_inner_eq:
  assumes "\<And>p h. st p h = h @ [ev p]"
  shows "fill_inner st sz n p h
    = (p + of_nat n * sz, h @ map (\<lambda>k. ev (p + of_nat k * sz)) [0..<n])"
proof (induction n arbitrary: p h)
  case 0
  show ?case by simp
next
  case (Suc n)
  have "map (\<lambda>k. ev (p + of_nat k * sz)) [0..<Suc n]
      = ev p # map (\<lambda>k. ev (p + sz + of_nat k * sz)) [0..<n]"
    by (simp add: upt_conv_Cons map_Suc_upt [symmetric] algebra_simps del: upt_Suc)
  with Suc show ?case by (simp add: assms algebra_simps del: upt_Suc)
qed

lemma fill_outer_eq:
  assumes "\<And>p h. st p h = h @ [ev p]"
  shows "fill_outer st sz ys xs p h = h @ map (\<lambda>k. ev (p + of_nat k * sz)) [0..<xs * ys]"
proof (induction xs arbitrary: p h)
  case 0
  show ?case by simp
next
  case (Suc xs)
  have "[0..<ys + xs * ys] = [0..<ys] @ [ys..<ys + xs * ys]"
    by (rule upt_add_eq_append) simp
  also have "[ys..<ys + xs * ys] = map (\<lambda>k. k + ys) [0..<xs * ys]"
    by (simp only: map_add_upt add.commute)
  finally have split: "[0..<Suc xs * ys] = [0..<ys] @ map (\<lambda>k. k + ys) [0..<xs * ys]" by simp
  have shift: "p + of_nat ys * sz + of_nat k * sz = p + of_nat (k + ys) * sz" for k
    by (simp add: algebra_simps)
  show ?case
    unfolding split fill_outer.simps fill_inner_eq [of st ev, OF assms] Let_def prod.case Suc
    by (simp only: map_append append_assoc map_map comp_def shift)
qed

text \<open>Clearing the screen stores the colour exactly once at every pixel address of the buffer, in
  address order, and nowhere else, in the three depths.\<close>

lemma clear_screen_fills:
  assumes "bpp f \<in> {8, 16, 32}" and "0 \<le> xres f" and "0 \<le> yres f"
  shows "clear_screen f c h = h @ map (\<lambda>k.
      let a = fb_base f + of_nat k * of_int (bpp f div 8)
      in if bpp f = 8 then Wr8 a (ucast c)
         else if bpp f = 16 then Wr16 a (convert32bppto16bpp c)
         else Wr32 a c) [0..<nat (xres f) * nat (yres f)]"
proof -
  have "fill_outer (\<lambda>p. wr8 p v) sz ys xs p h = h @ map (\<lambda>k. Wr8 (p + of_nat k * sz) v) [0..<xs * ys]"
    "fill_outer (\<lambda>p. wr16 p w) sz ys xs p h = h @ map (\<lambda>k. Wr16 (p + of_nat k * sz) w) [0..<xs * ys]"
    "fill_outer (\<lambda>p. wr32 p u) sz ys xs p h = h @ map (\<lambda>k. Wr32 (p + of_nat k * sz) u) [0..<xs * ys]"
    for v w u sz ys xs p
    by (rule fill_outer_eq; simp add: mmio_defs)+
  with assms(1) show ?thesis by (auto simp: clear_screen_def Let_def)
qed

lemma clear_screen_fills_witness:
  "clear_screen \<lparr>fb_base = 0x33c00000, xres = 1, yres = 2, bpp = 16\<rparr> 0xff0000 []
     = [Wr16 0x33c00000 0xf800, Wr16 0x33c00002 0xf800]"
  using clear_screen_fills [of "\<lparr>fb_base = 0x33c00000, xres = 1, yres = 2, bpp = 16\<rparr>" "0xff0000" "[]"]
  by (simp add: convert32bppto16bpp_def upt_conv_Cons)

text \<open>The 565 conversion keeps the high bits of each colour.\<close>

lemma convert_565:
  "convert32bppto16bpp c =
     push_bit 11 (ucast (take_bit 5 (drop_bit 19 c))) OR push_bit 5 (ucast (take_bit 6 (drop_bit 10 c)))
     OR ucast (take_bit 5 (drop_bit 3 c))"
proof -
  have ff: "(0xff :: u32) = mask 8" by (simp add: mask_eq_exp_minus_1)
  show ?thesis unfolding convert32bppto16bpp_def Let_def ff
    by (rule bit_word_eqI) (auto simp: bit_simps)
qed

end
