(* ===== verification/Display.thy ===== *)
theory Display
  imports Framebuffer
begin

text \<open>
  Text output, \<^verbatim>\<open>lcd/font.c\<close>, and the display test, \<^verbatim>\<open>lcd/lcd_test.c\<close>; then the properties of
  drawing on the frame buffer.  The glyph table of \<^verbatim>\<open>lcd/font_8x16.c\<close> is an asset (the 8 by 16 font of
  the Linux kernel): the byte at an index of it is the argument \<open>font\<close>.
\<close>

subsection \<open>Text\<close>

definition font_init :: "lcd_state \<Rightarrow> fb option" where
  "font_init s = fb_get_lcd_params s"

text \<open>The counter of a row is the number of pixels left, one more than the bit to test.\<close>

primrec char_row :: "putter \<Rightarrow> u8 \<Rightarrow> u32 \<Rightarrow> int \<Rightarrow> nat \<Rightarrow> int \<Rightarrow> hist \<Rightarrow> hist" where
  "char_row put data color j 0 i h = h"
| "char_row put data color j (Suc n) i h =
     char_row put data color j n (i + 1)
       (if data AND push_bit n 1 \<noteq> 0 then put i j color h else h)"

primrec char_rows ::
  "putter \<Rightarrow> (nat \<Rightarrow> u8) \<Rightarrow> u32 \<Rightarrow> int \<Rightarrow> nat \<Rightarrow> nat \<Rightarrow> int \<Rightarrow> hist \<Rightarrow> hist" where
  "char_rows put font color x 0 dots j h = h"
| "char_rows put font color x (Suc n) dots j h =
     char_rows put font color x n (Suc dots) (j + 1) (char_row put (font dots) color j 8 x h)"

definition fb_print_char ::
  "putter \<Rightarrow> (nat \<Rightarrow> u8) \<Rightarrow> int \<Rightarrow> int \<Rightarrow> char \<Rightarrow> u32 \<Rightarrow> hist \<Rightarrow> hist" where
  "fb_print_char put font x y c color h = char_rows put font color x 16 (of_char c * 16) y h"

fun fb_print_string ::
  "putter \<Rightarrow> (nat \<Rightarrow> u8) \<Rightarrow> int \<Rightarrow> int \<Rightarrow> int \<Rightarrow> string \<Rightarrow> u32 \<Rightarrow> hist \<Rightarrow> hist" where
  "fb_print_string put font w x y [] color h = h"
| "fb_print_string put font w x y (c # str) color h =
     (if c = CHR 0x0A then fb_print_string put font w x (y + 16) str color h
      else if c = CHR 0x0D then fb_print_string put font w 0 y str color h
      else (let h = fb_print_char put font x y c color h; x = x + 8
            in if x \<ge> w then fb_print_string put font w 0 (y + 16) str color h
               else fb_print_string put font w x y str color h))"

subsection \<open>The display test\<close>

fun fill_all :: "(u32 \<Rightarrow> u32 \<Rightarrow> hist \<Rightarrow> hist) \<Rightarrow> u32 \<Rightarrow> fb \<Rightarrow> u32 list \<Rightarrow> hist \<Rightarrow> hist" where
  "fill_all st sz f [] h = h"
| "fill_all st sz f (v # vs) h =
     fill_all st sz f vs (fill_outer (\<lambda>p. st p v) sz (nat (yres f)) (nat (xres f)) (fb_base f) h)"

definition test_fills :: "fb \<Rightarrow> hist \<Rightarrow> hist" where
  "test_fills f h =
     (if bpp f = 8 then fill_all (\<lambda>p v. wr8 p (ucast v)) 1 f [12, 47, 88, 0] h
      else if bpp f = 16 then fill_all (\<lambda>p v. wr16 p (ucast v)) 2 f [0xf800, 0x7e0, 0x1f, 0] h
      else if bpp f = 32 then fill_all wr32 4 f [0xff0000, 0x00ff00, 0x0000ff, 0] h
      else h)"

definition lcd_test :: "bus \<Rightarrow> (nat \<Rightarrow> u8) \<Rightarrow> lcd_state \<times> hist \<Rightarrow> (lcd_state \<times> hist) option" where
  "lcd_test b font sh = do {
     (s, h) \<leftarrow> lcd_init b sh;
     let h = lcd_enable s h;
     f \<leftarrow> fb_get_lcd_params s;
     g \<leftarrow> font_init s;
     let h = test_fills f h;
     _ \<leftarrow> delay 1000000;
     let put = fb_put_pixel f;
     let w = xres f - 1;
     let v = yres f - 1;
     let h = draw_line put 0 0 w 0 0x23ff77 h;
     let h = draw_line put w 0 w v 0xffff h;
     let h = draw_line put 0 v w v 0xff00aa h;
     let h = draw_line put 0 0 0 v 0xff00ef h;
     let h = draw_line put 0 0 w v 0xff45 h;
     let h = draw_line put w 0 0 v 0xff0780 h;
     _ \<leftarrow> delay 1000000;
     h \<leftarrow> draw_circle put (xres f sdiv 2) (yres f sdiv 2) (yres f sdiv 4) 0xff h;
     let h = fb_print_string put font (xres g) 10 10
               (''www.100ask.net'' @ [CHR 0x0A, CHR 0x0D] @ ''100ask.taobao.com'') 0xff h;
     Some (s, h)
   }"

subsection \<open>Glyphs and their layout\<close>

definition glyph_points :: "(nat \<Rightarrow> u8) \<Rightarrow> int \<Rightarrow> int \<Rightarrow> char \<Rightarrow> point list" where
  "glyph_points font x y c =
     concat (map (\<lambda>j. map (\<lambda>i. (x + int i, y + int j))
        (filter (\<lambda>i. bit (font (16 * of_char c + j)) (7 - i)) [0..<8])) [0..<16])"

fun layout :: "int \<Rightarrow> int \<Rightarrow> int \<Rightarrow> string \<Rightarrow> (char \<times> int \<times> int) list" where
  "layout w x y [] = []"
| "layout w x y (c # s) =
     (if c = CHR 0x0A then layout w x (y + 16) s
      else if c = CHR 0x0D then layout w 0 y s
      else (c, x, y) # (if x + 8 \<ge> w then layout w 0 (y + 16) s else layout w (x + 8) y s))"

lemma upt_first: "n \<noteq> 0 \<Longrightarrow> [0..<n] = 0 # map Suc [0..<n - 1]"
  by (cases n) (simp_all add: upt_conv_Cons map_Suc_upt del: upt_Suc)

lemma word_bit_test: "(w AND 2 ^ n = 0) = (\<not> bit w n)" for w :: "'a::len word"
  by (simp add: bit_iff_and_push_bit_not_eq_0 push_bit_eq_mult)

context pixel_sink begin

lemma char_row_paints:
  "n \<le> 8 \<Longrightarrow> char_row put d c j n i h
     = paint c (map (\<lambda>k. (i + int k, j)) (filter (\<lambda>k. bit d (n - 1 - k)) [0..<n])) h"
proof (induction n arbitrary: i h)
  case 0
  show ?case by simp
next
  case (Suc n)
  have "filter (\<lambda>k. bit d (n - k)) [0..<Suc n]
      = (if bit d n then [0] else []) @ map Suc (filter (\<lambda>k. bit d (n - 1 - k)) [0..<n])"
    by (simp add: upt_first filter_map comp_def del: upt_Suc)
  with Suc show ?case
    by (simp add: word_bit_test paint_put comp_def add.assoc del: upt_Suc)
qed

lemma char_rows_paints:
  "char_rows put font c x n d y h
     = paint c (concat (map (\<lambda>j. map (\<lambda>i. (x + int i, y + int j))
         (filter (\<lambda>i. bit (font (d + j)) (7 - i)) [0..<8])) [0..<n])) h"
proof (induction n arbitrary: d y h)
  case 0
  show ?case by simp
next
  case (Suc n)
  then show ?case
    by (simp add: char_row_paints paint_append upt_first [of "Suc n"] comp_def add.assoc del: upt_Suc)
qed

lemma print_char_paints: "fb_print_char put font x y ch c h = paint c (glyph_points font x y ch) h"
  unfolding fb_print_char_def char_rows_paints glyph_points_def by (simp add: mult.commute)

lemma print_string_paints:
  "fb_print_string put font w x y s c h
     = paint c (concat (map (\<lambda>(ch, x, y). glyph_points font x y ch) (layout w x y s))) h"
  by (induction w x y s arbitrary: h rule: layout.induct)
    (simp_all add: print_char_paints paint_append Let_def)

end

subsection \<open>Properties\<close>




text \<open>A radius that is not positive is drawn for ever.\<close>

lemma draw_circle_zero: "r \<le> 0 \<Longrightarrow> draw_circle (fb_put_pixel f) x y r c h = None"
  by (rule fb.draw_circle_diverges)


text \<open>Cells start inside the line.\<close>

lemma layout_columns:
  "0 < w \<Longrightarrow> 0 \<le> x \<Longrightarrow> x < w \<Longrightarrow> list_all (\<lambda>(ch, x, y). 0 \<le> x \<and> x < w) (layout w x y s)"
  by (induction w x y s rule: layout.induct) auto

lemma lcd_test_ok:
  "\<exists>s h'. lcd_test b font (lcd_state0, h) = Some (s, h')
     \<and> get_lcd_params s = Some (0x33c00000, 480, 272, 32)"
proof -
  obtain s h1 where init: "lcd_init b (lcd_state0, h) = Some (s, h1)"
    and params: "get_lcd_params s = Some (0x33c00000, 480, 272, 32)"
    using lcd_init_ok [of b h] by blast
  let ?f = "\<lparr>fb_base = 0x33c00000, xres = 480, yres = 272, bpp = 32\<rparr>"
  have circle: "\<exists>h'. draw_circle (fb_put_pixel ?f) 240 136 68 c g = Some h'" for c g
    using fb.draw_circle_paints [of 68 ?f 240 136 c g] by auto
  have "\<exists>h'. draw_circle (fb_put_pixel ?f) (480 sdiv 2) (272 sdiv 2) (272 sdiv 4) c g = Some h'" for c g
    using circle [of c g] by (simp add: sdiv_nonneg)
  then show ?thesis
    using init params
    by (simp add: lcd_test_def font_init_def fb_get_lcd_params_def delay_returns Let_def)
qed

text \<open>The display test returns, with the 4.3 inch panel selected: every loop of it ends.\<close>

lemma lcd_test_returns:
  "\<exists>s h'. lcd_test b font (lcd_state0, h) = Some (s, h')
     \<and> get_lcd_params s = Some (0x33c00000, 480, 272, 32)"
  by (rule lcd_test_ok)

end
