(* ===== verification/I2c.thy ===== *)
theory I2c
  imports Registry Timer
begin

text \<open>
  The I2C master of \<^verbatim>\<open>bare_board/code/I2c/20200510_IIC/i2c\<close>: the controller table
  (\<^verbatim>\<open>i2c_controller.c\<close>) and the interrupt-driven S3C2440 controller
  (\<^verbatim>\<open>s3c2440_i2c_controller.c\<close>).

  A transfer runs in two places: the function that starts it waits in a loop on the message, and
  the interrupt handler moves the bytes.  Between two interrupts nothing volatile happens, so the
  loop is modelled interrupt by interrupt; whether another one arrives after a history is the
  argument \<open>arrives\<close>, and a wait for one that never arrives is \<open>None\<close>, as is an access outside a
  buffer.
\<close>

subsection \<open>Messages and the interrupt handler\<close>

record i2c_msg =
  m_addr :: u32
  m_flags :: int
  m_len :: int
  cnt_transferred :: int
  m_err :: int
  m_buf :: "u8 list"

definition isLastData :: "i2c_msg \<Rightarrow> bool" where
  "isLastData m \<longleftrightarrow> cnt_transferred m = m_len m - 1"

definition resume_iic_with_ack :: "bus \<Rightarrow> hist \<Rightarrow> hist" where
  "resume_iic_with_ack b h =
     (let (iiccon, h) = rd32 b IICCON h;
          iiccon = iiccon OR bitm 7;
          iiccon = iiccon AND NOT (bitm 4)
      in wr32 IICCON iiccon h)"

definition resume_iic_without_ack :: "bus \<Rightarrow> hist \<Rightarrow> hist" where
  "resume_iic_without_ack b h =
     (let (iiccon, h) = rd32 b IICCON h;
          iiccon = iiccon AND NOT (bitm 7 OR bitm 4)
      in wr32 IICCON iiccon h)"

definition resume_iic :: "bus \<Rightarrow> i2c_msg \<Rightarrow> hist \<Rightarrow> hist" where
  "resume_iic b m h =
     (if isLastData m then resume_iic_without_ack b h else resume_iic_with_ack b h)"

definition iic_stop :: "bus \<Rightarrow> u32 \<Rightarrow> hist \<Rightarrow> hist" where
  "iic_stop b stat h = (let h = wr32 IICSTAT stat h in upd32 b IICCON (bits_clear (bitm 4)) h)"

definition in_buf :: "i2c_msg \<Rightarrow> int \<Rightarrow> bool" where
  "in_buf m i \<longleftrightarrow> 0 \<le> i \<and> i < int (length (m_buf m))"

definition i2c_interrupt_func :: "bus \<Rightarrow> i2c_msg \<times> hist \<Rightarrow> (i2c_msg \<times> hist) option" where
  "i2c_interrupt_func b mh =
     (let (m, h) = mh;
          (iicstat, h) = rd32 b IICSTAT h;
          m = m\<lparr>cnt_transferred := cnt_transferred m + 1\<rparr>
      in if m_flags m = 0 then
           (if cnt_transferred m = 0 \<and> iicstat AND bitm 0 \<noteq> 0 then do {
              let h = iic_stop b 0xD0 h;
              let m = m\<lparr>m_err := -1\<rparr>;
              _ \<leftarrow> delay 1000;
              Some (m, h)
            }
            else if cnt_transferred m < m_len m then
              (if in_buf m (cnt_transferred m) then
                 (let h = wr32 IICDS (ucast (m_buf m ! nat (cnt_transferred m))) h;
                      h = upd32 b IICCON (bits_clear (bitm 4)) h
                  in Some (m, h))
               else None)
            else do {
              let h = iic_stop b 0xD0 h;
              _ \<leftarrow> delay 1000;
              Some (m, h)
            })
         else
           (if cnt_transferred m = 0 then
              (if iicstat AND bitm 0 \<noteq> 0 then do {
                 let h = iic_stop b 0x90 h;
                 let m = m\<lparr>m_err := -1\<rparr>;
                 _ \<leftarrow> delay 1000;
                 Some (m, h)
               }
               else Some (m, resume_iic b m h))
            else if cnt_transferred m < m_len m then
              (let index = cnt_transferred m - 1; (v, h) = rd32 b IICDS h
               in if in_buf m index then
                    (let m = m\<lparr>m_buf := (m_buf m)[nat index := ucast v]\<rparr>
                     in Some (m, resume_iic b m h))
                  else None)
            else do {
              let h = iic_stop b 0x90 h;
              _ \<leftarrow> delay 1000;
              Some (m, h)
            }))"

subsection \<open>Transfers\<close>

text \<open>\<^verbatim>\<open>while (!msg->err && msg->cnt_transferred != msg->len);\<close> with the interrupts that end it.\<close>

partial_function (option) wait_xfer ::
  "(hist \<Rightarrow> bool) \<Rightarrow> bus \<Rightarrow> i2c_msg \<times> hist \<Rightarrow> (i2c_msg \<times> hist) option" where
  "wait_xfer arrives b mh =
     (if m_err (fst mh) = 0 \<and> cnt_transferred (fst mh) \<noteq> m_len (fst mh) then
        (if arrives (snd mh)
         then do { mh1 \<leftarrow> i2c_interrupt_func b mh; wait_xfer arrives b mh1 }
         else None)
      else Some mh)"

definition xfer_result :: "i2c_msg \<times> hist \<Rightarrow> int \<times> i2c_msg \<times> hist" where
  "xfer_result mh = (if m_err (fst mh) \<noteq> 0 then -1 else 0, fst mh, snd mh)"

definition do_master_tx ::
  "(hist \<Rightarrow> bool) \<Rightarrow> bus \<Rightarrow> i2c_msg \<Rightarrow> hist \<Rightarrow> (int \<times> i2c_msg \<times> hist) option" where
  "do_master_tx arrives b m h =
     (let m = m\<lparr>cnt_transferred := -1\<rparr>;
          m = m\<lparr>m_err := 0\<rparr>;
          h = upd32 b IICCON (bits_or (bitm 7)) h;
          h = wr32 IICSTAT (bitm 4) h;
          h = wr32 IICDS (push_bit 1 (m_addr m)) h;
          h = wr32 IICSTAT 0xf0 h
      in map_option xfer_result (wait_xfer arrives b (m, h)))"

definition do_master_rx ::
  "(hist \<Rightarrow> bool) \<Rightarrow> bus \<Rightarrow> i2c_msg \<Rightarrow> hist \<Rightarrow> (int \<times> i2c_msg \<times> hist) option" where
  "do_master_rx arrives b m h =
     (let m = m\<lparr>cnt_transferred := -1\<rparr>;
          m = m\<lparr>m_err := 0\<rparr>;
          h = upd32 b IICCON (bits_or (bitm 7)) h;
          h = wr32 IICSTAT (bitm 4) h;
          h = wr32 IICDS (push_bit 1 (m_addr m) OR bitm 0) h;
          h = wr32 IICSTAT 0xb0 h
      in map_option xfer_result (wait_xfer arrives b (m, h)))"

fun s3c2440_master_xfer ::
  "(hist \<Rightarrow> bool) \<Rightarrow> bus \<Rightarrow> i2c_msg list \<Rightarrow> hist \<Rightarrow> (int \<times> i2c_msg list \<times> hist) option" where
  "s3c2440_master_xfer arrives b [] h = Some (0, [], h)"
| "s3c2440_master_xfer arrives b (m # ms) h = do {
     (err, m, h) \<leftarrow> (if m_flags m = 0 then do_master_tx arrives b m h else do_master_rx arrives b m h);
     if err \<noteq> 0 then Some (err, m # ms, h)
     else do { (err, ms, h) \<leftarrow> s3c2440_master_xfer arrives b ms h; Some (err, m # ms, h) }
   }"

definition s3c2440_i2c_con_init ::
  "bus \<Rightarrow> 'f \<Rightarrow> 'f option list \<times> hist \<Rightarrow> ('f option list \<times> hist) option" where
  "s3c2440_i2c_con_init b i2c_fn th =
     (let h = snd th;
          h = upd32 b GPECON (bits_clear (push_bit 28 3 OR push_bit 30 3)) h;
          h = upd32 b GPECON (bits_or (push_bit 28 2 OR push_bit 30 2)) h;
          h = wr32 IICCON (bitm 7 OR push_bit 6 0 OR bitm 5 OR push_bit 0 30) h
      in register_irq b 27 i2c_fn (fst th, h))"

subsection \<open>The controller table\<close>

record 'f i2c_controller =
  ic_init :: "'f option list \<times> hist \<Rightarrow> ('f option list \<times> hist) option"
  master_xfer :: "i2c_msg list \<Rightarrow> hist \<Rightarrow> (int \<times> i2c_msg list \<times> hist) option"
  ic_name :: string

record 'f i2c_state =
  p_i2c_controllers :: "'f i2c_controller option list"
  p_i2c_con_selected :: "'f i2c_controller option"

definition i2c_state0 :: "'f i2c_state" where
  "i2c_state0 = \<lparr>p_i2c_controllers = replicate 10 None, p_i2c_con_selected = None\<rparr>"

definition s3c2440_i2c_con :: "(hist \<Rightarrow> bool) \<Rightarrow> bus \<Rightarrow> 'f \<Rightarrow> 'f i2c_controller" where
  "s3c2440_i2c_con arrives b i2c_fn =
     \<lparr>ic_init = s3c2440_i2c_con_init b i2c_fn, master_xfer = s3c2440_master_xfer arrives b,
      ic_name = ''s3c2440''\<rparr>"

definition register_i2c_controller :: "'f i2c_controller \<Rightarrow> 'f i2c_state \<Rightarrow> 'f i2c_state" where
  "register_i2c_controller p s =
     s\<lparr>p_i2c_controllers := fst (tab_add p (p_i2c_controllers s))\<rparr>"

definition select_i2c_controller :: "string \<Rightarrow> 'f i2c_state \<Rightarrow> 'f i2c_state \<times> int" where
  "select_i2c_controller name s =
     (case first_idx (\<lambda>x. case x of None \<Rightarrow> False | Some c \<Rightarrow> strcmp name (ic_name c) = 0)
             (p_i2c_controllers s) of
        Some i \<Rightarrow> (s\<lparr>p_i2c_con_selected := p_i2c_controllers s ! i\<rparr>, 0)
      | None \<Rightarrow> (s, -1))"

definition i2c_transfer ::
  "'f i2c_state \<Rightarrow> i2c_msg list \<Rightarrow> hist \<Rightarrow> (int \<times> i2c_msg list \<times> hist) option" where
  "i2c_transfer s msgs h = do { c \<leftarrow> p_i2c_con_selected s; master_xfer c msgs h }"

definition s3c2440_i2c_con_add ::
  "(hist \<Rightarrow> bool) \<Rightarrow> bus \<Rightarrow> 'f \<Rightarrow> 'f i2c_state \<Rightarrow> 'f i2c_state" where
  "s3c2440_i2c_con_add arrives b i2c_fn s =
     register_i2c_controller (s3c2440_i2c_con arrives b i2c_fn) s"

definition i2c_init ::
  "(hist \<Rightarrow> bool) \<Rightarrow> bus \<Rightarrow> 'f \<Rightarrow> 'f i2c_state \<Rightarrow> 'f option list \<times> hist
   \<Rightarrow> ('f i2c_state \<times> 'f option list \<times> hist) option" where
  "i2c_init arrives b i2c_fn s th =
     (let s = s3c2440_i2c_con_add arrives b i2c_fn s;
          s = fst (select_i2c_controller ''s3c2440'' s)
      in do {
           c \<leftarrow> p_i2c_con_selected s;
           (tab, h) \<leftarrow> ic_init c th;
           Some (s, tab, h)
         })"

definition i2c_lookup :: "string \<Rightarrow> 'f i2c_state \<Rightarrow> 'f i2c_controller option" where
  "i2c_lookup n s =
     (let (s', r) = select_i2c_controller n s in if r = 0 then p_i2c_con_selected s' else None)"

subsection \<open>The table is a registry\<close>

lemma strcmp_comm_zero: "c_name s \<Longrightarrow> c_name t \<Longrightarrow> strcmp s t = 0 \<longleftrightarrow> strcmp t s = 0"
  by (auto simp: strcmp_zero)

lemma i2c_search_eq:
  assumes "tab_ok ic_name tab" and "c_name n"
  shows "first_idx (\<lambda>x. case x of None \<Rightarrow> False | Some c \<Rightarrow> strcmp n (ic_name c) = 0) tab
     = tab_search ic_name n tab"
  unfolding tab_search_def
  by (rule first_idx_cong) (use assms(2) tab_ok_names [OF assms(1)] in
    \<open>auto simp: strcmp_comm_zero [of n] split: option.split\<close>)

lemma i2c_lookup_eq:
  assumes "tab_ok ic_name (p_i2c_controllers s)" and "c_name n"
  shows "i2c_lookup n s = tab_find ic_name n (p_i2c_controllers s)"
  using i2c_search_eq [OF assms]
  by (simp add: i2c_lookup_def select_i2c_controller_def tab_find_def split: option.split)

interpretation i2cs: registry register_i2c_controller i2c_lookup ic_name
  "\<lambda>s. tab_items (p_i2c_controllers s)" 10 "\<lambda>s. tab_ok ic_name (p_i2c_controllers s)" c_name
  by unfold_locales
    (simp_all add: register_i2c_controller_def i2c_lookup_eq tab.add_wf tab.add_items tab.find_items)

subsection \<open>What is on the wire\<close>

text \<open>
  The bus traffic that a history of register accesses causes, by the controller's documentation: a
  store of 0xF0 or 0xB0 to the status register sends a start condition and the address byte that
  the data register holds; releasing the interrupt (bit 4 of the control register) after a store to
  the data register sends that byte; 0xD0 or 0x90 in the status register sends a stop; a load of the
  data register takes a received byte.
\<close>

datatype wire_event = Start_tx u8 | Start_rx u8 | Sent u8 | Got u8 | Stop

type_synonym wire_state = "u32 option \<times> wire_event list"

fun wire_step :: "event \<Rightarrow> wire_state \<Rightarrow> wire_state" where
  "wire_step (Wr32 a v) (ds, log) =
     (if a = IICDS then (Some v, log)
      else if a = IICSTAT then
        (case ds of
           Some d \<Rightarrow> if v = 0xf0 then (None, log @ [Start_tx (ucast d)])
                     else if v = 0xb0 then (None, log @ [Start_rx (ucast d)])
                     else if v = 0xd0 \<or> v = 0x90 then (None, log @ [Stop])
                     else (ds, log)
         | None \<Rightarrow> if v = 0xd0 \<or> v = 0x90 then (None, log @ [Stop]) else (ds, log))
      else if a = IICCON then
        (case ds of
           Some d \<Rightarrow> if v AND bitm 4 = 0 then (None, log @ [Sent (ucast d)]) else (ds, log)
         | None \<Rightarrow> (ds, log))
      else (ds, log))"
| "wire_step (Rd32 a v) (ds, log) =
     (if a = IICDS then (ds, log @ [Got (ucast v)]) else (ds, log))"
| "wire_step _ st = st"

definition wire_state :: "hist \<Rightarrow> wire_state" where
  "wire_state h = fold wire_step h (None, [])"

definition wire :: "hist \<Rightarrow> wire_event list" where
  "wire h = snd (wire_state h)"

definition idle :: "hist \<Rightarrow> bool" where
  "idle h \<longleftrightarrow> fst (wire_state h) = None"

lemma wire_state_append: "wire_state (h @ es) = fold wire_step es (wire_state h)"
  by (simp add: wire_state_def)

lemma wire_state_idle: "idle h \<Longrightarrow> wire_state h = (None, wire h)"
  by (simp add: idle_def wire_def prod_eq_iff)

lemma idle_wireI: "wire_state h = (None, l) \<Longrightarrow> idle h \<and> wire h = l"
  by (simp add: idle_def wire_def)

text \<open>What each group of accesses of the driver does to the wire.\<close>

lemma clear_pending_bit: "(v AND NOT (bitm 4)) AND bitm 4 = 0" for v :: u32
  by (simp add: and.assoc)

lemmas wire_simps = wire_state_append rd32_def wr32_def upd32_eq clear_pending_bit

lemma wire_stop:
  assumes "idle h" and "stat \<in> {0xD0, 0x90}"
  shows "wire_state (iic_stop b stat h) = (None, wire h @ [Stop])"
  using wire_state_idle [OF assms(1)] assms(2)
  by (auto simp: iic_stop_def wire_simps Let_def)

lemma wire_send:
  assumes "idle h"
  shows "wire_state (upd32 b IICCON (bits_clear (bitm 4)) (wr32 IICDS (ucast (v :: u8)) h))
    = (None, wire h @ [Sent v])"
  using wire_state_idle [OF assms] clear_pending_bit by (simp add: wire_simps)

lemma wire_resume:
  assumes "idle h"
  shows "wire_state (resume_iic b m h) = (None, wire h)"
  using wire_state_idle [OF assms]
  by (simp add: resume_iic_def resume_iic_with_ack_def resume_iic_without_ack_def wire_simps Let_def)

lemma wire_read_stat:
  assumes "idle h" and "a \<noteq> IICDS"
  shows "wire_state (h @ [Rd32 a v]) = (None, wire h)"
  using wire_state_idle [OF assms(1)] assms(2) by (simp add: wire_simps)

lemma wire_read_data:
  assumes "idle h"
  shows "wire_state (h @ [Rd32 IICDS v]) = (None, wire h @ [Got (ucast v)])"
  using wire_state_idle [OF assms(1)] by (simp add: wire_simps)

lemma wire_start:
  assumes "idle h"
  shows "wire_state (wr32 IICSTAT 0xf0 (wr32 IICDS d (wr32 IICSTAT (bitm 4)
      (upd32 b IICCON (bits_or (bitm 7)) h)))) = (None, wire h @ [Start_tx (ucast d)])"
    and "wire_state (wr32 IICSTAT 0xb0 (wr32 IICDS d (wr32 IICSTAT (bitm 4)
      (upd32 b IICCON (bits_or (bitm 7)) h)))) = (None, wire h @ [Start_rx (ucast d)])"
  using wire_state_idle [OF assms] by (simp_all add: wire_simps)

subsection \<open>One interrupt\<close>

text \<open>The addressed device acknowledges: the bit of the status register that reports a missing
  acknowledgement never reads as set.\<close>

definition acks :: "bus \<Rightarrow> bool" where
  "acks b \<longleftrightarrow> (\<forall>g. b g IICSTAT AND bitm 0 = 0)"

abbreviation tick :: "i2c_msg \<Rightarrow> i2c_msg" where
  "tick m \<equiv> m\<lparr>cnt_transferred := cnt_transferred m + 1\<rparr>"

lemma isr_tx_byte:
  assumes "m_flags m = 0" and "acks b" and "idle h"
    and "cnt_transferred m + 1 < m_len m" and "in_buf m (cnt_transferred m + 1)"
  shows "\<exists>h1. i2c_interrupt_func b (m, h) = Some (tick m, h1)
    \<and> wire_state h1 = (None, wire h @ [Sent (m_buf m ! nat (cnt_transferred m + 1))])"
proof -
  define g where "g = h @ [Rd32 IICSTAT (b h IICSTAT)]"
  have g: "idle g" "wire g = wire h"
    using wire_read_stat [OF assms(3), of IICSTAT] idle_wireI by (auto simp: g_def)
  show ?thesis
    using assms wire_send [OF g(1), of b] g(2)
    by (simp add: i2c_interrupt_func_def rd32_def acks_def Let_def in_buf_def flip: g_def)
qed

lemma isr_stop:
  assumes "acks b" and "idle h" and "cnt_transferred m + 1 = m_len m" and "m_flags m = 0 \<or> 0 < m_len m"
  shows "\<exists>h1. i2c_interrupt_func b (m, h) = Some (tick m, h1) \<and> wire_state h1 = (None, wire h @ [Stop])"
proof -
  define g where "g = h @ [Rd32 IICSTAT (b h IICSTAT)]"
  have g: "idle g" "wire g = wire h"
    using wire_read_stat [OF assms(2), of IICSTAT] idle_wireI by (auto simp: g_def)
  show ?thesis
    using assms wire_stop [OF g(1), of "0xD0" b] wire_stop [OF g(1), of "0x90" b] g(2)
    by (auto simp: i2c_interrupt_func_def rd32_def acks_def Let_def delay_returns simp flip: g_def)
qed

lemma isr_rx_first:
  assumes "m_flags m \<noteq> 0" and "acks b" and "idle h" and "cnt_transferred m = -1"
  shows "\<exists>h1. i2c_interrupt_func b (m, h) = Some (tick m, h1) \<and> wire_state h1 = (None, wire h)"
proof -
  define g where "g = h @ [Rd32 IICSTAT (b h IICSTAT)]"
  have g: "idle g" "wire g = wire h"
    using wire_read_stat [OF assms(3), of IICSTAT] idle_wireI by (auto simp: g_def)
  show ?thesis
    using assms wire_resume [OF g(1), of b] g(2)
    by (simp add: i2c_interrupt_func_def rd32_def acks_def Let_def flip: g_def)
qed

lemma isr_rx_byte:
  assumes "m_flags m \<noteq> 0" and "acks b" and "idle h" and "0 \<le> cnt_transferred m"
    and "cnt_transferred m + 1 < m_len m" and "in_buf m (cnt_transferred m)"
    and resp: "\<And>g. ucast (b g IICDS) = resp (wire g)"
  defines "v \<equiv> resp (wire h)"
  shows "\<exists>h1. i2c_interrupt_func b (m, h)
        = Some ((tick m)\<lparr>m_buf := (m_buf m)[nat (cnt_transferred m) := v]\<rparr>, h1)
    \<and> wire_state h1 = (None, wire h @ [Got v])"
proof -
  define g where "g = h @ [Rd32 IICSTAT (b h IICSTAT)]"
  define g1 where "g1 = g @ [Rd32 IICDS (b g IICDS)]"
  have g: "idle g" "wire g = wire h"
    using wire_read_stat [OF assms(3), of IICSTAT] idle_wireI by (auto simp: g_def)
  have v: "ucast (b g IICDS) = v" using resp g(2) by (simp add: v_def)
  have g1_flat: "g1 = h @ [Rd32 IICSTAT (b h IICSTAT), Rd32 IICDS (b g IICDS)]"
    by (simp add: g1_def g_def)
  have g1: "idle g1" "wire g1 = wire h @ [Got v]"
    using wire_read_data [OF g(1), of "b g IICDS"] g(2) v idle_wireI by (auto simp: g1_def)
  show ?thesis
    using assms(1-6) wire_resume [OF g1(1), of b] g1(2) v
    by (simp add: i2c_interrupt_func_def rd32_def acks_def in_buf_def Let_def flip: g_def g1_flat)
qed

lemma isr_nack:
  assumes "b h IICSTAT AND bitm 0 \<noteq> 0" and "idle h" and "cnt_transferred m = -1"
  shows "\<exists>h1. i2c_interrupt_func b (m, h) = Some ((tick m)\<lparr>m_err := -1\<rparr>, h1)
    \<and> wire_state h1 = (None, wire h @ [Stop])"
proof -
  define g where "g = h @ [Rd32 IICSTAT (b h IICSTAT)]"
  have g: "idle g" "wire g = wire h"
    using wire_read_stat [OF assms(2), of IICSTAT] idle_wireI by (auto simp: g_def)
  show ?thesis
    using assms wire_stop [OF g(1), of "0xD0" b] wire_stop [OF g(1), of "0x90" b] g(2)
    by (simp add: i2c_interrupt_func_def rd32_def Let_def delay_returns flip: g_def)
qed

subsection \<open>A whole transfer\<close>

lemma wait_done: "m_err m \<noteq> 0 \<or> cnt_transferred m = m_len m \<Longrightarrow> wait_xfer arrives b (m, h) = Some (m, h)"
  by (subst wait_xfer.simps) auto

lemma wait_step:
  "m_err m = 0 \<Longrightarrow> cnt_transferred m \<noteq> m_len m \<Longrightarrow> arrives h \<Longrightarrow>
   i2c_interrupt_func b (m, h) = Some mh \<Longrightarrow> wait_xfer arrives b (m, h) = wait_xfer arrives b mh"
  by (subst wait_xfer.simps) simp

lemma wait_tx:
  assumes "acks b" and "\<And>g. arrives g" and "m_flags m = 0" and "m_err m = 0"
    and "m_len m \<le> int (length (m_buf m))"
  shows "-1 \<le> cnt_transferred m \<Longrightarrow> cnt_transferred m < m_len m \<Longrightarrow> idle h \<Longrightarrow>
    \<exists>h'. wait_xfer arrives b (m, h) = Some (m\<lparr>cnt_transferred := m_len m\<rparr>, h')
      \<and> wire_state h' = (None, wire h
          @ map Sent (drop (nat (cnt_transferred m + 1)) (take (nat (m_len m)) (m_buf m))) @ [Stop])"
  using assms(3-5)
proof (induction "nat (m_len m - cnt_transferred m)" arbitrary: m h rule: less_induct)
  case less
  define n where "n = nat (cnt_transferred m + 1)"
  show ?case
  proof (cases "cnt_transferred m + 1 < m_len m")
    case True
    have n: "in_buf m (cnt_transferred m + 1)" "n < nat (m_len m)" "nat (m_len m) \<le> length (m_buf m)"
      using less.prems True by (auto simp: in_buf_def n_def)
    from isr_tx_byte [OF less.prems(4) assms(1) less.prems(3) True n(1)] obtain h1 where
      h1: "i2c_interrupt_func b (m, h) = Some (tick m, h1)"
      "wire_state h1 = (None, wire h @ [Sent (m_buf m ! n)])"
      by (auto simp: n_def)
    from idle_wireI [OF h1(2)] have i1: "idle h1" "wire h1 = wire h @ [Sent (m_buf m ! n)]" by auto
    from less.hyps [of "tick m" h1] less.prems True i1(1) obtain h' where
      h': "wait_xfer arrives b (tick m, h1) = Some (m\<lparr>cnt_transferred := m_len m\<rparr>, h')"
      "wire_state h' = (None, wire h1 @ map Sent (drop (Suc n) (take (nat (m_len m)) (m_buf m))) @ [Stop])"
      by (auto simp: n_def nat_add_distrib Suc_nat_eq_nat_zadd1 algebra_simps)
    have "drop n (take (nat (m_len m)) (m_buf m))
        = m_buf m ! n # drop (Suc n) (take (nat (m_len m)) (m_buf m))"
      using n by (simp add: Cons_nth_drop_Suc [symmetric])
    with h' i1(2) wait_step [of m arrives h b, OF less.prems(5) _ assms(2) h1(1)] less.prems(2) show ?thesis
      by (auto simp: n_def [symmetric])
  next
    case False
    with less.prems have e: "cnt_transferred m + 1 = m_len m" by simp
    from isr_stop [OF assms(1) less.prems(3) e] less.prems(4) obtain h1 where
      h1: "i2c_interrupt_func b (m, h) = Some (tick m, h1)" "wire_state h1 = (None, wire h @ [Stop])"
      by auto
    have "wait_xfer arrives b (m, h) = Some (tick m, h1)"
      using wait_step [of m arrives h b, OF less.prems(5) _ assms(2) h1(1)] less.prems(2) e
      by (simp add: wait_done)
    with h1(2) e show ?thesis by simp
  qed
qed

text \<open>Receiving stores what the wire delivered, but for the last byte of the message: the interrupt that
  announces it finds the count at the length, and stops the transfer without taking the byte.\<close>

lemma wait_rx:
  assumes "acks b" and "\<And>g. arrives g" and resp: "\<And>g. ucast (b g IICDS) = resp (wire g)"
  shows "m_flags m \<noteq> 0 \<Longrightarrow> m_err m = 0 \<Longrightarrow> m_len m \<le> int (length (m_buf m)) \<Longrightarrow>
    0 \<le> cnt_transferred m \<Longrightarrow> cnt_transferred m < m_len m \<Longrightarrow> idle h \<Longrightarrow>
    \<exists>h' bs. wait_xfer arrives b (m, h)
        = Some (m\<lparr>cnt_transferred := m_len m,
                 m_buf := take (nat (cnt_transferred m)) (m_buf m) @ bs
                          @ drop (nat (m_len m - 1)) (m_buf m)\<rparr>, h')
      \<and> length bs = nat (m_len m - 1 - cnt_transferred m)
      \<and> (\<forall>k < length bs. bs ! k = resp (wire h @ map Got (take k bs)))
      \<and> wire_state h' = (None, wire h @ map Got bs @ [Stop])"
proof (induction "nat (m_len m - cnt_transferred m)" arbitrary: m h rule: less_induct)
  case less
  define n where "n = nat (cnt_transferred m)"
  show ?case
  proof (cases "cnt_transferred m + 1 < m_len m")
    case True
    define v where "v = resp (wire h)"
    define m1 where "m1 = (tick m)\<lparr>m_buf := (m_buf m)[n := v]\<rparr>"
    have n: "n < length (m_buf m)" "in_buf m (cnt_transferred m)" "n < nat (m_len m - 1)"
      using less.prems True by (auto simp: in_buf_def n_def)
    from isr_rx_byte [OF less.prems(1) assms(1) less.prems(6,4) True n(2) resp] obtain h1 where
      h1: "i2c_interrupt_func b (m, h) = Some (m1, h1)" "wire_state h1 = (None, wire h @ [Got v])"
      by (auto simp: v_def n_def m1_def)
    from idle_wireI [OF h1(2)] have i1: "idle h1" "wire h1 = wire h @ [Got v]" by auto
    have "nat (m_len m1 - cnt_transferred m1) < nat (m_len m - cnt_transferred m)"
      using True by (simp add: m1_def)
    from less.hyps [OF this, of h1] less.prems True i1 obtain h' bs where
      h': "wait_xfer arrives b (m1, h1)
        = Some (m1\<lparr>cnt_transferred := m_len m1,
                 m_buf := take (nat (cnt_transferred m1)) (m_buf m1) @ bs
                          @ drop (nat (m_len m1 - 1)) (m_buf m1)\<rparr>, h')"
      and bs: "length bs = nat (m_len m1 - 1 - cnt_transferred m1)"
      "\<forall>k < length bs. bs ! k = resp (wire h1 @ map Got (take k bs))"
      "wire_state h' = (None, wire h1 @ map Got bs @ [Stop])"
      by (auto simp: m1_def)
    have buf: "take (nat (cnt_transferred m1)) (m_buf m1) = take n (m_buf m) @ [v]"
      "drop (nat (m_len m1 - 1)) (m_buf m1) = drop (nat (m_len m - 1)) (m_buf m)"
    proof -
      have "nat (cnt_transferred m1) = Suc n" using less.prems(4) by (simp add: m1_def n_def)
      then show "take (nat (cnt_transferred m1)) (m_buf m1) = take n (m_buf m) @ [v]"
        "drop (nat (m_len m1 - 1)) (m_buf m1) = drop (nat (m_len m - 1)) (m_buf m)"
        using n take_Suc_update [OF n(1), of v] by (simp_all add: m1_def)
    qed
    have run: "wait_xfer arrives b (m, h) = wait_xfer arrives b (m1, h1)"
      using wait_step [of m arrives h b, OF less.prems(2) _ assms(2) h1(1)] less.prems(5) by simp
    show ?thesis
    proof (intro exI [of _ h'] exI [of _ "v # bs"] conjI)
      show "wait_xfer arrives b (m, h)
          = Some (m\<lparr>cnt_transferred := m_len m,
                 m_buf := take (nat (cnt_transferred m)) (m_buf m) @ (v # bs)
                          @ drop (nat (m_len m - 1)) (m_buf m)\<rparr>, h')"
        unfolding run h' buf by (simp add: m1_def n_def)
      show "length (v # bs) = nat (m_len m - 1 - cnt_transferred m)"
        using bs(1) True by (simp add: m1_def)
      show "\<forall>k < length (v # bs). (v # bs) ! k = resp (wire h @ map Got (take k (v # bs)))"
        using bs(2) i1(2) by (auto simp: v_def less_Suc_eq_0_disj)
      show "wire_state h' = (None, wire h @ map Got (v # bs) @ [Stop])"
        using bs(3) i1(2) by simp
    qed
  next
    case False
    with less.prems have e: "cnt_transferred m + 1 = m_len m" by simp
    from isr_stop [OF assms(1) less.prems(6) e] less.prems e obtain h1 where
      h1: "i2c_interrupt_func b (m, h) = Some (tick m, h1)" "wire_state h1 = (None, wire h @ [Stop])"
      by auto
    have run: "wait_xfer arrives b (m, h) = Some (tick m, h1)"
      using wait_step [of m arrives h b, OF less.prems(2) _ assms(2) h1(1)] less.prems(5) e
      by (simp add: wait_done)
    have l: "m_len m - 1 = cnt_transferred m" using e by simp
    have "m\<lparr>cnt_transferred := m_len m\<rparr>
        = m\<lparr>cnt_transferred := m_len m,
            m_buf := take (nat (cnt_transferred m)) (m_buf m) @ drop (nat (m_len m - 1)) (m_buf m)\<rparr>"
      unfolding l append_take_drop_id by simp
    then show ?thesis
      using h1(2) e run l by (intro exI [of _ h1] exI [of _ "[]"]) simp
  qed
qed

abbreviation dev_byte :: "i2c_msg \<Rightarrow> u8" where
  "dev_byte m \<equiv> ucast (push_bit 1 (m_addr m))"

abbreviation dev_byte_rx :: "i2c_msg \<Rightarrow> u8" where
  "dev_byte_rx m \<equiv> ucast (push_bit 1 (m_addr m) OR bitm 0)"

lemma do_master_tx_ok:
  assumes "acks b" and "\<And>g. arrives g" and "idle h" and "m_flags m = 0"
    and "0 \<le> m_len m" and "m_len m \<le> int (length (m_buf m))"
  shows "\<exists>h'. do_master_tx arrives b m h = Some (0, m\<lparr>cnt_transferred := m_len m, m_err := 0\<rparr>, h')
    \<and> idle h' \<and> wire h' = wire h @ [Start_tx (dev_byte m)]
        @ map Sent (take (nat (m_len m)) (m_buf m)) @ [Stop]"
proof -
  define m1 where "m1 = m\<lparr>cnt_transferred := -1, m_err := 0\<rparr>"
  define g where "g = wr32 IICSTAT 0xf0 (wr32 IICDS (push_bit 1 (m_addr m)) (wr32 IICSTAT (bitm 4)
      (upd32 b IICCON (bits_or (bitm 7)) h)))"
  have g: "idle g" "wire g = wire h @ [Start_tx (dev_byte m)]"
    using idle_wireI [OF wire_start(1) [OF assms(3), of "push_bit 1 (m_addr m)" b]]
    by (simp_all add: g_def)
  have "\<exists>h'. wait_xfer arrives b (m1, g) = Some (m1\<lparr>cnt_transferred := m_len m\<rparr>, h')
      \<and> wire_state h' = (None, wire g @ map Sent (take (nat (m_len m)) (m_buf m)) @ [Stop])"
    using wait_tx [OF assms(1,2), of m1 g] assms(4-6) g(1) by (simp add: m1_def)
  then obtain h' where h': "wait_xfer arrives b (m1, g) = Some (m1\<lparr>cnt_transferred := m_len m\<rparr>, h')"
    "wire_state h' = (None, wire g @ map Sent (take (nat (m_len m)) (m_buf m)) @ [Stop])" by blast
  have "do_master_tx arrives b m h = map_option xfer_result (wait_xfer arrives b (m1, g))"
    by (simp add: do_master_tx_def Let_def m1_def g_def)
  with h' idle_wireI [OF h'(2)] g(2) show ?thesis
    by (simp add: xfer_result_def m1_def)
qed

lemma do_master_rx_ok:
  assumes "acks b" and "\<And>g. arrives g" and "\<And>g. ucast (b g IICDS) = resp (wire g)"
    and "idle h" and "m_flags m \<noteq> 0" and "1 \<le> m_len m" and "m_len m \<le> int (length (m_buf m))"
  shows "\<exists>h' bs. do_master_rx arrives b m h = Some (0, m\<lparr>cnt_transferred := m_len m, m_err := 0,
        m_buf := bs @ drop (nat (m_len m - 1)) (m_buf m)\<rparr>, h')
    \<and> length bs = nat (m_len m - 1) \<and> idle h'
    \<and> (\<forall>k < length bs. bs ! k = resp (wire h @ [Start_rx (dev_byte_rx m)] @ map Got (take k bs)))
    \<and> wire h' = wire h @ [Start_rx (dev_byte_rx m)] @ map Got bs @ [Stop]"
proof -
  define m1 where "m1 = m\<lparr>cnt_transferred := -1, m_err := 0\<rparr>"
  define g where "g = wr32 IICSTAT 0xb0 (wr32 IICDS (push_bit 1 (m_addr m) OR bitm 0)
      (wr32 IICSTAT (bitm 4) (upd32 b IICCON (bits_or (bitm 7)) h)))"
  have g: "idle g" "wire g = wire h @ [Start_rx (dev_byte_rx m)]"
    using idle_wireI [OF wire_start(2) [OF assms(4), of "push_bit 1 (m_addr m) OR bitm 0" b]]
    by (simp_all add: g_def)
  from isr_rx_first [of m1, OF _ assms(1) g(1)] assms(5) obtain g1 where
    g1: "i2c_interrupt_func b (m1, g) = Some (tick m1, g1)" "wire_state g1 = (None, wire g)"
    by (auto simp: m1_def)
  from idle_wireI [OF g1(2)] have i1: "idle g1" "wire g1 = wire g" by auto
  have first: "wait_xfer arrives b (m1, g) = wait_xfer arrives b (tick m1, g1)"
    using wait_step [of m1 arrives g b, OF _ _ assms(2) g1(1)] assms(6) by (simp add: m1_def)
  obtain h' bs where h': "wait_xfer arrives b (tick m1, g1)
        = Some (m1\<lparr>cnt_transferred := m_len m, m_buf := bs @ drop (nat (m_len m - 1)) (m_buf m)\<rparr>, h')"
    and bs: "length bs = nat (m_len m - 1)" "wire_state h' = (None, wire g1 @ map Got bs @ [Stop])"
      "\<forall>k < length bs. bs ! k = resp (wire g1 @ map Got (take k bs))"
    using wait_rx [where m = "tick m1" and h = g1 and arrives = arrives and resp = resp,
        OF assms(1,2,3)] assms(5-7) i1(1)
    by (auto simp: m1_def)
  have "do_master_rx arrives b m h = map_option xfer_result (wait_xfer arrives b (m1, g))"
    by (simp add: do_master_rx_def Let_def m1_def g_def)
  with h' bs idle_wireI [OF bs(2)] g(2) i1(2) first show ?thesis
    by (intro exI [of _ h'] exI [of _ bs]) (simp add: xfer_result_def m1_def)
qed

lemma master_nack:
  assumes "\<And>g. b g IICSTAT AND bitm 0 \<noteq> 0" and "\<And>g. arrives g" and "idle h" and "m_len m \<noteq> -1"
  shows "\<exists>m' h'. do_master_tx arrives b m h = Some (-1, m', h') \<and> idle h'
      \<and> wire h' = wire h @ [Start_tx (dev_byte m), Stop]"
    and "\<exists>m' h'. do_master_rx arrives b m h = Some (-1, m', h') \<and> idle h'
      \<and> wire h' = wire h @ [Start_rx (dev_byte_rx m), Stop]"
proof -
  define m1 where "m1 = m\<lparr>cnt_transferred := -1, m_err := 0\<rparr>"
  have run: "\<exists>h1. wait_xfer arrives b (m1, g) = Some ((tick m1)\<lparr>m_err := -1\<rparr>, h1)
      \<and> wire_state h1 = (None, wire g @ [Stop])" if g: "idle g" for g
  proof -
    from isr_nack [of b g m1, OF assms(1) g] obtain h1 where
      h1: "i2c_interrupt_func b (m1, g) = Some ((tick m1)\<lparr>m_err := -1\<rparr>, h1)"
      "wire_state h1 = (None, wire g @ [Stop])" by (auto simp: m1_def)
    then show ?thesis
      using wait_step [of m1 arrives g b, OF _ _ assms(2) h1(1)] assms(4)
      by (simp add: m1_def wait_done)
  qed
  define g where "g = wr32 IICSTAT 0xf0 (wr32 IICDS (push_bit 1 (m_addr m)) (wr32 IICSTAT (bitm 4)
      (upd32 b IICCON (bits_or (bitm 7)) h)))"
  have g: "idle g" "wire g = wire h @ [Start_tx (dev_byte m)]"
    using idle_wireI [OF wire_start(1) [OF assms(3), of "push_bit 1 (m_addr m)" b]]
    by (simp_all add: g_def)
  from run [OF g(1)] obtain h1 where h1: "wait_xfer arrives b (m1, g) = Some ((tick m1)\<lparr>m_err := -1\<rparr>, h1)"
    "wire_state h1 = (None, wire g @ [Stop])" by blast
  have "do_master_tx arrives b m h = map_option xfer_result (wait_xfer arrives b (m1, g))"
    by (simp add: do_master_tx_def Let_def m1_def g_def)
  with h1 idle_wireI [OF h1(2)] g(2)
  show "\<exists>m' h'. do_master_tx arrives b m h = Some (-1, m', h') \<and> idle h'
      \<and> wire h' = wire h @ [Start_tx (dev_byte m), Stop]"
    by (simp add: xfer_result_def)
  define r where "r = wr32 IICSTAT 0xb0 (wr32 IICDS (push_bit 1 (m_addr m) OR bitm 0)
      (wr32 IICSTAT (bitm 4) (upd32 b IICCON (bits_or (bitm 7)) h)))"
  have r: "idle r" "wire r = wire h @ [Start_rx (dev_byte_rx m)]"
    using idle_wireI [OF wire_start(2) [OF assms(3), of "push_bit 1 (m_addr m) OR bitm 0" b]]
    by (simp_all add: r_def)
  from run [OF r(1)] obtain h2 where h2: "wait_xfer arrives b (m1, r) = Some ((tick m1)\<lparr>m_err := -1\<rparr>, h2)"
    "wire_state h2 = (None, wire r @ [Stop])" by blast
  have "do_master_rx arrives b m h = map_option xfer_result (wait_xfer arrives b (m1, r))"
    by (simp add: do_master_rx_def Let_def m1_def r_def)
  with h2 idle_wireI [OF h2(2)] r(2)
  show "\<exists>m' h'. do_master_rx arrives b m h = Some (-1, m', h') \<and> idle h'
      \<and> wire h' = wire h @ [Start_rx (dev_byte_rx m), Stop]"
    by (simp add: xfer_result_def)
qed

text \<open>C12: with no device at the address a transfer in either direction returns the error code after one
  interrupt: the bus carries the address byte and a stop, and no data byte.\<close>

lemma do_master_nack:
  assumes "\<And>g. b g IICSTAT AND bitm 0 \<noteq> 0" and "\<And>g. arrives g" and "idle h" and "m_len m \<noteq> -1"
  shows "(\<exists>m' h'. do_master_tx arrives b m h = Some (-1, m', h') \<and> idle h'
      \<and> wire h' = wire h @ [Start_tx (dev_byte m), Stop])
    \<and> (\<exists>m' h'. do_master_rx arrives b m h = Some (-1, m', h') \<and> idle h'
      \<and> wire h' = wire h @ [Start_rx (dev_byte_rx m), Stop])"
  using master_nack [of b arrives h m, OF assms(1) assms(2) assms(3,4)] by blast

lemma do_master_nack_witness:
  "\<exists>m' h'. do_master_tx (\<lambda>_. True) (\<lambda>h a. 1)
      \<lparr>m_addr = 0x50, m_flags = 0, m_len = 2, cnt_transferred = 0, m_err = 0, m_buf = [1, 2]\<rparr> []
      = Some (-1, m', h') \<and> wire h' = [Start_tx 0xA0, Stop]"
  using do_master_nack [of "\<lambda>h a. 1" "\<lambda>_. True" "[]"
      "\<lparr>m_addr = 0x50, m_flags = 0, m_len = 2, cnt_transferred = 0, m_err = 0, m_buf = [1, 2]\<rparr>"]
  by (auto simp: idle_def wire_state_def wire_def)

subsection \<open>The contract of a master\<close>

text \<open>What a device driver needs of \<^verbatim>\<open>i2c_transfer\<close>: the traffic of a write and of a read message, in
  order, and the answers of the devices stored in the buffer; \<open>resp\<close> is the byte that the addressed
  device answers with after a log of traffic.\<close>

locale i2c_master =
  fixes xfer :: "i2c_msg list \<Rightarrow> hist \<Rightarrow> (int \<times> i2c_msg list \<times> hist) option"
    and log :: "hist \<Rightarrow> wire_event list"
    and resp :: "wire_event list \<Rightarrow> u8"
    and ok :: "hist \<Rightarrow> bool"
  assumes xfer_Nil: "xfer [] h = Some (0, [], h)"
    and xfer_Cons: "xfer [m] h = Some (0, [m'], h') \<Longrightarrow>
      xfer (m # ms) h = map_option (\<lambda>(e, ms', g). (e, m' # ms', g)) (xfer ms h')"
    and xfer_write: "ok h \<Longrightarrow> m_flags m = 0 \<Longrightarrow> 0 \<le> m_len m \<Longrightarrow> m_len m \<le> int (length (m_buf m)) \<Longrightarrow>
      \<exists>m' h'. xfer [m] h = Some (0, [m'], h') \<and> ok h'
        \<and> log h' = log h @ [Start_tx (dev_byte m)] @ map Sent (take (nat (m_len m)) (m_buf m)) @ [Stop]"
    and xfer_read: "ok h \<Longrightarrow> m_flags m \<noteq> 0 \<Longrightarrow> 1 \<le> m_len m \<Longrightarrow> m_len m \<le> int (length (m_buf m)) \<Longrightarrow>
      \<exists>m' h' bs. xfer [m] h = Some (0, [m'], h') \<and> ok h' \<and> length bs = nat (m_len m - 1)
        \<and> m_buf m' = bs @ drop (nat (m_len m - 1)) (m_buf m)
        \<and> (\<forall>k < length bs. bs ! k = resp (log h @ [Start_rx (dev_byte_rx m)] @ map Got (take k bs)))
        \<and> log h' = log h @ [Start_rx (dev_byte_rx m)] @ map Got bs @ [Stop]"

text \<open>The S3C2440 controller keeps the contract while interrupts arrive, the device acknowledges, and
  the data register delivers the device's answers.\<close>

definition i2c_ok ::
  "(hist \<Rightarrow> bool) \<Rightarrow> bus \<Rightarrow> (wire_event list \<Rightarrow> u8) \<Rightarrow> hist \<Rightarrow> bool" where
  "i2c_ok arrives b resp h \<longleftrightarrow>
     (\<forall>g. arrives g) \<and> acks b \<and> (\<forall>g. ucast (b g IICDS) = resp (wire g)) \<and> idle h"

interpretation s3c_i2c: i2c_master "s3c2440_master_xfer arrives b" wire resp "i2c_ok arrives b resp"
  for arrives b resp
proof unfold_locales
  fix m :: i2c_msg and ms and h h' :: hist and m'
  show "s3c2440_master_xfer arrives b [] h = Some (0, [], h)" by simp
  show "s3c2440_master_xfer arrives b (m # ms) h
      = map_option (\<lambda>(e, ms', g). (e, m' # ms', g)) (s3c2440_master_xfer arrives b ms h')"
    if "s3c2440_master_xfer arrives b [m] h = Some (0, [m'], h')"
    using that
    by (cases "s3c2440_master_xfer arrives b ms h'")
      (auto split: if_splits)
next
  fix m :: i2c_msg and h :: hist
  assume ok: "i2c_ok arrives b resp h" and m: "m_flags m = 0" "0 \<le> m_len m" "m_len m \<le> int (length (m_buf m))"
  then show "\<exists>m' h'. s3c2440_master_xfer arrives b [m] h = Some (0, [m'], h') \<and> i2c_ok arrives b resp h'
      \<and> wire h' = wire h @ [Start_tx (dev_byte m)] @ map Sent (take (nat (m_len m)) (m_buf m)) @ [Stop]"
    using do_master_tx_ok [of b arrives h m] by (auto simp: i2c_ok_def)
next
  fix m :: i2c_msg and h :: hist
  assume ok: "i2c_ok arrives b resp h" and m: "m_flags m \<noteq> 0" "1 \<le> m_len m" "m_len m \<le> int (length (m_buf m))"
  then obtain h' bs where
    "do_master_rx arrives b m h = Some (0, m\<lparr>cnt_transferred := m_len m, m_err := 0,
        m_buf := bs @ drop (nat (m_len m - 1)) (m_buf m)\<rparr>, h')"
    "length bs = nat (m_len m - 1)" "idle h'"
    "\<forall>k < length bs. bs ! k = resp (wire h @ [Start_rx (dev_byte_rx m)] @ map Got (take k bs))"
    "wire h' = wire h @ [Start_rx (dev_byte_rx m)] @ map Got bs @ [Stop]"
    using do_master_rx_ok [of b arrives resp h m] by (auto simp: i2c_ok_def)
  with ok m(1) show "\<exists>m' h' bs. s3c2440_master_xfer arrives b [m] h = Some (0, [m'], h')
      \<and> i2c_ok arrives b resp h' \<and> length bs = nat (m_len m - 1)
      \<and> m_buf m' = bs @ drop (nat (m_len m - 1)) (m_buf m)
      \<and> (\<forall>k < length bs. bs ! k = resp (wire h @ [Start_rx (dev_byte_rx m)] @ map Got (take k bs)))
      \<and> wire h' = wire h @ [Start_rx (dev_byte_rx m)] @ map Got bs @ [Stop]"
    by (intro exI [of _ "m\<lparr>cnt_transferred := m_len m, m_err := 0,
        m_buf := bs @ drop (nat (m_len m - 1)) (m_buf m)\<rparr>"] exI [of _ h'] exI [of _ bs])
      (simp add: i2c_ok_def)
qed

end
