(* ===== verification/Printf.thy ===== *)
theory Printf
  imports Strings
begin

text \<open>
  The formatted output of the monitor, \<^verbatim>\<open>bare_board/code/I2c/20200510_IIC/my_printf.c\<close>.  The
  number printer fills a 64-byte buffer from its end; the room left in front is part of the model, a
  store before the buffer is \<open>None\<close>.  The specification is \<open>render\<close>: the text of a format and its
  arguments as a function, with the digits of a number by their arithmetic definition.
\<close>

subsection \<open>The code\<close>

datatype arg = Arg_int u32 | Arg_str string

definition hex_tab :: string where
  "hex_tab = ''0123456789abcdef''"

abbreviation MAX_NUMBER_BYTES :: nat where
  "MAX_NUMBER_BYTES \<equiv> 64"

definition outc :: "(u32 \<Rightarrow> hist \<Rightarrow> hist option) \<Rightarrow> u32 \<Rightarrow> hist \<Rightarrow> hist option" where
  "outc putc c = putc c"

definition outs :: "(u32 \<Rightarrow> hist \<Rightarrow> hist option) \<Rightarrow> string \<Rightarrow> hist \<Rightarrow> hist option" where
  "outs putc s = puts putc s"

text \<open>The buffer is given by the room before the pointer and the text after it.\<close>

type_synonym numbuf = "nat \<times> string"

fun push_front :: "char \<Rightarrow> numbuf \<Rightarrow> numbuf option" where
  "push_front c (0, s) = None"
| "push_front c (Suc room, s) = Some (room, c # s)"

fun digit_loop :: "u32 \<Rightarrow> u32 \<Rightarrow> nat \<Rightarrow> string \<Rightarrow> numbuf option" where
  "digit_loop base m 0 s = None"
| "digit_loop base m (Suc room) s =
     (let s = hex_tab ! unat (m mod base) # s; m = m div base
      in if m \<noteq> 0 then digit_loop base m room s else Some (room, s))"

primrec pad_loop :: "char \<Rightarrow> nat \<Rightarrow> numbuf \<Rightarrow> numbuf option" where
  "pad_loop lead 0 b = Some b"
| "pad_loop lead (Suc i) b = do { b1 \<leftarrow> push_front lead b; pad_loop lead i b1 }"

definition num_buf :: "u32 \<Rightarrow> u32 \<Rightarrow> char \<Rightarrow> nat \<Rightarrow> numbuf option" where
  "num_buf n base lead maxwidth =
     (let m = (if n <s 0 then - n else n) in do {
        b \<leftarrow> digit_loop base m (MAX_NUMBER_BYTES - 1) [];
        let count = length (snd b);
        b \<leftarrow> (if maxwidth \<noteq> 0 \<and> count < maxwidth
             then pad_loop lead (maxwidth - count) b else Some b);
        (if n <s 0 then push_front CHR ''-'' b else Some b)
      })"

definition out_num ::
  "(u32 \<Rightarrow> hist \<Rightarrow> hist option) \<Rightarrow> u32 \<Rightarrow> u32 \<Rightarrow> char \<Rightarrow> nat \<Rightarrow> hist \<Rightarrow> hist option" where
  "out_num putc n base lead maxwidth h = do {
     b \<leftarrow> num_buf n base lead maxwidth;
     outs putc (snd b) h
   }"

definition is_dec :: "char \<Rightarrow> bool" where
  "is_dec c \<longleftrightarrow> c32 CHR ''0'' \<le> c32 c \<and> c32 c \<le> c32 CHR ''9''"

fun scan_width :: "nat \<Rightarrow> string \<Rightarrow> nat \<times> string" where
  "scan_width w [] = (w, [])"
| "scan_width w (c # fmt) =
     (if is_dec c then scan_width (w * 10 + unat (c32 c - c32 CHR ''0'')) fmt else (w, c # fmt))"

lemma scan_width_length: "length (snd (scan_width w fmt)) \<le> length fmt"
  by (induction w fmt rule: scan_width.induct) auto

text \<open>What follows the percent sign: the lead character, the width and the rest.\<close>

definition scan_conv :: "string \<Rightarrow> char \<times> nat \<times> string" where
  "scan_conv fmt =
     (let (lead, fmt) = (if cur fmt = CHR ''0'' then (CHR ''0'', tl fmt) else (CHR '' '', fmt));
          (w, fmt) = scan_width 0 fmt
      in (lead, w, fmt))"

lemma scan_conv_length: "scan_conv fmt = (lead, w, rest) \<Longrightarrow> length rest \<le> length fmt"
  using scan_width_length [of 0 "tl fmt"] scan_width_length [of 0 fmt]
  by (auto simp: scan_conv_def Let_def split: prod.splits if_splits)

text \<open>The \<^verbatim>\<open>switch\<close>: one conversion, which consumes its argument.  An argument that is missing or
  of the other kind is undefined behaviour.\<close>

definition out_conv ::
  "(u32 \<Rightarrow> hist \<Rightarrow> hist option) \<Rightarrow> char \<Rightarrow> char \<Rightarrow> nat \<Rightarrow> arg list \<Rightarrow> hist
   \<Rightarrow> (arg list \<times> hist) option" where
  "out_conv putc c lead w ap h =
     (if c \<in> {CHR ''d'', CHR ''o'', CHR ''u'', CHR ''x''} then
        (case ap of
           Arg_int v # ap' \<Rightarrow>
             do { h1 \<leftarrow> out_num putc v
                        (if c = CHR ''o'' then 8 else if c = CHR ''x'' then 16 else 10) lead w h;
                  Some (ap', h1) }
         | _ \<Rightarrow> None)
      else if c = CHR ''c'' then
        (case ap of Arg_int v # ap' \<Rightarrow> do { h1 \<leftarrow> outc putc v h; Some (ap', h1) } | _ \<Rightarrow> None)
      else if c = CHR ''s'' then
        (case ap of Arg_str s # ap' \<Rightarrow> do { h1 \<leftarrow> outs putc s h; Some (ap', h1) } | _ \<Rightarrow> None)
      else do { h1 \<leftarrow> outc putc (c32 c) h; Some (ap, h1) })"

text \<open>A format that ends inside a conversion is \<open>None\<close>: the loop prints the terminator and steps
  past it, out of the string.\<close>

function my_vprintf ::
  "(u32 \<Rightarrow> hist \<Rightarrow> hist option) \<Rightarrow> string \<Rightarrow> arg list \<Rightarrow> hist \<Rightarrow> hist option" where
  "my_vprintf putc fmt ap h =
     (case fmt of
        [] \<Rightarrow> Some h
      | c # fmt1 \<Rightarrow>
          if c \<noteq> CHR ''%'' then do { h1 \<leftarrow> outc putc (c32 c) h; my_vprintf putc fmt1 ap h1 }
          else (case scan_conv fmt1 of
                  (lead, w, []) \<Rightarrow> None
                | (lead, w, k # fmt2) \<Rightarrow>
                    (case out_conv putc k lead w ap h of
                       None \<Rightarrow> None
                     | Some (ap1, h1) \<Rightarrow> my_vprintf putc fmt2 ap1 h1)))"
  by pat_completeness auto
termination
  by (relation "measure (\<lambda>(putc, fmt, ap, h). length fmt)") (auto dest: scan_conv_length [OF sym])

declare my_vprintf.simps [simp del]

lemma my_vprintf_Nil [simp]: "my_vprintf putc [] ap h = Some h"
  by (subst my_vprintf.simps) simp

lemma my_vprintf_lit:
  "c \<noteq> CHR ''%'' \<Longrightarrow>
   my_vprintf putc (c # fmt) ap h = Option.bind (outc putc (c32 c) h) (my_vprintf putc fmt ap)"
  by (subst my_vprintf.simps) simp

lemma my_vprintf_conv:
  "scan_conv fmt = (lead, w, k # fmt2) \<Longrightarrow>
   my_vprintf putc (CHR ''%'' # fmt) ap h =
     Option.bind (out_conv putc k lead w ap h) (\<lambda>(ap1, h1). my_vprintf putc fmt2 ap1 h1)"
  by (subst my_vprintf.simps) (simp split: option.splits bind_splits)

definition printf ::
  "(u32 \<Rightarrow> hist \<Rightarrow> hist option) \<Rightarrow> string \<Rightarrow> arg list \<Rightarrow> hist \<Rightarrow> hist option" where
  "printf putc fmt args = my_vprintf putc fmt args"

text \<open>The self test prints fourteen formats; a newline here is a line feed and a return.\<close>

definition LFCR :: string where
  "LFCR = [CHR 0x0A, CHR 0x0D]"

fun printf_all ::
  "(u32 \<Rightarrow> hist \<Rightarrow> hist option) \<Rightarrow> (string \<times> arg list) list \<Rightarrow> hist \<Rightarrow> hist option" where
  "printf_all putc [] h = Some h"
| "printf_all putc ((fmt, args) # cs) h = do { h1 \<leftarrow> printf putc fmt args h; printf_all putc cs h1 }"

definition test_calls :: "(string \<times> arg list) list" where
  "test_calls =
     [(''This is www.100ask.org   my_printf test'' @ LFCR, []),
      (''test char           =%c,%c'' @ LFCR, [Arg_int (c32 CHR ''A''), Arg_int (c32 CHR ''a'')]),
      (''test decimal number =%d'' @ LFCR, [Arg_int 123456]),
      (''test decimal number =%d'' @ LFCR, [Arg_int (-123456)]),
      (''test hex     number =0x%x'' @ LFCR, [Arg_int 0x55aa55aa]),
      (''test string         =%s'' @ LFCR, [Arg_str ''www.100ask.org'']),
      (''num=%08d'' @ LFCR, [Arg_int 12345]),
      (''num=%8d'' @ LFCR, [Arg_int 12345]),
      (''num=0x%08x'' @ LFCR, [Arg_int 0x12345]),
      (''num=0x%8x'' @ LFCR, [Arg_int 0x12345]),
      (''num=0x%02x'' @ LFCR, [Arg_int 0x1]),
      (''num=0x%2x'' @ LFCR, [Arg_int 0x1]),
      (''num=%05d'' @ LFCR, [Arg_int 0x1]),
      (''num=%5d'' @ LFCR, [Arg_int 0x1])]"

definition my_printf_test :: "(u32 \<Rightarrow> hist \<Rightarrow> hist option) \<Rightarrow> hist \<Rightarrow> hist option" where
  "my_printf_test putc h = printf_all putc test_calls h"

subsection \<open>The specification\<close>

function nat_digits :: "nat \<Rightarrow> nat \<Rightarrow> string" where
  "nat_digits b n =
     (if b < 2 \<or> n < b then [hex_tab ! n]
      else nat_digits b (n div b) @ [hex_tab ! (n mod b)])"
  by pat_completeness auto
termination
  by (relation "measure snd") auto

declare nat_digits.simps [simp del]

definition num_text :: "nat \<Rightarrow> char \<Rightarrow> nat \<Rightarrow> int \<Rightarrow> string" where
  "num_text b lead w i =
     (let ds = nat_digits b (nat \<bar>i\<bar>)
      in (if i < 0 then ''-'' else []) @ replicate (w - length ds) lead @ ds)"

datatype piece = Lit char | Conv char nat char

definition dec_value :: "string \<Rightarrow> nat" where
  "dec_value ds = foldl (\<lambda>w c. 10 * w + (of_char c - 48)) 0 ds"

definition is_digit_char :: "char \<Rightarrow> bool" where
  "is_digit_char c \<longleftrightarrow> c \<in> set ''0123456789''"

lemma dropWhile_Cons_length: "dropWhile P s = k # t \<Longrightarrow> length t < length s"
  using length_dropWhile_le [of P s] by simp

function parse_format :: "string \<Rightarrow> piece list option" where
  "parse_format [] = Some []"
| "parse_format (c # s) =
     (if c \<noteq> CHR ''%'' then map_option ((#) (Lit c)) (parse_format s)
      else
        (let (lead, s1) = (if s \<noteq> [] \<and> hd s = CHR ''0'' then (CHR ''0'', tl s) else (CHR '' '', s));
             w = dec_value (takeWhile is_digit_char s1)
         in (case dropWhile is_digit_char s1 of
               [] \<Rightarrow> None
             | k # s2 \<Rightarrow> map_option ((#) (Conv lead w k)) (parse_format s2))))"
  by pat_completeness auto
termination
  by (relation "measure length")
    (fastforce dest: dropWhile_Cons_length split: if_splits)+

definition conv_text :: "char \<Rightarrow> char \<Rightarrow> nat \<Rightarrow> arg list \<Rightarrow> (string \<times> arg list) option" where
  "conv_text k lead w ap =
     (if k \<in> set ''doux'' then
        (case ap of
           Arg_int v # ap' \<Rightarrow>
             (let s = num_text (if k = CHR ''o'' then 8 else if k = CHR ''x'' then 16 else 10)
                               lead w (sint v)
              in if length s < MAX_NUMBER_BYTES then Some (s, ap') else None)
         | _ \<Rightarrow> None)
      else if k = CHR ''c'' then
        (case ap of Arg_int v # ap' \<Rightarrow> Some ([to_char v], ap') | _ \<Rightarrow> None)
      else if k = CHR ''s'' then
        (case ap of Arg_str s # ap' \<Rightarrow> Some (s, ap') | _ \<Rightarrow> None)
      else Some ([k], ap))"

fun render_pieces :: "piece list \<Rightarrow> arg list \<Rightarrow> string option" where
  "render_pieces [] ap = Some []"
| "render_pieces (Lit c # ps) ap = map_option ((#) c) (render_pieces ps ap)"
| "render_pieces (Conv lead w k # ps) ap =
     (case conv_text k lead w ap of
        None \<Rightarrow> None
      | Some (s, ap') \<Rightarrow> map_option ((@) s) (render_pieces ps ap'))"

definition render :: "string \<Rightarrow> arg list \<Rightarrow> string option" where
  "render fmt ap = Option.bind (parse_format fmt) (\<lambda>ps. render_pieces ps ap)"

subsection \<open>The number buffer holds the text of the number\<close>

lemma nat_digits_length:
  "2 \<le> b \<Longrightarrow> n < b ^ k \<Longrightarrow> 0 < k \<Longrightarrow> length (nat_digits b n) \<le> k"
proof (induction k arbitrary: n)
  case 0
  then show ?case by simp
next
  case (Suc k)
  show ?case
  proof (cases "n < b")
    case True
    then show ?thesis by (simp add: nat_digits.simps)
  next
    case False
    with Suc.prems have "0 < k" by (cases k) auto
    moreover have "n div b < b ^ k"
      using Suc.prems by (simp add: less_mult_imp_div_less mult.commute)
    ultimately show ?thesis
      using Suc.IH [of "n div b"] Suc.prems(1) by (simp add: nat_digits.simps [of b n])
  qed
qed

lemma nat_digits_nonempty [simp]: "nat_digits b n \<noteq> []"
  by (subst nat_digits.simps) simp

lemma digit_loop_eq:
  assumes "2 \<le> unat base"
  shows "length (nat_digits (unat base) (unat m)) \<le> room \<Longrightarrow>
    digit_loop base m room s =
      Some (room - length (nat_digits (unat base) (unat m)), nat_digits (unat base) (unat m) @ s)"
proof (induction room arbitrary: m s)
  case 0
  then show ?case by simp
next
  case (Suc room)
  have zero: "m div base = 0 \<longleftrightarrow> unat m < unat base"
    using assms by (metis div_eq_0_iff not_numeral_le_zero unat_div_distrib unat_eq_zero)
  show ?case
  proof (cases "unat m < unat base")
    case True
    then show ?thesis using zero assms
      by (simp add: nat_digits.simps [of "unat base" "unat m"] unat_mod_distrib)
  next
    case False
    then have ds: "nat_digits (unat base) (unat m)
        = nat_digits (unat base) (unat (m div base)) @ [hex_tab ! unat (m mod base)]"
      using assms by (subst nat_digits.simps) (simp add: unat_div_distrib unat_mod_distrib)
    show ?thesis using False zero Suc.prems
      by (simp add: ds Suc.IH Let_def)
  qed
qed

lemma pad_loop_eq:
  "pad_loop lead i (room, s) =
     (if i \<le> room then Some (room - i, replicate i lead @ s) else None)"
proof (induction i arbitrary: room s)
  case 0
  show ?case by simp
next
  case (Suc i)
  show ?case
    by (cases room) (simp_all add: Suc replicate_app_Cons_same)
qed

lemma unat_abs_sint:
  "unat (if n <s 0 then - n else n) = nat \<bar>sint n\<bar>" for n :: u32
proof -
  have bounds: "- (2 ^ 31) \<le> sint n" "sint n < 2 ^ 31"
    using sint_greater_eq [of n] sint_less [of n] by simp_all
  have "(if n <s 0 then - n else n) = word_of_int \<bar>sint n\<bar>"
    by (simp add: word_sless_alt)
  then have "uint (if n <s 0 then - n else n) = \<bar>sint n\<bar> mod 2 ^ 32"
    by (simp only: uint_word_of_int) simp
  also have "\<dots> = \<bar>sint n\<bar>" using bounds by (simp add: mod_pos_pos_trivial)
  finally show ?thesis by (simp add: unat_eq_nat_uint)
qed

lemma abs_sint_less: "nat \<bar>sint (n :: u32)\<bar> < 2 ^ 32"
  using sint_greater_eq [of n] sint_less [of n] by simp

text \<open>The number printer builds exactly the specified text, or runs out of its buffer exactly when
  that text and its terminator are longer than the buffer.\<close>

lemma num_buf_eq:
  fixes n :: u32 and w :: nat and lead :: char
  assumes base: "base \<in> {8, 10, 16}"
  defines "s \<equiv> num_text (unat base) lead w (sint n)"
  shows "num_buf n base lead w = (if length s \<le> 63 then Some (63 - length s, s) else None)"
proof -
  define ds where "ds = nat_digits (unat base) (nat \<bar>sint n\<bar>)"
  have ub: "8 \<le> unat base" using base by auto
  have "nat \<bar>sint n\<bar> < 8 ^ 11" using abs_sint_less [of n] by simp
  also have "\<dots> \<le> unat base ^ 11" using ub by (rule power_mono) simp
  finally have len: "length ds \<le> 11" using ub by (simp add: ds_def nat_digits_length)
  have sign: "(n <s 0) = (sint n < 0)" by (simp add: word_sless_alt)
  have loop: "digit_loop base (if sint n < 0 then - n else n) (MAX_NUMBER_BYTES - 1) []
      = Some (63 - length ds, ds)"
    using digit_loop_eq [of base _ 63 "[]"] ub len unat_abs_sint [of n] by (simp add: ds_def sign)
  have pad: "(if w \<noteq> 0 \<and> length ds < w then pad_loop lead (w - length ds) (63 - length ds, ds)
              else Some (63 - length ds, ds))
      = (if w \<le> 63 then Some (63 - max w (length ds), replicate (w - length ds) lead @ ds) else None)"
    using len by (auto simp: pad_loop_eq)
  have s: "s = (if sint n < 0 then ''-'' else []) @ replicate (w - length ds) lead @ ds"
    by (simp add: s_def num_text_def ds_def Let_def)
  have "num_buf n base lead w =
      Option.bind
        (if w \<le> 63 then Some (63 - max w (length ds), replicate (w - length ds) lead @ ds) else None)
        (\<lambda>b. if sint n < 0 then push_front CHR ''-'' b else Some b)"
    unfolding num_buf_def Let_def by (simp only: loop pad sign bind.bind_lunit snd_conv)
  then show ?thesis using len
    by (cases "63 - max w (length ds)") (auto simp: s)
qed

subsection \<open>The printer prints what the specification renders\<close>

lemma is_dec_eq: "is_dec c = is_digit_char c"
proof -
  have "48 \<le> n \<and> n \<le> 57 \<longleftrightarrow> n \<in> {48, 49, 50, 51, 52, 53, 54, 55, 56, 57}" for n :: nat
    by (simp only: insert_iff empty_iff) presburger
  then have "is_dec c \<longleftrightarrow> of_char c \<in> {48, 49, 50, 51, 52, 53, 54, 55, 56, 57 :: nat}"
    by (simp only: is_dec_def c32_le) simp
  also have "\<dots> \<longleftrightarrow> of_char c \<in> (of_char ` set ''0123456789'' :: nat set)"
    by simp
  also have "\<dots> \<longleftrightarrow> is_digit_char c"
    unfolding is_digit_char_def by (rule inj_image_mem_iff) (simp add: inj_def)
  finally show ?thesis .
qed

lemma scan_width_eq:
  "scan_width w s =
     (foldl (\<lambda>w c. 10 * w + (of_char c - 48)) w (takeWhile is_digit_char s),
      dropWhile is_digit_char s)"
proof (induction w s rule: scan_width.induct)
  case (1 w)
  show ?case by simp
next
  case (2 w c s)
  show ?case
  proof (cases "is_dec c")
    case True
    then have "c32 CHR ''0'' \<le> c32 c" by (simp add: is_dec_def)
    then have "unat (c32 c - c32 CHR ''0'') = of_char c - 48"
      by (simp add: unat_sub c32_le unat_c32)
    with True 2 show ?thesis by (simp add: is_dec_eq mult.commute)
  next
    case False
    then show ?thesis by (simp add: is_dec_eq)
  qed
qed

lemma scan_conv_eq:
  "scan_conv s =
     (let (lead, s1) = (if s \<noteq> [] \<and> hd s = CHR ''0'' then (CHR ''0'', tl s) else (CHR '' '', s))
      in (lead, dec_value (takeWhile is_digit_char s1), dropWhile is_digit_char s1))"
  by (cases s) (auto simp: scan_conv_def scan_width_eq dec_value_def)

context char_sink begin

lemma prints_out_num:
  assumes "base \<in> {8, 10, 16}" and "length (num_text (unat base) lead w (sint n)) < 64"
  shows "prints (out_num putc n base lead w) (num_text (unat base) lead w (sint n))"
proof -
  have "out_num putc n base lead w = puts putc (num_text (unat base) lead w (sint n))"
    using assms by (simp add: out_num_def fun_eq_iff num_buf_eq outs_def)
  then show ?thesis by (simp add: prints_puts)
qed

lemma conv_prints:
  assumes "conv_text k lead w ap = Some (s, ap')"
  shows "\<exists>f. prints f s \<and> (\<forall>h. out_conv putc k lead w ap h = Option.bind (f h) (\<lambda>h1. Some (ap', h1)))"
proof -
  define base :: u32 where "base = (if k = CHR ''o'' then 8 else if k = CHR ''x'' then 16 else 10)"
  have base: "base \<in> {8, 10, 16}" by (simp add: base_def)
  consider (num) v where "k \<in> set ''doux''" "ap = Arg_int v # ap'"
      "s = num_text (unat base) lead w (sint v)" "length s < 64"
    | (chr) v where "k = CHR ''c''" "ap = Arg_int v # ap'" "s = [to_char v]"
    | (str) "k = CHR ''s''" "ap = Arg_str s # ap'"
    | (other) "k \<notin> set ''douxcs''" "ap = ap'" "s = [k]"
    using assms by (auto simp: conv_text_def base_def Let_def split: if_splits list.splits arg.splits)
  then show ?thesis
  proof cases
    case num
    then have "out_conv putc k lead w ap h
        = Option.bind (out_num putc v base lead w h) (\<lambda>h1. Some (ap', h1))" for h
      by (auto simp: out_conv_def base_def)
    with prints_out_num [OF base] num show ?thesis by blast
  next
    case chr
    then have "out_conv putc k lead w ap h = Option.bind (putc v h) (\<lambda>h1. Some (ap', h1))" for h
      by (simp add: out_conv_def outc_def)
    with prints_putc [of v] chr show ?thesis by blast
  next
    case str
    then have "out_conv putc k lead w ap h = Option.bind (puts putc s h) (\<lambda>h1. Some (ap', h1))" for h
      by (simp add: out_conv_def outs_def)
    with prints_puts show ?thesis by blast
  next
    case other
    then have "out_conv putc k lead w ap h = Option.bind (putc (c32 k) h) (\<lambda>h1. Some (ap', h1))" for h
      by (simp add: out_conv_def outc_def)
    with prints_putc [of "c32 k"] other show ?thesis by auto
  qed
qed

lemma prints_my_vprintf:
  "parse_format fmt = Some ps \<Longrightarrow> render_pieces ps ap = Some s \<Longrightarrow>
   prints (my_vprintf putc fmt ap) s"
proof (induction fmt arbitrary: ps ap s rule: parse_format.induct)
  case 1
  then show ?case
    by (intro prints_eqI [OF prints_skip]) simp_all
next
  case (2 c fmt)
  show ?case
  proof (cases "c = CHR ''%''")
    case False
    with 2 obtain ps' s' where ps: "parse_format fmt = Some ps'" "ps = Lit c # ps'"
      and s: "render_pieces ps' ap = Some s'" "s = [c] @ s'"
      by auto
    have "prints (my_vprintf putc fmt ap) s'" using False ps s by (intro "2.IH"(1)) auto
    from prints_seq [OF prints_putc [of "c32 c"] this] show ?thesis
      by (rule prints_eqI) (simp_all add: my_vprintf_lit False s outc_def)
  next
    case True
    obtain lead s1 where
      l: "(if fmt \<noteq> [] \<and> hd fmt = CHR ''0'' then (CHR ''0'', tl fmt) else (CHR '' '', fmt)) = (lead, s1)"
      by force
    define w where "w = dec_value (takeWhile is_digit_char s1)"
    from True "2.prems"(1) l obtain k s2 ps' where
      d: "dropWhile is_digit_char s1 = k # s2" and ps: "parse_format s2 = Some ps'"
      "ps = Conv lead w k # ps'"
      by (auto simp: w_def Let_def split: list.splits)
    from "2.prems"(2) ps(2) obtain t s' ap' where conv: "conv_text k lead w ap = Some (t, ap')"
      and s: "render_pieces ps' ap' = Some s'" "s = t @ s'"
      by (auto split: option.splits)
    have IH: "prints (my_vprintf putc s2 ap') s'"
      using True l d ps s by (intro "2.IH"(2)) (auto simp: w_def)
    from conv_prints [OF conv] obtain f where f: "prints f t"
      and out: "\<And>h. out_conv putc k lead w ap h = Option.bind (f h) (\<lambda>h1. Some (ap', h1))"
      by blast
    have "scan_conv fmt = (lead, w, k # s2)"
      by (simp add: scan_conv_eq l w_def d)
    then have "my_vprintf putc (c # fmt) ap h = Option.bind (f h) (my_vprintf putc s2 ap')" for h
      using True out [of h] by (simp add: my_vprintf_conv)
    with s show ?thesis by (intro prints_eqI [OF prints_seq [OF f IH]]) simp_all
  qed
qed

lemma prints_printf: "render fmt args = Some s \<Longrightarrow> prints (printf putc fmt args) s"
  unfolding render_def printf_def by (auto intro: prints_my_vprintf)

end

subsection \<open>Printed numbers parse back\<close>

text \<open>\<open>simple_strtoul\<close> reads the digits of a number in its base as the number, and stops behind
  them.\<close>

lemma strtoul_loop_nat_digits:
  assumes "2 \<le> b" and "b \<le> 16"
  shows "strtoul_loop (of_nat b) 0 (nat_digits b n @ rest) = strtoul_loop (of_nat b) (of_nat n) rest"
proof (induction n arbitrary: rest rule: less_induct)
  case (less n)
  have one: "strtoul_loop (of_nat b) r ((hex_tab ! d) # s)
      = strtoul_loop (of_nat b) (r * of_nat b + of_nat d) s" if "d < b" for d r s
    using strtoul_loop_digits [of "of_nat b" "[d]" hex_tab r s] that assms
    by (simp add: hex_tab_def unat_of_nat)
  show ?case
  proof (cases "n < b")
    case True
    with one [OF True, of 0] show ?thesis by (simp add: nat_digits.simps)
  next
    case False
    have "strtoul_loop (of_nat b) 0 (nat_digits b n @ rest)
        = strtoul_loop (of_nat b) (of_nat (n div b)) ((hex_tab ! (n mod b)) # rest)"
      using False assms less.IH [of "n div b"] by (simp add: nat_digits.simps [of b n])
    also have "\<dots> = strtoul_loop (of_nat b) (of_nat (n div b) * of_nat b + of_nat (n mod b)) rest"
      using assms by (intro one) simp
    also have "of_nat (n div b) * of_nat b + of_nat (n mod b) = (of_nat n :: u32)"
      by (metis div_mult_mod_eq of_nat_add of_nat_mult)
    finally show ?thesis .
  qed
qed

lemma nat_digits_cur:
  "2 \<le> b \<Longrightarrow> \<exists>d < b. cur (nat_digits b n) = hex_tab ! d \<and> (d = 0 \<longrightarrow> n = 0)"
proof (induction n rule: less_induct)
  case (less n)
  show ?case
  proof (cases "n < b")
    case True
    then show ?thesis by (auto simp: nat_digits.simps)
  next
    case False
    then have "cur (nat_digits b n) = cur (nat_digits b (n div b))"
      using less.prems by (subst nat_digits.simps) (auto simp: cur_def split: list.splits)
    moreover have "n div b < n" "n div b \<noteq> 0" using less.prems False by (auto simp: div_eq_0_iff)
    ultimately show ?thesis using less.IH [of "n div b"] less.prems by auto
  qed
qed

lemma nat_digits_first:
  assumes "2 \<le> b" and "b \<le> 16"
  shows "cur (nat_digits b n) = CHR ''0'' \<Longrightarrow> n = 0" and "cur (nat_digits b n) \<noteq> CHR ''-''"
proof -
  from nat_digits_cur [OF assms(1), of n] obtain d where
    d: "d < 16" "cur (nat_digits b n) = hex_tab ! d" "d = 0 \<longrightarrow> n = 0"
    using assms(2) by (meson order.strict_trans2)
  show "cur (nat_digits b n) = CHR ''0'' \<Longrightarrow> n = 0" "cur (nat_digits b n) \<noteq> CHR ''-''"
    using d by (auto simp: less_16 hex_tab_def)
qed

lemma strtoul_nat_digits:
  assumes "2 \<le> b" and "b \<le> 16"
  shows "simple_strtoul (nat_digits b n) (of_nat b) = (of_nat n, [])"
proof -
  have base: "(of_nat b :: u32) \<noteq> 0"
    using assms by (simp add: unat_eq_zero [symmetric] unat_of_nat)
  show ?thesis
  proof (cases "n = 0")
    case True
    then show ?thesis using assms base
      by (simp add: nat_digits.simps hex_tab_def simple_strtoul_def strtoul_prefix_def)
  next
    case False
    then have "cur (nat_digits b n) \<noteq> CHR ''0''" using nat_digits_first(1) assms by blast
    then have "strtoul_prefix (nat_digits b n) (of_nat b) = (nat_digits b n, of_nat b)"
      using base by (simp add: strtoul_prefix_def)
    with strtoul_loop_nat_digits [OF assms, of n "[]"] show ?thesis
      by (simp add: simple_strtoul_def)
  qed
qed

text \<open>What \<^verbatim>\<open>%d\<close> prints, \<open>simple_strtol\<close> parses back, for every value of the type; and so for
  \<^verbatim>\<open>%x\<close> and \<^verbatim>\<open>%o\<close> in their bases.\<close>

lemma strtol_num_text:
  fixes n :: u32
  assumes "2 \<le> b" and "b \<le> 16"
  shows "simple_strtol (num_text b lead 0 (sint n)) (of_nat b) = (n, [])"
proof (cases "sint n < 0")
  case True
  have "- (of_nat (nat (- sint n)) :: u32) = n" using True by simp
  with True strtoul_nat_digits [OF assms, of "nat (- sint n)"] show ?thesis
    by (simp add: num_text_def simple_strtol_def Let_def)
next
  case False
  have "(of_nat (nat (sint n)) :: u32) = n" using False by simp
  with False strtoul_nat_digits [OF assms, of "nat (sint n)"] nat_digits_first(2) [OF assms]
  show ?thesis
    by (simp add: num_text_def simple_strtol_def Let_def)
qed

text \<open>The exact text of the two forms of \<open>printHex\<close>: eight upper-case digits, which parse back too.\<close>

lemma nibble_step: "drop_bit 4 w * 16 + (w AND 15) = w" for w :: u32
proof -
  have "(15 :: u32) = mask 4" by (simp add: mask_eq_exp_minus_1)
  then show ?thesis using bits_ident [of 4 w] by (simp add: take_bit_eq_mask push_bit_eq_mult)
qed

lemma nibble_step_at:
  "drop_bit (k + 4) v * 16 + of_nat (unat (drop_bit k v AND 15)) = drop_bit k v" for v :: u32
  using nibble_step [of "drop_bit k v"] by (simp add: add.commute)

lemma strtoul_hex8: "simple_strtoul (''0x'' @ hex8 v) 0 = (v, [])"
proof -
  define ds where "ds = map (\<lambda>i. unat (drop_bit (4 * i) v AND 0xf)) [7, 6, 5, 4, 3, 2, 1, 0]"
  have ds: "list_all (\<lambda>d. d < 16 \<and> d < unat (16 :: u32)) ds"
    by (simp add: ds_def nibble_less)
  have digits: "hex8 v = map (\<lambda>d. ''0123456789ABCDEF'' ! d) ds @ []"
    by (simp add: hex8_def ds_def hex_digit_def)
  have "isxdigit (cur (hex8 v))"
    using nibble_cases [of "drop_bit 28 v"] by (auto simp: hex8_def hex_digit_def isxdigit_iff)
  then have "simple_strtoul (''0x'' @ hex8 v) 0 = strtoul_loop 16 0 (hex8 v)"
    by (simp add: simple_strtoul_def strtoul_prefix_def)
  also have "\<dots> = (foldl (\<lambda>r d. r * 16 + of_nat d) 0 ds, [])"
    unfolding digits by (subst strtoul_loop_digits [OF ds]) (simp_all)
  also have "foldl (\<lambda>r d. r * 16 + of_nat d) 0 ds = v"
    using nibble_step_at [of 28 v] nibble_step_at [of 24 v] nibble_step_at [of 20 v]
      nibble_step_at [of 16 v] nibble_step_at [of 12 v] nibble_step_at [of 8 v]
      nibble_step_at [of 4 v] nibble_step_at [of 0 v]
    by (simp add: ds_def)
  finally show ?thesis .
qed

lemma nat_digits_less: "n < b \<Longrightarrow> nat_digits b n = [hex_tab ! n]"
  by (simp add: nat_digits.simps)

lemma nat_digits_step:
  "2 \<le> b \<Longrightarrow> b \<le> n \<Longrightarrow> nat_digits b n = nat_digits b (n div b) @ [hex_tab ! (n mod b)]"
  by (simp add: nat_digits.simps [of b n])

lemmas render_eval = render_def dec_value_def is_digit_char_def conv_text_def num_text_def
  nat_digits_less nat_digits_step hex_tab_def

text \<open>The \<^verbatim>\<open>unsigned int\<close> argument of \<^verbatim>\<open>%x\<close> and \<^verbatim>\<open>%u\<close> passes through a \<^verbatim>\<open>long\<close>: with the top bit set
  it prints as a negative number.  The padding is inserted between the sign and the digits.\<close>

lemma printf_hex_negative: "render ''%x'' [Arg_int 0x80000000] = Some ''-80000000''"
  by (simp add: render_eval)

lemma printf_pads_before_sign: "render ''%8d'' [Arg_int (-5)] = Some ''-       5''"
  by (simp add: render_eval replicate_numeral_eq)

lemma printf_width_overflow: "num_buf n 10 lead 64 = None"
  by (simp add: num_buf_eq num_text_def Let_def)

subsection \<open>Properties\<close>

text \<open>C1: whatever format and arguments the specification can render, \<open>printf\<close> over the live UART
  returns, and what it has transmitted is exactly the rendered text: literal characters, and each
  conversion with its lead character, width, sign and digits.\<close>

lemma printf_prints_rendering:
  assumes "render fmt args = Some s" and "tx_live b h"
  shows "\<exists>h'. printf (putchar b) fmt args h = Some h' \<and> uart_tx h' = uart_tx h @ s \<and> tx_live b h'"
  using uart.prints_live [OF uart.prints_printf [OF assms(1)] assms(2)] by blast

text \<open>A bus whose status registers always read as ready.\<close>

definition ready_bus :: bus where
  "ready_bus h a = - 1"

lemma live_ready [simp]: "m \<noteq> 0 \<Longrightarrow> live (bits_set32 ready_bus a m) h"
  by (auto simp: live_def ready_bus_def intro!: exI [of _ 0])

lemma tx_live_ready [simp]: "tx_live ready_bus h" "rx_live ready_bus h"
  by (simp_all add: tx_live_def rx_live_def)

lemma printf_prints_rendering_witness:
  "\<exists>h'. printf (putchar ready_bus) ''n=%05d'' [Arg_int (-42)] [] = Some h'
     \<and> uart_tx h' = ''n=-00042''"
proof -
  have "render ''n=%05d'' [Arg_int (-42)] = Some ''n=-00042''"
    by (simp add: render_eval replicate_numeral_eq)
  from printf_prints_rendering [OF this tx_live_ready(1), of "[]"] show ?thesis by auto
qed

text \<open>the number parsers invert the number printer: what the conversions print for a 32-bit value
  without a width, in any base from 2 to 16, \<open>simple_strtol\<close> parses back to the same value and
  consumes to the end.\<close>

lemma strtol_inverts_printf:
  fixes n :: u32
  assumes "b \<in> {8, 10, 16}" and "num_buf n (of_nat b) lead 0 = Some (room, s)"
  shows "simple_strtol s (of_nat b) = (n, [])"
proof -
  have "s = num_text b lead 0 (sint n)"
    using assms num_buf_eq [of "of_nat b" n lead 0] by (auto split: if_splits)
  with assms(1) strtol_num_text [of b lead n] show ?thesis by auto
qed

lemma strtol_inverts_printf_witness: "simple_strtol ''-123456'' 10 = (-123456, [])"
proof -
  have "num_buf (-123456) (of_nat 10) CHR '' '' 0 = Some (56, ''-123456'')"
    by (simp add: num_buf_eq num_text_def nat_digits_less nat_digits_step hex_tab_def)
  from strtol_inverts_printf [OF _ this] show ?thesis by simp
qed

end
