(* ===== verification/Console.thy ===== *)
theory Console
  imports Printf
begin

text \<open>
  The console as its user sees it: what the program prints, and the characters that are typed while
  it runs.  The monitor's dialogues mix console traffic with accesses to the device under test, so
  the laws say that console operations leave every other view of the history alone.
\<close>

subsection \<open>Typed input\<close>

definition rx_count :: "hist \<Rightarrow> nat" where
  "rx_count h = length (filter (\<lambda>e. case e of Rd8 a _ \<Rightarrow> a = URXH0 | _ \<Rightarrow> False) h)"

lemma rx_count_simps [simp]:
  "rx_count [] = 0" "rx_count (h @ h') = rx_count h + rx_count h'"
  "rx_count [Rd32 a w] = 0" "rx_count [Wr8 a v] = 0" "rx_count [Rd8 a v] = (if a = URXH0 then 1 else 0)"
  by (simp_all add: rx_count_def)

text \<open>\<open>typing b h ks\<close>: from the history \<open>h\<close> on the user types \<open>ks\<close>; each character arrives in the end.\<close>

abbreviation rx_wait :: "bus \<Rightarrow> test" where
  "rx_wait b \<equiv> bits_set32 b UTRSTAT0 (bitm 0)"

definition typing :: "bus \<Rightarrow> hist \<Rightarrow> u8 list \<Rightarrow> bool" where
  "typing b h ks \<longleftrightarrow>
     (\<forall>e. rx_count e < length ks \<longrightarrow>
        (\<exists>n. fst (rx_wait b (spins (rx_wait b) n (h @ e)))) \<and> ucast (b (h @ e) URXH0) = ks ! rx_count e)"

definition console :: "bus \<Rightarrow> hist \<Rightarrow> u8 list \<Rightarrow> bool" where
  "console b h ks \<longleftrightarrow> tx_live b h \<and> typing b h ks"

lemma console_none [simp]: "console b h [] = tx_live b h"
  by (simp add: console_def typing_def)

lemma typing_append:
  assumes "typing b h ks"
  shows "typing b (h @ e) (drop (rx_count e) ks)"
  unfolding typing_def
proof (intro allI impI)
  fix f
  assume "rx_count f < length (drop (rx_count e) ks)"
  then have "rx_count (e @ f) < length ks" by simp
  with assms have "(\<exists>n. fst (rx_wait b (spins (rx_wait b) n (h @ (e @ f)))))
      \<and> ucast (b (h @ (e @ f)) URXH0) = ks ! rx_count (e @ f)"
    unfolding typing_def by blast
  then show "(\<exists>n. fst (rx_wait b (spins (rx_wait b) n ((h @ e) @ f))))
      \<and> ucast (b ((h @ e) @ f) URXH0) = drop (rx_count e) ks ! rx_count f"
    using \<open>rx_count f < length (drop (rx_count e) ks)\<close> by simp
qed

lemma console_append: "console b h ks \<Longrightarrow> console b (h @ e) (drop (rx_count e) ks)"
  unfolding console_def using typing_append by (auto simp: tx_live_def intro: live_append)

lemma console_step: "console b h ks \<Longrightarrow> rx_count e = 0 \<Longrightarrow> console b (h @ e) ks"
  using console_append [of b h ks e] by simp

text \<open>A view of the history that the console does not disturb.\<close>

definition quiet :: "(hist \<Rightarrow> 'v) \<Rightarrow> bool" where
  "quiet view \<longleftrightarrow>
     (\<forall>h v. view (h @ [Rd32 UTRSTAT0 v]) = view h) \<and> (\<forall>h v. view (h @ [Wr8 UTXH0 v]) = view h)
     \<and> (\<forall>h v. view (h @ [Rd8 URXH0 v]) = view h)"

lemma spin_console:
  assumes "spin (bits_set32 b UTRSTAT0 m) h = Some h'"
  shows "\<exists>e. h' = h @ e \<and> rx_count e = 0" and "quiet view \<Longrightarrow> view h' = view h"
proof -
  from spin_extends [OF assms] obtain e where e: "h' = h @ e" by auto
  have "rx_count h' = rx_count h" by (rule spin_keeps [OF assms]) simp
  with e show "\<exists>e. h' = h @ e \<and> rx_count e = 0" by simp
  show "quiet view \<Longrightarrow> view h' = view h"
    by (rule spin_keeps [OF assms]) (simp add: quiet_def)
qed

text \<open>The UART is a character sink that keeps the rest of the world as it is.\<close>

interpretation con: char_sink "putchar b" uart_tx
  "\<lambda>h. console b h ks \<and> (quiet view \<longrightarrow> view h = v)" for b ks and view :: "hist \<Rightarrow> 'v" and v
proof unfold_locales
  fix c h h'
  show "putchar b c h = Some h' \<Longrightarrow> uart_tx h' = uart_tx h @ [to_char c]"
    by (rule putchar_out)
  assume ok: "console b h ks \<and> (quiet view \<longrightarrow> view h = v)"
  then show "\<exists>h'. putchar b c h = Some h'"
    using uart.putc_live by (auto simp: console_def)
  assume "putchar b c h = Some h'"
  then obtain h1 where h1: "spin (bits_set32 b UTRSTAT0 (bitm 2)) h = Some h1"
    and h': "h' = h1 @ [Wr8 UTXH0 (ucast c)]"
    by (auto simp: putchar_def wr8_def)
  from spin_console(1) [OF h1] obtain e where e: "h1 = h @ e" "rx_count e = 0" by auto
  have "console b h' ks"
    using console_step [of b h ks "e @ [Wr8 UTXH0 (ucast c)]"] ok e h' by simp
  moreover have "quiet view \<longrightarrow> view h' = v"
    using spin_console(2) [OF h1, of view] ok h' by (simp add: quiet_def)
  ultimately show "console b h' ks \<and> (quiet view \<longrightarrow> view h' = v)" by simp
qed

lemma printf_console:
  assumes "render fmt args = Some s" and "console b h ks"
  shows "\<exists>h'. printf (putchar b) fmt args h = Some h' \<and> console b h' ks \<and> uart_tx h' = uart_tx h @ s
    \<and> (quiet view \<longrightarrow> view h' = view h)"
  using con.prints_live [where ks = ks and view = view and v = "view h" and h = h,
      OF con.prints_printf [OF assms(1)]] assms(2) by auto

lemma putchar_console:
  assumes "console b h ks"
  shows "\<exists>h'. putchar b c h = Some h' \<and> console b h' ks \<and> uart_tx h' = uart_tx h @ [to_char c]
    \<and> (quiet view \<longrightarrow> view h' = view h)"
  using con.prints_live [where ks = ks and view = view and v = "view h" and h = h,
      OF con.prints_putc] assms by auto

lemma printHex_console:
  assumes "console b h ks"
  shows "\<exists>h'. printHex (putchar b) c h = Some h' \<and> console b h' ks \<and> uart_tx h' = uart_tx h @ ''0x'' @ hex8 c
    \<and> (quiet view \<longrightarrow> view h' = view h)"
  using con.prints_live [where ks = ks and view = view and v = "view h" and h = h,
      OF con.prints_printHex] assms by auto

text \<open>A format without conversions is printed as it stands; a number fits the number buffer.\<close>

lemma render_lit: "CHR ''%'' \<notin> set fmt \<Longrightarrow> render fmt ap = Some fmt"
proof (induction fmt)
  case Nil
  show ?case by (simp add: render_def)
next
  case (Cons c fmt)
  then show ?case by (auto simp: render_def)
qed

lemma printf_lit:
  assumes "console b h ks" and "CHR ''%'' \<notin> set fmt"
  shows "\<exists>h'. printf (putchar b) fmt args h = Some h' \<and> console b h' ks \<and> uart_tx h' = uart_tx h @ fmt
    \<and> (quiet view \<longrightarrow> view h' = view h)"
  by (rule printf_console [OF render_lit [OF assms(2)] assms(1)])

lemma num_text_short:
  assumes "8 \<le> b" and "w < 40"
  shows "length (num_text b lead w (sint (v :: u32))) < 64"
proof -
  have "nat \<bar>sint v\<bar> < 8 ^ 11" using abs_sint_less [of v] by simp
  also have "(8 :: nat) ^ 11 \<le> b ^ 11" using assms(1) by (rule power_mono) simp
  finally have "length (nat_digits b (nat \<bar>sint v\<bar>)) \<le> 11"
    using assms by (intro nat_digits_length) simp_all
  then show ?thesis using assms(2) by (cases "sint v < 0") (simp_all add: num_text_def Let_def)
qed

lemma getchar_console:
  assumes "console b h (k # ks)"
  shows "\<exists>h'. getchar b h = Some (k, h') \<and> console b h' ks \<and> uart_tx h' = uart_tx h
    \<and> (quiet view \<longrightarrow> view h' = view h)"
proof -
  have ty: "rx_count e < Suc (length ks) \<Longrightarrow> (\<exists>n. fst (rx_wait b (spins (rx_wait b) n (h @ e))))
      \<and> ucast (b (h @ e) URXH0) = (k # ks) ! rx_count e" for e
    using assms by (simp add: console_def typing_def)
  from ty [of "[]"] obtain h1 where h1: "spin (rx_wait b) h = Some h1"
    using spin_returns [of "rx_wait b" _ h] by auto
  from spin_console(1) [OF h1] obtain e where e: "h1 = h @ e" "rx_count e = 0" by auto
  have k: "(ucast (b h1 URXH0) :: u8) = k" using ty [of e] e by simp
  have "getchar b h = Some (k, h1 @ [Rd8 URXH0 k])"
    using h1 k by (simp add: getchar_def rd8_def)
  moreover have "console b (h1 @ [Rd8 URXH0 k]) ks"
    using console_append [OF assms, of "e @ [Rd8 URXH0 k]"] e by simp
  moreover have "uart_tx h1 = uart_tx h" by (rule spin_keeps [OF h1]) simp
  moreover have "quiet view \<longrightarrow> view (h1 @ [Rd8 URXH0 k]) = view h"
    using spin_console(2) [OF h1, of view] by (simp add: quiet_def)
  ultimately show ?thesis by auto
qed

subsection \<open>Lines\<close>

text \<open>What the user sees of a line that ends in \<open>end\<close>: the characters, the end and its partner.\<close>

definition line_end :: "u8 \<Rightarrow> bool" where
  "line_end k \<longleftrightarrow> k = 0x0D \<or> k = 0x0A"

definition line_echo :: "u8 list \<Rightarrow> u8 \<Rightarrow> string" where
  "line_echo ks e = map to_char ks @ [to_char e, to_char (if e = 0x0D then 0x0A else 0x0D :: u8)]"

lemma to_char_ucast32 [simp]: "to_char (ucast (k :: u8) :: u32) = to_char k"
  by (simp add: to_char_def unat_ucast_u8)

lemma gets_loop_line:
  assumes "list_all (\<lambda>k. \<not> line_end k) line" and "line_end e" and "console b h (line @ e # ks)"
  shows "\<exists>h'. gets_loop b s h = Some (s @ map to_char line, h') \<and> console b h' ks
    \<and> uart_tx h' = uart_tx h @ line_echo line e \<and> (quiet view \<longrightarrow> view h' = view h)"
  using assms(1,3)
proof (induction line arbitrary: s h)
  case Nil
  then have c0: "console b h (e # ks)" by simp
  from getchar_console [OF c0, of view] obtain h1 where h1: "getchar b h = Some (e, h1)" "console b h1 ks"
    "uart_tx h1 = uart_tx h" "quiet view \<longrightarrow> view h1 = view h" by blast
  from putchar_console [OF h1(2), of "ucast e" view] obtain h2 where h2: "putchar b (ucast e) h1 = Some h2"
    "console b h2 ks" "uart_tx h2 = uart_tx h1 @ [to_char e]" "quiet view \<longrightarrow> view h2 = view h1" by auto
  from putchar_console [OF h2(2), of "if e = 0x0A then 0x0D else 0x0A" view] obtain h3 where
    h3: "putchar b (if e = 0x0A then 0x0D else 0x0A) h2 = Some h3" "console b h3 ks"
    "uart_tx h3 = uart_tx h2 @ [to_char (if e = 0x0A then 0x0D else 0x0A :: u32)]"
    "quiet view \<longrightarrow> view h3 = view h2" by auto
  from assms(2) have "gets_loop b s h = Some (s, h3)"
    using h1(1) h2(1) h3(1) by (subst gets_loop.simps) (auto simp: line_end_def)
  with assms(2) h1 h2 h3 show ?case by (auto simp: line_echo_def line_end_def to_char_def)
next
  case (Cons k line)
  then have c0: "console b h (k # line @ e # ks)" and k: "k \<noteq> 0x0A" "k \<noteq> 0x0D"
    by (auto simp: line_end_def)
  from getchar_console [OF c0, of view] obtain h1 where h1: "getchar b h = Some (k, h1)"
    "console b h1 (line @ e # ks)" "uart_tx h1 = uart_tx h" "quiet view \<longrightarrow> view h1 = view h" by blast
  from putchar_console [OF h1(2), of "ucast k" view] obtain h2 where h2: "putchar b (ucast k) h1 = Some h2"
    "console b h2 (line @ e # ks)" "uart_tx h2 = uart_tx h1 @ [to_char k]"
    "quiet view \<longrightarrow> view h2 = view h1" by auto
  have "gets_loop b s h = gets_loop b (s @ [to_char k]) h2"
    using h1(1) h2(1) k by (subst gets_loop.simps) simp
  moreover from Cons.IH [OF _ h2(2), of "s @ [to_char k]"] Cons.prems(1) obtain h' where
    "gets_loop b (s @ [to_char k]) h2 = Some (s @ [to_char k] @ map to_char line, h')" "console b h' ks"
    "uart_tx h' = uart_tx h2 @ line_echo line e" "quiet view \<longrightarrow> view h' = view h2" by auto
  ultimately show ?case using h1 h2 by (auto simp: line_echo_def)
qed

text \<open>C18: line input returns once a line end is typed, with exactly the characters typed before it;
  every character is echoed, a carriage return or line feed together with its partner; what is typed
  after it is left for the next call.\<close>

lemma gets_reads_line:
  assumes "list_all (\<lambda>k. \<not> line_end k) line" and "line_end e" and "console b h (line @ e # ks)"
  shows "\<exists>h'. gets b h = Some (map to_char line, h') \<and> console b h' ks
    \<and> uart_tx h' = uart_tx h @ line_echo line e"
  using gets_loop_line [OF assms, of "[]"] by (auto simp: gets_def)

lemma gets_console:
  assumes "list_all (\<lambda>k. \<not> line_end k) line" and "line_end e" and "console b h (line @ e # ks)"
  shows "\<exists>h'. gets b h = Some (map to_char line, h') \<and> console b h' ks
    \<and> uart_tx h' = uart_tx h @ line_echo line e \<and> (quiet view \<longrightarrow> view h' = view h)"
  using gets_loop_line [OF assms, of "[]"] by (auto simp: gets_def)

lemma get_uint_console:
  assumes "list_all (\<lambda>k. \<not> line_end k) line" and "line_end e" and "console b h (line @ e # ks)"
    and "length line < 100"
  shows "\<exists>h'. get_uint b h = Some (fst (simple_strtoul (c_text (map to_char line)) 0), h')
    \<and> console b h' ks \<and> uart_tx h' = uart_tx h @ line_echo line e \<and> (quiet view \<longrightarrow> view h' = view h)"
proof -
  from gets_console [OF assms(1-3), of view] obtain h' where
    "gets b h = Some (map to_char line, h')" "console b h' ks"
    "uart_tx h' = uart_tx h @ line_echo line e" "quiet view \<longrightarrow> view h' = view h" by blast
  with assms(4) show ?thesis by (simp add: get_uint_def)
qed

subsection \<open>The character column of the memory dumps\<close>

fun print_char_row :: "bus \<Rightarrow> u8 list \<Rightarrow> hist \<Rightarrow> hist option" where
  "print_char_row b [] h = Some h"
| "print_char_row b (c # cs) h = do {
     h \<leftarrow> (if c < 0x20 \<or> c > 0x7e then putchar b (c32 CHR ''.'') h else putchar b (ucast c) h);
     print_char_row b cs h
   }"

text \<open>A user who types the given characters, the UART being ready at once.\<close>

definition typist :: "u8 list \<Rightarrow> bus" where
  "typist ks h a = (if a = URXH0 then ucast (ks ! rx_count h) else - 1)"

lemma console_typist: "console (typist ks) [] ks"
proof -
  have "(ucast (ucast (k :: u8) :: u32) :: u8) = k" for k by simp
  then show ?thesis
    by (auto simp: console_def typing_def tx_live_def live_def typist_def intro!: exI [of _ 0])
qed

lemma gets_reads_line_witness:
  "\<exists>h'. gets (typist [0x68, 0x69, 0x0D]) [] = Some (''hi'', h') \<and> uart_tx h' = ''hi'' @ [CHR 0x0D, CHR 0x0A]"
proof -
  have "map to_char [0x68, 0x69 :: u8] = ''hi''" "line_echo [0x68, 0x69] 0x0D = ''hi'' @ [CHR 0x0D, CHR 0x0A]"
    by (code_simp, code_simp)
  then show ?thesis
    using gets_reads_line [of "[0x68, 0x69]" "0x0D" "typist [0x68, 0x69, 0x0D]" "[]" "[]"]
      console_typist [of "[0x68, 0x69, 0x0D]"]
    by (auto simp: line_end_def)
qed

end
