(* ===== verification/At24.thy ===== *)
theory At24
  imports I2c Console
begin

text \<open>
  The EEPROM driver, \<^verbatim>\<open>i2c/at24cxx.c\<close>, over any I2C master, and its interactive test,
  \<^verbatim>\<open>i2c/i2c_test.c\<close>.  The EEPROM itself is specified by what its data sheet says of the bus traffic:
  \<open>ee_run\<close> interprets a log of traffic as the memory array and the address counter.
\<close>

type_synonym xfer = "i2c_msg list \<Rightarrow> hist \<Rightarrow> (int \<times> i2c_msg list \<times> hist) option"

abbreviation AT24CXX_ADDR :: u32 where "AT24CXX_ADDR \<equiv> 0x50"

definition write_msg :: "u32 \<Rightarrow> u8 \<Rightarrow> i2c_msg" where
  "write_msg addr v =
     \<lparr>m_addr = AT24CXX_ADDR, m_flags = 0, m_len = 2, cnt_transferred = -1, m_err = 0,
      m_buf = [ucast addr, v]\<rparr>"

text \<open>The loop over \<open>i\<close>; the counter is the number of rounds left.  Reading past the data is \<open>None\<close>.\<close>

primrec at24_write_loop ::
  "xfer \<Rightarrow> u8 list \<Rightarrow> nat \<Rightarrow> nat \<Rightarrow> u32 \<Rightarrow> hist \<Rightarrow> (int \<times> hist) option" where
  "at24_write_loop xfer data 0 i addr h = Some (0, h)"
| "at24_write_loop xfer data (Suc n) i addr h =
     (if i < length data then do {
        (err, _, h) \<leftarrow> xfer [write_msg addr (data ! i)] h;
        if err \<noteq> 0 then Some (err, h) else at24_write_loop xfer data n (Suc i) (addr + 1) h
      } else None)"

definition at24cxx_write :: "xfer \<Rightarrow> u32 \<Rightarrow> u8 list \<Rightarrow> int \<Rightarrow> hist \<Rightarrow> (int \<times> hist) option" where
  "at24cxx_write xfer addr data len h = at24_write_loop xfer data (nat len) 0 addr h"

text \<open>The address message points to the variable \<open>addr\<close>: its bytes, the lowest first.\<close>

definition addr_bytes :: "u32 \<Rightarrow> u8 list" where
  "addr_bytes a = [ucast a, ucast (drop_bit 8 a), ucast (drop_bit 16 a), ucast (drop_bit 24 a)]"

definition addr_msg :: "u32 \<Rightarrow> i2c_msg" where
  "addr_msg addr =
     \<lparr>m_addr = AT24CXX_ADDR, m_flags = 0, m_len = 1, cnt_transferred = -1, m_err = 0,
      m_buf = addr_bytes addr\<rparr>"

definition read_msg :: "u8 list \<Rightarrow> int \<Rightarrow> i2c_msg" where
  "read_msg data len =
     \<lparr>m_addr = AT24CXX_ADDR, m_flags = 1, m_len = len, cnt_transferred = -1, m_err = 0,
      m_buf = data\<rparr>"

text \<open>The result is the error code and the data buffer, which the transfer fills through the message.\<close>

definition at24cxx_read ::
  "xfer \<Rightarrow> u32 \<Rightarrow> u8 list \<Rightarrow> int \<Rightarrow> hist \<Rightarrow> (int \<times> u8 list \<times> hist) option" where
  "at24cxx_read xfer addr data len h = do {
     (err, msgs, h) \<leftarrow> xfer [addr_msg addr, read_msg data len] h;
     let data = m_buf (msgs ! 1);
     if err \<noteq> 0 then Some (err, data, h) else Some (0, data, h)
   }"

subsection \<open>The EEPROM\<close>

datatype ee_mode = Ee_idle | Ee_addr | Ee_write | Ee_read

record eeprom =
  ee_mem :: "u8 \<Rightarrow> u8"
  ee_ptr :: "u8 option"
  ee_mode :: ee_mode

text \<open>The device answers at 0xA0 (write) and 0xA1 (read); the first byte of a write sets the address
  counter, the others are stored; a read delivers from the counter on.  After a read the counter
  depends on how many bytes the master clocked, so it is left open.\<close>

fun ee_step :: "wire_event \<Rightarrow> eeprom \<Rightarrow> eeprom" where
  "ee_step (Start_tx a) e = e\<lparr>ee_mode := (if a = 0xA0 then Ee_addr else Ee_idle)\<rparr>"
| "ee_step (Start_rx a) e = e\<lparr>ee_mode := (if a = 0xA1 then Ee_read else Ee_idle)\<rparr>"
| "ee_step (Sent v) e =
     (case ee_mode e of
        Ee_addr \<Rightarrow> e\<lparr>ee_ptr := Some v, ee_mode := Ee_write\<rparr>
      | Ee_write \<Rightarrow>
          (case ee_ptr e of
             Some p \<Rightarrow> e\<lparr>ee_mem := (ee_mem e)(p := v), ee_ptr := Some (p + 1)\<rparr>
           | None \<Rightarrow> e)
      | _ \<Rightarrow> e)"
| "ee_step (Got v) e =
     (if ee_mode e = Ee_read then e\<lparr>ee_ptr := map_option (\<lambda>p. p + 1) (ee_ptr e)\<rparr> else e)"
| "ee_step Stop e =
     (if ee_mode e = Ee_read then e\<lparr>ee_ptr := None, ee_mode := Ee_idle\<rparr> else e\<lparr>ee_mode := Ee_idle\<rparr>)"

definition ee_run :: "(u8 \<Rightarrow> u8) \<Rightarrow> wire_event list \<Rightarrow> eeprom" where
  "ee_run m0 log = fold ee_step log \<lparr>ee_mem = m0, ee_ptr = None, ee_mode = Ee_idle\<rparr>"

text \<open>The device answers with the byte at its counter.\<close>

definition ee_answers :: "(u8 \<Rightarrow> u8) \<Rightarrow> (wire_event list \<Rightarrow> u8) \<Rightarrow> bool" where
  "ee_answers m0 resp \<longleftrightarrow>
     (\<forall>log p. ee_mode (ee_run m0 log) = Ee_read \<longrightarrow> ee_ptr (ee_run m0 log) = Some p
        \<longrightarrow> resp log = ee_mem (ee_run m0 log) p)"

definition ee_idle :: "(u8 \<Rightarrow> u8) \<Rightarrow> wire_event list \<Rightarrow> bool" where
  "ee_idle m0 log \<longleftrightarrow> ee_mode (ee_run m0 log) = Ee_idle"

abbreviation ee_contents :: "(u8 \<Rightarrow> u8) \<Rightarrow> wire_event list \<Rightarrow> u8 \<Rightarrow> u8" where
  "ee_contents m0 log \<equiv> ee_mem (ee_run m0 log)"

text \<open>The memory after storing a list of bytes from an address on, wrapping at 256.\<close>

fun store_at :: "u8 \<Rightarrow> u8 list \<Rightarrow> (u8 \<Rightarrow> u8) \<Rightarrow> (u8 \<Rightarrow> u8)" where
  "store_at a [] m = m"
| "store_at a (v # vs) m = store_at (a + 1) vs (m(a := v))"

lemma ee_run_append: "ee_run m0 (l @ es) = fold ee_step es (ee_run m0 l)"
  by (simp add: ee_run_def)

lemma dev_bytes: "dev_byte (write_msg a v) = 0xA0" "dev_byte (addr_msg a) = 0xA0"
  "dev_byte_rx (read_msg d n) = 0xA1"
  by (simp_all add: write_msg_def addr_msg_def read_msg_def)

lemma ee_write_frame:
  "ee_run m0 (l @ [Start_tx 0xA0] @ map Sent [a, v] @ [Stop])
     = (ee_run m0 l)\<lparr>ee_mem := (ee_contents m0 l)(a := v), ee_ptr := Some (a + 1), ee_mode := Ee_idle\<rparr>"
  by (simp add: ee_run_append)

lemma ee_addr_frame:
  "ee_run m0 (l @ [Start_tx 0xA0] @ map Sent [a] @ [Stop] @ [Start_rx 0xA1])
     = (ee_run m0 l)\<lparr>ee_ptr := Some a, ee_mode := Ee_read\<rparr>"
  by (simp add: ee_run_append)

lemma ee_gots:
  assumes "ee_run m0 l = e\<lparr>ee_ptr := Some a, ee_mode := Ee_read\<rparr>"
  shows "ee_run m0 (l @ map Got bs) = e\<lparr>ee_ptr := Some (a + of_nat (length bs)), ee_mode := Ee_read\<rparr>"
proof (induction bs rule: rev_induct)
  case Nil
  with assms show ?case by simp
next
  case (snoc v bs)
  then show ?case by (simp add: ee_run_append [of m0 "l @ map Got bs", simplified] add.assoc add.commute)
qed

subsection \<open>The driver over any master\<close>

context i2c_master begin

lemma write_loop_ok:
  assumes "ok h" and "i + n \<le> length data"
  shows "\<exists>h'. at24_write_loop xfer data n i addr h = Some (0, h') \<and> ok h'
    \<and> ee_contents m0 (log h') = store_at (ucast addr) (take n (drop i data)) (ee_contents m0 (log h))"
  using assms
proof (induction n arbitrary: i addr h)
  case 0
  then show ?case by simp
next
  case (Suc n)
  then have i: "i < length data" by simp
  obtain m' h1 where x: "xfer [write_msg addr (data ! i)] h = Some (0, [m'], h1)" "ok h1"
    and log: "log h1 = log h @ [Start_tx 0xA0] @ map Sent [ucast addr, data ! i] @ [Stop]"
    using xfer_write [OF Suc.prems(1), of "write_msg addr (data ! i)"] dev_bytes(1)
    by (auto simp: write_msg_def)
  have mem: "ee_contents m0 (log h1) = (ee_contents m0 (log h))(ucast addr := data ! i)"
    unfolding log ee_write_frame by simp
  from Suc.IH [OF x(2), of "Suc i" "addr + 1"] Suc.prems(2) obtain h' where
    h': "at24_write_loop xfer data n (Suc i) (addr + 1) h1 = Some (0, h')" "ok h'"
    "ee_contents m0 (log h') = store_at (ucast (addr + 1)) (take n (drop (Suc i) data)) (ee_contents m0 (log h1))"
    by auto
  have "take (Suc n) (drop i data) = data ! i # take n (drop (Suc i) data)"
    using i by (simp add: Cons_nth_drop_Suc [symmetric])
  moreover have "(ucast (addr + 1) :: u8) = ucast addr + 1" by (simp add: ucast_add32_8)
  ultimately show ?case using x i h' mem by simp
qed

lemma read_ok:
  assumes "ok h" and "ee_answers m0 resp" and "1 \<le> len" and "len \<le> int (length data)"
  shows "\<exists>h' bs. at24cxx_read xfer addr data len h = Some (0, bs @ drop (nat (len - 1)) data, h') \<and> ok h'
    \<and> bs = map (\<lambda>k. ee_contents m0 (log h) (ucast addr + of_nat k)) [0..<nat (len - 1)]
    \<and> ee_contents m0 (log h') = ee_contents m0 (log h)"
proof -
  obtain m1 h1 where x1: "xfer [addr_msg addr] h = Some (0, [m1], h1)" "ok h1"
    and log1: "log h1 = log h @ [Start_tx 0xA0] @ map Sent [ucast addr] @ [Stop]"
    using xfer_write [OF assms(1), of "addr_msg addr"] dev_bytes(2)
    by (auto simp: addr_msg_def addr_bytes_def)
  obtain m2 h2 bs where x2: "xfer [read_msg data len] h1 = Some (0, [m2], h2)" "ok h2"
    and bs: "length bs = nat (len - 1)" "m_buf m2 = bs @ drop (nat (len - 1)) data"
      "\<forall>k < length bs. bs ! k = resp (log h1 @ [Start_rx 0xA1] @ map Got (take k bs))"
      "log h2 = log h1 @ [Start_rx 0xA1] @ map Got bs @ [Stop]"
    using xfer_read [OF x1(2), of "read_msg data len"] dev_bytes(3) [of data len] assms(3,4)
    by (auto simp: read_msg_def)
  have e: "ee_run m0 (log h1 @ [Start_rx 0xA1]) = (ee_run m0 (log h))\<lparr>ee_ptr := Some (ucast addr), ee_mode := Ee_read\<rparr>"
    using ee_addr_frame [of m0 "log h" "ucast addr"] by (simp add: log1)
  have "bs ! k = ee_contents m0 (log h) (ucast addr + of_nat k)" if "k < length bs" for k
    using bs(3) that ee_gots [OF e, of "take k bs"] assms(2) [unfolded ee_answers_def]
    by (simp add: min_def)
  then have "bs = map (\<lambda>k. ee_contents m0 (log h) (ucast addr + of_nat k)) [0..<nat (len - 1)]"
    using bs(1) by (intro nth_equalityI) simp_all
  moreover have "ee_contents m0 (log h2) = ee_contents m0 (log h)"
    using ee_gots [OF e, of bs] by (simp add: bs(4) ee_run_append)
  moreover have "at24cxx_read xfer addr data len h = Some (0, bs @ drop (nat (len - 1)) data, h2)"
    using xfer_Cons [OF x1(1), of "[read_msg data len]"] x2(1) bs(2)
    by (simp add: at24cxx_read_def Let_def)
  ultimately show ?thesis using x2(2) by blast
qed

end

lemma store_at_other:
  "(\<And>k. k < length vs \<Longrightarrow> x \<noteq> a + of_nat k) \<Longrightarrow> store_at a vs m x = m x"
proof (induction vs arbitrary: a m)
  case Nil
  then show ?case by simp
next
  case (Cons v vs)
  have "x \<noteq> a + 1 + of_nat k" if "k < length vs" for k
    using Cons.prems [of "Suc k"] that by (simp add: add.assoc)
  moreover have "x \<noteq> a" using Cons.prems [of 0] by simp
  ultimately have "store_at (a + 1) vs (m(a := v)) x = (m(a := v)) x" by (intro Cons.IH)
  with \<open>x \<noteq> a\<close> show ?case by simp
qed

lemma of_nat8_eq_iff: "m < 256 \<Longrightarrow> n < 256 \<Longrightarrow> (of_nat m :: u8) = of_nat n \<longleftrightarrow> m = n"
  by (simp add: word_unat_eq_iff unat_of_nat)

lemma store_at_nth:
  "length vs \<le> 256 \<Longrightarrow> k < length vs \<Longrightarrow> store_at a vs m (a + of_nat k) = vs ! k"
proof (induction vs arbitrary: a m k)
  case Nil
  then show ?case by simp
next
  case (Cons v vs)
  show ?case
  proof (cases k)
    case 0
    have "a \<noteq> a + 1 + of_nat j" if "j < length vs" for j
    proof -
      have "(of_nat 0 :: u8) \<noteq> of_nat (Suc j)"
        using Cons.prems(1) that of_nat8_eq_iff [of 0 "Suc j"] by simp
      then show ?thesis by (simp add: add.assoc)
    qed
    then have "store_at (a + 1) vs (m(a := v)) a = v" by (subst store_at_other) auto
    with 0 show ?thesis by simp
  next
    case (Suc j)
    then have "store_at (a + 1) vs (m(a := v)) (a + 1 + of_nat j) = vs ! j"
      using Cons.prems by (intro Cons.IH) simp_all
    with Suc show ?thesis by (simp add: add.assoc)
  qed
qed

subsection \<open>Properties\<close>

text \<open>The hardware of a run: interrupts arrive, the EEPROM acknowledges and answers as its data sheet
  says, and no byte is half sent.\<close>

definition ee_board ::
  "(u8 \<Rightarrow> u8) \<Rightarrow> (hist \<Rightarrow> bool) \<Rightarrow> bus \<Rightarrow> (wire_event list \<Rightarrow> u8) \<Rightarrow> hist \<Rightarrow> bool" where
  "ee_board m0 arrives b resp h \<longleftrightarrow> i2c_ok arrives b resp h \<and> ee_answers m0 resp"

text \<open>A board that behaves so.\<close>

definition ee_resp :: "(u8 \<Rightarrow> u8) \<Rightarrow> wire_event list \<Rightarrow> u8" where
  "ee_resp m0 log = (case ee_ptr (ee_run m0 log) of None \<Rightarrow> 0 | Some p \<Rightarrow> ee_contents m0 log p)"

definition ee_bus :: "(u8 \<Rightarrow> u8) \<Rightarrow> bus" where
  "ee_bus m0 h a = (if a = IICDS then ucast (ee_resp m0 (wire h)) else 0)"

lemma ee_board_bus: "ee_board m0 (\<lambda>_. True) (ee_bus m0) (ee_resp m0) []"
  by (simp add: ee_board_def i2c_ok_def acks_def ee_answers_def ee_bus_def ee_resp_def idle_def
      wire_state_def)

lemma board_write:
  assumes "ee_board m0 arrives b resp h" and "n \<le> length data"
  shows "\<exists>h'. at24cxx_write (s3c2440_master_xfer arrives b) addr data (int n) h = Some (0, h')
    \<and> ee_board m0 arrives b resp h'
    \<and> ee_contents m0 (wire h') = store_at (ucast addr) (take n data) (ee_contents m0 (wire h))"
  using s3c_i2c.write_loop_ok [of arrives b resp h 0 n data addr m0] assms
  by (auto simp: ee_board_def at24cxx_write_def)

text \<open>Writing returns success and stores exactly the given bytes at consecutive EEPROM addresses
  from the start address on, modulo 256, whatever the array held and whatever ran before.\<close>

lemma at24_write_stores:
  assumes "ee_board m0 arrives b resp h" and "n \<le> length data"
  shows "\<exists>h'. at24cxx_write (s3c2440_master_xfer arrives b) addr data (int n) h = Some (0, h')
    \<and> ee_board m0 arrives b resp h'
    \<and> ee_contents m0 (wire h') = store_at (ucast addr) (take n data) (ee_contents m0 (wire h))"
  by (rule board_write [OF assms])

lemma at24_write_stores_witness:
  "\<exists>h'. at24cxx_write (s3c2440_master_xfer (\<lambda>_. True) (ee_bus (\<lambda>_. 0))) 0x10 [1, 2, 3] 3 [] = Some (0, h')
     \<and> ee_contents (\<lambda>_. 0) (wire h') 0x12 = 3"
proof -
  from at24_write_stores [OF ee_board_bus [of "\<lambda>_. 0"], of 3 "[1, 2, 3]" "0x10"] obtain h' where
    w: "at24cxx_write (s3c2440_master_xfer (\<lambda>_. True) (ee_bus (\<lambda>_. 0))) 0x10 [1, 2, 3] 3 [] = Some (0, h')"
    and m: "ee_contents (\<lambda>_. 0) (wire h') = store_at 0x10 [1, 2, 3] (ee_contents (\<lambda>_. 0) (wire []))"
    by (auto simp del: store_at.simps)
  have "store_at 0x10 [1, 2, 3] (ee_contents (\<lambda>_. 0) (wire [])) (0x10 + of_nat 2) = [1, 2, 3] ! 2"
    by (rule store_at_nth) simp_all
  with w m show ?thesis by (simp del: store_at.simps)
qed

lemma board_read:
  assumes "ee_board m0 arrives b resp h" and "1 \<le> len" and "len \<le> int (length data)"
  shows "\<exists>h'. at24cxx_read (s3c2440_master_xfer arrives b) addr data len h
      = Some (0, map (\<lambda>k. ee_contents m0 (wire h) (ucast addr + of_nat k)) [0..<nat (len - 1)]
                 @ drop (nat (len - 1)) data, h')
    \<and> ee_board m0 arrives b resp h' \<and> ee_contents m0 (wire h') = ee_contents m0 (wire h)"
  using s3c_i2c.read_ok [of arrives b resp h m0 len data addr] assms
  by (auto simp: ee_board_def)

text \<open>Reading returns success and changes nothing in the EEPROM; it fills the buffer with the bytes
  at the address on, but for the last byte of the requested length, which keeps its old value.\<close>

lemma at24_read_fills:
  assumes "ee_board m0 arrives b resp h" and "1 \<le> len" and "len \<le> int (length data)"
  shows "\<exists>h'. at24cxx_read (s3c2440_master_xfer arrives b) addr data len h
      = Some (0, map (\<lambda>k. ee_contents m0 (wire h) (ucast addr + of_nat k)) [0..<nat (len - 1)]
                 @ drop (nat (len - 1)) data, h')
    \<and> ee_board m0 arrives b resp h' \<and> ee_contents m0 (wire h') = ee_contents m0 (wire h)"
  by (rule board_read [OF assms])

lemma at24_read_fills_witness:
  "\<exists>h'. at24cxx_read (s3c2440_master_xfer (\<lambda>_. True) (ee_bus (\<lambda>a. a + 1))) 0x20 [0, 0, 9] 3 []
     = Some (0, [0x21, 0x22, 9], h')"
proof -
  have m: "ee_contents (\<lambda>a. a + 1) (wire []) = (\<lambda>a. a + 1)"
    by (simp add: wire_def wire_state_def ee_run_def)
  show ?thesis
    using at24_read_fills [OF ee_board_bus [of "\<lambda>a. a + 1"], of 3 "[0, 0, 9]" "0x20"]
    by (simp add: m upt_conv_Cons) blast
qed




subsection \<open>The interactive test\<close>

text \<open>The write test hands over \<^verbatim>\<open>strlen(str) + 1\<close> bytes; \<open>strlen\<close> being what it is, that is one byte.\<close>

definition str_bytes :: "string \<Rightarrow> u8 list" where
  "str_bytes s = map (\<lambda>c. ucast (c32 c)) s @ [0]"

definition do_write_at24cxx :: "bus \<Rightarrow> xfer \<Rightarrow> hist \<Rightarrow> hist option" where
  "do_write_at24cxx b xfer h = do {
     h \<leftarrow> printf (putchar b) ''Enter the address of sector to write: '' [] h;
     (addr, h) \<leftarrow> get_uint b h;
     if addr > 256 then printf (putchar b) (''address > 256, error!'' @ LFCR) [] h
     else do {
       h \<leftarrow> printf (putchar b) ''Enter the string to write: '' [] h;
       (str, h) \<leftarrow> gets b h;
       if length str \<ge> 100 then None else do {
         h \<leftarrow> printf (putchar b) (''writing ...'' @ LFCR) [] h;
         n \<leftarrow> strlen (c_text str);
         (err, h) \<leftarrow> at24cxx_write xfer addr (str_bytes str) (int n + 1) h;
         printf (putchar b) (''at24cxx_write ret = %d'' @ LFCR) [Arg_int (of_int err)] h
       }
     }
   }"

fun print_hex_row :: "bus \<Rightarrow> u8 list \<Rightarrow> hist \<Rightarrow> hist option" where
  "print_hex_row b [] h = Some h"
| "print_hex_row b (c # cs) h = do {
     h \<leftarrow> printf (putchar b) ''%02x '' [Arg_int (ucast c)] h;
     print_hex_row b cs h
   }"

primrec dump_rows :: "bus \<Rightarrow> u8 list \<Rightarrow> nat \<Rightarrow> nat \<Rightarrow> hist \<Rightarrow> hist option" where
  "dump_rows b data 0 cnt h = Some h"
| "dump_rows b data (Suc i) cnt h =
     (if cnt + 16 \<le> length data then do {
        let str = take 16 (drop cnt data);
        h \<leftarrow> print_hex_row b str h;
        h \<leftarrow> printf (putchar b) ''   ; '' [] h;
        h \<leftarrow> print_char_row b str h;
        h \<leftarrow> printf (putchar b) LFCR [] h;
        dump_rows b data i (cnt + 16) h
      } else None)"

text \<open>The buffer is not initialised: what it holds before the read is the argument \<open>junk\<close>.\<close>

definition do_read_at24cxx :: "bus \<Rightarrow> xfer \<Rightarrow> u8 list \<Rightarrow> hist \<Rightarrow> hist option" where
  "do_read_at24cxx b xfer junk h = do {
     h \<leftarrow> printf (putchar b) ''Enter the address to read: '' [] h;
     (addr, h) \<leftarrow> get_uint b h;
     if addr > 256 then printf (putchar b) (''address > 256, error!'' @ LFCR) [] h
     else do {
       h \<leftarrow> printf (putchar b) ''Enter the length to read: '' [] h;
       (len, h) \<leftarrow> get_int b h;
       (err, data, h) \<leftarrow> at24cxx_read xfer addr (take 100 junk) (sint len) h;
       h \<leftarrow> printf (putchar b) (''at24cxx_read ret = %d'' @ LFCR) [Arg_int (of_int err)] h;
       h \<leftarrow> printf (putchar b) (''Data : '' @ LFCR) [] h;
       dump_rows b data 4 0 h
     }
   }"

definition print_menu :: "bus \<Rightarrow> hist \<Rightarrow> hist option" where
  "print_menu b h = do {
     h \<leftarrow> printf (putchar b) (''[w] Write at24cxx'' @ LFCR) [] h;
     h \<leftarrow> printf (putchar b) (''[r] Read at24cxx'' @ LFCR) [] h;
     h \<leftarrow> printf (putchar b) (''[q] quit'' @ LFCR) [] h;
     printf (putchar b) ''Enter selection: '' [] h
   }"

partial_function (option) i2c_test_loop :: "bus \<Rightarrow> xfer \<Rightarrow> u8 list \<Rightarrow> hist \<Rightarrow> hist option" where
  "i2c_test_loop b xfer junk h = do {
     h \<leftarrow> print_menu b h;
     (c, h) \<leftarrow> getchar b h;
     h \<leftarrow> printf (putchar b) (''%c'' @ LFCR) [Arg_int (ucast c)] h;
     let ch = to_char c;
     if ch = CHR ''q'' \<or> ch = CHR ''Q'' then Some h
     else if ch = CHR ''w'' \<or> ch = CHR ''W'' then
       do { h \<leftarrow> do_write_at24cxx b xfer h; i2c_test_loop b xfer junk h }
     else if ch = CHR ''r'' \<or> ch = CHR ''R'' then
       do { h \<leftarrow> do_read_at24cxx b xfer junk h; i2c_test_loop b xfer junk h }
     else i2c_test_loop b xfer junk h
   }"

definition i2c_test ::
  "(hist \<Rightarrow> bool) \<Rightarrow> bus \<Rightarrow> 'f \<Rightarrow> u8 list \<Rightarrow> 'f i2c_state \<Rightarrow> 'f option list \<times> hist
   \<Rightarrow> ('f i2c_state \<times> 'f option list \<times> hist) option" where
  "i2c_test arrives b i2c_fn junk s th = do {
     (s, tab, h) \<leftarrow> i2c_init arrives b i2c_fn s th;
     h \<leftarrow> i2c_test_loop b (i2c_transfer s) junk h;
     Some (s, tab, h)
   }"

text \<open>Initialisation selects the S3C2440 controller and installs the handler at source 27.\<close>

lemma i2c_init_selects:
  assumes "length tab = 32"
  shows "\<exists>s h'. i2c_init arrives b f i2c_state0 (tab, h) = Some (s, tab[27 := Some f], h')
    \<and> i2c_transfer s = s3c2440_master_xfer arrives b"
  using assms
  by (simp add: i2c_init_def s3c2440_i2c_con_add_def register_i2c_controller_def i2c_state0_def
      tab_add_def select_i2c_controller_def s3c2440_i2c_con_def s3c2440_i2c_con_init_def
      register_irq_def strcmp_zero replicate_numeral_eq i2c_transfer_def Let_def fun_eq_iff)

end
