(* ===== verification/Monitor.thy ===== *)
theory Monitor
  imports Boot Display At24 Interrupt Timer
begin

text \<open>
  The program as a whole, \<^verbatim>\<open>bare_board/code/I2c/20200510_IIC/main.c\<close>: the initialisations, the greeting,
  the display test and the EEPROM test, up to the endless loop at the end; and the functions that the
  tables of interrupt handlers and of timer callbacks can hold, with what a call of each does.
\<close>

datatype irq_fn = Key_eint_irq | Timer_irq | I2c_interrupt_func

datatype timer_fn = Led_timer_irq

record board =
  irq_array :: "irq_fn option list"
  timer_array :: "timer_fn timer_desc list"
  lcds :: lcd_state
  i2c :: "irq_fn i2c_state"

definition board0 :: board where
  "board0 = \<lparr>irq_array = replicate 32 None, timer_array = empty_timers, lcds = lcd_state0, i2c = i2c_state0\<rparr>"

text \<open>The variable \<^verbatim>\<open>g_A\<close> of the greeting is never assigned, so it is 0.  The result is the state in
  which the program enters \<^verbatim>\<open>while (1);\<close>.\<close>

definition main_prog ::
  "(hist \<Rightarrow> bool) \<Rightarrow> bus \<Rightarrow> (nat \<Rightarrow> u8) \<Rightarrow> u8 list \<Rightarrow> hist \<Rightarrow> (board \<times> hist) option" where
  "main_prog arrives b font junk h = do {
     let (timers, h) = led_init b Led_timer_irq (timer_array board0, h);
     (tab, h) \<leftarrow> key_eint_init b Key_eint_irq (irq_array board0, h);
     (tab, h) \<leftarrow> timer_init b Timer_irq (tab, h);
     h \<leftarrow> puts (putchar b) (LFCR @ ''g_A = '') h;
     h \<leftarrow> printHex (putchar b) 0 h;
     h \<leftarrow> puts (putchar b) LFCR h;
     (l, h) \<leftarrow> lcd_test b font (lcds board0, h);
     (c, tab, h) \<leftarrow> i2c_test arrives b I2c_interrupt_func junk (i2c board0) (tab, h);
     Some (\<lparr>irq_array = tab, timer_array = timers, lcds = l, i2c = c\<rparr>, h)
   }"

text \<open>What a dispatched interrupt runs: the state that the handlers share is the LED counter and the
  message that the I2C transfer is working on; the table of timer callbacks does not change.\<close>

definition call_timer :: "bus \<Rightarrow> timer_fn \<Rightarrow> (led_state \<times> i2c_msg) \<times> hist \<Rightarrow> ((led_state \<times> i2c_msg) \<times> hist) option" where
  "call_timer b f sh =
     (case f of Led_timer_irq \<Rightarrow>
        (let ((s, m), h) = sh; (s, h) = led_timer_irq b (s, h) in Some ((s, m), h)))"

definition call_irq :: "bus \<Rightarrow> timer_fn timer_desc list \<Rightarrow> (irq_fn, led_state \<times> i2c_msg) caller" where
  "call_irq b timers f irq sh =
     (case f of
        Key_eint_irq \<Rightarrow> Some (fst sh, key_eint_irq b irq (snd sh))
      | Timer_irq \<Rightarrow> timer_irq (call_timer b) timers sh
      | I2c_interrupt_func \<Rightarrow>
          (let ((s, m), h) = sh in map_option (\<lambda>(m, h). ((s, m), h)) (i2c_interrupt_func b (m, h))))"

subsection \<open>Start-up\<close>

lemma i2c_test_loop_quits:
  assumes "\<And>h. tx_live b h" and "\<And>h. rx_live b h" and "\<And>h. (ucast (b h URXH0) :: u8) = 0x71"
  shows "\<exists>h'. i2c_test_loop b xfer junk h = Some h'"
proof -
  have p: "\<exists>h'. printf (putchar b) fmt [] h = Some h'" if "CHR ''%'' \<notin> set fmt" for fmt h
    using printf_lit [of b h "[]" fmt "[]"] that assms(1) by auto
  have menu: "\<exists>h'. print_menu b h = Some h'" for h
    using p [of "''[w] Write at24cxx'' @ LFCR"] p [of "''[r] Read at24cxx'' @ LFCR"]
      p [of "''[q] quit'' @ LFCR"] p [of "''Enter selection: ''"]
    by (simp add: print_menu_def LFCR_def) metis
  from menu [of h] obtain h1 where h1: "print_menu b h = Some h1" by blast
  from live_spin [of "rx_wait b" h1] assms(2) [of h1] obtain h2 where
    h2: "getchar b h1 = Some (0x71, h2)"
    using assms(3) by (auto simp: getchar_def rx_live_def rd8_def)
  have q: "to_char (0x71 :: u8) = CHR ''q''" "to_char (0x71 :: u32) = CHR ''q''" by (code_simp, code_simp)
  have "render (''%c'' @ LFCR) [Arg_int (ucast (0x71 :: u8))] = Some (''q'' @ LFCR)"
    using q by (simp add: render_eval LFCR_def)
  from printf_console [OF this, of b h2 "[]"] assms(1) obtain h3 where
    h3: "printf (putchar b) (''%c'' @ LFCR) [Arg_int (ucast (0x71 :: u8))] h2 = Some h3" by auto
  from h1 h2 h3 q show ?thesis by (subst i2c_test_loop.simps) simp
qed

lemma main_loop:
  assumes "\<And>h. tx_live b h" and "\<And>h. rx_live b h" and "\<And>h. (ucast (b h URXH0) :: u8) = 0x71"
  shows "\<exists>s h'. main_prog arrives b font junk h = Some (s, h')
    \<and> irq_array s = (replicate 32 None)[0 := Some Key_eint_irq, 2 := Some Key_eint_irq,
        5 := Some Key_eint_irq, 10 := Some Timer_irq, 27 := Some I2c_interrupt_func]
    \<and> callbacks (timer_array s) = [Led_timer_irq]
    \<and> get_lcd_params (lcds s) = Some (0x33c00000, 480, 272, 32)
    \<and> i2c_transfer (i2c s) = s3c2440_master_xfer arrives b"
proof -
  define tab where "tab = (replicate 32 None)[0 := Some Key_eint_irq, 2 := Some Key_eint_irq,
        5 := Some Key_eint_irq, 10 := Some Timer_irq]"
  obtain timers h1 where led: "led_init b Led_timer_irq (timer_array board0, h) = (timers, h1)"
    and t: "callbacks timers = [Led_timer_irq]"
    by (simp add: led_init_def board0_def register_timer_def empty_timers_def callbacks_def
        List.map_filter_def replicate_numeral_eq)
  obtain h2 where k: "key_eint_init b Key_eint_irq (irq_array board0, h1)
      = Some ((replicate 32 None)[0 := Some Key_eint_irq, 2 := Some Key_eint_irq, 5 := Some Key_eint_irq], h2)"
    by (simp add: key_eint_init_def register_irq_def board0_def Let_def)
  obtain h3 where ti: "timer_init b Timer_irq ((replicate 32 None)[0 := Some Key_eint_irq,
      2 := Some Key_eint_irq, 5 := Some Key_eint_irq], h2) = Some (tab, h3)"
    by (simp add: timer_init_def register_irq_def tab_def Let_def)
  have prints: "\<exists>h'. f g = Some h'" if "uart.prints b f s" for f s g
    using uart.prints_live [OF that] assms(1) by blast
  from prints [OF uart.prints_puts] obtain h4 where h4: "puts (putchar b) (LFCR @ ''g_A = '') h3 = Some h4" by blast
  from prints [OF uart.prints_printHex] obtain h5 where h5: "printHex (putchar b) 0 h4 = Some h5" by blast
  from prints [OF uart.prints_puts] obtain h6 where h6: "puts (putchar b) LFCR h5 = Some h6" by blast
  from lcd_test_ok [of b font h6] obtain l h7 where
    l: "lcd_test b font (lcds board0, h6) = Some (l, h7)" "get_lcd_params l = Some (0x33c00000, 480, 272, 32)"
    by (auto simp: board0_def)
  from i2c_init_selects [of tab arrives b I2c_interrupt_func h7] obtain c h8 where
    c: "i2c_init arrives b I2c_interrupt_func (i2c board0) (tab, h7) = Some (c, tab[27 := Some I2c_interrupt_func], h8)"
    "i2c_transfer c = s3c2440_master_xfer arrives b"
    by (auto simp: tab_def board0_def)
  from i2c_test_loop_quits [OF assms] obtain h9 where
    "i2c_test_loop b (i2c_transfer c) junk h8 = Some h9" by blast
  with c(1) have "i2c_test arrives b I2c_interrupt_func junk (i2c board0) (tab, h7)
      = Some (c, tab[27 := Some I2c_interrupt_func], h9)"
    by (simp add: i2c_test_def)
  with led t k ti h4 h5 h6 l c(2) show ?thesis
    by (simp add: main_prog_def tab_def)
qed

text \<open>With the UART working and a user who answers the EEPROM menu with \<open>q\<close>, the program reaches its
  endless loop: the key handler is installed at sources 0, 2 and 5, the timer handler at 10 and the I2C
  handler at 27 and nothing else, the LED callback is the only timer, the 4.3 inch panel is selected, and
  EEPROM transfers go through the S3C2440 controller.\<close>

lemma main_reaches_loop:
  assumes "\<And>h. tx_live b h" and "\<And>h. rx_live b h" and "\<And>h. (ucast (b h URXH0) :: u8) = 0x71"
  shows "\<exists>s h'. main_prog arrives b font junk h = Some (s, h')
    \<and> irq_array s = (replicate 32 None)[0 := Some Key_eint_irq, 2 := Some Key_eint_irq,
        5 := Some Key_eint_irq, 10 := Some Timer_irq, 27 := Some I2c_interrupt_func]
    \<and> callbacks (timer_array s) = [Led_timer_irq]
    \<and> get_lcd_params (lcds s) = Some (0x33c00000, 480, 272, 32)
    \<and> i2c_transfer (i2c s) = s3c2440_master_xfer arrives b"
  by (rule main_loop [of b arrives font junk h, OF assms(1) assms(2) assms(3)])

lemma main_reaches_loop_witness:
  "\<exists>s h'. main_prog (\<lambda>_. True) (\<lambda>h a. if a = URXH0 then 0x71 else - 1) (\<lambda>_. 0) [] [] = Some (s, h')
     \<and> irq_array s ! 10 = Some Timer_irq"
proof -
  let ?b = "\<lambda>(h :: hist) a. if a = URXH0 then 0x71 else (- 1 :: u32)"
  have "tx_live ?b h" "rx_live ?b h" "(ucast (?b h URXH0) :: u8) = 0x71" for h
    by (auto simp: tx_live_def rx_live_def live_def intro!: exI [of _ 0])
  from main_reaches_loop [of ?b "\<lambda>_. True" "\<lambda>_. 0" "[]" "[]", OF this] show ?thesis by auto
qed

subsection \<open>Interrupts after start-up\<close>

lemma main_tables:
  assumes "main_prog arrives b font junk h = Some (s, h')"
  shows "irq_array s = (replicate 32 None)[0 := Some Key_eint_irq, 2 := Some Key_eint_irq,
        5 := Some Key_eint_irq, 10 := Some Timer_irq, 27 := Some I2c_interrupt_func]
    \<and> callbacks (timer_array s) = [Led_timer_irq]"
proof -
  define tab where "tab = (replicate 32 None)[0 := Some Key_eint_irq, 2 := Some Key_eint_irq,
        5 := Some Key_eint_irq, 10 := Some Timer_irq]"
  have t: "callbacks (fst (register_timer ''led'' Led_timer_irq empty_timers)) = [Led_timer_irq]"
    by (simp add: register_timer_def empty_timers_def callbacks_def List.map_filter_def replicate_numeral_eq)
  from i2c_init_selects [of tab arrives b I2c_interrupt_func] have
    i: "\<exists>c g'. i2c_init arrives b I2c_interrupt_func i2c_state0 (tab, g) = Some (c, tab[27 := Some I2c_interrupt_func], g')" for g
    by (fastforce simp: tab_def)
  from assms obtain l c h6 h7 h8 where
    run: "i2c_test arrives b I2c_interrupt_func junk i2c_state0 (tab, h7) = Some (c, irq_array s, h8)"
    "timer_array s = fst (register_timer ''led'' Led_timer_irq empty_timers)"
    by (auto simp: main_prog_def board0_def led_init_def key_eint_init_def timer_init_def register_irq_def
        tab_def Let_def split: prod.splits)
  from i [of h7] run(1) have "irq_array s = tab[27 := Some I2c_interrupt_func]"
    by (auto simp: i2c_test_def)
  with t run(2) show ?thesis by (simp add: tab_def)
qed

text \<open>C17: in the state that start-up leaves, a timer interrupt, a key interrupt and an I2C interrupt each
  run their own handler once, on the state of that handler alone, and acknowledge that source and no
  other; the timer handler is one tick of the LED counter.\<close>

lemma board_dispatches:
  assumes "main_prog arrives b font junk h0 = Some (s, h1)"
  shows "(b h INTOFFSET = 10 \<longrightarrow>
      handle_irq_c b (call_irq b (timer_array s)) (irq_array s) ((led, m), h)
        = (let (led', g) = led_timer_irq b (led, h @ [Rd32 INTOFFSET 10])
           in Some ((led', m), g @ [Wr32 SRCPND (bitm 10), Wr32 INTPND (bitm 10)])))
    \<and> (b h INTOFFSET \<in> {0, 2, 5} \<longrightarrow>
      handle_irq_c b (call_irq b (timer_array s)) (irq_array s) ((led, m), h)
        = Some ((led, m), key_eint_irq b (unat (b h INTOFFSET)) (h @ [Rd32 INTOFFSET (b h INTOFFSET)])
            @ [Wr32 SRCPND (bitm (unat (b h INTOFFSET))), Wr32 INTPND (bitm (unat (b h INTOFFSET)))]))
    \<and> (b h INTOFFSET = 27 \<longrightarrow>
      handle_irq_c b (call_irq b (timer_array s)) (irq_array s) ((led, m), h)
        = map_option (\<lambda>(m', g). ((led, m'), g @ [Wr32 SRCPND (bitm 27), Wr32 INTPND (bitm 27)]))
            (i2c_interrupt_func b (m, h @ [Rd32 INTOFFSET 27])))"
proof -
  from main_tables [OF assms] have
    a: "irq_array s = (replicate 32 None)[0 := Some Key_eint_irq, 2 := Some Key_eint_irq,
        5 := Some Key_eint_irq, 10 := Some Timer_irq, 27 := Some I2c_interrupt_func]"
    and t: "callbacks (timer_array s) = [Led_timer_irq]" by auto
  have "timer_irq (call_timer b) (timer_array s) sh = call_timer b Led_timer_irq sh" for sh
    by (cases "call_timer b Led_timer_irq sh") (simp_all add: timer_irq_runs t)
  then show ?thesis
    by (auto simp: handle_irq_c_def a call_irq_def call_timer_def mmio_defs Let_def case_prod_unfold
        split: option.splits)
      (cases "i2c_interrupt_func b (m, h @ [Rd32 INTOFFSET 27])"; simp)
qed

definition idle_msg :: i2c_msg where
  "idle_msg = \<lparr>m_addr = 0, m_flags = 0, m_len = 0, cnt_transferred = 0, m_err = 0, m_buf = []\<rparr>"

lemma board_dispatches_witness:
  "\<exists>s h'. main_prog (\<lambda>_. True) (\<lambda>h a. if a = URXH0 then 0x71 else if a = INTOFFSET then 10 else - 1) (\<lambda>_. 0) [] []
       = Some (s, h')
     \<and> handle_irq_c (\<lambda>h a. if a = URXH0 then 0x71 else if a = INTOFFSET then 10 else - 1)
         (call_irq (\<lambda>h a. if a = URXH0 then 0x71 else if a = INTOFFSET then 10 else - 1) (timer_array s))
         (irq_array s) ((\<lparr>timer_num = 3, led_cnt = 0\<rparr>, idle_msg), [])
       = Some ((\<lparr>timer_num = 4, led_cnt = 0\<rparr>, idle_msg), [Rd32 INTOFFSET 10, Wr32 SRCPND (bitm 10), Wr32 INTPND (bitm 10)])"
proof -
  let ?b = "\<lambda>(h :: hist) a. if a = URXH0 then 0x71 else if a = INTOFFSET then 10 else (- 1 :: u32)"
  have "tx_live ?b h" "rx_live ?b h" "(ucast (?b h URXH0) :: u8) = 0x71" for h
    by (auto simp: tx_live_def rx_live_def live_def intro!: exI [of _ 0])
  from main_loop [of ?b "\<lambda>_. True" "\<lambda>_. 0" "[]" "[]", OF this] obtain s h' where
    s: "main_prog (\<lambda>_. True) ?b (\<lambda>_. 0) [] [] = Some (s, h')" by blast
  with board_dispatches [OF s, where h = "[]" and led = "\<lparr>timer_num = 3, led_cnt = 0\<rparr>" and m = idle_msg] show ?thesis
    by (auto simp: led_timer_irq_def)
qed

end
