(* ===== verification/Nor.thy ===== *)
theory Nor
  imports Console
begin

text \<open>
  The NOR flash tool of the monitor, \<^verbatim>\<open>bare_board/code/I2c/20200510_IIC/nor_flash.c\<close>: scanning the CFI
  tables, erasing a sector, programming a text and dumping memory.  The chip is specified by its command
  set: \<open>nor_step\<close> reads the 16-bit stores of a history as commands that change its mode and its array of
  words.  The flash is at address 0 and its word \<open>n\<close> is at byte address \<open>2 * n\<close>.
\<close>

subsection \<open>Word access and commands\<close>

abbreviation NOR_FLASH_BASE :: u32 where "NOR_FLASH_BASE \<equiv> 0"

definition nor_write_word :: "u32 \<Rightarrow> u32 \<Rightarrow> u32 \<Rightarrow> hist \<Rightarrow> hist" where
  "nor_write_word base offset val h = wr16 (base + push_bit 1 offset) (ucast val) h"

definition nor_cmd :: "u32 \<Rightarrow> u32 \<Rightarrow> hist \<Rightarrow> hist" where
  "nor_cmd offset cmd h = nor_write_word NOR_FLASH_BASE offset cmd h"

definition nor_read_word :: "bus \<Rightarrow> u32 \<Rightarrow> u32 \<Rightarrow> hist \<Rightarrow> u32 \<times> hist" where
  "nor_read_word b base offset h =
     (let (v, h) = rd16 b (base + push_bit 1 offset) h in (ucast v, h))"

definition nor_dat :: "bus \<Rightarrow> u32 \<Rightarrow> hist \<Rightarrow> u32 \<times> hist" where
  "nor_dat b offset h = nor_read_word b NOR_FLASH_BASE offset h"

text \<open>The loop of \<^verbatim>\<open>wait_ready\<close>, over the read it repeats; the state is the previous value.\<close>

partial_function (option) nor_poll :: "(hist \<Rightarrow> u32 \<times> hist) \<Rightarrow> u32 \<times> hist \<Rightarrow> hist option" where
  "nor_poll rd st =
     (let (pre, h) = st; (val, h) = rd h
      in if val AND bitm 6 = pre AND bitm 6 then Some h else nor_poll rd (val, h))"

definition wait_ready :: "bus \<Rightarrow> u32 \<Rightarrow> hist \<Rightarrow> hist option" where
  "wait_ready b addr h =
     nor_poll (\<lambda>h. nor_dat b (drop_bit 1 addr) h) (nor_dat b (drop_bit 1 addr) h)"

subsection \<open>The scan\<close>

text \<open>The loops over the regions and over the blocks of a region; the counters of rounds left are the
  first arguments.  Calls inside one expression are taken from left to right.\<close>

primrec scan_blocks ::
  "bus \<Rightarrow> u32 \<Rightarrow> nat \<Rightarrow> u32 \<Rightarrow> nat \<Rightarrow> hist \<Rightarrow> (u32 \<times> nat \<times> hist) option" where
  "scan_blocks b block_size 0 block_addr cnt h = Some (block_addr, cnt, h)"
| "scan_blocks b block_size (Suc j) block_addr cnt h = do {
     h \<leftarrow> printHex (putchar b) block_addr h;
     h \<leftarrow> putchar b (c32 CHR '' '') h;
     let cnt = Suc cnt;
     let block_addr = block_addr + block_size;
     h \<leftarrow> (if cnt mod 5 = 0 then printf (putchar b) LFCR [] h else Some h);
     scan_blocks b block_size j block_addr cnt h
   }"

primrec scan_regions ::
  "bus \<Rightarrow> nat \<Rightarrow> u32 \<Rightarrow> u32 \<Rightarrow> nat \<Rightarrow> hist \<Rightarrow> hist option" where
  "scan_regions b 0 region_info_base block_addr cnt h = Some h"
| "scan_regions b (Suc i) region_info_base block_addr cnt h = do {
     let (lo, h) = nor_dat b region_info_base h;
     let (hi, h) = nor_dat b (region_info_base + 1) h;
     let blocks = 1 + lo + push_bit 8 hi;
     let (lo, h) = nor_dat b (region_info_base + 2) h;
     let (hi, h) = nor_dat b (region_info_base + 3) h;
     let block_size = 256 * (lo + push_bit 8 hi);
     (block_addr, cnt, h) \<leftarrow> scan_blocks b block_size (nat (sint blocks)) block_addr cnt h;
     scan_regions b i (region_info_base + 4) block_addr cnt h
   }"

definition do_scan_nor_flash :: "bus \<Rightarrow> hist \<Rightarrow> hist option" where
  "do_scan_nor_flash b h = do {
     let h = nor_cmd 0x555 0xaa h;
     let h = nor_cmd 0x2aa 0x55 h;
     let h = nor_cmd 0x555 0x90 h;
     let (vendor, h) = nor_dat b 0 h;
     let (device, h) = nor_dat b 1 h;
     let h = nor_cmd 0 0xf0 h;
     let h = nor_cmd 0x55 0x98 h;
     let (s0, h) = nor_dat b 0x10 h;
     let (s1, h) = nor_dat b 0x11 h;
     let (s2, h) = nor_dat b 0x12 h;
     let str = c_text [to_char s0, to_char s1, to_char s2];
     h \<leftarrow> printf (putchar b) (''str = %s'' @ LFCR) [Arg_str str] h;
     let (n, h) = nor_dat b 0x27 h;
     if n \<ge> 32 then None else do {
       let sz = (push_bit (unat n) 1 :: u32);
       h \<leftarrow> printf (putchar b) (''vendor id = 0x%x, device id = 0x%x, nor size = 0x%x, %dM'' @ LFCR)
              [Arg_int vendor, Arg_int device, Arg_int sz, Arg_int (sz div (1024 * 1024))] h;
       let (regions, h) = nor_dat b 0x2c h;
       h \<leftarrow> printf (putchar b) (''Block/Sector start Address:'' @ LFCR) [] h;
       h \<leftarrow> scan_regions b (unat regions) 0x2d 0 0 h;
       h \<leftarrow> printf (putchar b) LFCR [] h;
       Some (nor_cmd 0 0xf0 h)
     }
   }"

subsection \<open>Erasing, programming and reading\<close>

definition do_erase_nor_flash :: "bus \<Rightarrow> hist \<Rightarrow> hist option" where
  "do_erase_nor_flash b h = do {
     h \<leftarrow> printf (putchar b) ''Enter the address of sector to erase: '' [] h;
     (addr, h) \<leftarrow> get_uint b h;
     h \<leftarrow> printf (putchar b) (''erasing ...'' @ LFCR) [] h;
     let h = nor_cmd 0x555 0xaa h;
     let h = nor_cmd 0x2aa 0x55 h;
     let h = nor_cmd 0x555 0x80 h;
     let h = nor_cmd 0x555 0xaa h;
     let h = nor_cmd 0x2aa 0x55 h;
     let h = nor_cmd (drop_bit 1 addr) 0x30 h;
     wait_ready b addr h
   }"

definition program_word :: "bus \<Rightarrow> u32 \<Rightarrow> u32 \<Rightarrow> hist \<Rightarrow> hist option" where
  "program_word b addr val h =
     (let h = nor_cmd 0x555 0xaa h;
          h = nor_cmd 0x2aa 0x55 h;
          h = nor_cmd 0x555 0xa0 h;
          h = nor_cmd (drop_bit 1 addr) val h
      in wait_ready b addr h)"

text \<open>The loop takes the text two characters at a time until it meets the terminator; what is left,
  a last character or the terminator itself, is programmed as one more word.\<close>

fun program_text :: "bus \<Rightarrow> u32 \<Rightarrow> u8 list \<Rightarrow> hist \<Rightarrow> hist option" where
  "program_text b addr (c # d # str) h = do {
     h \<leftarrow> program_word b addr (ucast c + push_bit 8 (ucast d)) h;
     program_text b (addr + 2) str h
   }"
| "program_text b addr [c] h = program_word b addr (ucast c) h"
| "program_text b addr [] h = program_word b addr 0 h"

definition bytes_of :: "string \<Rightarrow> u8 list" where
  "bytes_of s = map (\<lambda>c. ucast (c32 c)) s"

definition do_write_nor_flash :: "bus \<Rightarrow> hist \<Rightarrow> hist option" where
  "do_write_nor_flash b h = do {
     h \<leftarrow> printf (putchar b) ''Enter the address of sector to write: '' [] h;
     (addr, h) \<leftarrow> get_uint b h;
     h \<leftarrow> printf (putchar b) ''Enter the string to write: '' [] h;
     (str, h) \<leftarrow> gets b h;
     if length str \<ge> 100 then None else do {
       h \<leftarrow> printf (putchar b) (''writing ...'' @ LFCR) [] h;
       program_text b addr (bytes_of (c_text str)) h
     }
   }"

primrec read_row :: "bus \<Rightarrow> nat \<Rightarrow> u32 \<Rightarrow> hist \<Rightarrow> (u8 list \<times> hist) option" where
  "read_row b 0 p h = Some ([], h)"
| "read_row b (Suc j) p h = do {
     let (c, h) = rd8 b p h;
     h \<leftarrow> printf (putchar b) ''%02x '' [Arg_int (ucast c)] h;
     (str, h) \<leftarrow> read_row b j (p + 1) h;
     Some (c # str, h)
   }"

primrec read_rows :: "bus \<Rightarrow> nat \<Rightarrow> u32 \<Rightarrow> hist \<Rightarrow> hist option" where
  "read_rows b 0 p h = Some h"
| "read_rows b (Suc i) p h = do {
     (str, h) \<leftarrow> read_row b 16 p h;
     h \<leftarrow> printf (putchar b) ''   ; '' [] h;
     h \<leftarrow> print_char_row b str h;
     h \<leftarrow> printf (putchar b) LFCR [] h;
     read_rows b i (p + 16) h
   }"

definition do_read_nor_flash :: "bus \<Rightarrow> hist \<Rightarrow> hist option" where
  "do_read_nor_flash b h = do {
     h \<leftarrow> printf (putchar b) ''Enter the address to read: '' [] h;
     (addr, h) \<leftarrow> get_uint b h;
     h \<leftarrow> printf (putchar b) (''Data : '' @ LFCR) [] h;
     read_rows b 4 addr h
   }"

definition nor_menu :: "bus \<Rightarrow> hist \<Rightarrow> hist option" where
  "nor_menu b h = do {
     h \<leftarrow> printf (putchar b) (''[s] Scan nor flash'' @ LFCR) [] h;
     h \<leftarrow> printf (putchar b) (''[e] Erase nor flash'' @ LFCR) [] h;
     h \<leftarrow> printf (putchar b) (''[w] Write nor flash'' @ LFCR) [] h;
     h \<leftarrow> printf (putchar b) (''[r] Read nor flash'' @ LFCR) [] h;
     h \<leftarrow> printf (putchar b) (''[q] quit'' @ LFCR) [] h;
     printf (putchar b) ''Enter selection: '' [] h
   }"

partial_function (option) nor_flash_test :: "bus \<Rightarrow> hist \<Rightarrow> hist option" where
  "nor_flash_test b h = do {
     h \<leftarrow> nor_menu b h;
     (c, h) \<leftarrow> getchar b h;
     h \<leftarrow> printf (putchar b) (''%c'' @ LFCR) [Arg_int (ucast c)] h;
     let ch = to_char c;
     if ch = CHR ''q'' \<or> ch = CHR ''Q'' then Some h
     else do {
       h \<leftarrow> (if ch = CHR ''s'' \<or> ch = CHR ''S'' then do_scan_nor_flash b h
            else if ch = CHR ''e'' \<or> ch = CHR ''E'' then do_erase_nor_flash b h
            else if ch = CHR ''w'' \<or> ch = CHR ''W'' then do_write_nor_flash b h
            else if ch = CHR ''r'' \<or> ch = CHR ''R'' then do_read_nor_flash b h
            else Some h);
       nor_flash_test b h
     }
   }"

subsection \<open>The chip\<close>

datatype nor_mode =
  Read_array | Unlock1 | Unlock2 | Program | Erase1 | Erase2 | Erase3 | Autoselect | Cfi

text \<open>Programming clears bits and cannot set them; erasing sets every word of the sector, which the
  function \<open>sect\<close> of the chip gives for each word offset.\<close>

fun nor_step :: "(u32 \<Rightarrow> u32 set) \<Rightarrow> event \<Rightarrow> nor_mode \<times> (u32 \<Rightarrow> u16) \<Rightarrow> nor_mode \<times> (u32 \<Rightarrow> u16)" where
  "nor_step sect (Wr16 a v) (m, mem) =
     (let off = drop_bit 1 a in
      case m of
        Program \<Rightarrow> (Read_array, mem(off := mem off AND v))
      | Erase3 \<Rightarrow>
          (Read_array, if v = 0x30 then (\<lambda>x. if x \<in> sect off then 0xffff else mem x) else mem)
      | Unlock1 \<Rightarrow> (if off = 0x2aa \<and> v = 0x55 then Unlock2 else Read_array, mem)
      | Unlock2 \<Rightarrow>
          (if off = 0x555 \<and> v = 0xa0 then Program
           else if off = 0x555 \<and> v = 0x80 then Erase1
           else if off = 0x555 \<and> v = 0x90 then Autoselect
           else Read_array, mem)
      | Erase1 \<Rightarrow> (if off = 0x555 \<and> v = 0xaa then Erase2 else Read_array, mem)
      | Erase2 \<Rightarrow> (if off = 0x2aa \<and> v = 0x55 then Erase3 else Read_array, mem)
      | _ \<Rightarrow>
          (if v = 0xf0 then Read_array
           else if off = 0x55 \<and> v = 0x98 then Cfi
           else if off = 0x555 \<and> v = 0xaa then Unlock1
           else m, mem))"
| "nor_step sect _ st = st"

definition nor_view :: "(u32 \<Rightarrow> u32 set) \<Rightarrow> (u32 \<Rightarrow> u16) \<Rightarrow> hist \<Rightarrow> nor_mode \<times> (u32 \<Rightarrow> u16)" where
  "nor_view sect m0 h = fold (nor_step sect) h (Read_array, m0)"

text \<open>While it programs or erases, a read of the chip toggles bit 6; at some point it is done and two
  successive reads agree.\<close>

definition nor_settles :: "bus \<Rightarrow> bool" where
  "nor_settles b \<longleftrightarrow> (\<forall>addr h. \<exists>h'. wait_ready b addr h = Some h')"

lemma nor_view_append: "nor_view sect m0 (h @ es) = fold (nor_step sect) es (nor_view sect m0 h)"
  by (simp add: nor_view_def)

lemma quiet_nor_view [simp]: "quiet (nor_view sect m0)"
  by (auto simp: quiet_def nor_view_append split_paired_all)

lemma view_nor_cmd:
  "nor_view sect m0 (nor_cmd off v h) = nor_step sect (Wr16 (push_bit 1 off) (ucast v)) (nor_view sect m0 h)"
  by (cases "nor_view sect m0 h") (simp add: nor_cmd_def nor_write_word_def wr16_def nor_view_append)

lemma nor_dat_eq:
  "nor_dat b off h = (ucast (ucast (b h (push_bit 1 off)) :: u16), h @ [Rd16 (push_bit 1 off) (ucast (b h (push_bit 1 off)))])"
  by (simp add: nor_dat_def nor_read_word_def rd16_def)

lemma view_nor_dat [simp]: "nor_view sect m0 (snd (nor_dat b off h)) = nor_view sect m0 h"
  by (cases "nor_view sect m0 h") (simp add: nor_dat_eq nor_view_append)

lemma half_double: "off < 0x80000000 \<Longrightarrow> drop_bit (Suc 0) ((off :: u32) * 2) = off"
proof -
  assume "off < 0x80000000"
  then have "unat off * unat (2 :: u32) < 2 ^ LENGTH(32)" by (simp add: word_less_nat_alt)
  then have "unat (off * 2) = unat off * 2" unfolding unat_mult_lem by simp
  then show ?thesis
    by (simp add: drop_bit_eq_div word_arith_nat_div)
qed

lemma half_less: "drop_bit (Suc 0) (addr :: u32) < 0x80000000"
proof -
  have "unat addr < 2 ^ 32" using unsigned_less [of addr] by simp
  then show ?thesis by (simp add: word_less_nat_alt drop_bit_eq_div unat_div_distrib div_less_iff_less_mult)
qed

text \<open>A projection that one read keeps is kept by the wait.\<close>

lemma nor_poll_keeps:
  assumes run: "nor_poll rd st = Some h'" and keep: "\<And>h. p (snd (rd h)) = p h"
  shows "p h' = p (snd st)"
proof -
  have "(\<forall>h. p (snd (rd h)) = p h) \<longrightarrow> p h' = p (snd st)"
  proof (rule nor_poll.raw_induct [OF _ run])
    fix f :: "(hist \<Rightarrow> u32 \<times> hist) \<Rightarrow> u32 \<times> hist \<Rightarrow> hist option"
      and rd :: "hist \<Rightarrow> u32 \<times> hist" and st h'
    assume IH: "\<And>rd st h'. f rd st = Some h' \<Longrightarrow> (\<forall>h. p (snd (rd h)) = p h) \<longrightarrow> p h' = p (snd st)"
      and eq: "(let (pre, h) = st; (val, h) = rd h
          in if val AND bitm 6 = pre AND bitm 6 then Some h else f rd (val, h)) = Some h'"
    show "(\<forall>h. p (snd (rd h)) = p h) \<longrightarrow> p h' = p (snd st)"
    proof
      assume k: "\<forall>h. p (snd (rd h)) = p h"
      obtain pre g val g' where st: "st = (pre, g)" "rd g = (val, g')" by (cases st; cases "rd (snd st)") auto
      from k st(2) have "p g' = p g" by (metis snd_conv)
      with eq st IH [of rd "(val, g')" h'] k show "p h' = p (snd st)"
        by (auto split: if_splits)
    qed
  qed
  with keep show ?thesis by blast
qed

lemma view_wait_ready: "wait_ready b addr h = Some h' \<Longrightarrow> nor_view sect m0 h' = nor_view sect m0 h"
  unfolding wait_ready_def by (drule nor_poll_keeps [where p = "nor_view sect m0"]) simp_all

subsection \<open>Programming and erasing\<close>







text \<open>What the erase command sequence leaves.\<close>

lemma view_erase:
  assumes "nor_view sect m0 h = (Read_array, mem)"
  shows "nor_view sect m0 (nor_cmd (drop_bit 1 addr) 0x30 (nor_cmd 0x2aa 0x55 (nor_cmd 0x555 0xaa
      (nor_cmd 0x555 0x80 (nor_cmd 0x2aa 0x55 (nor_cmd 0x555 0xaa h))))))
    = (Read_array, \<lambda>x. if x \<in> sect (drop_bit 1 addr) then 0xffff else mem x)"
  by (simp add: view_nor_cmd assms half_less half_double Let_def)

text \<open>The number and the text that a user types at the two prompts.\<close>

definition typed_addr :: "u8 list \<Rightarrow> u32" where
  "typed_addr line = fst (simple_strtoul (c_text (map to_char line)) 0)"

abbreviation typable :: "u8 list \<Rightarrow> bool" where
  "typable line \<equiv> list_all (\<lambda>k. \<not> line_end k) line \<and> length line < 100"


subsection \<open>Scanning\<close>

text \<open>The block sizes that the CFI tables declare: a region has one block more than its first number
  says, each of 256 bytes times its second number.\<close>

definition cfi16 :: "(u32 \<Rightarrow> u8) \<Rightarrow> u32 \<Rightarrow> nat" where
  "cfi16 cfi off = unat (cfi off) + 256 * unat (cfi (off + 1))"

fun region_sizes :: "(u32 \<Rightarrow> u8) \<Rightarrow> nat \<Rightarrow> u32 \<Rightarrow> nat list" where
  "region_sizes cfi 0 base = []"
| "region_sizes cfi (Suc n) base =
     replicate (Suc (cfi16 cfi base)) (256 * cfi16 cfi (base + 2)) @ region_sizes cfi n (base + 4)"

fun starts :: "nat \<Rightarrow> nat list \<Rightarrow> nat list" where
  "starts a [] = []"
| "starts a (s # ss) = a # starts (a + s) ss"

fun listing :: "nat \<Rightarrow> nat list \<Rightarrow> string" where
  "listing cnt [] = []"
| "listing cnt (a # as) =
     ''0x'' @ hex8 (of_nat a) @ '' '' @ (if Suc cnt mod 5 = 0 then LFCR else []) @ listing (Suc cnt) as"

lemma starts_append: "starts a (xs @ ys) = starts a xs @ starts (a + sum_list xs) ys"
  by (induction xs arbitrary: a) (simp_all add: add.assoc)

lemma length_starts [simp]: "length (starts a ss) = length ss"
  by (induction ss arbitrary: a) simp_all

lemma listing_append: "listing cnt (xs @ ys) = listing cnt xs @ listing (cnt + length xs) ys"
  by (induction xs arbitrary: cnt) simp_all

text \<open>The chip delivers its identification and its tables when asked for them.\<close>

definition nor_tables ::
  "(u32 \<Rightarrow> u32 set) \<Rightarrow> (u32 \<Rightarrow> u16) \<Rightarrow> (u32 \<Rightarrow> u16) \<Rightarrow> (u32 \<Rightarrow> u8) \<Rightarrow> bus \<Rightarrow> bool" where
  "nor_tables sect m0 ids cfi b \<longleftrightarrow>
     (\<forall>h off. fst (nor_view sect m0 h) = Autoselect \<longrightarrow> off < 0x1000 \<longrightarrow> ucast (b h (push_bit 1 off)) = ids off)
     \<and> (\<forall>h off. fst (nor_view sect m0 h) = Cfi \<longrightarrow> off < 0x1000 \<longrightarrow> ucast (b h (push_bit 1 off)) = (ucast (cfi off) :: u16))"

lemma nor_dat_cfi:
  assumes "nor_tables sect m0 ids cfi b" and "nor_view sect m0 h = (Cfi, mem)" and "console b h ks"
    and "off < 0x1000"
  shows "\<exists>h'. nor_dat b off h = (ucast (cfi off), h') \<and> nor_view sect m0 h' = (Cfi, mem)
    \<and> console b h' ks \<and> uart_tx h' = uart_tx h"
proof -
  have c: "(ucast (b h (push_bit 1 off)) :: u16) = ucast (cfi off)"
    using assms(1,2,4) by (simp add: nor_tables_def)
  have "(ucast (ucast (cfi off) :: u16) :: u32) = ucast (cfi off)"
    by (rule bit_word_eqI) (auto simp: bit_simps dest: bit_imp_le_length)
  then have "nor_dat b off h = (ucast (cfi off), h @ [Rd16 (push_bit 1 off) (ucast (cfi off))])"
    unfolding nor_dat_eq c by simp
  moreover have "nor_view sect m0 (h @ [Rd16 (push_bit 1 off) (ucast (cfi off))]) = (Cfi, mem)"
    using assms(2) by (simp add: nor_view_append)
  moreover have "console b (h @ [Rd16 (push_bit 1 off) (ucast (cfi off))]) ks"
    by (rule console_step [OF assms(3)]) (simp add: rx_count_def)
  ultimately show ?thesis by simp
qed

lemma nor_dat_id:
  assumes "nor_tables sect m0 ids cfi b" and "nor_view sect m0 h = (Autoselect, mem)" and "console b h ks"
    and "off < 0x1000"
  shows "\<exists>h'. nor_dat b off h = (ucast (ids off), h') \<and> nor_view sect m0 h' = (Autoselect, mem)
    \<and> console b h' ks \<and> uart_tx h' = uart_tx h"
proof -
  have c: "(ucast (b h (push_bit 1 off)) :: u16) = ids off"
    using assms(1,2,4) by (simp add: nor_tables_def)
  then have "nor_dat b off h = (ucast (ids off), h @ [Rd16 (push_bit 1 off) (ids off)])"
    unfolding nor_dat_eq c by simp
  moreover have "nor_view sect m0 (h @ [Rd16 (push_bit 1 off) (ids off)]) = (Autoselect, mem)"
    using assms(2) by (simp add: nor_view_append)
  moreover have "console b (h @ [Rd16 (push_bit 1 off) (ids off)]) ks"
    by (rule console_step [OF assms(3)]) (simp add: rx_count_def)
  ultimately show ?thesis by simp
qed

text \<open>The table arithmetic on 32-bit words.\<close>

lemma word16: "(ucast lo + push_bit 8 (ucast hi) :: u32) = of_nat (unat (lo :: u8) + 256 * unat (hi :: u8))"
  by (simp add: push_bit_eq_mult mult.commute)

lemma scan_blocks_ok:
  assumes "console b h ks" and "nor_view sect m0 h = st"
  shows "\<exists>h'. scan_blocks b (of_nat s) n (of_nat a) cnt h = Some (of_nat (a + n * s), cnt + n, h')
    \<and> console b h' ks \<and> nor_view sect m0 h' = st
    \<and> uart_tx h' = uart_tx h @ listing cnt (starts a (replicate n s))"
  using assms
proof (induction n arbitrary: a cnt h)
  case 0
  then show ?case by simp
next
  case (Suc n)
  from printHex_console [OF Suc.prems(1), of "of_nat a" "nor_view sect m0"] Suc.prems(2)
  obtain h1 where h1: "printHex (putchar b) (of_nat a) h = Some h1" "console b h1 ks"
    "nor_view sect m0 h1 = st" "uart_tx h1 = uart_tx h @ ''0x'' @ hex8 (of_nat a)" by auto
  from putchar_console [OF h1(2), of "c32 CHR '' ''" "nor_view sect m0"] h1(3)
  obtain h2 where h2: "putchar b (c32 CHR '' '') h1 = Some h2" "console b h2 ks"
    "nor_view sect m0 h2 = st" "uart_tx h2 = uart_tx h1 @ '' ''" by auto
  have "\<exists>h3. (if Suc cnt mod 5 = 0 then printf (putchar b) LFCR [] h2 else Some h2) = Some h3
      \<and> console b h3 ks \<and> nor_view sect m0 h3 = st
      \<and> uart_tx h3 = uart_tx h2 @ (if Suc cnt mod 5 = 0 then LFCR else [])"
    using printf_lit [OF h2(2), of LFCR "[]" "nor_view sect m0"] h2(2,3) by (auto simp: LFCR_def)
  then obtain h3 where h3: "(if Suc cnt mod 5 = 0 then printf (putchar b) LFCR [] h2 else Some h2) = Some h3"
    "console b h3 ks" "nor_view sect m0 h3 = st"
    "uart_tx h3 = uart_tx h2 @ (if Suc cnt mod 5 = 0 then LFCR else [])" by blast
  from Suc.IH [OF h3(2,3), of "a + s" "Suc cnt"] obtain h' where
    h': "scan_blocks b (of_nat s) n (of_nat (a + s)) (Suc cnt) h3 = Some (of_nat (a + s + n * s), Suc cnt + n, h')"
    "console b h' ks" "nor_view sect m0 h' = st"
    "uart_tx h' = uart_tx h3 @ listing (Suc cnt) (starts (a + s) (replicate n s))" by blast
  have "scan_blocks b (of_nat s) (Suc n) (of_nat a) cnt h = Some (of_nat (a + s + n * s), Suc cnt + n, h')"
    using h1(1) h2(1) h3(1) h'(1) by (simp add: Let_def)
  with h' h3(4) h2(4) h1(4) show ?case by (auto simp: ac_simps)
qed

lemma small_off:
  assumes "unat (base :: u32) + k < 0x1000"
  shows "unat (base + of_nat k) = unat base + k"
proof -
  have "unat (of_nat k :: u32) = k" using assms by (simp add: unat_of_nat)
  with assms unat_add_lem [of base "of_nat k"] show ?thesis by simp
qed

lemma scan_regions_ok:
  assumes chip: "nor_tables sect m0 ids cfi b"
  shows "unat base + 4 * n < 0x1000 \<Longrightarrow> console b h ks \<Longrightarrow> nor_view sect m0 h = (Cfi, mem) \<Longrightarrow>
    \<exists>h'. scan_regions b n base (of_nat a) cnt h = Some h' \<and> console b h' ks
      \<and> nor_view sect m0 h' = (Cfi, mem)
      \<and> uart_tx h' = uart_tx h @ listing cnt (starts a (region_sizes cfi n base))"
proof (induction n arbitrary: base a cnt h)
  case 0
  then show ?case by simp
next
  case (Suc n)
  have off: "base < 0x1000" "base + 1 < 0x1000" "base + 2 < 0x1000" "base + 3 < 0x1000"
    "unat (base + 4) + 4 * n < 0x1000"
    using Suc.prems(1) small_off [of base 1] small_off [of base 2] small_off [of base 3] small_off [of base 4]
    by (simp_all add: word_less_nat_alt)
  from nor_dat_cfi [OF chip Suc.prems(3,2) off(1)] obtain h1 where
    h1: "nor_dat b base h = (ucast (cfi base), h1)" "nor_view sect m0 h1 = (Cfi, mem)" "console b h1 ks"
    "uart_tx h1 = uart_tx h" by blast
  from nor_dat_cfi [OF chip h1(2,3) off(2)] obtain h2 where
    h2: "nor_dat b (base + 1) h1 = (ucast (cfi (base + 1)), h2)" "nor_view sect m0 h2 = (Cfi, mem)"
    "console b h2 ks" "uart_tx h2 = uart_tx h1" by blast
  from nor_dat_cfi [OF chip h2(2,3) off(3)] obtain h3 where
    h3: "nor_dat b (base + 2) h2 = (ucast (cfi (base + 2)), h3)" "nor_view sect m0 h3 = (Cfi, mem)"
    "console b h3 ks" "uart_tx h3 = uart_tx h2" by blast
  from nor_dat_cfi [OF chip h3(2,3) off(4)] obtain h4 where
    h4: "nor_dat b (base + 3) h3 = (ucast (cfi (base + 3)), h4)" "nor_view sect m0 h4 = (Cfi, mem)"
    "console b h4 ks" "uart_tx h4 = uart_tx h3" by blast
  have small: "cfi16 cfi off < 65536" for off
    using unat_u8_less [of "cfi off"] unat_u8_less [of "cfi (off + 1)"] unfolding cfi16_def by linarith
  define N S where "N = Suc (cfi16 cfi base)" and "S = 256 * cfi16 cfi (base + 2)"
  have blocks: "nat (sint (1 + ucast (cfi base) + push_bit 8 (ucast (cfi (base + 1))) :: u32)) = N"
    using small [of base] sint_of_nat32 [of "Suc (cfi16 cfi base)"]
    by (simp add: add.assoc word16 N_def flip: cfi16_def)
  have bsize: "256 * (ucast (cfi (base + 2)) + push_bit 8 (ucast (cfi (base + 3))) :: u32) = of_nat S"
    unfolding word16 by (simp add: S_def cfi16_def add.assoc)
  from scan_blocks_ok [OF h4(3,2), of S N a cnt] obtain h5 where
    h5: "scan_blocks b (of_nat S) N (of_nat a) cnt h4 = Some (of_nat (a + N * S), cnt + N, h5)"
    "console b h5 ks" "nor_view sect m0 h5 = (Cfi, mem)"
    "uart_tx h5 = uart_tx h4 @ listing cnt (starts a (replicate N S))"
    by blast
  from Suc.IH [OF off(5) h5(2,3), of "a + N * S" "cnt + N"] obtain h' where
    h': "scan_regions b n (base + 4) (of_nat (a + N * S)) (cnt + N) h5 = Some h'" "console b h' ks"
    "nor_view sect m0 h' = (Cfi, mem)"
    "uart_tx h' = uart_tx h5 @ listing (cnt + N) (starts (a + N * S) (region_sizes cfi n (base + 4)))"
    by blast
  have "scan_regions b (Suc n) base (of_nat a) cnt h = Some h'"
    using h1(1) h2(1) h3(1) h4(1) h5(1) h'(1)
    by (simp add: Let_def blocks bsize del: distrib_left_numeral)
  moreover have "region_sizes cfi (Suc n) base = replicate N S @ region_sizes cfi n (base + 4)"
    by (simp add: N_def S_def)
  ultimately show ?case
    using h1(4) h2(4) h3(4) h4(4) h5(4) h'(2-4)
    by (simp add: starts_append listing_append sum_list_replicate del: region_sizes.simps)
qed

lemma nor_cmd_other [simp]: "uart_tx (nor_cmd off v h) = uart_tx h"
  "console b h ks \<Longrightarrow> console b (nor_cmd off v h) ks"
  by (simp_all add: nor_cmd_def nor_write_word_def wr16_def console_step rx_count_def)

lemma nor_cmd_live [simp]: "tx_live b h \<Longrightarrow> tx_live b (nor_cmd off v h)"
  using nor_cmd_other(2) [of b h "[]"] by simp

definition hex_text :: "u32 \<Rightarrow> string" where
  "hex_text v = num_text 16 CHR '' '' 0 (sint v)"

definition dec_text :: "u32 \<Rightarrow> string" where
  "dec_text v = num_text 10 CHR '' '' 0 (sint v)"

definition id_text :: "u32 \<Rightarrow> u32 \<Rightarrow> u32 \<Rightarrow> u32 \<Rightarrow> string" where
  "id_text vendor device sz mb =
     ''vendor id = 0x'' @ hex_text vendor @ '', device id = 0x'' @ hex_text device
     @ '', nor size = 0x'' @ hex_text sz @ '', '' @ dec_text mb @ ''M'' @ LFCR"

lemma render_str: "render (''str = %s'' @ LFCR) [Arg_str s] = Some (''str = '' @ s @ LFCR)"
  by (simp add: render_def LFCR_def dec_value_def is_digit_char_def conv_text_def)

lemma render_id:
  "render (''vendor id = 0x%x, device id = 0x%x, nor size = 0x%x, %dM'' @ LFCR)
     [Arg_int a, Arg_int d, Arg_int s, Arg_int m] = Some (id_text a d s m)"
  by (simp add: render_def LFCR_def dec_value_def is_digit_char_def conv_text_def num_text_short
      id_text_def hex_text_def dec_text_def)

lemma scan_ids_ok:
  assumes chip: "nor_tables sect m0 ids cfi b" and v: "nor_view sect m0 h = (Read_array, mem)" and con: "tx_live b h"
  shows "\<exists>g1 g2. nor_dat b 0 (nor_cmd 0x555 0x90 (nor_cmd 0x2aa 0x55 (nor_cmd 0x555 0xaa h))) = (ucast (ids 0), g1)
    \<and> nor_dat b 1 g1 = (ucast (ids 1), g2) \<and> nor_view sect m0 g2 = (Autoselect, mem) \<and> console b g2 []
    \<and> uart_tx g2 = uart_tx h"
proof -
  define g where "g = nor_cmd 0x555 0x90 (nor_cmd 0x2aa 0x55 (nor_cmd 0x555 0xaa h))"
  have lt: "0 < (0x1000 :: u32)" "1 < (0x1000 :: u32)" by simp_all
  have g: "nor_view sect m0 g = (Autoselect, mem)" "uart_tx g = uart_tx h" "console b g []"
    using con by (simp_all add: g_def view_nor_cmd v)
  from nor_dat_id [OF chip g(1,3) lt(1)] obtain g1 where
    g1: "nor_dat b 0 g = (ucast (ids 0), g1)" "nor_view sect m0 g1 = (Autoselect, mem)" "console b g1 []"
    "uart_tx g1 = uart_tx g" by blast
  from nor_dat_id [OF chip g1(2,3) lt(2)] g1(1,4) g(2) show ?thesis by (auto simp: g_def)
qed

lemma scan_label_ok:
  assumes chip: "nor_tables sect m0 ids cfi b" and v: "nor_view sect m0 k = (Cfi, mem)" and con: "console b k []"
  shows "\<exists>k1 k2 k3. nor_dat b 0x10 k = (ucast (cfi 0x10), k1) \<and> nor_dat b 0x11 k1 = (ucast (cfi 0x11), k2)
    \<and> nor_dat b 0x12 k2 = (ucast (cfi 0x12), k3) \<and> nor_view sect m0 k3 = (Cfi, mem) \<and> console b k3 []
    \<and> uart_tx k3 = uart_tx k"
proof -
  have lt: "0x10 < (0x1000 :: u32)" "0x11 < (0x1000 :: u32)" "0x12 < (0x1000 :: u32)" by simp_all
  from nor_dat_cfi [OF chip v con lt(1)] obtain k1 where
    k1: "nor_dat b 0x10 k = (ucast (cfi 0x10), k1)" "nor_view sect m0 k1 = (Cfi, mem)" "console b k1 []"
    "uart_tx k1 = uart_tx k" by blast
  from nor_dat_cfi [OF chip k1(2,3) lt(2)] obtain k2 where
    k2: "nor_dat b 0x11 k1 = (ucast (cfi 0x11), k2)" "nor_view sect m0 k2 = (Cfi, mem)" "console b k2 []"
    "uart_tx k2 = uart_tx k1" by blast
  from nor_dat_cfi [OF chip k2(2,3) lt(3)] k1(1,4) k2(1,4) show ?thesis by auto
qed

text \<open>C15: scanning a chip returns and leaves it in its normal mode with its contents untouched; it
  prints the identification, and then the start address of every block of every region that the tables
  of the chip declare, in order, five to a line.\<close>

lemma nor_scan_lists:
  assumes chip: "nor_tables sect m0 ids cfi b" and v: "nor_view sect m0 h = (Read_array, mem)"
    and con: "tx_live b h" and sz: "cfi 0x27 < 32"
  shows "\<exists>h'. do_scan_nor_flash b h = Some h' \<and> nor_view sect m0 h' = (Read_array, mem)
    \<and> uart_tx h' = uart_tx h
        @ ''str = '' @ c_text (map to_char [cfi 0x10, cfi 0x11, cfi 0x12]) @ LFCR
        @ id_text (ucast (ids 0)) (ucast (ids 1)) (push_bit (unat (cfi 0x27)) 1)
            (push_bit (unat (cfi 0x27)) 1 div 0x100000)
        @ ''Block/Sector start Address:'' @ LFCR
        @ listing 0 (starts 0 (region_sizes cfi (unat (cfi 0x2c)) 0x2d)) @ LFCR"
proof -
  let ?v = "nor_view sect m0"
  have lt: "0x27 < (0x1000 :: u32)" "0x2c < (0x1000 :: u32)" by simp_all
  define g where "g = nor_cmd 0x555 0x90 (nor_cmd 0x2aa 0x55 (nor_cmd 0x555 0xaa h))"
  from scan_ids_ok [OF chip v con] obtain g1 g2 where
    g1: "nor_dat b 0 g = (ucast (ids 0), g1)" and
    g2: "nor_dat b 1 g1 = (ucast (ids 1), g2)" "?v g2 = (Autoselect, mem)" "console b g2 []" "uart_tx g2 = uart_tx h"
    unfolding g_def by blast
  define k where "k = nor_cmd 0x55 0x98 (nor_cmd 0 0xf0 g2)"
  have k: "?v k = (Cfi, mem)" "uart_tx k = uart_tx h" "console b k []"
    using g2 by (simp_all add: k_def view_nor_cmd)
  from scan_label_ok [OF chip k(1,3)] obtain k1 k2 k3 where
    k1: "nor_dat b 0x10 k = (ucast (cfi 0x10), k1)" and k2: "nor_dat b 0x11 k1 = (ucast (cfi 0x11), k2)" and
    k3: "nor_dat b 0x12 k2 = (ucast (cfi 0x12), k3)" "?v k3 = (Cfi, mem)" "console b k3 []" "uart_tx k3 = uart_tx k"
    by blast
  define q where "q = c_text (map to_char [cfi 0x10, cfi 0x11, cfi 0x12])"
  from printf_console [OF render_str k3(3), of q ?v] obtain k4 where
    k4: "printf (putchar b) (''str = %s'' @ LFCR) [Arg_str q] k3 = Some k4" "console b k4 []"
    "uart_tx k4 = uart_tx k3 @ ''str = '' @ q @ LFCR" "?v k4 = (Cfi, mem)" using k3(2) by auto
  from nor_dat_cfi [OF chip k4(4,2) lt(1)] obtain k5 where
    k5: "nor_dat b 0x27 k4 = (ucast (cfi 0x27), k5)" "?v k5 = (Cfi, mem)" "console b k5 []" "uart_tx k5 = uart_tx k4" by blast
  define sz where "sz = (push_bit (unat (cfi 0x27)) 1 :: u32)"
  have n: "\<not> (ucast (cfi 0x27) :: u32) \<ge> 32" "unat (ucast (cfi 0x27) :: u32) = unat (cfi 0x27)"
    using assms(4) by (simp_all add: word_less_nat_alt word_le_nat_alt unat_ucast_u8)
  from printf_console [OF render_id k5(3), of "ucast (ids 0)" "ucast (ids 1)" sz "sz div 0x100000" ?v] obtain k6 where
    k6: "printf (putchar b) (''vendor id = 0x%x, device id = 0x%x, nor size = 0x%x, %dM'' @ LFCR)
      [Arg_int (ucast (ids 0)), Arg_int (ucast (ids 1)), Arg_int sz, Arg_int (sz div 0x100000)] k5 = Some k6"
    "console b k6 []" "uart_tx k6 = uart_tx k5 @ id_text (ucast (ids 0)) (ucast (ids 1)) sz (sz div 0x100000)"
    "?v k6 = (Cfi, mem)" using k5(2) by auto
  from nor_dat_cfi [OF chip k6(4,2) lt(2)] obtain k7 where
    k7: "nor_dat b 0x2c k6 = (ucast (cfi 0x2c), k7)" "?v k7 = (Cfi, mem)" "console b k7 []" "uart_tx k7 = uart_tx k6" by blast
  have lit: "CHR ''%'' \<notin> set (''Block/Sector start Address:'' @ LFCR)" "CHR ''%'' \<notin> set LFCR"
    by (simp_all add: LFCR_def)
  from printf_lit [OF k7(3) lit(1), of "[]" ?v] obtain k8 where
    k8: "printf (putchar b) (''Block/Sector start Address:'' @ LFCR) [] k7 = Some k8" "console b k8 []"
    "uart_tx k8 = uart_tx k7 @ ''Block/Sector start Address:'' @ LFCR" "?v k8 = (Cfi, mem)" using k7(2) by auto
  from scan_regions_ok [OF chip _ k8(2,4), of "0x2d" "unat (cfi 0x2c)" 0 0] obtain k9 where
    k9: "scan_regions b (unat (cfi 0x2c)) 0x2d 0 0 k8 = Some k9" "console b k9 []" "?v k9 = (Cfi, mem)"
    "uart_tx k9 = uart_tx k8 @ listing 0 (starts 0 (region_sizes cfi (unat (cfi 0x2c)) 0x2d))" using unat_u8_less [of "cfi 0x2c"] by auto
  from printf_lit [OF k9(2) lit(2), of "[]" ?v] obtain k10 where
    k10: "printf (putchar b) LFCR [] k9 = Some k10" "console b k10 []" "uart_tx k10 = uart_tx k9 @ LFCR"
    "?v k10 = (Cfi, mem)" using k9(3) by auto
  have "do_scan_nor_flash b h = Some (nor_cmd 0 0xf0 k10)"
    using g1 g2(1) k1 k2 k3(1) k4(1) k5(1) k6(1) k7(1) k8(1) k9(1) k10(1)
    unfolding do_scan_nor_flash_def Let_def g_def [symmetric] 
    by (simp add: n q_def sz_def unat_ucast_u8 flip: k_def)
  moreover have "?v (nor_cmd 0 0xf0 k10) = (Read_array, mem)"
    by (simp add: view_nor_cmd k10(4))
  ultimately show ?thesis
    using k10(3) k9(4) k8(3) k7(4) k6(3) k5(4) k4(3) k3(4) k(2) by (simp add: q_def sz_def)
qed

subsection \<open>The dialogues\<close>

lemma prompt:
  assumes "console b h (line @ e # ks)" and "typable line" and "line_end e" and "CHR ''%'' \<notin> set fmt"
    and "nor_view sect m0 h = st"
  shows "\<exists>h1 h2. printf (putchar b) fmt [] h = Some h1 \<and> get_uint b h1 = Some (typed_addr line, h2)
    \<and> console b h2 ks \<and> nor_view sect m0 h2 = st"
proof -
  from printf_lit [OF assms(1,4), of "[]" "nor_view sect m0"] obtain h1 where
    "printf (putchar b) fmt [] h = Some h1" "console b h1 (line @ e # ks)" "nor_view sect m0 h1 = st"
    using assms(5) by auto
  with get_uint_console [of line e b h1 ks "nor_view sect m0"] assms(2,3) show ?thesis
    by (auto simp: typed_addr_def)
qed

text \<open>The erase dialogue, given the number that the user types, returns with exactly the sector that
  contains that address erased.\<close>

lemma nor_erase_sector:
  assumes "nor_settles b" and "console b h (line @ e # ks)" and "typable line" and "line_end e"
    and "nor_view sect m0 h = (Read_array, mem)"
  shows "\<exists>h'. do_erase_nor_flash b h = Some h' \<and> nor_view sect m0 h'
    = (Read_array, \<lambda>x. if x \<in> sect (drop_bit 1 (typed_addr line)) then 0xffff else mem x)"
proof -
  define a where "a = typed_addr line"
  from prompt [OF assms(2-4) _ assms(5), of "''Enter the address of sector to erase: ''"] obtain h1 h2 where
    h: "printf (putchar b) ''Enter the address of sector to erase: '' [] h = Some h1"
    "get_uint b h1 = Some (a, h2)" "console b h2 ks" "nor_view sect m0 h2 = (Read_array, mem)"
    by (auto simp: a_def)
  from printf_lit [OF h(3), of "''erasing ...'' @ LFCR" "[]" "nor_view sect m0"] h(4) obtain h3 where
    h3: "printf (putchar b) (''erasing ...'' @ LFCR) [] h2 = Some h3" "nor_view sect m0 h3 = (Read_array, mem)"
    by (auto simp: LFCR_def)
  define g where "g = nor_cmd (drop_bit 1 a) 0x30 (nor_cmd 0x2aa 0x55 (nor_cmd 0x555 0xaa
      (nor_cmd 0x555 0x80 (nor_cmd 0x2aa 0x55 (nor_cmd 0x555 0xaa h3)))))"
  from assms(1) obtain h' where h': "wait_ready b a g = Some h'" unfolding nor_settles_def by blast
  have "do_erase_nor_flash b h = Some h'"
    using h(1,2) h3(1) h' by (simp add: do_erase_nor_flash_def g_def)
  with view_wait_ready [OF h', of sect m0] view_erase [OF h3(2), of a] show ?thesis
    by (simp add: g_def a_def)
qed


text \<open>A chip of one region of two blocks of 64 KB, which is never busy, and a user at the console.\<close>

definition demo_cfi :: "u32 \<Rightarrow> u8" where
  "demo_cfi off = (if off = 0x10 then 0x51 else if off = 0x11 then 0x52 else if off = 0x12 then 0x59
     else if off = 0x27 then 17 else if off = 0x2c then 1 else if off = 0x2d then 1
     else if off = 0x30 then 1 else 0)"

definition nor_bus :: "(u32 \<Rightarrow> u16) \<Rightarrow> u8 list \<Rightarrow> bus" where
  "nor_bus ids ks h a =
     (case fst (nor_view (\<lambda>_. {}) (\<lambda>_. 0) h) of
        Autoselect \<Rightarrow> (if a < 0x20000000 then ucast (ids (drop_bit 1 a)) else typist ks h a)
      | Cfi \<Rightarrow> (if a < 0x20000000 then ucast (demo_cfi (drop_bit 1 a)) else typist ks h a)
      | _ \<Rightarrow> typist ks h a)"

lemma nor_tables_bus: "nor_tables (\<lambda>_. {}) (\<lambda>_. 0) ids demo_cfi (nor_bus ids ks)"
proof -
  have "push_bit 1 off < (0x20000000 :: u32) \<and> drop_bit 1 (push_bit 1 off) = off" if "off < 0x1000" for off :: u32
  proof -
    have "unat (off * 2) = unat off * 2"
      using that unat_mult_lem [of off 2] by (simp add: word_less_nat_alt)
    with that half_double [of off] show ?thesis by (simp add: word_less_nat_alt)
  qed
  moreover have "(ucast (ucast (x :: u16) :: u32) :: u16) = x" "(ucast (ucast (y :: u8) :: u32) :: u16) = ucast y" for x y
    by (rule bit_word_eqI; auto simp: bit_simps)+
  ultimately show ?thesis by (auto simp: nor_tables_def nor_bus_def)
qed

lemma console_nor_bus: "console (nor_bus ids ks) [] ks"
proof -
  have "nor_bus ids ks h URXH0 = typist ks h URXH0" "nor_bus ids ks h UTRSTAT0 = typist ks h UTRSTAT0" for h
    by (auto simp: nor_bus_def split: nor_mode.splits)
  then show ?thesis
    by (auto simp: console_def typing_def tx_live_def live_def typist_def intro!: exI [of _ 0])
qed

lemma nor_poll_same:
  assumes "fst (rd (snd (rd h))) = fst (rd h)"
  shows "nor_poll rd (rd h) = Some (snd (rd (snd (rd h))))"
  using assms by (subst nor_poll.simps) (simp add: case_prod_unfold Let_def)

lemma nor_settles_typist: "nor_settles (typist ks)"
proof -
  have "rx_count (h @ [Rd16 a v]) = rx_count h" for h a v by (simp add: rx_count_def)
  then have "fst (nor_dat (typist ks) off (snd (nor_dat (typist ks) off h))) = fst (nor_dat (typist ks) off h)" for off h
    by (simp add: nor_dat_eq typist_def)
  then show ?thesis unfolding nor_settles_def wait_ready_def by (blast intro: nor_poll_same)
qed

lemma nor_erase_sector_witness:
  "\<exists>h'. do_erase_nor_flash (typist [0x32, 0x30, 0x0D]) [] = Some h'
     \<and> snd (nor_view (\<lambda>off. {off..off + 3}) (\<lambda>_. 7) h') 12 = 0xffff
     \<and> snd (nor_view (\<lambda>off. {off..off + 3}) (\<lambda>_. 7) h') 9 = 7"
proof -
  have "typed_addr [0x32, 0x30] = 20" by code_simp
  moreover have "nor_view (\<lambda>off. {off..off + 3}) (\<lambda>_. 7) [] = (Read_array, \<lambda>_. 7)"
    by (simp add: nor_view_def)
  ultimately show ?thesis
    using nor_erase_sector [OF nor_settles_typist, of "[0x32, 0x30, 0x0D]" "[]" "[0x32, 0x30]" "0x0D" "[]"
        "\<lambda>off. {off..off + 3}" "\<lambda>_. 7" "\<lambda>_. 7"] console_typist [of "[0x32, 0x30, 0x0D]"]
    by (auto simp: line_end_def)
qed


lemma nor_scan_lists_witness:
  "\<exists>h'. do_scan_nor_flash (nor_bus (\<lambda>_. 0x2249) []) [] = Some h'
     \<and> uart_tx h' = ''str = QRY'' @ LFCR @ id_text 0x2249 0x2249 0x20000 0 @ ''Block/Sector start Address:'' @ LFCR
         @ ''0x00000000 0x00010000 '' @ LFCR"
proof -
  have "tx_live (nor_bus (\<lambda>_. 0x2249) []) []" using console_nor_bus [of "\<lambda>_. 0x2249" "[]"] by simp
  moreover have "listing 0 (starts 0 (region_sizes demo_cfi (unat (demo_cfi 0x2c)) 0x2d)) = ''0x00000000 0x00010000 ''"
    by (simp add: cfi16_def demo_cfi_def hex8_def hex_digit_def replicate_numeral_eq)
  moreover have "c_text (map to_char [demo_cfi 0x10, demo_cfi 0x11, demo_cfi 0x12]) = ''QRY''" by code_simp
  moreover have "nor_view (\<lambda>_. {}) (\<lambda>_. 0) [] = (Read_array, \<lambda>_. 0)" by (simp add: nor_view_def)
  moreover have "demo_cfi 0x27 = 17" by (simp add: demo_cfi_def)
  ultimately show ?thesis
    using nor_scan_lists [OF nor_tables_bus [of "\<lambda>_. 0x2249" "[]"], of "[]" "\<lambda>_. 0"]
    by auto
qed

end
