(* ===== verification/Touch.thy ===== *)
theory Touch
  imports Console Timer
begin

text \<open>
  The touch screen and the A/D converter, \<^verbatim>\<open>bare_board/code/I2c/20200510_IIC/adc_touchscreen/adc.c\<close> and
  \<^verbatim>\<open>touchscreen.c\<close>: an interrupt-driven sampler that averages sixteen conversions, a timer callback that
  starts the next measurement, and a reader that takes the report.  The global variables, and the static
  ones of \<^verbatim>\<open>Isr_Adc\<close>, are one record; the two flags of the source only ever hold 0 and 1.
\<close>

subsection \<open>The A/D converter\<close>

definition adc_init :: "hist \<Rightarrow> hist" where
  "adc_init h =
     (let h = wr32 ADCCON (bitm 14 OR push_bit 6 49 OR push_bit 3 0) h
      in wr32 ADCDLY 0xff h)"

definition adc_read_ain0 :: "bus \<Rightarrow> hist \<Rightarrow> (u32 \<times> hist) option" where
  "adc_read_ain0 b h = do {
     let h = upd32 b ADCCON (bits_or (bitm 0)) h;
     h \<leftarrow> spin (bits_set32 b ADCCON (bitm 15)) h;
     let (v, h) = rd32 b ADCDAT0 h;
     Some (v AND 0x3ff, h)
   }"

subsection \<open>The state of the touch screen driver\<close>

abbreviation ADC_INT_BIT :: nat where "ADC_INT_BIT \<equiv> 10"
abbreviation TC_INT_BIT :: nat where "TC_INT_BIT \<equiv> 9"
abbreviation AUTO_PST :: u32 where "AUTO_PST \<equiv> bitm 2"
abbreviation ADCUPDN :: u32 where "ADCUPDN \<equiv> 0x58000014"

record ts_state =
  g_ts_timer_enable :: bool
  g_ts_x :: int
  g_ts_y :: int
  g_ts_pressure :: int
  g_ts_data_valid :: bool
  test_x_array :: "int list"
  test_y_array :: "int list"
  adc_cnt :: int
  adc_x :: int
  adc_y :: int

definition ts_state0 :: ts_state where
  "ts_state0 =
     \<lparr>g_ts_timer_enable = False, g_ts_x = 0, g_ts_y = 0, g_ts_pressure = 0, g_ts_data_valid = False,
      test_x_array = replicate 16 0, test_y_array = replicate 16 0, adc_cnt = 0, adc_x = 0, adc_y = 0\<rparr>"

definition enter_wait_pen_down_mode :: "hist \<Rightarrow> hist" where
  "enter_wait_pen_down_mode h =
     wr32 ADCTSC (push_bit 8 0 OR push_bit 3 0 OR bitm 7 OR bitm 6 OR bitm 4 OR push_bit 5 0 OR 3) h"

definition enter_wait_pen_up_mode :: "hist \<Rightarrow> hist" where
  "enter_wait_pen_up_mode h =
     wr32 ADCTSC (bitm 8 OR push_bit 3 0 OR bitm 7 OR bitm 6 OR bitm 4 OR push_bit 5 0 OR 3) h"

definition enter_auto_measure_mode :: "hist \<Rightarrow> hist" where
  "enter_auto_measure_mode h = wr32 ADCTSC (AUTO_PST OR 0) h"

definition is_in_auto_mode :: "bus \<Rightarrow> hist \<Rightarrow> bool \<times> hist" where
  "is_in_auto_mode b h = (let (v, h) = rd32 b ADCTSC h in (v AND AUTO_PST \<noteq> 0, h))"

definition report_ts_xy :: "int \<Rightarrow> int \<Rightarrow> int \<Rightarrow> ts_state \<Rightarrow> ts_state" where
  "report_ts_xy x y pressure s =
     (if \<not> g_ts_data_valid s
      then s\<lparr>g_ts_x := x, g_ts_y := y, g_ts_pressure := pressure, g_ts_data_valid := True\<rparr>
      else s)"

definition start_adc :: "bus \<Rightarrow> hist \<Rightarrow> hist" where
  "start_adc b h = upd32 b ADCCON (bits_or (bitm 0)) (enter_auto_measure_mode h)"

definition Isr_Tc :: "bus \<Rightarrow> ts_state \<times> hist \<Rightarrow> ts_state \<times> hist" where
  "Isr_Tc b sh =
     (let (s, h) = sh; (v, h) = rd32 b ADCDAT0 h
      in if v AND bitm 15 \<noteq> 0 then
           (let h = enter_wait_pen_down_mode h in (report_ts_xy 0 0 0 s, h))
         else (s, start_adc b h))"

definition ts_timer_enable :: "ts_state \<Rightarrow> ts_state" where
  "ts_timer_enable s = s\<lparr>g_ts_timer_enable := True\<rparr>"

definition ts_timer_disable :: "ts_state \<Rightarrow> ts_state" where
  "ts_timer_disable s = s\<lparr>g_ts_timer_enable := False\<rparr>"

definition get_status_of_ts_timer :: "ts_state \<Rightarrow> bool" where
  "get_status_of_ts_timer s = g_ts_timer_enable s"

text \<open>The reader waits until a report is there.  Nothing but an interrupt can bring one, so in the state
  of the call itself the wait is over or it lasts: \<open>None\<close>.\<close>

definition ts_read_raw :: "ts_state \<Rightarrow> ((int \<times> int \<times> int) \<times> ts_state) option" where
  "ts_read_raw s =
     (if \<not> g_ts_data_valid s then None
      else Some ((g_ts_x s, g_ts_y s, g_ts_pressure s), s\<lparr>g_ts_data_valid := False\<rparr>))"

definition touchscreen_timer_irq :: "bus \<Rightarrow> ts_state \<times> hist \<Rightarrow> (ts_state \<times> hist) option" where
  "touchscreen_timer_irq b sh =
     (let (s, h) = sh
      in if \<not> get_status_of_ts_timer s then Some (s, h)
         else (let (auto, h) = is_in_auto_mode b h
               in if auto then Some (s, h)
                  else (let (v, h) = rd32 b ADCDAT0 h
                        in if v AND bitm 15 \<noteq> 0 then do {
                             h \<leftarrow> printf (putchar b) (''timer set pen down'' @ LFCR) [] h;
                             let s = ts_timer_disable s;
                             let h = enter_wait_pen_down_mode h;
                             Some (report_ts_xy 0 0 0 s, h)
                           }
                           else Some (s, start_adc b h))))"

text \<open>A store past an array is \<open>None\<close>.\<close>

definition Isr_Adc :: "bus \<Rightarrow> ts_state \<times> hist \<Rightarrow> (ts_state \<times> hist) option" where
  "Isr_Adc b sh =
     (let (s, h) = sh;
          (x, h) = rd32 b ADCDAT0 h;
          (y, h) = rd32 b ADCDAT1 h;
          h = enter_wait_pen_up_mode h;
          (up, h) = rd32 b ADCDAT0 h
      in if up AND bitm 15 = 0 then
           (if 0 \<le> adc_cnt s \<and> adc_cnt s < 16 then
              (let s = s\<lparr>adc_x := adc_x s + uint (x AND 0x3ff), adc_y := adc_y s + uint (y AND 0x3ff)\<rparr>;
                   s = s\<lparr>test_x_array := (test_x_array s)[nat (adc_cnt s) := uint (x AND 0x3ff)],
                         test_y_array := (test_y_array s)[nat (adc_cnt s) := uint (y AND 0x3ff)],
                         adc_cnt := adc_cnt s + 1\<rparr>
               in if adc_cnt s = 16 then
                    (let s = s\<lparr>adc_x := adc_x s div 16, adc_y := adc_y s div 16\<rparr>;
                         s = report_ts_xy (adc_x s) (adc_y s) 1 s;
                         s = s\<lparr>adc_cnt := 0, adc_x := 0, adc_y := 0\<rparr>;
                         h = enter_wait_pen_up_mode h
                     in Some (ts_timer_enable s, h))
                  else Some (s, start_adc b h))
            else None)
         else do {
           let s = s\<lparr>adc_cnt := 0, adc_x := 0, adc_y := 0\<rparr>;
           h \<leftarrow> printf (putchar b) (''adc report pen down'' @ LFCR) [] h;
           let s = ts_timer_disable s;
           let h = enter_wait_pen_down_mode h;
           Some (report_ts_xy 0 0 0 s, h)
         })"

definition AdcTsIntHandle :: "bus \<Rightarrow> ts_state \<times> hist \<Rightarrow> (ts_state \<times> hist) option" where
  "AdcTsIntHandle b sh =
     (let (s, h) = sh; (v, h) = rd32 b SUBSRCPND h;
          (s, h) = (if v AND bitm TC_INT_BIT \<noteq> 0 then Isr_Tc b (s, h) else (s, h));
          (v, h) = rd32 b SUBSRCPND h
      in do {
           (s, h) \<leftarrow> (if v AND bitm ADC_INT_BIT \<noteq> 0 then Isr_Adc b (s, h) else Some (s, h));
           Some (s, wr32 SUBSRCPND (bitm TC_INT_BIT OR bitm ADC_INT_BIT) h)
         })"

subsection \<open>Initialisation\<close>

definition adc_ts_int_init ::
  "bus \<Rightarrow> 'f \<Rightarrow> 'f option list \<times> hist \<Rightarrow> ('f option list \<times> hist) option" where
  "adc_ts_int_init b handler th = do {
     let h = wr32 SUBSRCPND (bitm TC_INT_BIT OR bitm ADC_INT_BIT) (snd th);
     (tab, h) \<leftarrow> register_irq b 31 handler (fst th, h);
     Some (tab, upd32 b INTSUBMSK (bits_clear (bitm ADC_INT_BIT OR bitm TC_INT_BIT)) h)
   }"

definition adc_ts_reg_init :: "hist \<Rightarrow> hist" where
  "adc_ts_reg_init h =
     (let h = wr32 ADCCON (bitm 14 OR push_bit 6 49 OR push_bit 3 0) h
      in wr32 ADCDLY 60000 h)"

definition touchscreen_init ::
  "bus \<Rightarrow> 'f \<Rightarrow> 'g \<Rightarrow> 'f option list \<times> 'g timer_desc list \<times> hist
   \<Rightarrow> ('f option list \<times> 'g timer_desc list \<times> hist) option" where
  "touchscreen_init b handler timer_fn st = do {
     let (tab, timers, h) = st;
     let h = adc_ts_reg_init h;
     let (v1, h) = rd32 b ADCUPDN h;
     let (v2, h) = rd32 b SUBSRCPND h;
     let (v3, h) = rd32 b SRCPND h;
     h \<leftarrow> printf (putchar b) (''ADCUPDN = 0x%x, SUBSRCPND = 0x%x, SRCPND = 0x%x'' @ LFCR)
            [Arg_int v1, Arg_int v2, Arg_int v3] h;
     (tab, h) \<leftarrow> adc_ts_int_init b handler (tab, h);
     let timers = fst (register_timer ''touchscreen'' timer_fn timers);
     Some (tab, timers, enter_wait_pen_down_mode h)
   }"

fun print_array :: "bus \<Rightarrow> int list \<Rightarrow> hist \<Rightarrow> hist option" where
  "print_array b [] h = Some h"
| "print_array b (v # vs) h = do {
     h \<leftarrow> printf (putchar b) ''%08d '' [Arg_int (of_int v)] h;
     print_array b vs h
   }"

definition print_test_array :: "bus \<Rightarrow> ts_state \<Rightarrow> hist \<Rightarrow> hist option" where
  "print_test_array b s h = do {
     h \<leftarrow> printf (putchar b) ''test array x : '' [] h;
     h \<leftarrow> print_array b (test_x_array s) h;
     h \<leftarrow> printf (putchar b) LFCR [] h;
     h \<leftarrow> printf (putchar b) ''test array y : '' [] h;
     h \<leftarrow> print_array b (test_y_array s) h;
     printf (putchar b) LFCR [] h
   }"

definition ts_read_raw_test ::
  "bus \<Rightarrow> ts_state \<times> hist \<Rightarrow> ((int \<times> int \<times> int) \<times> ts_state \<times> hist) option" where
  "ts_read_raw_test b sh =
     (let (s, h) = sh in
      if \<not> g_ts_data_valid s then None
      else do {
        h \<leftarrow> print_test_array b s h;
        Some ((g_ts_x s, g_ts_y s, g_ts_pressure s), s\<lparr>g_ts_data_valid := False\<rparr>, h)
      })"

subsection \<open>The driver as a state machine\<close>

text \<open>The interrupt, the timer callback and the reader run in any order; in between, other code of the
  program may access the hardware.\<close>

inductive ts_step :: "bus \<Rightarrow> ts_state \<times> hist \<Rightarrow> ts_state \<times> hist \<Rightarrow> bool" for b where
  step_irq: "AdcTsIntHandle b (s, h) = Some (s', h') \<Longrightarrow> ts_step b (s, h) (s', h')"
| step_tick: "touchscreen_timer_irq b (s, h) = Some (s', h') \<Longrightarrow> ts_step b (s, h) (s', h')"
| step_read: "ts_read_raw s = Some (r, s') \<Longrightarrow> ts_step b (s, h) (s', h)"
| step_other: "ts_step b (s, h) (s, h @ e)"

inductive ts_reach :: "bus \<Rightarrow> ts_state \<times> hist \<Rightarrow> bool" for b where
  reach_init: "ts_reach b (ts_state0, h)"
| reach_step: "ts_reach b sh \<Longrightarrow> ts_step b sh sh' \<Longrightarrow> ts_reach b sh'"

inductive_cases ts_stepE: "ts_step b (s, h) sh'"

text \<open>What always holds: the sums are the sums of the samples taken so far, all of them ten-bit values,
  and a report is a position on the panel or the lifted pen.\<close>

definition ten_bit :: "int \<Rightarrow> bool" where
  "ten_bit v \<longleftrightarrow> 0 \<le> v \<and> v \<le> 1023"

definition ts_inv :: "ts_state \<Rightarrow> bool" where
  "ts_inv s \<longleftrightarrow>
     0 \<le> adc_cnt s \<and> adc_cnt s < 16
     \<and> length (test_x_array s) = 16 \<and> length (test_y_array s) = 16
     \<and> list_all ten_bit (test_x_array s) \<and> list_all ten_bit (test_y_array s)
     \<and> adc_x s = sum_list (take (nat (adc_cnt s)) (test_x_array s))
     \<and> adc_y s = sum_list (take (nat (adc_cnt s)) (test_y_array s))
     \<and> (g_ts_data_valid s \<longrightarrow>
          (g_ts_pressure s = 1 \<and> ten_bit (g_ts_x s) \<and> ten_bit (g_ts_y s))
          \<or> (g_ts_pressure s = 0 \<and> g_ts_x s = 0 \<and> g_ts_y s = 0))"

lemma ten_bit_mask: "ten_bit (uint ((v :: u32) AND 0x3ff))"
proof -
  have "(0x3ff :: u32) = mask 10" by (simp add: mask_eq_exp_minus_1)
  then have "uint (v AND 0x3ff) = uint v mod 1024"
    by (simp only: take_bit_eq_mask [symmetric] unsigned_take_bit_eq) (simp add: take_bit_eq_mod)
  then show ?thesis by (simp add: ten_bit_def)
qed

lemma ts_inv0: "ts_inv ts_state0"
  by (simp add: ts_inv_def ts_state0_def ten_bit_def list_all_iff)

lemma ts_inv_report:
  assumes "ts_inv s" and "p = 1 \<and> ten_bit x \<and> ten_bit y \<or> p = 0 \<and> x = 0 \<and> y = 0"
  shows "ts_inv (report_ts_xy x y p s)"
  using assms by (auto simp: ts_inv_def report_ts_xy_def)

lemma ts_inv_flags [simp]: "ts_inv (s\<lparr>g_ts_timer_enable := e\<rparr>) = ts_inv s"
  by (simp add: ts_inv_def)

lemma ts_inv_reset: "ts_inv s \<Longrightarrow> ts_inv (s\<lparr>adc_cnt := 0, adc_x := 0, adc_y := 0\<rparr>)"
  by (simp add: ts_inv_def)

lemma sum_ten_bit: "list_all ten_bit xs \<Longrightarrow> 0 \<le> sum_list xs \<and> sum_list xs \<le> 1023 * int (length xs)"
  by (induction xs) (auto simp: ten_bit_def algebra_simps)

text \<open>One more sample.\<close>

abbreviation add_sample :: "int \<Rightarrow> int \<Rightarrow> ts_state \<Rightarrow> ts_state" where
  "add_sample vx vy s \<equiv> s\<lparr>adc_x := adc_x s + vx, adc_y := adc_y s + vy,
     test_x_array := (test_x_array s)[nat (adc_cnt s) := vx],
     test_y_array := (test_y_array s)[nat (adc_cnt s) := vy], adc_cnt := adc_cnt s + 1\<rparr>"

lemma sample_array:
  assumes "0 \<le> c" and "c < 16" and "length xs = 16" and "list_all ten_bit xs" and "ten_bit v"
  shows "list_all ten_bit (xs[nat c := v])"
    and "sum_list (take (nat (c + 1)) (xs[nat c := v])) = sum_list (take (nat c) xs) + v"
proof -
  show "list_all ten_bit (xs[nat c := v])"
    using assms(4,5) set_update_subset_insert [of xs "nat c" v] by (auto simp: list_all_iff)
  have "nat (c + 1) = Suc (nat c)" using assms(1) by simp
  then show "sum_list (take (nat (c + 1)) (xs[nat c := v])) = sum_list (take (nat c) xs) + v"
    using take_Suc_update [of "nat c" xs v] assms(1-3) by simp
qed

lemma average_ten_bit:
  assumes "length xs = 16" and "list_all ten_bit xs"
  shows "ten_bit (sum_list xs div 16)"
proof -
  have "0 \<le> sum_list xs" "sum_list xs \<le> 16368" using sum_ten_bit [OF assms(2)] assms(1) by simp_all
  then show ?thesis using zdiv_mono1 [of "sum_list xs" 16368 16] by (simp add: ten_bit_def)
qed

lemma ts_inv_sample:
  assumes "ts_inv s" and "ten_bit vx" and "ten_bit vy" and "adc_cnt s + 1 \<noteq> 16"
  shows "ts_inv (add_sample vx vy s)"
  using assms sample_array [of "adc_cnt s" "test_x_array s" vx] sample_array [of "adc_cnt s" "test_y_array s" vy]
  by (auto simp: ts_inv_def)

lemma ts_inv_last:
  assumes "ts_inv s" and "ten_bit vx" and "ten_bit vy" and "adc_cnt s + 1 = 16"
  shows "ten_bit ((adc_x s + vx) div 16)" and "ten_bit ((adc_y s + vy) div 16)"
    and "ts_inv ((add_sample vx vy s)\<lparr>adc_cnt := 0, adc_x := 0, adc_y := 0\<rparr>)"
proof -
  have c: "adc_cnt s = 15" using assms(4) by simp
  have full: "sum_list (xs[15 := v]) = sum_list (take 15 xs) + v" if "length xs = 16" for xs :: "int list" and v
    using that take_Suc_update [of 15 xs v] by simp
  have "adc_x s + vx = sum_list ((test_x_array s)[15 := vx])" "adc_y s + vy = sum_list ((test_y_array s)[15 := vy])"
    using assms(1) c full by (simp_all add: ts_inv_def)
  moreover note x = sample_array [of "adc_cnt s" "test_x_array s" vx] sample_array [of "adc_cnt s" "test_y_array s" vy]
  ultimately show "ten_bit ((adc_x s + vx) div 16)" "ten_bit ((adc_y s + vy) div 16)"
    using assms(1-3) c average_ten_bit [of "(test_x_array s)[15 := vx]"] average_ten_bit [of "(test_y_array s)[15 := vy]"]
    by (simp_all add: ts_inv_def)
  show "ts_inv ((add_sample vx vy s)\<lparr>adc_cnt := 0, adc_x := 0, adc_y := 0\<rparr>)"
    using x assms(1-3) c by (auto simp: ts_inv_def)
qed

lemma isr_adc_inv:
  assumes "Isr_Adc b (s, h) = Some (s', h')" and "ts_inv s"
  shows "ts_inv s'"
proof -
  define vx vy where "vx = uint (b h ADCDAT0 AND 0x3ff)" and "vy = uint (b (h @ [Rd32 ADCDAT0 (b h ADCDAT0)]) ADCDAT1 AND 0x3ff)"
  have t: "ten_bit vx" "ten_bit vy" by (simp_all add: vx_def vy_def ten_bit_mask)
  have zero: "ts_inv (report_ts_xy 0 0 0 (s\<lparr>adc_cnt := 0, adc_x := 0, adc_y := 0, g_ts_timer_enable := False\<rparr>))"
    using assms(2) by (intro ts_inv_report) (auto simp: ts_inv_def)
  have last: "ts_inv ((report_ts_xy ((adc_x s + vx) div 16) ((adc_y s + vy) div 16) 1 u)
      \<lparr>adc_cnt := 0, adc_x := 0, adc_y := 0\<rparr>)"
    if "u = (add_sample vx vy s)\<lparr>adc_x := (adc_x s + vx) div 16, adc_y := (adc_y s + vy) div 16\<rparr>"
      "adc_cnt s + 1 = 16" for u
  proof -
    have "(report_ts_xy p q 1 u)\<lparr>adc_cnt := 0, adc_x := 0, adc_y := 0\<rparr>
        = report_ts_xy p q 1 (u\<lparr>adc_cnt := 0, adc_x := 0, adc_y := 0\<rparr>)" for p q
      by (simp add: report_ts_xy_def)
    moreover have "ts_inv (u\<lparr>adc_cnt := 0, adc_x := 0, adc_y := 0\<rparr>)"
      using ts_inv_last(3) [OF assms(2) t that(2)] that(1) by simp
    ultimately show ?thesis
      using ts_inv_last(1,2) [OF assms(2) t that(2)] ts_inv_report by simp
  qed
  show ?thesis
    using assms(1) zero last [OF refl] ts_inv_sample [OF assms(2) t]
    by (auto simp: Isr_Adc_def mmio_defs Let_def ts_timer_disable_def ts_timer_enable_def
        enter_wait_pen_up_mode_def vx_def [symmetric] vy_def [symmetric] split: if_splits)
qed

lemma isr_tc_inv: "ts_inv s \<Longrightarrow> ts_inv (fst (Isr_Tc b (s, h)))"
  by (auto simp: Isr_Tc_def mmio_defs Let_def intro: ts_inv_report)

lemma irq_inv: "AdcTsIntHandle b (s, h) = Some (s', h') \<Longrightarrow> ts_inv s \<Longrightarrow> ts_inv s'"
  using isr_tc_inv [of s b] isr_adc_inv [of b]
  by (fastforce simp: AdcTsIntHandle_def Let_def case_prod_unfold split: if_splits)

lemma tick_inv: "touchscreen_timer_irq b (s, h) = Some (s', h') \<Longrightarrow> ts_inv s \<Longrightarrow> ts_inv s'"
  by (auto simp: touchscreen_timer_irq_def Let_def case_prod_unfold ts_timer_disable_def
      intro!: ts_inv_report split: if_splits)

lemma read_inv: "ts_read_raw s = Some (r, s') \<Longrightarrow> ts_inv s \<Longrightarrow> ts_inv s'"
  by (auto simp: ts_read_raw_def ts_inv_def split: if_splits)

lemma step_inv: "ts_step b sh sh' \<Longrightarrow> ts_inv (fst sh) \<Longrightarrow> ts_inv (fst sh')"
  by (induction rule: ts_step.induct) (auto intro: irq_inv tick_inv read_inv)

lemma reach_inv: "ts_reach b sh \<Longrightarrow> ts_inv (fst sh)"
  by (induction rule: ts_reach.induct) (auto simp: ts_inv0 dest: step_inv)

subsection \<open>Every conversion is handled\<close>

lemma isr_adc_returns:
  assumes "ts_inv s" and "tx_live b h"
  shows "\<exists>sh'. Isr_Adc b (s, h) = Some sh'"
proof -
  have "\<exists>h'. printf (putchar b) (''adc report pen down'' @ LFCR) [] (h @ e) = Some h'" for e
    using printf_lit [of b "h @ e" "[]" "''adc report pen down'' @ LFCR" "[]"] live_append [of _ h e] assms(2)
    by (auto simp: tx_live_def LFCR_def)
  with assms(1) show ?thesis
    by (auto simp: Isr_Adc_def mmio_defs Let_def ts_inv_def enter_wait_pen_up_mode_def)
qed

lemma isr_tc_extends: "\<exists>e. snd (Isr_Tc b (s, h)) = h @ e"
  by (auto simp: Isr_Tc_def start_adc_def enter_auto_measure_mode_def enter_wait_pen_down_mode_def
      mmio_defs Let_def)

lemma irq_returns:
  assumes "ts_inv s" and "tx_live b h"
  shows "\<exists>sh'. AdcTsIntHandle b (s, h) = Some sh'"
proof -
  have live: "tx_live b (h @ e)" for e using assms(2) live_append by (simp add: tx_live_def)
  obtain e where e: "snd (Isr_Tc b (s, h @ [Rd32 SUBSRCPND (b h SUBSRCPND)])) = h @ Rd32 SUBSRCPND (b h SUBSRCPND) # e"
    using isr_tc_extends [of b s "h @ [Rd32 SUBSRCPND (b h SUBSRCPND)]"] by auto
  obtain s1 where tc: "Isr_Tc b (s, h @ [Rd32 SUBSRCPND (b h SUBSRCPND)]) = (s1, h @ Rd32 SUBSRCPND (b h SUBSRCPND) # e)"
    using e by (cases "Isr_Tc b (s, h @ [Rd32 SUBSRCPND (b h SUBSRCPND)])") auto
  have inv1: "ts_inv s1" using isr_tc_inv [OF assms(1), of b "h @ [Rd32 SUBSRCPND (b h SUBSRCPND)]"] tc by simp
  show ?thesis
    using isr_adc_returns [OF inv1 live] isr_adc_returns [OF assms(1) live] tc
    by (auto simp: AdcTsIntHandle_def mmio_defs Let_def)
qed

text \<open>C19: in every state that interrupts, timer ticks and readers can reach, in any order, the sums are
  those of the samples collected so far, every store stays inside the sample arrays, what a reader gets is
  a ten-bit position with the pen down or the origin with the pen up, and the next interrupt is handled.\<close>

lemma touch_reachable_safe:
  assumes "ts_reach b (s, h)"
  shows "ts_inv s \<and> (tx_live b h \<longrightarrow> (\<exists>sh'. AdcTsIntHandle b (s, h) = Some sh'))"
  using reach_inv [OF assms] irq_returns by auto

lemma touch_reachable_safe_witness: "ts_inv (report_ts_xy 0 0 0 ts_state0)"
proof -
  let ?b = "\<lambda>(h :: hist) (a :: u32). if a = SUBSRCPND then bitm TC_INT_BIT else bitm 15"
  have "AdcTsIntHandle ?b (ts_state0, []) = Some (report_ts_xy 0 0 0 ts_state0, [Rd32 SUBSRCPND (bitm 9),
      Rd32 ADCDAT0 (bitm 15), Wr32 ADCTSC 0xD3, Rd32 SUBSRCPND (bitm 9), Wr32 SUBSRCPND 0x600])"
    by (simp add: AdcTsIntHandle_def Isr_Tc_def mmio_defs enter_wait_pen_down_mode_def)
  from reach_step [OF reach_init step_irq [OF this]] show ?thesis
    using touch_reachable_safe by blast
qed

subsection \<open>The average\<close>

primrec isr_runs :: "bus \<Rightarrow> nat \<Rightarrow> ts_state \<times> hist \<Rightarrow> (ts_state \<times> hist) option" where
  "isr_runs b 0 sh = Some sh"
| "isr_runs b (Suc n) sh = Option.bind (isr_runs b n sh) (Isr_Adc b)"

text \<open>What the converter delivers to the conversion number \<open>k\<close>.\<close>

definition sample_x :: "bus \<Rightarrow> ts_state \<times> hist \<Rightarrow> nat \<Rightarrow> int" where
  "sample_x b sh k = (let h = snd (the (isr_runs b k sh)) in uint (b h ADCDAT0 AND 0x3ff))"

definition sample_y :: "bus \<Rightarrow> ts_state \<times> hist \<Rightarrow> nat \<Rightarrow> int" where
  "sample_y b sh k =
     (let h = snd (the (isr_runs b k sh)) in uint (b (h @ [Rd32 ADCDAT0 (b h ADCDAT0)]) ADCDAT1 AND 0x3ff))"

lemma isr_runs_collect:
  assumes pen: "\<And>h. b h ADCDAT0 AND bitm 15 = 0" and s: "adc_cnt s = 0" "adc_x s = 0" "adc_y s = 0"
  shows "n \<le> 15 \<Longrightarrow> \<exists>s' h'. isr_runs b n (s, h) = Some (s', h') \<and> adc_cnt s' = int n
    \<and> adc_x s' = (\<Sum>k < n. sample_x b (s, h) k) \<and> adc_y s' = (\<Sum>k < n. sample_y b (s, h) k)
    \<and> g_ts_data_valid s' = g_ts_data_valid s"
proof (induction n)
  case 0
  with s show ?case by simp
next
  case (Suc n)
  then obtain s' h' where
    r: "isr_runs b n (s, h) = Some (s', h')" and c: "adc_cnt s' = int n"
    and sums: "adc_x s' = (\<Sum>k < n. sample_x b (s, h) k)" "adc_y s' = (\<Sum>k < n. sample_y b (s, h) k)"
    and v: "g_ts_data_valid s' = g_ts_data_valid s" by auto
  have "sample_x b (s, h) n = uint (b h' ADCDAT0 AND 0x3ff)"
    "sample_y b (s, h) n = uint (b (h' @ [Rd32 ADCDAT0 (b h' ADCDAT0)]) ADCDAT1 AND 0x3ff)"
    using r by (simp_all add: sample_x_def sample_y_def)
  with r c sums v Suc.prems pen show ?case
    by (auto simp: Isr_Adc_def mmio_defs Let_def enter_wait_pen_up_mode_def)
qed

text \<open>With the pen on the panel and the last report read, sixteen conversions in a row produce a
  report: the averages of the sixteen positions that the converter delivered, pressure 1; the sums start
  again from zero and the timer that triggers the next measurement is on.\<close>

lemma touch_averages:
  assumes "\<And>h. b h ADCDAT0 AND bitm 15 = 0" and "adc_cnt s = 0" and "adc_x s = 0" and "adc_y s = 0"
    and "\<not> g_ts_data_valid s"
  shows "\<exists>s' h'. isr_runs b 16 (s, h) = Some (s', h')
    \<and> ts_read_raw s' = Some (((\<Sum>k < 16. sample_x b (s, h) k) div 16, (\<Sum>k < 16. sample_y b (s, h) k) div 16, 1),
        s'\<lparr>g_ts_data_valid := False\<rparr>)
    \<and> adc_cnt s' = 0 \<and> adc_x s' = 0 \<and> adc_y s' = 0 \<and> g_ts_timer_enable s'"
proof -
  from isr_runs_collect [of b s 15 h, OF assms(1) assms(2-4)] obtain s' h' where
    r: "isr_runs b 15 (s, h) = Some (s', h')" and c: "adc_cnt s' = 15"
    and sums: "adc_x s' = (\<Sum>k < 15. sample_x b (s, h) k)" "adc_y s' = (\<Sum>k < 15. sample_y b (s, h) k)"
    and v: "\<not> g_ts_data_valid s'" using assms(5) by auto
  have last: "sample_x b (s, h) 15 = uint (b h' ADCDAT0 AND 0x3ff)"
    "sample_y b (s, h) 15 = uint (b (h' @ [Rd32 ADCDAT0 (b h' ADCDAT0)]) ADCDAT1 AND 0x3ff)"
    using r by (simp_all add: sample_x_def sample_y_def)
  have sum16: "(\<Sum>k < 16. f k) = (\<Sum>k < 15. f k) + f 15" for f :: "nat \<Rightarrow> int"
    using sum.lessThan_Suc [of f 15] by simp
  have "isr_runs b 16 (s, h) = Isr_Adc b (s', h')"
    using r isr_runs.simps(2) [of b 15 "(s, h)"] by simp
  with c sums v last assms(1) show ?thesis
    by (simp add: Isr_Adc_def mmio_defs Let_def enter_wait_pen_up_mode_def report_ts_xy_def
        ts_timer_enable_def ts_read_raw_def sum16)
qed

lemma touch_averages_witness:
  "\<exists>s' h'. isr_runs (\<lambda>h a. if a = ADCDAT0 then 0x123 else 0x45) 16 (ts_state0, []) = Some (s', h')
     \<and> ts_read_raw s' = Some ((0x123, 0x45, 1), s'\<lparr>g_ts_data_valid := False\<rparr>)"
proof -
  let ?b = "\<lambda>(h :: hist) (a :: u32). if a = ADCDAT0 then 0x123 else (0x45 :: u32)"
  have "?b h ADCDAT0 AND bitm 15 = 0" for h by simp
  from touch_averages [of ?b ts_state0 "[]", OF this] show ?thesis
    by (simp add: ts_state0_def sample_x_def sample_y_def Let_def) blast
qed

end
