(* ===== verification/Calibrate.thy ===== *)
theory Calibrate
  imports Touch Display
begin

text \<open>
  Calibration of the touch screen and the paint program, \<^verbatim>\<open>tslib.c\<close>, \<^verbatim>\<open>touchscreen_test.c\<close> and
  \<^verbatim>\<open>adc_test.c\<close> of \<^verbatim>\<open>bare_board/code/I2c/20200510_IIC/adc_touchscreen\<close>.  The raw reader
  (\<^verbatim>\<open>ts_read_raw\<close>, which waits for the interrupts) is the argument \<open>rd\<close>, with a state of its own; the
  arithmetic on \<^verbatim>\<open>double\<close> is an argument too, a record of the operations the code uses.
\<close>

type_synonym raw = "int \<times> int \<times> int"

type_synonym 's reader = "'s \<Rightarrow> (raw \<times> 's) option"

record 'd fp_ops =
  f_int :: "int \<Rightarrow> 'd"
  f_dec :: "int \<Rightarrow> nat \<Rightarrow> 'd"
  f_div :: "'d \<Rightarrow> 'd \<Rightarrow> 'd"
  f_mul :: "'d \<Rightarrow> 'd \<Rightarrow> 'd"
  f_add :: "'d \<Rightarrow> 'd \<Rightarrow> 'd"
  f_sub :: "'d \<Rightarrow> 'd \<Rightarrow> 'd"
  f_trunc :: "'d \<Rightarrow> int"

record 'd ts_cal =
  g_kx :: 'd
  g_ky :: 'd
  g_ts_xc :: int
  g_ts_yc :: int
  g_lcd_xc :: int
  g_lcd_yc :: int
  g_ts_xy_swap :: bool
  cal_xres :: int
  cal_yres :: int

definition get_lcd_x_frm_ts_x :: "'d fp_ops \<Rightarrow> 'd ts_cal \<Rightarrow> int \<Rightarrow> int" where
  "get_lcd_x_frm_ts_x fp c ts_x =
     f_trunc fp (f_add fp (f_mul fp (g_kx c) (f_int fp (ts_x - g_ts_xc c))) (f_int fp (g_lcd_xc c)))"

definition get_lcd_y_frm_ts_y :: "'d fp_ops \<Rightarrow> 'd ts_cal \<Rightarrow> int \<Rightarrow> int" where
  "get_lcd_y_frm_ts_y fp c ts_y =
     f_trunc fp (f_add fp (f_mul fp (g_ky c) (f_int fp (ts_y - g_ts_yc c))) (f_int fp (g_lcd_yc c)))"

subsection \<open>One calibration point\<close>

partial_function (option) wait_press :: "'s reader \<Rightarrow> 's \<Rightarrow> (raw \<times> 's) option" where
  "wait_press rd s = do {
     ((x, y, pressure), s) \<leftarrow> rd s;
     if pressure = 0 then wait_press rd s else Some ((x, y, pressure), s)
   }"

text \<open>The collecting loop: sums, count, the position read last, the reader and the history.\<close>

partial_function (option) collect ::
  "'s reader \<times> bus \<Rightarrow> int \<times> int \<times> int \<times> int \<times> int \<times> 's \<times> hist \<Rightarrow> (int \<times> int \<times> int \<times> 's \<times> hist) option" where
  "collect env st = do {
     let (sum_x, sum_y, cnt, x, y, s, h) = st;
     let (sum_x, sum_y, cnt) = (if cnt < 128 then (sum_x + x, sum_y + y, cnt + 1) else (sum_x, sum_y, cnt));
     ((x, y, pressure), s) \<leftarrow> fst env s;
     h \<leftarrow> printf (putchar (snd env)) (''get raw data: x = %08d, y = %08d, cnt = %d'' @ LFCR)
            [Arg_int (of_int x), Arg_int (of_int y), Arg_int (of_int cnt)] h;
     if pressure \<noteq> 0 then collect env (sum_x, sum_y, cnt, x, y, s, h) else Some (sum_x, sum_y, cnt, s, h)
   }"

definition get_calibrate_point_data ::
  "'s reader \<Rightarrow> bus \<Rightarrow> putter \<Rightarrow> int \<Rightarrow> int \<Rightarrow> 's \<times> hist \<Rightarrow> ((int \<times> int) \<times> 's \<times> hist) option" where
  "get_calibrate_point_data rd b put lcd_x lcd_y sh = do {
     let h = fb_disp_cross put lcd_x lcd_y 0xffffff (snd sh);
     ((x, y, pressure), s) \<leftarrow> wait_press rd (fst sh);
     (sum_x, sum_y, cnt, s, h) \<leftarrow> collect (rd, b) (0, 0, 0, x, y, s, h);
     let px = sum_x sdiv cnt;
     let py = sum_y sdiv cnt;
     h \<leftarrow> printf (putchar b) (''return raw data: x = %08d, y = %08d'' @ LFCR)
            [Arg_int (of_int px), Arg_int (of_int py)] h;
     let h = fb_disp_cross put lcd_x lcd_y 0 h;
     Some ((px, py), s, h)
   }"

definition is_ts_xy_swap :: "int \<Rightarrow> int \<Rightarrow> int \<Rightarrow> int \<Rightarrow> bool" where
  "is_ts_xy_swap a_ts_x a_ts_y b_ts_x b_ts_y =
     (let dx = b_ts_x - a_ts_x; dy = b_ts_y - a_ts_y;
          dx = (if dx < 0 then 0 - dx else dx);
          dy = (if dy < 0 then 0 - dy else dy)
      in \<not> dx > dy)"

definition swap_xy :: "int \<times> int \<Rightarrow> int \<times> int" where
  "swap_xy p = (snd p, fst p)"

subsection \<open>Calibration\<close>

text \<open>The parameters from the five measured points.\<close>

definition calibration ::
  "'d fp_ops \<Rightarrow> int \<Rightarrow> int \<Rightarrow> int \<times> int \<Rightarrow> int \<times> int \<Rightarrow> int \<times> int \<Rightarrow> int \<times> int \<Rightarrow> int \<times> int \<Rightarrow> 'd ts_cal" where
  "calibration fp w v a b c d e =
     (let sw = is_ts_xy_swap (fst a) (snd a) (fst b) (snd b);
          (a, b, c, d, e) = (if sw then (swap_xy a, swap_xy b, swap_xy c, swap_xy d, swap_xy e)
                             else (a, b, c, d, e));
          ts_s1 = fst b - fst a;
          ts_s2 = fst c - fst d;
          lcd_s = w - 50 - 50;
          ts_d1 = snd d - snd a;
          ts_d2 = snd c - snd b;
          lcd_d = v - 50 - 50
      in \<lparr>g_kx = f_div fp (f_int fp (2 * lcd_s)) (f_int fp (ts_s1 + ts_s2)),
          g_ky = f_div fp (f_int fp (2 * lcd_d)) (f_int fp (ts_d1 + ts_d2)),
          g_ts_xc = fst e, g_ts_yc = snd e, g_lcd_xc = w sdiv 2, g_lcd_yc = v sdiv 2,
          g_ts_xy_swap = sw, cal_xres = w, cal_yres = v\<rparr>)"

text \<open>The report of a point, after the swap.\<close>

definition print_point :: "'d fp_ops \<Rightarrow> bus \<Rightarrow> 'd ts_cal \<Rightarrow> string \<Rightarrow> int \<times> int \<Rightarrow> hist \<Rightarrow> hist option" where
  "print_point fp b c name p h =
     (let p = (if g_ts_xy_swap c then swap_xy p else p)
      in printf (putchar b) (name @ '' lcd_x = %08d, lcd_y = %08d'' @ LFCR)
           [Arg_int (of_int (get_lcd_x_frm_ts_x fp c (fst p))),
            Arg_int (of_int (get_lcd_y_frm_ts_y fp c (snd p)))] h)"

definition ts_calibrate ::
  "'d fp_ops \<Rightarrow> 's reader \<Rightarrow> bus \<Rightarrow> putter \<Rightarrow> lcd_state \<Rightarrow> 's \<times> hist \<Rightarrow> ('d ts_cal \<times> 's \<times> hist) option" where
  "ts_calibrate fp rd b put lcd sh = do {
     (base, w, v, d) \<leftarrow> get_lcd_params lcd;
     (pa, sh) \<leftarrow> get_calibrate_point_data rd b put 50 50 sh;
     (pb, sh) \<leftarrow> get_calibrate_point_data rd b put (w - 50) 50 sh;
     (pc, sh) \<leftarrow> get_calibrate_point_data rd b put (w - 50) (v - 50) sh;
     (pd, sh) \<leftarrow> get_calibrate_point_data rd b put 50 (v - 50) sh;
     (pe, sh) \<leftarrow> get_calibrate_point_data rd b put (w sdiv 2) (v sdiv 2) sh;
     let (s, h) = sh;
     let c = calibration fp w v pa pb pc pd pe;
     h \<leftarrow> print_point fp b c ''A'' pa h;
     h \<leftarrow> print_point fp b c ''B'' pb h;
     h \<leftarrow> print_point fp b c ''C'' pc h;
     h \<leftarrow> print_point fp b c ''D'' pd h;
     h \<leftarrow> print_point fp b c ''E'' pe h;
     Some (c, s, h)
   }"

text \<open>\<open>ts_read\<close> returns \<open>None\<close> in the middle where the source returns -1 and stores nothing.\<close>

definition ts_read :: "'d fp_ops \<Rightarrow> 's reader \<Rightarrow> 'd ts_cal \<Rightarrow> 's \<Rightarrow> (raw option \<times> 's) option" where
  "ts_read fp rd c s = do {
     ((ts_x, ts_y, ts_pressure), s) \<leftarrow> rd s;
     let (ts_x, ts_y) = (if g_ts_xy_swap c then swap_xy (ts_x, ts_y) else (ts_x, ts_y));
     let tmp_x = get_lcd_x_frm_ts_x fp c ts_x;
     let tmp_y = get_lcd_y_frm_ts_y fp c ts_y;
     if tmp_x < 0 \<or> tmp_x \<ge> cal_xres c \<or> tmp_y < 0 \<or> tmp_y \<ge> cal_yres c then Some (None, s)
     else Some (Some (tmp_x, tmp_y, ts_pressure), s)
   }"

subsection \<open>The paint program\<close>

text \<open>One round of its endless loop, the set-up, and the first \<open>n\<close> rounds.  The frame buffer is the one
  that the display test has set up before.\<close>

definition paint_round ::
  "'d fp_ops \<Rightarrow> 's reader \<Rightarrow> bus \<Rightarrow> putter \<Rightarrow> 'd ts_cal \<Rightarrow> 's \<times> hist \<Rightarrow> ('s \<times> hist) option" where
  "paint_round fp rd b put c sh = do {
     (r, s) \<leftarrow> ts_read fp rd c (fst sh);
     (case r of
        None \<Rightarrow> Some (s, snd sh)
      | Some (x, y, pressure) \<Rightarrow> do {
          h \<leftarrow> printf (putchar b) ('' x = %d, y = %d'' @ LFCR) [Arg_int (of_int x), Arg_int (of_int y)] (snd sh);
          Some (s, if pressure \<noteq> 0 then put x y 0xff00 h else h)
        })
   }"

primrec paint_rounds ::
  "'d fp_ops \<Rightarrow> 's reader \<Rightarrow> bus \<Rightarrow> putter \<Rightarrow> 'd ts_cal \<Rightarrow> nat \<Rightarrow> 's \<times> hist \<Rightarrow> ('s \<times> hist) option" where
  "paint_rounds fp rd b put c 0 sh = Some sh"
| "paint_rounds fp rd b put c (Suc n) sh = do {
     sh \<leftarrow> paint_round fp rd b put c sh;
     paint_rounds fp rd b put c n sh
   }"

definition touchscreen_test ::
  "'d fp_ops \<Rightarrow> 's reader \<Rightarrow> bus \<Rightarrow> (nat \<Rightarrow> u8) \<Rightarrow> fb \<Rightarrow> lcd_state \<Rightarrow> 'f \<Rightarrow> 'g \<Rightarrow> nat
   \<Rightarrow> 'f option list \<times> 'g timer_desc list \<times> 's \<times> hist
   \<Rightarrow> ('f option list \<times> 'g timer_desc list \<times> 's \<times> hist) option" where
  "touchscreen_test fp rd b font f lcd handler timer_fn n st = do {
     let (tab, timers, s, h) = st;
     (base, w, v, d) \<leftarrow> get_lcd_params lcd;
     (tab, timers, h) \<leftarrow> touchscreen_init b handler timer_fn (tab, timers, h);
     let h = clear_screen f 0 h;
     let put = fb_put_pixel f;
     let h = fb_print_string put font (xres f) 70 70 ''Touch cross to calibrate touchscreen'' 0xffffff h;
     (c, s, h) \<leftarrow> ts_calibrate fp rd b put lcd (s, h);
     let h = fb_print_string put font (xres f) 70 (v - 70) ''OK! To draw!'' 0xffffff h;
     (s, h) \<leftarrow> paint_rounds fp rd b put c n (s, h);
     Some (tab, timers, s, h)
   }"

subsection \<open>The voltmeter\<close>

definition adc_round :: "'d fp_ops \<Rightarrow> bus \<Rightarrow> hist \<Rightarrow> hist option" where
  "adc_round fp b h = do {
     (val, h) \<leftarrow> adc_read_ain0 b h;
     let vol = f_mul fp (f_div fp (f_int fp (uint val)) (f_int fp 1023)) (f_dec fp 33 1);
     let m = f_trunc fp vol;
     let vol = f_sub fp vol (f_int fp m);
     let n = f_trunc fp (f_mul fp vol (f_int fp 1000));
     printf (putchar b) (''vol: %d.%03dv'' @ [CHR 0x0D]) [Arg_int (of_int m), Arg_int (of_int n)] h
   }"

primrec adc_rounds :: "'d fp_ops \<Rightarrow> bus \<Rightarrow> nat \<Rightarrow> hist \<Rightarrow> hist option" where
  "adc_rounds fp b 0 h = Some h"
| "adc_rounds fp b (Suc n) h = do { h \<leftarrow> adc_round fp b h; adc_rounds fp b n h }"

definition adc_test :: "'d fp_ops \<Rightarrow> bus \<Rightarrow> nat \<Rightarrow> hist \<Rightarrow> hist option" where
  "adc_test fp b n h = adc_rounds fp b n (adc_init h)"

subsection \<open>What a calibration point is\<close>

text \<open>A reader that delivers the raw readings of a list.\<close>

fun list_reader :: "raw list reader" where
  "list_reader [] = None"
| "list_reader (r # rs) = Some (r, rs)"

definition down :: "raw \<Rightarrow> bool" where
  "down r \<longleftrightarrow> snd (snd r) \<noteq> 0"

lemma wait_press_skips:
  "list_all (\<lambda>r. \<not> down r) ups \<Longrightarrow> down r \<Longrightarrow> wait_press list_reader (ups @ r # rs) = Some (r, rs)"
proof (induction ups)
  case Nil
  then show ?case by (subst wait_press.simps) (auto simp: down_def split: prod.splits)
next
  case (Cons u ups)
  then show ?case by (subst wait_press.simps) (auto simp: down_def split: prod.splits)
qed

lemma render_raw:
  "\<exists>t. render (''get raw data: x = %08d, y = %08d, cnt = %d'' @ LFCR) [Arg_int a, Arg_int d, Arg_int e] = Some t"
  "\<exists>t. render (''return raw data: x = %08d, y = %08d'' @ LFCR) [Arg_int a, Arg_int d] = Some t"
  by (simp_all add: render_def LFCR_def dec_value_def is_digit_char_def conv_text_def num_text_short)

text \<open>What the loop collects: the position at hand and those that follow while the pen is down, the first
  128 in all.\<close>

lemma collect_sums:
  assumes live: "\<And>h. tx_live b h"
  shows "list_all down downs \<Longrightarrow> \<not> down u \<Longrightarrow> 0 \<le> cnt \<Longrightarrow> cnt \<le> 128 \<Longrightarrow>
    \<exists>h'. collect (list_reader, b) (sum_x, sum_y, cnt, x, y, downs @ u # rs, h) =
      Some (sum_x + sum_list (take (nat (128 - cnt)) (x # map fst downs)),
            sum_y + sum_list (take (nat (128 - cnt)) (y # map (fst \<circ> snd) downs)),
            min 128 (cnt + int (Suc (length downs))), rs, h')"
proof (induction downs arbitrary: sum_x sum_y cnt x y h)
  case Nil
  obtain ux uy where u: "u = (ux, uy, 0)" using Nil.prems(2) by (cases u) (auto simp: down_def)
  have p: "\<exists>h'. printf (putchar b) (''get raw data: x = %08d, y = %08d, cnt = %d'' @ LFCR) [Arg_int i, Arg_int j, Arg_int k] g = Some h'"
    for i j k g using render_raw(1) [of i j k] printf_console [of _ _ _ b g "[]"] live by fastforce
  show ?case
  proof (cases "cnt < 128")
    case True
    then have "take (nat (128 - cnt)) [x] = [x]" "take (nat (128 - cnt)) [y] = [y]"
      by (simp_all add: take_Cons')
    with True p [of "of_int ux" "of_int uy" "of_int (cnt + 1)" h] u show ?thesis
      by (subst collect.simps) (auto simp: Let_def)
  next
    case False
    with Nil.prems have "cnt = 128" by simp
    with p [of "of_int ux" "of_int uy" "of_int 128" h] u show ?thesis
      by (subst collect.simps) (auto simp: Let_def)
  qed
next
  case (Cons r downs)
  obtain rx ry rp where r: "r = (rx, ry, rp)" "rp \<noteq> 0" using Cons.prems(1) by (cases r) (auto simp: down_def)
  have p: "\<exists>h'. printf (putchar b) (''get raw data: x = %08d, y = %08d, cnt = %d'' @ LFCR) [Arg_int i, Arg_int j, Arg_int k] g = Some h'"
    for i j k g using render_raw(1) [of i j k] printf_console [of _ _ _ b g "[]"] live by fastforce
  show ?case
  proof (cases "cnt < 128")
    case True
    define n where "n = nat (127 - cnt)"
    have n: "nat (128 - cnt) = Suc n" using True by (simp add: n_def)
    from p [of "of_int rx" "of_int ry" "of_int (cnt + 1)" h] obtain h1 where
      h1: "printf (putchar b) (''get raw data: x = %08d, y = %08d, cnt = %d'' @ LFCR)
        [Arg_int (of_int rx), Arg_int (of_int ry), Arg_int (of_int (cnt + 1))] h = Some h1" by blast
    have "collect (list_reader, b) (sum_x, sum_y, cnt, x, y, (r # downs) @ u # rs, h)
        = collect (list_reader, b) (sum_x + x, sum_y + y, cnt + 1, rx, ry, downs @ u # rs, h1)"
      using True r h1 by (subst collect.simps) simp
    with Cons.IH [of "cnt + 1" "sum_x + x" "sum_y + y" rx ry h1] Cons.prems True r
    show ?thesis by (simp add: n flip: n_def) (simp add: algebra_simps)
  next
    case False
    with Cons.prems have c: "cnt = 128" by simp
    from p [of "of_int rx" "of_int ry" "of_int 128" h] obtain h1 where
      h1: "printf (putchar b) (''get raw data: x = %08d, y = %08d, cnt = %d'' @ LFCR)
        [Arg_int (of_int rx), Arg_int (of_int ry), Arg_int (of_int 128)] h = Some h1" by blast
    have "collect (list_reader, b) (sum_x, sum_y, cnt, x, y, (r # downs) @ u # rs, h)
        = collect (list_reader, b) (sum_x, sum_y, cnt, rx, ry, downs @ u # rs, h1)"
      using c r h1 by (subst collect.simps) simp
    with Cons.IH [of cnt sum_x sum_y rx ry h1] Cons.prems c show ?thesis by simp
  qed
qed

subsection \<open>Properties\<close>

text \<open>Whatever the pen did before, a calibration point is the average of the positions of one press,
  the first 128 of them, from the first reading with the pen down to the last before it is lifted; the
  readings after the press are left for the next point.\<close>

lemma calibrate_point_average:
  assumes "\<And>h. tx_live b h" and "list_all (\<lambda>r. \<not> down r) ups" and "list_all down press" and "press \<noteq> []"
    and "\<not> down u"
  shows "\<exists>h'. get_calibrate_point_data list_reader b put lcd_x lcd_y (ups @ press @ u # rs, h) =
    Some ((sum_list (take 128 (map fst press)) sdiv int (min 128 (length press)),
           sum_list (take 128 (map (fst \<circ> snd) press)) sdiv int (min 128 (length press))), rs, h')"
proof -
  obtain r downs where press: "press = r # downs" using assms(4) by (cases press) auto
  obtain x y p where r: "r = (x, y, p)" by (cases r)
  let ?h = "fb_disp_cross put lcd_x lcd_y 0xffffff h"
  define cnt where "cnt = min 128 (int (Suc (length downs)))"
  from collect_sums [of b downs u 0 0 0 x y rs ?h, OF assms(1)] assms(3,5) press obtain h1 where
    h1: "collect (list_reader, b) (0, 0, 0, x, y, downs @ u # rs, ?h) =
      Some (sum_list (take 128 (map fst press)), sum_list (take 128 (map (fst \<circ> snd) press)), cnt, rs, h1)"
    by (auto simp: r cnt_def)
  have w: "wait_press list_reader (ups @ press @ u # rs) = Some ((x, y, p), downs @ u # rs)"
    using wait_press_skips [OF assms(2), of r "downs @ u # rs"] assms(3) press r by simp
  obtain t where "render (''return raw data: x = %08d, y = %08d'' @ LFCR)
      [Arg_int (of_int (sum_list (take 128 (map fst press)) sdiv cnt)),
       Arg_int (of_int (sum_list (take 128 (map (fst \<circ> snd) press)) sdiv cnt))] = Some t"
    using render_raw(2) by blast
  from printf_console [OF this, of b h1 "[]"] assms(1) obtain h2 where
    "printf (putchar b) (''return raw data: x = %08d, y = %08d'' @ LFCR)
      [Arg_int (of_int (sum_list (take 128 (map fst press)) sdiv cnt)),
       Arg_int (of_int (sum_list (take 128 (map (fst \<circ> snd) press)) sdiv cnt))] h1 = Some h2" by auto
  moreover have "cnt = int (min 128 (length press))" by (simp add: cnt_def press)
  ultimately show ?thesis
    using h1 w by (simp add: get_calibrate_point_data_def Let_def)
qed

lemma calibrate_point_average_witness:
  "\<exists>h'. get_calibrate_point_data list_reader ready_bus (\<lambda>x y c h. h) 50 50
     ([(0, 0, 0), (100, 200, 1), (103, 206, 1), (0, 0, 0)], []) = Some ((101, 203), [], h')"
  using calibrate_point_average [of ready_bus "[(0, 0, 0)]" "[(100, 200, 1), (103, 206, 1)]" "(0, 0, 0)"
      "\<lambda>x y c h. h" 50 50 "[]" "[]"]
  by (simp add: down_def sdiv_nonneg)




text \<open>The calibration maps the centre of the panel to the centre of the screen, in both orientations of the
  axes, and it exchanges the axes exactly when the line from A to B runs along the panel's y axis.\<close>

lemma calibration_centre:
  assumes zero: "\<And>m n c. n \<noteq> 0 \<Longrightarrow>
      f_trunc fp (f_add fp (f_mul fp (f_div fp (f_int fp m) (f_int fp n)) (f_int fp 0)) (f_int fp c)) = c"
    and c: "c = calibration fp w v a b' c' d e"
    and p: "p = (if g_ts_xy_swap c then swap_xy else id)"
    and nz: "fst (p b') - fst (p a) + (fst (p c') - fst (p d)) \<noteq> 0" "snd (p d) - snd (p a) + (snd (p c') - snd (p b')) \<noteq> 0"
  shows "get_lcd_x_frm_ts_x fp c (fst (p e)) = w sdiv 2" and "get_lcd_y_frm_ts_y fp c (snd (p e)) = v sdiv 2"
    and "g_ts_xy_swap c \<longleftrightarrow> \<bar>fst b' - fst a\<bar> \<le> \<bar>snd b' - snd a\<bar>"
  using zero nz unfolding p
  by (auto simp: c calibration_def get_lcd_x_frm_ts_x_def get_lcd_y_frm_ts_y_def is_ts_xy_swap_def swap_xy_def
      Let_def abs_if split: if_splits)

end
