(* ===== verification/Mmu.thy ===== *)
theory Mmu
  imports Prelude
begin




datatype mapping_kind = IO | MEM






subsection \<open>Translation\<close>


definition desc :: "mapping_kind \<Rightarrow> nat \<Rightarrow> u32" where
  "desc k n = push_bit 20 (of_nat n) OR (case k of IO \<Rightarrow> 0xC12 | MEM \<Rightarrow> 0xC1E)"






text \<open>A range of sections mapped one to one.\<close>

definition identity :: "mapping_kind \<Rightarrow> nat list \<Rightarrow> u32 list \<Rightarrow> u32 list" where
  "identity k ns ttb = fold (\<lambda>n t. t[n := desc k n]) ns ttb"

lemma length_identity [simp]: "length (identity k ns ttb) = length ttb"
  unfolding identity_def by (induction ns arbitrary: ttb) simp_all















end
