(* ===== verification/Cmem.thy ===== *)
theory Cmem
  imports Prelude
begin

text \<open>
  The memory functions and string functions of \<^verbatim>\<open>SPI/code/01th_spi_i2c_adc_jz2440_oled_020_002/lib\<close>
  (\<^verbatim>\<open>string.c\<close>, \<^verbatim>\<open>ctype.c\<close>), over an explicit store, because their arguments may overlap.  A store maps
  the addresses of the program's objects to bytes; a load or a store elsewhere is \<open>None\<close>, and so is a
  loop that finds no terminator.  A plain \<open>char\<close> is unsigned on this target.
\<close>

type_synonym mem = "u32 \<Rightarrow> u8 option"

definition stb :: "u32 \<Rightarrow> u8 \<Rightarrow> mem \<Rightarrow> mem option" where
  "stb p v m = (if m p = None then None else Some (m(p \<mapsto> v)))"

subsection \<open>Character classes\<close>

definition ctype_row :: "nat \<Rightarrow> u8" where
  "ctype_row i =
     (if i < 9 then 0x08 else if i < 14 then 0x28 else if i < 32 then 0x08
      else if i = 32 then 0xA0 else if i < 48 then 0x10 else if i < 58 then 0x04
      else if i < 65 then 0x10 else if i < 71 then 0x41 else if i < 91 then 0x01
      else if i < 97 then 0x10 else if i < 103 then 0x42 else if i < 123 then 0x02
      else if i < 127 then 0x10 else if i = 127 then 0x08 else if i < 160 then 0
      else if i = 160 then 0xA0 else if i < 192 then 0x10 else if i < 215 then 0x01
      else if i = 215 then 0x10 else if i < 223 then 0x01 else if i < 247 then 0x02
      else if i = 247 then 0x10 else 0x02)"

definition ismask_lib :: "u8 \<Rightarrow> u8 \<Rightarrow> bool" where
  "ismask_lib k c \<longleftrightarrow> ctype_row (unat c) AND k \<noteq> 0"

abbreviation isupper_lib :: "u8 \<Rightarrow> bool" where "isupper_lib \<equiv> ismask_lib 0x01"
abbreviation islower_lib :: "u8 \<Rightarrow> bool" where "islower_lib \<equiv> ismask_lib 0x02"
abbreviation isdigit_lib :: "u8 \<Rightarrow> bool" where "isdigit_lib \<equiv> ismask_lib 0x04"
abbreviation isspace_lib :: "u8 \<Rightarrow> bool" where "isspace_lib \<equiv> ismask_lib 0x20"
abbreviation isxdigit_lib :: "u8 \<Rightarrow> bool" where "isxdigit_lib \<equiv> ismask_lib 0x44"

definition tolower_lib :: "u8 \<Rightarrow> u8" where
  "tolower_lib c = (if isupper_lib c then c + 0x20 else c)"

definition toupper_lib :: "u8 \<Rightarrow> u8" where
  "toupper_lib c = (if islower_lib c then c - 0x20 else c)"

subsection \<open>Copying\<close>

text \<open>Loops that count a \<open>size_t\<close> down run as often as the count says, so they recurse on it.\<close>

primrec memset_loop :: "nat \<Rightarrow> u32 \<Rightarrow> u8 \<Rightarrow> mem \<Rightarrow> mem option" where
  "memset_loop 0 xs c m = Some m"
| "memset_loop (Suc n) xs c m = do { m \<leftarrow> stb xs c m; memset_loop n (xs + 1) c m }"

definition memset_lib :: "u32 \<Rightarrow> u32 \<Rightarrow> u32 \<Rightarrow> mem \<Rightarrow> (u32 \<times> mem) option" where
  "memset_lib s c count m = do { m \<leftarrow> memset_loop (unat count) s (ucast c) m; Some (s, m) }"

primrec copy_up :: "nat \<Rightarrow> u32 \<Rightarrow> u32 \<Rightarrow> mem \<Rightarrow> mem option" where
  "copy_up 0 tmp s m = Some m"
| "copy_up (Suc n) tmp s m = do { v \<leftarrow> m s; m \<leftarrow> stb tmp v m; copy_up n (tmp + 1) (s + 1) m }"

primrec copy_down :: "nat \<Rightarrow> u32 \<Rightarrow> u32 \<Rightarrow> mem \<Rightarrow> mem option" where
  "copy_down 0 tmp s m = Some m"
| "copy_down (Suc n) tmp s m =
     do { v \<leftarrow> m (s - 1); m \<leftarrow> stb (tmp - 1) v m; copy_down n (tmp - 1) (s - 1) m }"

definition bcopy_lib :: "u32 \<Rightarrow> u32 \<Rightarrow> u32 \<Rightarrow> mem \<Rightarrow> mem option" where
  "bcopy_lib src dest count m = copy_up (unat count) dest src m"

definition memcpy_lib :: "u32 \<Rightarrow> u32 \<Rightarrow> u32 \<Rightarrow> mem \<Rightarrow> (u32 \<times> mem) option" where
  "memcpy_lib dest src count m = do { m \<leftarrow> copy_up (unat count) dest src m; Some (dest, m) }"

definition memmove_lib :: "u32 \<Rightarrow> u32 \<Rightarrow> u32 \<Rightarrow> mem \<Rightarrow> (u32 \<times> mem) option" where
  "memmove_lib dest src count m =
     (if dest \<le> src then do { m \<leftarrow> copy_up (unat count) dest src m; Some (dest, m) }
      else do { m \<leftarrow> copy_down (unat count) (dest + count) (src + count) m; Some (dest, m) })"

partial_function (option) strcpy_loop :: "u32 \<Rightarrow> u32 \<Rightarrow> mem \<Rightarrow> mem option" where
  "strcpy_loop dest src m =
     do { c \<leftarrow> m src; m \<leftarrow> stb dest c m;
          if c \<noteq> 0 then strcpy_loop (dest + 1) (src + 1) m else Some m }"

definition strcpy_lib :: "u32 \<Rightarrow> u32 \<Rightarrow> mem \<Rightarrow> (u32 \<times> mem) option" where
  "strcpy_lib dest src m = do { m \<leftarrow> strcpy_loop dest src m; Some (dest, m) }"

primrec strncpy_loop :: "nat \<Rightarrow> u32 \<Rightarrow> u32 \<Rightarrow> mem \<Rightarrow> mem option" where
  "strncpy_loop 0 dest src m = Some m"
| "strncpy_loop (Suc n) dest src m =
     do { c \<leftarrow> m src; m \<leftarrow> stb dest c m;
          if c \<noteq> 0 then strncpy_loop n (dest + 1) (src + 1) m else Some m }"

definition strncpy_lib :: "u32 \<Rightarrow> u32 \<Rightarrow> u32 \<Rightarrow> mem \<Rightarrow> (u32 \<times> mem) option" where
  "strncpy_lib dest src count m = do { m \<leftarrow> strncpy_loop (unat count) dest src m; Some (dest, m) }"

subsection \<open>Lengths\<close>

partial_function (option) str_end :: "mem \<Rightarrow> u32 \<Rightarrow> u32 option" where
  "str_end m sc = do { c \<leftarrow> m sc; if c \<noteq> 0 then str_end m (sc + 1) else Some sc }"

definition strlen_lib :: "mem \<Rightarrow> u32 \<Rightarrow> u32 option" where
  "strlen_lib m s = do { sc \<leftarrow> str_end m s; Some (sc - s) }"

primrec strn_end :: "nat \<Rightarrow> mem \<Rightarrow> u32 \<Rightarrow> u32 option" where
  "strn_end 0 m sc = Some sc"
| "strn_end (Suc n) m sc = do { c \<leftarrow> m sc; if c \<noteq> 0 then strn_end n m (sc + 1) else Some sc }"

definition strnlen_lib :: "mem \<Rightarrow> u32 \<Rightarrow> u32 \<Rightarrow> u32 option" where
  "strnlen_lib m s count = do { sc \<leftarrow> strn_end (unat count) m s; Some (sc - s) }"

definition strcat_lib :: "u32 \<Rightarrow> u32 \<Rightarrow> mem \<Rightarrow> (u32 \<times> mem) option" where
  "strcat_lib dest src m =
     do { e \<leftarrow> str_end m dest; m \<leftarrow> strcpy_loop e src m; Some (dest, m) }"

text \<open>The count is at least 1 here, and the string ends with a NUL in any case.\<close>

primrec strncat_loop :: "nat \<Rightarrow> u32 \<Rightarrow> u32 \<Rightarrow> mem \<Rightarrow> mem option" where
  "strncat_loop 0 dest src m = stb dest 0 m"
| "strncat_loop (Suc n) dest src m =
     do { c \<leftarrow> m src; m \<leftarrow> stb dest c m;
          if c \<noteq> 0 then strncat_loop n (dest + 1) (src + 1) m else Some m }"

definition strncat_lib :: "u32 \<Rightarrow> u32 \<Rightarrow> u32 \<Rightarrow> mem \<Rightarrow> (u32 \<times> mem) option" where
  "strncat_lib dest src count m =
     (if count \<noteq> 0 then
        do { e \<leftarrow> str_end m dest; m \<leftarrow> strncat_loop (unat count) e src m; Some (dest, m) }
      else Some (dest, m))"

subsection \<open>Comparing\<close>

text \<open>The result variable is a \<open>signed char\<close>: the difference is cut to eight bits.\<close>

partial_function (option) strcmp_loop :: "mem \<Rightarrow> u32 \<Rightarrow> u32 \<Rightarrow> u8 option" where
  "strcmp_loop m cs ct =
     do { a \<leftarrow> m cs; b \<leftarrow> m ct;
          if a - b \<noteq> 0 \<or> a = 0 then Some (a - b) else strcmp_loop m (cs + 1) (ct + 1) }"

definition strcmp_lib :: "mem \<Rightarrow> u32 \<Rightarrow> u32 \<Rightarrow> int option" where
  "strcmp_lib m cs ct = do { r \<leftarrow> strcmp_loop m cs ct; Some (sint r) }"

primrec strncmp_loop :: "nat \<Rightarrow> mem \<Rightarrow> u32 \<Rightarrow> u32 \<Rightarrow> u8 \<Rightarrow> u8 option" where
  "strncmp_loop 0 m cs ct r = Some r"
| "strncmp_loop (Suc n) m cs ct r =
     do { a \<leftarrow> m cs; b \<leftarrow> m ct;
          if a - b \<noteq> 0 \<or> a = 0 then Some (a - b) else strncmp_loop n m (cs + 1) (ct + 1) (a - b) }"

definition strncmp_lib :: "mem \<Rightarrow> u32 \<Rightarrow> u32 \<Rightarrow> u32 \<Rightarrow> int option" where
  "strncmp_lib m cs ct count = do { r \<leftarrow> strncmp_loop (unat count) m cs ct 0; Some (sint r) }"

primrec strnicmp_loop :: "nat \<Rightarrow> mem \<Rightarrow> u32 \<Rightarrow> u32 \<Rightarrow> u8 \<times> u8 \<Rightarrow> (u8 \<times> u8) option" where
  "strnicmp_loop 0 m s1 s2 cc = Some cc"
| "strnicmp_loop (Suc n) m s1 s2 cc =
     do { c1 \<leftarrow> m s1; c2 \<leftarrow> m s2;
          if c1 = 0 then Some (c1, c2)
          else if c2 = 0 then Some (c1, c2)
          else if c1 = c2 then strnicmp_loop n m (s1 + 1) (s2 + 1) (c1, c2)
          else if tolower_lib c1 \<noteq> tolower_lib c2 then Some (tolower_lib c1, tolower_lib c2)
          else strnicmp_loop n m (s1 + 1) (s2 + 1) (tolower_lib c1, tolower_lib c2) }"

definition strnicmp_lib :: "mem \<Rightarrow> u32 \<Rightarrow> u32 \<Rightarrow> u32 \<Rightarrow> int option" where
  "strnicmp_lib m s1 s2 len =
     do { (c1, c2) \<leftarrow> strnicmp_loop (unat len) m s1 s2 (0, 0); Some (uint c1 - uint c2) }"

primrec memcmp_loop :: "nat \<Rightarrow> mem \<Rightarrow> u32 \<Rightarrow> u32 \<Rightarrow> int \<Rightarrow> int option" where
  "memcmp_loop 0 m su1 su2 res = Some res"
| "memcmp_loop (Suc n) m su1 su2 res =
     do { a \<leftarrow> m su1; b \<leftarrow> m su2;
          if uint a - uint b \<noteq> 0 then Some (uint a - uint b)
          else memcmp_loop n m (su1 + 1) (su2 + 1) (uint a - uint b) }"

definition memcmp_lib :: "mem \<Rightarrow> u32 \<Rightarrow> u32 \<Rightarrow> u32 \<Rightarrow> int option" where
  "memcmp_lib m cs ct count = memcmp_loop (unat count) m cs ct 0"

subsection \<open>Searching\<close>

text \<open>A pointer result is an address, 0 the null pointer.\<close>

partial_function (option) strchr_loop :: "mem \<Rightarrow> u8 \<Rightarrow> u32 \<Rightarrow> u32 option" where
  "strchr_loop m c s =
     do { v \<leftarrow> m s; if v \<noteq> c then (if v = 0 then Some 0 else strchr_loop m c (s + 1)) else Some s }"

definition strchr_lib :: "mem \<Rightarrow> u32 \<Rightarrow> u32 \<Rightarrow> u32 option" where
  "strchr_lib m s c = strchr_loop m (ucast c) s"

partial_function (option) strrchr_loop :: "mem \<Rightarrow> u8 \<Rightarrow> u32 \<Rightarrow> u32 \<Rightarrow> u32 option" where
  "strrchr_loop m c s p =
     do { v \<leftarrow> m p;
          if v = c then Some p
          else if s \<le> p - 1 then strrchr_loop m c s (p - 1) else Some 0 }"

definition strrchr_lib :: "mem \<Rightarrow> u32 \<Rightarrow> u32 \<Rightarrow> u32 option" where
  "strrchr_lib m s c = do { l \<leftarrow> strlen_lib m s; strrchr_loop m (ucast c) s (s + l) }"

text \<open>The inner loops of \<^verbatim>\<open>strspn\<close> and \<^verbatim>\<open>strpbrk\<close>: does the character occur in the set?\<close>

partial_function (option) char_in :: "mem \<Rightarrow> u8 \<Rightarrow> u32 \<Rightarrow> bool option" where
  "char_in m c a =
     do { v \<leftarrow> m a; if v \<noteq> 0 then (if c = v then Some True else char_in m c (a + 1)) else Some False }"

partial_function (option) strspn_loop :: "mem \<Rightarrow> u32 \<Rightarrow> u32 \<Rightarrow> u32 \<Rightarrow> u32 option" where
  "strspn_loop m p accept count =
     do { c \<leftarrow> m p;
          if c \<noteq> 0 then do {
            found \<leftarrow> char_in m c accept;
            if \<not> found then Some count else strspn_loop m (p + 1) accept (count + 1)
          } else Some count }"

definition strspn_lib :: "mem \<Rightarrow> u32 \<Rightarrow> u32 \<Rightarrow> u32 option" where
  "strspn_lib m s accept = strspn_loop m s accept 0"

partial_function (option) strpbrk_lib :: "mem \<Rightarrow> u32 \<Rightarrow> u32 \<Rightarrow> u32 option" where
  "strpbrk_lib m cs ct =
     do { c \<leftarrow> m cs;
          if c \<noteq> 0 then do {
            found \<leftarrow> char_in m c ct;
            if found then Some cs else strpbrk_lib m (cs + 1) ct
          } else Some 0 }"

text \<open>\<^verbatim>\<open>strtok\<close> keeps its place in the variable \<^verbatim>\<open>___strtok\<close>, here the argument and result \<open>place\<close>.\<close>

definition strtok_lib :: "u32 \<Rightarrow> u32 \<Rightarrow> u32 \<Rightarrow> mem \<Rightarrow> (u32 \<times> u32 \<times> mem) option" where
  "strtok_lib s ct place m =
     (let sbegin = (if s \<noteq> 0 then s else place)
      in if sbegin = 0 then Some (0, place, m)
         else do {
           n \<leftarrow> strspn_lib m sbegin ct;
           let sbegin = sbegin + n;
           c \<leftarrow> m sbegin;
           if c = 0 then Some (0, 0, m)
           else do {
             send \<leftarrow> strpbrk_lib m sbegin ct;
             if send \<noteq> 0 then do {
               v \<leftarrow> m send;
               if v \<noteq> 0 then do { m \<leftarrow> stb send 0 m; Some (sbegin, send + 1, m) }
               else Some (sbegin, send, m)
             } else Some (sbegin, send, m)
           }
         })"

text \<open>\<^verbatim>\<open>strsep\<close> updates the pointer it is given the address of: the result is the token and that pointer.\<close>

definition strsep_lib :: "u32 \<Rightarrow> u32 \<Rightarrow> mem \<Rightarrow> (u32 \<times> u32 \<times> mem) option" where
  "strsep_lib s ct m =
     (if s = 0 then Some (0, s, m)
      else do {
        send \<leftarrow> strpbrk_lib m s ct;
        if send \<noteq> 0 then do { m \<leftarrow> stb send 0 m; Some (s, send + 1, m) }
        else Some (s, send, m)
      })"

primrec memscan_loop :: "nat \<Rightarrow> mem \<Rightarrow> u32 \<Rightarrow> u32 \<Rightarrow> u32 option" where
  "memscan_loop 0 m c p = Some p"
| "memscan_loop (Suc n) m c p =
     do { v \<leftarrow> m p; if ucast v = c then Some p else memscan_loop n m c (p + 1) }"

definition memscan_lib :: "mem \<Rightarrow> u32 \<Rightarrow> u32 \<Rightarrow> u32 \<Rightarrow> u32 option" where
  "memscan_lib m addr c n = memscan_loop (unat n) m c addr"

primrec memchr_loop :: "nat \<Rightarrow> mem \<Rightarrow> u8 \<Rightarrow> u32 \<Rightarrow> u32 option" where
  "memchr_loop 0 m c p = Some 0"
| "memchr_loop (Suc n) m c p = do { v \<leftarrow> m p; if c = v then Some p else memchr_loop n m c (p + 1) }"

definition memchr_lib :: "mem \<Rightarrow> u32 \<Rightarrow> u32 \<Rightarrow> u32 \<Rightarrow> u32 option" where
  "memchr_lib m s c n = memchr_loop (unat n) m (ucast c) s"

text \<open>The lengths are \<open>int\<close>s; the loop runs while the rest of \<open>s1\<close> is as long as \<open>s2\<close>.\<close>

partial_function (option) strstr_loop :: "mem \<Rightarrow> u32 \<Rightarrow> int \<Rightarrow> int \<Rightarrow> u32 \<Rightarrow> u32 option" where
  "strstr_loop m s2 l2 l1 s1 =
     (if l2 \<le> l1 then do {
        r \<leftarrow> memcmp_lib m s1 s2 (word_of_int l2);
        if r = 0 then Some s1 else strstr_loop m s2 l2 (l1 - 1) (s1 + 1)
      } else Some 0)"

definition strstr_lib :: "mem \<Rightarrow> u32 \<Rightarrow> u32 \<Rightarrow> u32 option" where
  "strstr_lib m s1 s2 =
     do { l2 \<leftarrow> strlen_lib m s2;
          if l2 = 0 then Some s1
          else do { l1 \<leftarrow> strlen_lib m s1; strstr_loop m s2 (sint l2) (sint l1) s1 } }"

subsection \<open>Output\<close>

partial_function (option) puts_loop ::
  "(u32 \<Rightarrow> hist \<Rightarrow> hist option) \<Rightarrow> mem \<Rightarrow> u32 \<times> int \<times> hist \<Rightarrow> (int \<times> hist) option" where
  "puts_loop putc m sih =
     (case sih of (s, i, h) \<Rightarrow>
        do { c \<leftarrow> m s;
             if c \<noteq> 0 then do { h \<leftarrow> putc (ucast c) h; puts_loop putc m (s + 1, i + 1, h) }
             else Some (i, h) })"

definition puts_lib ::
  "(u32 \<Rightarrow> hist \<Rightarrow> hist option) \<Rightarrow> mem \<Rightarrow> u32 \<Rightarrow> hist \<Rightarrow> (int \<times> hist) option" where
  "puts_lib putc m s h =
     do { (i, h) \<leftarrow> puts_loop putc m (s, 0, h);
          h \<leftarrow> putc 10 h; h \<leftarrow> putc 13 h; Some (i + 2, h) }"

definition putchar_lib :: "(u32 \<Rightarrow> hist \<Rightarrow> hist option) \<Rightarrow> u32 \<Rightarrow> hist \<Rightarrow> (u32 \<times> hist) option" where
  "putchar_lib putc c h = do { h \<leftarrow> putc (ucast (ucast c :: u8)) h; Some (c, h) }"

subsection \<open>Objects in the store\<close>

definition bytes_at :: "mem \<Rightarrow> u32 \<Rightarrow> u8 list \<Rightarrow> bool" where
  "bytes_at m p bs \<longleftrightarrow> (\<forall>i < length bs. m (p + of_nat i) = Some (bs ! i))"

definition room :: "mem \<Rightarrow> u32 \<Rightarrow> nat \<Rightarrow> bool" where
  "room m p n \<longleftrightarrow> (\<forall>i < n. m (p + of_nat i) \<noteq> None)"

definition cstr :: "mem \<Rightarrow> u32 \<Rightarrow> u8 list \<Rightarrow> bool" where
  "cstr m p s \<longleftrightarrow> bytes_at m p (s @ [0]) \<and> 0 \<notin> set s"

text \<open>The store with a list of bytes written from an address on.\<close>

definition put_bytes :: "u32 \<Rightarrow> u8 list \<Rightarrow> mem \<Rightarrow> mem" where
  "put_bytes p bs m = (\<lambda>q. if unat (q - p) < length bs then Some (bs ! unat (q - p)) else m q)"

lemma all_less_Suc: "(\<forall>i < Suc n. P i) \<longleftrightarrow> P 0 \<and> (\<forall>i < n. P (Suc i))"
  by (auto simp: less_Suc_eq_0_disj)

lemma bytes_at_Nil [simp]: "bytes_at m p []"
  by (simp add: bytes_at_def)

lemma bytes_at_Cons [simp]: "bytes_at m p (b # bs) \<longleftrightarrow> m p = Some b \<and> bytes_at m (p + 1) bs"
  by (simp add: bytes_at_def all_less_Suc add.assoc)

lemma bytes_at_append: "bytes_at m p (as @ bs) \<longleftrightarrow> bytes_at m p as \<and> bytes_at m (p + of_nat (length as)) bs"
  by (induction as arbitrary: p) (simp_all add: add.assoc)

lemma room_0 [simp]: "room m p 0"
  by (simp add: room_def)

lemma room_Suc [simp]: "room m p (Suc n) \<longleftrightarrow> m p \<noteq> None \<and> room m (p + 1) n"
  by (simp add: room_def all_less_Suc add.assoc)

lemma room_snoc: "room m p (Suc n) \<longleftrightarrow> room m p n \<and> m (p + of_nat n) \<noteq> None"
  unfolding room_def by (auto simp: less_Suc_eq)

lemma bytes_at_room: "bytes_at m p bs \<Longrightarrow> room m p (length bs)"
  by (auto simp: bytes_at_def room_def)

lemma room_upd: "room m p n \<Longrightarrow> room (m(q \<mapsto> v)) p n"
  by (auto simp: room_def)

lemma cstr_Nil [simp]: "cstr m p [] \<longleftrightarrow> m p = Some 0"
  by (simp add: cstr_def)

lemma cstr_Cons [simp]: "cstr m p (c # s) \<longleftrightarrow> c \<noteq> 0 \<and> m p = Some c \<and> cstr m (p + 1) s"
  by (auto simp: cstr_def)

lemma of_nat32_inj: "i < 2 ^ 32 \<Longrightarrow> j < 2 ^ 32 \<Longrightarrow> (of_nat i :: u32) = of_nat j \<longleftrightarrow> i = j"
  by (simp add: of_nat32_eq_iff)

lemma unat_of_nat32: "i < 2 ^ 32 \<Longrightarrow> unat (of_nat i :: u32) = i"
  by (simp add: unat_of_nat)

lemma unat_le32: "unat (c :: u32) \<le> 2 ^ 32"
  by (rule less_imp_le) (use unsigned_less [of c] in simp)

lemma put_bytes_Nil [simp]: "put_bytes p [] m = m"
  by (simp add: put_bytes_def)

lemma put_bytes_at: "i < length bs \<Longrightarrow> i < 2 ^ 32 \<Longrightarrow> put_bytes p bs m (p + of_nat i) = Some (bs ! i)"
  by (simp add: put_bytes_def unat_of_nat)

lemma put_bytes_Cons:
  assumes "length bs < 2 ^ 32"
  shows "put_bytes p (b # bs) m = put_bytes (p + 1) bs (m(p \<mapsto> b))"
proof
  fix q
  show "put_bytes p (b # bs) m q = put_bytes (p + 1) bs (m(p \<mapsto> b)) q"
  proof (cases "q = p")
    case True
    have "unat (- 1 :: u32) = 4294967295" by (simp add: unat_word_ariths(7) [symmetric] unsigned_minus_1_eq_mask mask_eq_exp_minus_1)
    with True assms show ?thesis by (simp add: put_bytes_def)
  next
    case False
    then have "unat (q - p) = Suc (unat (q - (p + 1)))"
      using unatSuc [of "q - (p + 1)"] by (simp add: add.commute)
    with False show ?thesis by (simp add: put_bytes_def)
  qed
qed

lemma put_bytes_snoc:
  assumes "length bs < 2 ^ 32"
  shows "put_bytes p (bs @ [b]) m = put_bytes p bs (m(p + of_nat (length bs) \<mapsto> b))"
proof
  fix q
  have "q = p + of_nat (length bs) \<longleftrightarrow> unat (q - p) = length bs"
    using assms word_unat_eq_iff [of "q - p" "of_nat (length bs)"]
    by (simp add: unat_of_nat32 eq_diff_eq diff_eq_eq add.commute)
  then show "put_bytes p (bs @ [b]) m q = put_bytes p bs (m(p + of_nat (length bs) \<mapsto> b)) q"
    by (auto simp: put_bytes_def nth_append)
qed

lemma bytes_at_put: "length bs \<le> 2 ^ 32 \<Longrightarrow> bytes_at (put_bytes p bs m) p bs"
  by (simp add: bytes_at_def put_bytes_at)

lemma bytes_at_upd_other:
  "(\<And>i. i < length bs \<Longrightarrow> q \<noteq> p + of_nat i) \<Longrightarrow> bytes_at (m(q \<mapsto> v)) p bs \<longleftrightarrow> bytes_at m p bs"
  unfolding bytes_at_def by (metis fun_upd_other)

subsection \<open>Copying\<close>

lemma stb_room: "m p \<noteq> None \<Longrightarrow> stb p v m = Some (m(p \<mapsto> v))"
  by (simp add: stb_def)

lemma memset_loop_ok:
  "room m p n \<Longrightarrow> n \<le> 2 ^ 32 \<Longrightarrow> memset_loop n p c m = Some (put_bytes p (replicate n c) m)"
  by (induction n arbitrary: p m) (auto simp: stb_room put_bytes_Cons room_upd)

lemma memset_ok:
  "room m s (unat count) \<Longrightarrow>
   memset_lib s c count m = Some (s, put_bytes s (replicate (unat count) (ucast c)) m)"
  using unat_le32 [of count] by (simp add: memset_lib_def memset_loop_ok)

lemma copy_up_ok:
  assumes "bytes_at m s bs" and "room m d (length bs)" and "length bs \<le> 2 ^ 32"
    and "\<And>i j. j < i \<Longrightarrow> i < length bs \<Longrightarrow> d + of_nat j \<noteq> s + of_nat i"
  shows "copy_up (length bs) d s m = Some (put_bytes d bs m)"
  using assms
proof (induction bs arbitrary: d s m)
  case Nil
  then show ?case by simp
next
  case (Cons b bs)
  have apart: "d + 1 + of_nat j \<noteq> s + 1 + of_nat i" if "j < i" "i < length bs" for i j
    using Cons.prems(4) [of "Suc j" "Suc i"] that by (simp add: add.assoc)
  have "d \<noteq> s + 1 + of_nat i" if "i < length bs" for i
    using Cons.prems(4) [of 0 "Suc i"] that by (simp add: add.assoc)
  then have "bytes_at (m(d \<mapsto> b)) (s + 1) bs"
    using Cons.prems(1) by (simp add: bytes_at_upd_other)
  moreover have "room (m(d \<mapsto> b)) (d + 1) (length bs)" using Cons.prems(2) by (simp add: room_upd)
  ultimately have "copy_up (length bs) (d + 1) (s + 1) (m(d \<mapsto> b)) = Some (put_bytes (d + 1) bs (m(d \<mapsto> b)))"
    using Cons.prems(3) apart by (intro Cons.IH) (simp_all del: fun_upd_apply)
  with Cons.prems show ?case by (simp add: stb_room put_bytes_Cons)
qed

lemma copy_down_ok:
  assumes "bytes_at m s bs" and "room m d (length bs)" and "length bs \<le> 2 ^ 32"
    and "\<And>i j. i < j \<Longrightarrow> j < length bs \<Longrightarrow> d + of_nat j \<noteq> s + of_nat i"
  shows "copy_down (length bs) (d + of_nat (length bs)) (s + of_nat (length bs)) m
    = Some (put_bytes d bs m)"
  using assms
proof (induction bs arbitrary: m rule: rev_induct)
  case Nil
  then show ?case by simp
next
  case (snoc b bs)
  let ?n = "length bs"
  have one: "x + of_nat (Suc ?n) - 1 = x + of_nat ?n" for x :: u32 by simp
  have "d + of_nat ?n \<noteq> s + of_nat i" if "i < ?n" for i
    using snoc.prems(4) [of i ?n] that by simp
  then have "bytes_at (m(d + of_nat ?n \<mapsto> b)) s bs"
    using snoc.prems(1) by (simp add: bytes_at_upd_other bytes_at_append)
  moreover have r: "room m d ?n" "m (d + of_nat ?n) \<noteq> None"
    using snoc.prems(2) room_snoc [of m d ?n] by simp_all
  ultimately have "copy_down ?n (d + of_nat ?n) (s + of_nat ?n) (m(d + of_nat ?n \<mapsto> b))
      = Some (put_bytes d bs (m(d + of_nat ?n \<mapsto> b)))"
    using snoc.prems(3,4) by (intro snoc.IH) (simp_all add: room_upd del: fun_upd_apply)
  moreover have "m (s + of_nat ?n) = Some b" using snoc.prems(1) by (simp add: bytes_at_append)
  ultimately show ?case
    using r(2) snoc.prems(3) by (simp add: stb_room put_bytes_snoc one del: of_nat_Suc)
qed

lemma memcpy_ok:
  assumes "bytes_at m src bs" and "room m dest (length bs)" and "length bs = unat count"
    and "\<And>i j. j < i \<Longrightarrow> i < length bs \<Longrightarrow> dest + of_nat j \<noteq> src + of_nat i"
  shows "memcpy_lib dest src count m = Some (dest, put_bytes dest bs m)"
    and "bcopy_lib src dest count m = Some (put_bytes dest bs m)"
  using copy_up_ok [OF assms(1,2) _ assms(4)] assms(3) unat_le32 [of count]
  by (simp_all add: memcpy_lib_def bcopy_lib_def)

lemma unat_add_of_nat: "unat (p :: u32) + n < 2 ^ 32 \<Longrightarrow> unat (p + of_nat n) = unat p + n"
  by (simp add: unat_word_ariths unat_of_nat32)

text \<open>C28: \<^verbatim>\<open>memmove\<close> copies right however source and destination overlap: afterwards the destination holds
  what the source held before, and no other byte has changed.\<close>

lemma memmove_copies:
  assumes "bytes_at m src bs" and "room m dest (length bs)" and "length bs = unat count"
    and "unat src + unat count \<le> 2 ^ 32" and "unat dest + unat count \<le> 2 ^ 32"
  shows "memmove_lib dest src count m = Some (dest, put_bytes dest bs m)"
proof (cases "dest \<le> src")
  case True
  have "dest + of_nat j \<noteq> src + of_nat i" if "j < i" "i < length bs" for i j
    using True that assms(3-5) unat_add_of_nat [of dest j] unat_add_of_nat [of src i]
    by (auto simp: word_le_nat_alt)
  with copy_up_ok [OF assms(1,2)] assms(3) unat_le32 [of count] True show ?thesis
    by (simp add: memmove_lib_def)
next
  case False
  have "dest + of_nat j \<noteq> src + of_nat i" if "i < j" "j < length bs" for i j
    using False that assms(3-5) unat_add_of_nat [of dest j] unat_add_of_nat [of src i]
    by (auto simp: word_le_nat_alt)
  with copy_down_ok [OF assms(1,2)] assms(3) unat_le32 [of count] False show ?thesis
    by (simp add: memmove_lib_def)
qed

lemma memmove_copies_witness:
  "memmove_lib 0x1001 0x1000 3 (put_bytes 0x1000 [1, 2, 3, 4] (\<lambda>_. None))
   = Some (0x1001, put_bytes 0x1001 [1, 2, 3] (put_bytes 0x1000 [1, 2, 3, 4] (\<lambda>_. None)))"
  by (rule memmove_copies) (simp_all add: put_bytes_def)

subsection \<open>Strings\<close>

lemma str_end_ok: "cstr m p s \<Longrightarrow> str_end m p = Some (p + of_nat (length s))"
  by (induction s arbitrary: p) (subst str_end.simps; simp add: add.assoc)+

lemma strlen_ok: "cstr m p s \<Longrightarrow> strlen_lib m p = Some (of_nat (length s))"
  by (simp add: strlen_lib_def str_end_ok)

lemma strn_end_ok: "cstr m p s \<Longrightarrow> strn_end n m p = Some (p + of_nat (min n (length s)))"
proof (induction n arbitrary: p s)
  case 0
  show ?case by simp
next
  case (Suc n)
  show ?case
  proof (cases s)
    case Nil
    with Suc.prems show ?thesis by simp
  next
    case (Cons c t)
    with Suc.prems Suc.IH [of "p + 1" t] show ?thesis by (simp add: add.assoc)
  qed
qed

lemma strnlen_ok: "cstr m p s \<Longrightarrow> strnlen_lib m p count = Some (of_nat (min (unat count) (length s)))"
  by (simp add: strnlen_lib_def strn_end_ok)

lemma cstr_bytes: "cstr m p s \<Longrightarrow> bytes_at m p (s @ [0])"
  by (simp add: cstr_def)

lemma cstr_put: "0 \<notin> set s \<Longrightarrow> length s < 2 ^ 32 \<Longrightarrow> cstr (put_bytes p (s @ [0]) m) p s"
  by (simp add: cstr_def bytes_at_put)

text \<open>Writes below or beside an object leave it alone.\<close>

definition apart :: "u32 \<Rightarrow> nat \<Rightarrow> u32 \<Rightarrow> nat \<Rightarrow> bool" where
  "apart p k q n \<longleftrightarrow> (\<forall>i < k. \<forall>j < n. p + of_nat i \<noteq> q + of_nat j)"

lemma bytes_at_put_apart:
  assumes "apart p (length bs) q (length as)" and "length as \<le> 2 ^ 32"
  shows "bytes_at (put_bytes q as m) p bs \<longleftrightarrow> bytes_at m p bs"
proof -
  have "put_bytes q as m (p + of_nat i) = m (p + of_nat i)" if i: "i < length bs" for i
  proof -
    have "\<not> unat (p + of_nat i - q) < length as"
    proof
      assume "unat (p + of_nat i - q) < length as"
      with assms(1) i have "p + of_nat i \<noteq> q + of_nat (unat (p + of_nat i - q))"
        unfolding apart_def by blast
      then show False by simp
    qed
    then show ?thesis by (simp add: put_bytes_def)
  qed
  then show ?thesis by (simp add: bytes_at_def)
qed

lemma apart_Suc: "apart p (Suc k) q (Suc n) \<Longrightarrow> apart (p + 1) k (q + 1) n"
proof -
  assume a: "apart p (Suc k) q (Suc n)"
  have "p + 1 + of_nat i \<noteq> q + 1 + of_nat j" if "i < k" "j < n" for i j
    using a [unfolded apart_def, rule_format, of "Suc i" "Suc j"] that by (simp add: add.assoc)
  then show ?thesis by (simp add: apart_def)
qed

lemma apart_head: "apart p k q (Suc n) \<Longrightarrow> i < k \<Longrightarrow> q \<noteq> p + of_nat i"
  using spec [of "\<lambda>i. i < k \<longrightarrow> (\<forall>j < Suc n. p + of_nat i \<noteq> q + of_nat j)" i]
  by (force simp: apart_def)

lemma strcpy_loop_ok:
  assumes "cstr m src s" and "room m dest (Suc (length s))" and "length s < 2 ^ 32"
    and "apart src (Suc (length s)) dest (Suc (length s))"
  shows "strcpy_loop dest src m = Some (put_bytes dest (s @ [0]) m)"
  using assms
proof (induction s arbitrary: dest src m)
  case Nil
  then show ?case by (subst strcpy_loop.simps) (auto simp: stb_room put_bytes_Cons)
next
  case (Cons c s)
  have "bytes_at (m(dest \<mapsto> c)) (src + 1) (s @ [0])"
    using Cons.prems(1) apart_head [OF Cons.prems(4), of "Suc _"] cstr_bytes [of m "src + 1" s]
    by (subst bytes_at_upd_other) (simp_all add: add.assoc)
  then have "cstr (m(dest \<mapsto> c)) (src + 1) s" using Cons.prems(1) by (simp add: cstr_def)
  moreover have "room (m(dest \<mapsto> c)) (dest + 1) (Suc (length s))"
    using Cons.prems(2) room_upd [of m "dest + 1" "Suc (length s)" dest c] by simp
  moreover have "apart (src + 1) (Suc (length s)) (dest + 1) (Suc (length s))"
    using apart_Suc [OF Cons.prems(4) [simplified]] by simp
  ultimately have "strcpy_loop (dest + 1) (src + 1) (m(dest \<mapsto> c))
      = Some (put_bytes (dest + 1) (s @ [0]) (m(dest \<mapsto> c)))"
    using Cons.prems(3) by (intro Cons.IH) (simp_all del: room_Suc fun_upd_apply)
  with Cons.prems show ?case
    by (subst strcpy_loop.simps) (auto simp: stb_room put_bytes_Cons)
qed

lemma strcpy_ok:
  assumes "cstr m src s" and "room m dest (Suc (length s))" and "length s < 2 ^ 32"
    and "apart src (Suc (length s)) dest (Suc (length s))"
  shows "strcpy_lib dest src m = Some (dest, put_bytes dest (s @ [0]) m)"
  by (simp add: strcpy_lib_def strcpy_loop_ok [OF assms])

lemma strcat_ok:
  assumes "cstr m dest t" and "cstr m src s" and "length t + length s < 2 ^ 32"
    and "room m dest (length t + Suc (length s))"
    and "apart src (Suc (length s)) (dest + of_nat (length t)) (Suc (length s))"
  shows "\<exists>m'. strcat_lib dest src m = Some (dest, m') \<and> cstr m' dest (t @ s)
    \<and> m' = put_bytes (dest + of_nat (length t)) (s @ [0]) m"
proof -
  let ?e = "dest + of_nat (length t)"
  let ?m = "put_bytes ?e (s @ [0]) m"
  have room: "room m ?e (Suc (length s))"
    using assms(4) unfolding room_def by (metis add.assoc add_less_cancel_left of_nat_add)
  have "bytes_at ?m dest t"
  proof -
    have "apart dest (length t) ?e (Suc (length s))"
    proof -
      have "dest + of_nat i \<noteq> ?e + of_nat j" if "i < length t" "j < Suc (length s)" for i j
      proof -
        have "(of_nat i :: u32) \<noteq> of_nat (length t + j)"
          using that assms(3) by (subst of_nat32_inj) auto
        then show ?thesis by (simp add: add.assoc)
      qed
      then show ?thesis by (simp add: apart_def)
    qed
    with assms(1,3) show ?thesis
      by (subst bytes_at_put_apart) (simp_all add: cstr_def bytes_at_append)
  qed
  moreover have "bytes_at ?m ?e (s @ [0])" using assms(3) by (intro bytes_at_put) simp
  ultimately have "cstr ?m dest (t @ s)"
    using assms(1,2) by (simp add: cstr_def bytes_at_append add.assoc)
  moreover have "strcpy_loop ?e src m = Some ?m"
    using assms(3) by (intro strcpy_loop_ok [OF assms(2) room _ assms(5)]) simp
  ultimately show ?thesis
    by (simp add: strcat_lib_def str_end_ok [OF assms(1)])
qed

subsection \<open>Comparing and searching strings\<close>

text \<open>The difference at the first position where two strings differ, the end counting as NUL.\<close>

fun str_diff :: "u8 list \<Rightarrow> u8 list \<Rightarrow> u8" where
  "str_diff [] [] = 0"
| "str_diff [] (d # t) = - d"
| "str_diff (c # s) [] = c"
| "str_diff (c # s) (d # t) = (if c = d then str_diff s t else c - d)"

lemma str_diff_zero: "0 \<notin> set s \<Longrightarrow> 0 \<notin> set t \<Longrightarrow> str_diff s t = 0 \<longleftrightarrow> s = t"
  by (induction s t rule: str_diff.induct) auto

lemma strcmp_ok:
  "cstr m p s \<Longrightarrow> cstr m q t \<Longrightarrow> strcmp_lib m p q = Some (sint (str_diff s t))"
proof -
  have "cstr m p s \<Longrightarrow> cstr m q t \<Longrightarrow> strcmp_loop m p q = Some (str_diff s t)" for p q
    by (induction s t arbitrary: p q rule: str_diff.induct) (subst strcmp_loop.simps; force)+
  then show "cstr m p s \<Longrightarrow> cstr m q t \<Longrightarrow> strcmp_lib m p q = Some (sint (str_diff s t))"
    by (simp add: strcmp_lib_def)
qed

lemma strncmp_loop_ok:
  "cstr m p s \<Longrightarrow> cstr m q t \<Longrightarrow> strncmp_loop n m p q 0 = Some (str_diff (take n s) (take n t))"
  by (induction s t arbitrary: n p q rule: str_diff.induct; case_tac n) auto

lemma strncmp_ok:
  "cstr m p s \<Longrightarrow> cstr m q t \<Longrightarrow>
   strncmp_lib m p q count = Some (sint (str_diff (take (unat count) s) (take (unat count) t)))"
  by (simp add: strncmp_lib_def strncmp_loop_ok)

text \<open>Equal strings compare equal, and only they do; but the order is wrong when two bytes are more
  than 127 apart.\<close>

lemma strcmp_lib_zero:
  "cstr m p s \<Longrightarrow> cstr m q t \<Longrightarrow> strcmp_lib m p q = Some 0 \<longleftrightarrow> s = t"
  using str_diff_zero [of s t] signed_word_eqI [of "str_diff s t" 0]
  by (auto simp: strcmp_ok) (auto simp: cstr_def)

lemma strcmp_order_wrong:
  "cstr m p [0xE1] \<Longrightarrow> cstr m q [0x41] \<Longrightarrow> \<exists>r < 0. strcmp_lib m p q = Some r"
  using strcmp_ok [of m p "[0xE1]" q "[0x41]"] by (intro exI [of _ "-96"]) simp

definition ptr_at :: "u32 \<Rightarrow> nat option \<Rightarrow> u32" where
  "ptr_at p i = (case i of None \<Rightarrow> 0 | Some i \<Rightarrow> p + of_nat i)"

lemma ptr_at_Suc: "ptr_at (p + 1) i = ptr_at p (map_option Suc i)"
  by (simp add: ptr_at_def add.assoc split: option.split)

lemma strchr_ok:
  "cstr m p s \<Longrightarrow> strchr_lib m p c = Some (ptr_at p (first_idx (\<lambda>v. v = ucast c) (s @ [0])))"
proof -
  have "cstr m p s \<Longrightarrow> strchr_loop m k p = Some (ptr_at p (first_idx (\<lambda>v. v = k) (s @ [0])))" for k p
  proof (induction s arbitrary: p)
    case Nil
    then show ?case by (subst strchr_loop.simps) (simp add: ptr_at_def)
  next
    case (Cons a s)
    from Cons.IH [of "p + 1"] Cons.prems show ?case
      by (subst strchr_loop.simps) (simp add: ptr_at_Suc, simp add: ptr_at_def)
  qed
  then show "cstr m p s \<Longrightarrow> strchr_lib m p c = Some (ptr_at p (first_idx (\<lambda>v. v = ucast c) (s @ [0])))"
    by (simp add: strchr_lib_def)
qed

lemma char_in_ok: "cstr m a s \<Longrightarrow> char_in m c a = Some (c \<in> set s)"
  by (induction s arbitrary: a) (subst char_in.simps; force)+

lemma strspn_ok:
  assumes "cstr m p s" and "cstr m a acc"
  shows "strspn_lib m p a = Some (of_nat (length (takeWhile (\<lambda>c. c \<in> set acc) s)))"
proof -
  have "strspn_loop m p a k = Some (k + of_nat (length (takeWhile (\<lambda>c. c \<in> set acc) s)))" for k
    using assms(1)
  proof (induction s arbitrary: p k)
    case Nil
    then show ?case by (subst strspn_loop.simps) simp
  next
    case (Cons c s)
    from Cons.IH [of "p + 1" "k + 1"] Cons.prems show ?case
      by (subst strspn_loop.simps) (simp add: char_in_ok [OF assms(2)] add.assoc)
  qed
  then show ?thesis by (simp add: strspn_lib_def)
qed

lemma strpbrk_ok:
  assumes "cstr m p s" and "cstr m a acc"
  shows "strpbrk_lib m p a = Some (ptr_at p (first_idx (\<lambda>c. c \<in> set acc) s))"
  using assms(1)
proof (induction s arbitrary: p)
  case Nil
  then show ?case by (subst strpbrk_lib.simps) (simp add: ptr_at_def)
next
  case (Cons c s)
  from Cons.IH [of "p + 1"] Cons.prems show ?case
    by (subst strpbrk_lib.simps) (simp add: char_in_ok [OF assms(2)] ptr_at_Suc, simp add: ptr_at_def)
qed

lemma memcmp_loop_ok:
  "bytes_at m p as \<Longrightarrow> bytes_at m q bs \<Longrightarrow> length as = length bs \<Longrightarrow>
   \<exists>r. memcmp_loop (length bs) m p q 0 = Some r \<and> (r = 0 \<longleftrightarrow> as = bs)"
proof (induction as bs arbitrary: p q rule: list_induct2')
  case (4 a as b bs)
  then show ?case
    by (cases "a = b") (auto simp: word_uint_eq_iff)
qed auto

lemma memcmp_ok:
  assumes "bytes_at m p as" and "bytes_at m q bs" and "length as = unat count" and "length bs = unat count"
  shows "\<exists>r. memcmp_lib m p q count = Some r \<and> (r = 0 \<longleftrightarrow> as = bs)"
  using memcmp_loop_ok [OF assms(1,2)] assms(3,4) by (simp add: memcmp_lib_def)

text \<open>The place of the first copy of one list in another.\<close>

fun find_sub :: "u8 list \<Rightarrow> u8 list \<Rightarrow> nat option" where
  "find_sub t [] = (if t = [] then Some 0 else None)"
| "find_sub t (c # s) =
     (if take (length t) (c # s) = t then Some 0 else map_option Suc (find_sub t s))"

lemma find_sub_short: "length s < length t \<Longrightarrow> find_sub t s = None"
  by (induction s) (auto dest: arg_cong [of _ _ length])

lemma find_sub_first:
  "find_sub t s = Some i \<longleftrightarrow>
     i + length t \<le> length s \<and> take (length t) (drop i s) = t
     \<and> (\<forall>j < i. take (length t) (drop j s) \<noteq> t)"
proof (induction s arbitrary: i)
  case Nil
  then show ?case by auto
next
  case (Cons c s)
  show ?case
  proof (cases "take (length t) (c # s) = t")
    case True
    then have "length t \<le> length (c # s)" by (metis length_take min.absorb_iff2 min.commute)
    with True show ?thesis by (cases i) auto
  next
    case False
    with Cons.IH show ?thesis by (cases i) (auto simp: less_Suc_eq_0_disj)
  qed
qed

lemma strstr_loop_ok:
  assumes "cstr m q t" and "t \<noteq> []" and "length t < 2 ^ 31"
  shows "cstr m p s \<Longrightarrow>
    strstr_loop m q (int (length t)) (int (length s)) p = Some (ptr_at p (find_sub t s))"
proof (induction s arbitrary: p)
  case Nil
  with assms(2) show ?case by (subst strstr_loop.simps) (simp add: ptr_at_def)
next
  case (Cons c s)
  show ?case
  proof (cases "length t \<le> Suc (length s)")
    case True
    have n: "unat (word_of_int (int (length t)) :: u32) = length t"
      using assms(3) by (simp add: unat_of_nat)
    have "bytes_at m p (c # s)" using cstr_bytes [OF Cons.prems] by (simp add: bytes_at_append)
    then have "bytes_at m p (take (length t) (c # s) @ drop (length t) (c # s))"
      by (simp only: append_take_drop_id)
    then have a: "bytes_at m p (take (length t) (c # s))" by (simp only: bytes_at_append)
    have b: "bytes_at m q t" using cstr_bytes [OF assms(1)] by (simp add: bytes_at_append)
    obtain r where r: "memcmp_lib m p q (word_of_int (int (length t))) = Some r"
      "r = 0 \<longleftrightarrow> take (length t) (c # s) = t"
      using memcmp_ok [OF a b, of "word_of_int (int (length t))"] n True by auto
    have "strstr_loop m q (int (length t)) (int (length s)) (p + 1) = Some (ptr_at (p + 1) (find_sub t s))"
      using Cons by simp
    with r True show ?thesis
      by (subst strstr_loop.simps) (simp add: ptr_at_Suc, simp add: ptr_at_def)
  next
    case False
    with find_sub_short [of "c # s" t] show ?thesis
      by (subst strstr_loop.simps) (simp add: ptr_at_def)
  qed
qed

lemma strstr_ok:
  assumes "cstr m p s" and "cstr m q t" and "length s < 2 ^ 31" and "length t < 2 ^ 31"
  shows "strstr_lib m p q = Some (ptr_at p (find_sub t s))"
proof (cases "t = []")
  case True
  then have "find_sub t s = Some 0" by (cases s) auto
  with True strlen_ok [OF assms(2)] show ?thesis by (simp add: strstr_lib_def ptr_at_def)
next
  case False
  have "(of_nat (length t) :: u32) \<noteq> 0"
    using False assms(4) of_nat32_inj [of "length t" 0] by simp
  then show ?thesis
    using strstr_loop_ok [OF assms(2) False assms(4) assms(1)] assms(3,4)
    by (simp add: strstr_lib_def strlen_ok [OF assms(1)] strlen_ok [OF assms(2)] sint_of_nat32)
qed

lemma strrchr_skip:
  assumes "cstr m p s" and "unat p + length s < 2 ^ 32"
  shows "k \<le> length s \<Longrightarrow> i \<le> k \<Longrightarrow> (\<And>j. i < j \<Longrightarrow> j \<le> k \<Longrightarrow> (s @ [0]) ! j \<noteq> c) \<Longrightarrow>
    strrchr_loop m c p (p + of_nat k) = strrchr_loop m c p (p + of_nat i)"
proof (induction k)
  case 0
  then show ?case by simp
next
  case (Suc k)
  show ?case
  proof (cases "i = Suc k")
    case True
    then show ?thesis by simp
  next
    case False
    have v: "m (p + of_nat (Suc k)) = Some ((s @ [0]) ! Suc k)"
      using cstr_bytes [OF assms(1)] Suc.prems(1) unfolding bytes_at_def by (simp del: of_nat_Suc)
    have prev: "p + of_nat (Suc k) - 1 = p + of_nat k" by simp
    have le: "p \<le> p + of_nat k"
      using Suc.prems(1) assms(2) by (simp add: word_le_nat_alt unat_add_of_nat)
    have "(s @ [0]) ! Suc k \<noteq> c" using Suc.prems False by simp
    then have "strrchr_loop m c p (p + of_nat (Suc k)) = strrchr_loop m c p (p + of_nat k)"
      using v le by (subst strrchr_loop.simps) (simp add: prev del: of_nat_Suc)
    with Suc False show ?thesis by simp
  qed
qed

text \<open>The last occurrence, the terminator being the last character of a string.\<close>

lemma strrchr_ok:
  assumes "cstr m p s" and "unat p + length s < 2 ^ 32"
  shows "s @ [0] = as @ ucast c # bs \<Longrightarrow> ucast c \<notin> set bs \<Longrightarrow>
      strrchr_lib m p c = Some (p + of_nat (length as))"
    and "p \<noteq> 0 \<Longrightarrow> ucast c \<notin> set (s @ [0]) \<Longrightarrow> strrchr_lib m p c = Some 0"
proof -
  have start: "strrchr_lib m p c = strrchr_loop m (ucast c) p (p + of_nat (length s))"
    by (simp add: strrchr_lib_def strlen_ok [OF assms(1)])
  have here: "m (p + of_nat i) = Some ((s @ [0]) ! i)" if "i \<le> length s" for i
    using cstr_bytes [OF assms(1)] that by (simp add: bytes_at_def)
  show "strrchr_lib m p c = Some (p + of_nat (length as))"
    if e: "s @ [0] = as @ ucast c # bs" and n: "ucast c \<notin> set bs"
  proof -
    have l: "length s = length as + length bs" using arg_cong [OF e, of length] by simp
    have "(s @ [0]) ! j \<noteq> ucast c" if "length as < j" "j \<le> length s" for j
    proof -
      have "(s @ [0]) ! j = bs ! (j - Suc (length as))"
        using that unfolding e by (simp add: nth_append nth_Cons')
      moreover have "bs ! (j - Suc (length as)) \<in> set bs" using that l by (intro nth_mem) simp
      ultimately show ?thesis using n by metis
    qed
    then have "strrchr_lib m p c = strrchr_loop m (ucast c) p (p + of_nat (length as))"
      unfolding start using l by (intro strrchr_skip [OF assms]) simp_all
    also have "\<dots> = Some (p + of_nat (length as))"
      using here [of "length as"] l by (subst strrchr_loop.simps) (simp add: e)
    finally show ?thesis .
  qed
  show "strrchr_lib m p c = Some 0" if nz: "p \<noteq> 0" and n: "ucast c \<notin> set (s @ [0])"
  proof -
    have ne: "(s @ [0]) ! j \<noteq> ucast c" if "j \<le> length s" for j
      using n nth_mem [of j "s @ [0]"] that by force
    then have "strrchr_lib m p c = strrchr_loop m (ucast c) p (p + of_nat 0)"
      unfolding start by (intro strrchr_skip [OF assms]) simp_all
    moreover have "\<not> p \<le> p - 1"
      using nz by (simp add: word_le_nat_alt unat_minus_one unat_gt_0 not_le)
    ultimately show ?thesis
      using here [of 0] ne [of 0] by (simp) (subst strrchr_loop.simps, simp)
  qed
qed

lemma memchr_loop_ok:
  "bytes_at m p bs \<Longrightarrow> memchr_loop (length bs) m c p = Some (ptr_at p (first_idx (\<lambda>v. v = c) bs))"
proof (induction bs arbitrary: p)
  case (Cons b bs)
  from Cons.IH [of "p + 1"] Cons.prems show ?case
    by (simp add: ptr_at_Suc) (auto simp: ptr_at_def)
qed (simp add: ptr_at_def)

lemma memchr_ok:
  "bytes_at m p bs \<Longrightarrow> length bs = unat n \<Longrightarrow>
   memchr_lib m p c n = Some (ptr_at p (first_idx (\<lambda>v. v = ucast c) bs))"
  using memchr_loop_ok [of m p bs "ucast c"] by (simp add: memchr_lib_def)

text \<open>\<^verbatim>\<open>memscan\<close> compares the whole \<open>int\<close>, and answers the end of the area where nothing matches.\<close>

lemma memscan_loop_ok:
  "bytes_at m p bs \<Longrightarrow> memscan_loop (length bs) m c p
     = Some (p + of_nat (case first_idx (\<lambda>v. ucast v = c) bs of None \<Rightarrow> length bs | Some i \<Rightarrow> i))"
proof (induction bs arbitrary: p)
  case (Cons b bs)
  from Cons.IH [of "p + 1"] Cons.prems show ?case
    by (auto simp: add.assoc split: option.splits)
qed simp

lemma memscan_ok:
  "bytes_at m p bs \<Longrightarrow> length bs = unat n \<Longrightarrow> memscan_lib m p c n
     = Some (p + of_nat (case first_idx (\<lambda>v. ucast v = c) bs of None \<Rightarrow> length bs | Some i \<Rightarrow> i))"
  using memscan_loop_ok [of m p bs c] by (simp add: memscan_lib_def)

subsection \<open>Tokens\<close>

lemma cstr_drop: "cstr m p s \<Longrightarrow> n \<le> length s \<Longrightarrow> cstr m (p + of_nat n) (drop n s)"
proof (induction n arbitrary: p s)
  case (Suc n)
  then obtain c t where "s = c # t" by (cases s) auto
  with Suc.IH [of "p + 1" t] Suc.prems show ?case by (simp add: add.assoc)
qed simp

lemma first_idx_takeWhile:
  "first_idx P s = (if \<exists>x \<in> set s. P x then Some (length (takeWhile (\<lambda>x. \<not> P x) s)) else None)"
  by (induction s) auto

lemma dropWhile_nonempty: "dropWhile (\<lambda>x. \<not> P x) s \<noteq> [] \<longleftrightarrow> (\<exists>x \<in> set s. P x)"
  by (induction s) auto

lemma cstr_head: "cstr m p s \<Longrightarrow> m p = Some (hd (s @ [0]))"
  by (cases s) auto

lemma split_string:
  assumes "cstr m p (u @ c # v)" and "length u < 2 ^ 32"
  shows "cstr (m(p + of_nat (length u) \<mapsto> 0)) p u"
proof -
  have "bytes_at (m(p + of_nat (length u) \<mapsto> 0)) p u"
  proof (subst bytes_at_upd_other)
    fix i
    assume "i < length u"
    then show "p + of_nat (length u) \<noteq> p + of_nat i"
      using assms(2) of_nat32_inj [of "length u" i] by simp
  next
    show "bytes_at m p u" using assms(1) by (simp add: cstr_def bytes_at_append)
  qed
  then show ?thesis using assms(1) by (simp add: cstr_def bytes_at_append)
qed

text \<open>The token behind leading separators; the separator after it becomes its terminator, and the
  next call goes on behind that.\<close>

lemma strtok_ok:
  fixes s ds :: "u8 list"
  assumes "cstr m p s" and "cstr m d ds" and "p \<noteq> 0" and "unat p + length s < 2 ^ 32"
  defines "k \<equiv> length (takeWhile (\<lambda>c. c \<in> set ds) s)" and "t \<equiv> dropWhile (\<lambda>c. c \<in> set ds) s"
  defines "tok \<equiv> takeWhile (\<lambda>c. c \<notin> set ds) t" and "r \<equiv> dropWhile (\<lambda>c. c \<notin> set ds) t"
  shows "strtok_lib p d place m =
    (if t = [] then Some (0, 0, m)
     else if r = [] then Some (p + of_nat k, 0, m)
     else Some (p + of_nat k, p + of_nat k + of_nat (length tok) + 1,
            m(p + of_nat k + of_nat (length tok) \<mapsto> 0)))"
    and "r \<noteq> [] \<Longrightarrow> cstr (m(p + of_nat k + of_nat (length tok) \<mapsto> 0)) (p + of_nat k) tok"
proof -
  have k: "k \<le> length s" and t: "t = drop k s"
    by (simp_all add: k_def t_def length_takeWhile_le dropWhile_eq_drop)
  have ct: "cstr m (p + of_nat k) t" using cstr_drop [OF assms(1) k] by (simp add: t)
  have tr: "t = tok @ r" by (simp add: tok_def r_def)
  have len: "k + length t = length s" using k by (simp add: t)
  have span: "strspn_lib m p d = Some (of_nat k)" using strspn_ok [OF assms(1,2)] by (simp add: k_def)
  have brk: "strpbrk_lib m (p + of_nat k) d
      = Some (if r = [] then 0 else p + of_nat k + of_nat (length tok))"
    using strpbrk_ok [OF ct assms(2)] dropWhile_nonempty [of "\<lambda>c. c \<in> set ds" t]
    by (simp add: first_idx_takeWhile ptr_at_def tok_def r_def)
  have mr: "m (p + of_nat k + of_nat (length tok)) = Some (hd (r @ [0]))"
    using cstr_head [OF cstr_drop [OF ct, of "length tok"]] by (simp add: tr)
  have nz: "r \<noteq> [] \<Longrightarrow> hd r \<noteq> 0" using ct by (cases r) (auto simp: cstr_def tr)
  have "unat (p + of_nat k + of_nat (length tok)) = unat p + k + length tok"
    using len assms(4) tr unat_add_of_nat [of p "k + length tok"] by (simp add: add.assoc)
  then have pnz: "p + of_nat k + of_nat (length tok) \<noteq> 0" using assms(3) by auto
  have ht: "m (p + of_nat k) = Some (hd (t @ [0]))" using ct by (rule cstr_head)
  have htz: "t \<noteq> [] \<Longrightarrow> hd t \<noteq> 0" using ct by (cases t) (auto simp: cstr_def)
  show "strtok_lib p d place m =
    (if t = [] then Some (0, 0, m)
     else if r = [] then Some (p + of_nat k, 0, m)
     else Some (p + of_nat k, p + of_nat k + of_nat (length tok) + 1,
            m(p + of_nat k + of_nat (length tok) \<mapsto> 0)))"
    using assms(3) ht htz mr nz pnz
    by (simp add: strtok_lib_def Let_def span brk stb_room)
  show "cstr (m(p + of_nat k + of_nat (length tok) \<mapsto> 0)) (p + of_nat k) tok" if "r \<noteq> []"
    using split_string [of m "p + of_nat k" tok "hd r" "tl r"] ct that tr len assms(4) by simp
qed

lemma strsep_ok:
  fixes s ds :: "u8 list"
  assumes "cstr m p s" and "cstr m d ds" and "p \<noteq> 0" and "unat p + length s < 2 ^ 32"
  defines "tok \<equiv> takeWhile (\<lambda>c. c \<notin> set ds) s"
  shows "strsep_lib p d m =
    (if \<exists>c \<in> set s. c \<in> set ds
     then Some (p, p + of_nat (length tok) + 1, m(p + of_nat (length tok) \<mapsto> 0))
     else Some (p, 0, m))"
proof -
  have le: "length tok \<le> length s" by (simp add: tok_def length_takeWhile_le)
  have "unat (p + of_nat (length tok)) = unat p + length tok"
    using le assms(4) by (intro unat_add_of_nat) simp
  then have "p + of_nat (length tok) \<noteq> 0" using assms(3) by auto
  moreover have "m (p + of_nat (length tok)) \<noteq> None"
    using cstr_head [OF cstr_drop [OF assms(1) le]] by simp
  ultimately show ?thesis
    using strpbrk_ok [OF assms(1,2)] assms(3)
    by (simp add: strsep_lib_def first_idx_takeWhile ptr_at_def tok_def stb_room)
qed

end
