(* ===== verification/Cfmt.thy ===== *)
theory Cfmt
  imports Cmem Interfaces
begin

text \<open>
  Formatted output and input of the SPI image: \<^verbatim>\<open>lib/vsprintf.c\<close> and \<^verbatim>\<open>lib/printf.c\<close>.  Formats and
  scanned texts are constants of the program, so a pointer into one is the list of the bytes that
  are left; the output buffer and the strings that an argument points to are in the store.  The
  variable arguments are the words of the argument area.  Signed \<open>int\<close>s are \<open>int\<close>.
\<close>

type_synonym u64 = "64 word"

abbreviation ch :: "char \<Rightarrow> u8" where
  "ch c \<equiv> of_char c"

definition text_bytes :: "string \<Rightarrow> u8 list" where
  "text_bytes s = map of_char s"

definition cur8 :: "u8 list \<Rightarrow> u8" where
  "cur8 s = (case s of [] \<Rightarrow> 0 | c # _ \<Rightarrow> c)"

lemma cur8_simps [simp]: "cur8 [] = 0" "cur8 (c # s) = c"
  by (simp_all add: cur8_def)

subsection \<open>Numbers from text\<close>

definition digit_value_lib :: "u8 \<Rightarrow> u32" where
  "digit_value_lib c =
     (if isdigit_lib c then ucast c - ucast (ch CHR ''0'')
      else ucast (toupper_lib c) - ucast (ch CHR ''A'') + 10)"

fun strtoul_loop_lib :: "u32 \<Rightarrow> u8 list \<Rightarrow> u32 \<Rightarrow> u32 \<times> u8 list" where
  "strtoul_loop_lib base [] result = (result, [])"
| "strtoul_loop_lib base (c # cp) result =
     (if isxdigit_lib c \<and> digit_value_lib c < base
      then strtoul_loop_lib base cp (result * base + digit_value_lib c)
      else (result, c # cp))"

text \<open>The choice of the base and the prefix that is skipped.\<close>

definition strto_base :: "u8 list \<Rightarrow> u32 \<Rightarrow> u32 \<times> u8 list" where
  "strto_base cp base =
     (if base = 0 then
        (if cur8 cp = ch CHR ''0'' then
           (if toupper_lib (cur8 (tl cp)) = ch CHR ''X'' \<and> isxdigit_lib (cur8 (tl (tl cp)))
            then (16, tl (tl cp)) else (8, tl cp))
         else (10, cp))
      else if base = 16 \<and> cur8 cp = ch CHR ''0'' \<and> toupper_lib (cur8 (tl cp)) = ch CHR ''X''
        then (base, tl (tl cp))
      else (base, cp))"

definition simple_strtoul_lib :: "u8 list \<Rightarrow> u32 \<Rightarrow> u32 \<times> u8 list" where
  "simple_strtoul_lib cp base = (let (base, cp) = strto_base cp base in strtoul_loop_lib base cp 0)"

definition simple_strtol_lib :: "u8 list \<Rightarrow> u32 \<Rightarrow> u32 \<times> u8 list" where
  "simple_strtol_lib cp base =
     (if cur8 cp = ch CHR ''-''
      then (let (v, r) = simple_strtoul_lib (tl cp) base in (- v, r))
      else simple_strtoul_lib cp base)"

definition digit_value64_lib :: "u8 \<Rightarrow> u64" where
  "digit_value64_lib c =
     (if isdigit_lib c then ucast c - ucast (ch CHR ''0'')
      else (if islower_lib c then ucast (toupper_lib c) else ucast c) - ucast (ch CHR ''A'') + 10)"

fun strtoull_loop_lib :: "u32 \<Rightarrow> u8 list \<Rightarrow> u64 \<Rightarrow> u64 \<times> u8 list" where
  "strtoull_loop_lib base [] result = (result, [])"
| "strtoull_loop_lib base (c # cp) result =
     (if isxdigit_lib c \<and> digit_value64_lib c < ucast base
      then strtoull_loop_lib base cp (result * ucast base + digit_value64_lib c)
      else (result, c # cp))"

definition simple_strtoull_lib :: "u8 list \<Rightarrow> u32 \<Rightarrow> u64 \<times> u8 list" where
  "simple_strtoull_lib cp base = (let (base, cp) = strto_base cp base in strtoull_loop_lib base cp 0)"

definition simple_strtoll_lib :: "u8 list \<Rightarrow> u32 \<Rightarrow> u64 \<times> u8 list" where
  "simple_strtoll_lib cp base =
     (if cur8 cp = ch CHR ''-''
      then (let (v, r) = simple_strtoull_lib (tl cp) base in (- v, r))
      else simple_strtoull_lib cp base)"

fun skip_atoi :: "u8 list \<Rightarrow> int \<Rightarrow> int \<times> u8 list" where
  "skip_atoi [] i = (i, [])"
| "skip_atoi (c # s) i =
     (if isdigit_lib c then skip_atoi s (i * 10 + uint c - uint (ch CHR ''0'')) else (i, c # s))"

subsection \<open>Text from numbers\<close>

abbreviation ZEROPAD :: u32 where "ZEROPAD \<equiv> 1"
abbreviation SIGN :: u32 where "SIGN \<equiv> 2"
abbreviation PLUS :: u32 where "PLUS \<equiv> 4"
abbreviation SPACE :: u32 where "SPACE \<equiv> 8"
abbreviation LEFT :: u32 where "LEFT \<equiv> 16"
abbreviation SPECIAL :: u32 where "SPECIAL \<equiv> 32"
abbreviation LARGE :: u32 where "LARGE \<equiv> 64"

text \<open>The place of the next byte and the store: \<^verbatim>\<open>if (str <= end) *str = c; ++str;\<close>.\<close>

type_synonym out = "u32 \<times> mem"

definition emit :: "u32 \<Rightarrow> u8 \<Rightarrow> out \<Rightarrow> out option" where
  "emit e c pm =
     (if fst pm \<le> e then do { m \<leftarrow> stb (fst pm) c (snd pm); Some (fst pm + 1, m) }
      else Some (fst pm + 1, snd pm))"

fun emits :: "u32 \<Rightarrow> u8 list \<Rightarrow> out \<Rightarrow> out option" where
  "emits e [] pm = Some pm"
| "emits e (c # cs) pm = do { pm \<leftarrow> emit e c pm; emits e cs pm }"

definition emit_n :: "u32 \<Rightarrow> int \<Rightarrow> u8 \<Rightarrow> out \<Rightarrow> out option" where
  "emit_n e n c pm = emits e (replicate (nat n) c) pm"

definition digit_char :: "u32 \<Rightarrow> nat \<Rightarrow> u8" where
  "digit_char type d =
     (if d < 10 then ch CHR ''0'' + of_nat d
      else (if type AND LARGE \<noteq> 0 then ch CHR ''A'' else ch CHR ''a'') + of_nat (d - 10))"

text \<open>The digits of a number, the lowest first, as \<^verbatim>\<open>tmp\<close> holds them.  The division is the assembly
  routine behind \<^verbatim>\<open>do_div\<close>, by the semantics that \<^verbatim>\<open>div64.h\<close> gives it.\<close>

function low_digits :: "u32 \<Rightarrow> nat \<Rightarrow> nat \<Rightarrow> u8 list" where
  "low_digits type base n =
     (if n = 0 \<or> base < 2 then [] else digit_char type (n mod base) # low_digits type base (n div base))"
  by pat_completeness auto
termination by (relation "measure (\<lambda>(_, _, n). n)") auto

declare low_digits.simps [simp del]

definition tmp_digits :: "u32 \<Rightarrow> nat \<Rightarrow> nat \<Rightarrow> u8 list" where
  "tmp_digits type base n = (if n = 0 then [ch CHR ''0''] else low_digits type base n)"

text \<open>The sign character (0 for none), the absolute value and the rest of the width.\<close>

definition number_sign :: "u64 \<Rightarrow> int \<Rightarrow> u32 \<Rightarrow> u8 \<times> u64 \<times> int" where
  "number_sign num size' type =
     (if type AND SIGN \<noteq> 0 then
        (if sint num < 0 then (ch CHR ''-'', - num, size' - 1)
         else if type AND PLUS \<noteq> 0 then (ch CHR ''+'', num, size' - 1)
         else if type AND SPACE \<noteq> 0 then (ch CHR '' '', num, size' - 1)
         else (0, num, size'))
      else (0, num, size'))"

definition special_prefix :: "u32 \<Rightarrow> nat \<Rightarrow> u8 list" where
  "special_prefix type base =
     (if type AND SPECIAL \<noteq> 0 then
        (if base = 8 then [ch CHR ''0'']
         else if base = 16 then [ch CHR ''0'', digit_char type 33] else [])
      else [])"

text \<open>A loop \<^verbatim>\<open>while (size-- > 0)\<close> leaves this in its counter.\<close>

definition counted_out :: "int \<Rightarrow> int" where
  "counted_out n = min (n - 1) (-1)"

definition number_lib :: "u32 \<Rightarrow> u64 \<Rightarrow> nat \<Rightarrow> int \<Rightarrow> int \<Rightarrow> u32 \<Rightarrow> out \<Rightarrow> out option" where
  "number_lib e num base size' precision type pm =
     (let type = (if type AND LEFT \<noteq> 0 then type AND NOT ZEROPAD else type)
      in if base < 2 \<or> 36 < base then Some (0, snd pm)
      else let c = (if type AND ZEROPAD \<noteq> 0 then ch CHR ''0'' else ch CHR '' '');
          (sign, num, size') = number_sign num size' type;
          size' = (if type AND SPECIAL \<noteq> 0
                   then (if base = 16 then size' - 2 else if base = 8 then size' - 1 else size')
                   else size');
          tmp = tmp_digits type base (unat num);
          i = int (length tmp);
          precision = (if i > precision then i else precision);
          size' = size' - precision
      in do {
        (pm, size') \<leftarrow>
          (if type AND (ZEROPAD + LEFT) = 0
           then do { pm \<leftarrow> emit_n e size' (ch CHR '' '') pm; Some (pm, counted_out size') }
           else Some (pm, size'));
        pm \<leftarrow> (if sign \<noteq> 0 then emit e sign pm else Some pm);
        pm \<leftarrow> emits e (special_prefix type base) pm;
        (pm, size') \<leftarrow>
          (if type AND LEFT = 0
           then do { pm \<leftarrow> emit_n e size' c pm; Some (pm, counted_out size') }
           else Some (pm, size'));
        pm \<leftarrow> emit_n e (precision - i) (ch CHR ''0'') pm;
        pm \<leftarrow> emits e (rev tmp) pm;
        emit_n e size' (ch CHR '' '') pm
      })"

subsection \<open>Formatted output\<close>

fun fmt_flags :: "u8 list \<Rightarrow> u32 \<Rightarrow> u32 \<times> u8 list" where
  "fmt_flags [] flags = (flags, [])"
| "fmt_flags (c # f) flags =
     (if c = ch CHR ''-'' then fmt_flags f (flags OR LEFT)
      else if c = ch CHR ''+'' then fmt_flags f (flags OR PLUS)
      else if c = ch CHR '' '' then fmt_flags f (flags OR SPACE)
      else if c = ch CHR ''#'' then fmt_flags f (flags OR SPECIAL)
      else if c = ch CHR ''0'' then fmt_flags f (flags OR ZEROPAD)
      else (flags, c # f))"

fun va_word :: "u32 list \<Rightarrow> (u32 \<times> u32 list) option" where
  "va_word [] = None"
| "va_word (w # ws) = Some (w, ws)"

fun va_long :: "u32 list \<Rightarrow> (u64 \<times> u32 list) option" where
  "va_long (lo # hi # ws) = Some (ucast lo OR push_bit 32 (ucast hi), ws)"
| "va_long _ = None"

definition fmt_width :: "u8 list \<Rightarrow> u32 list \<Rightarrow> u32 \<Rightarrow> (int \<times> u8 list \<times> u32 list \<times> u32) option" where
  "fmt_width f args flags =
     (if isdigit_lib (cur8 f) then (let (w, f) = skip_atoi f 0 in Some (w, f, args, flags))
      else if cur8 f = ch CHR ''*'' then do {
        (w, args) \<leftarrow> va_word args;
        if sint w < 0 then Some (- sint w, tl f, args, flags OR LEFT)
        else Some (sint w, tl f, args, flags)
      } else Some (-1, f, args, flags))"

definition fmt_precision :: "u8 list \<Rightarrow> u32 list \<Rightarrow> (int \<times> u8 list \<times> u32 list) option" where
  "fmt_precision f args =
     (if cur8 f = ch CHR ''.'' then
        (if isdigit_lib (cur8 (tl f)) then
           (let (p, f) = skip_atoi (tl f) 0 in Some (if p < 0 then 0 else p, f, args))
         else if cur8 (tl f) = ch CHR ''*'' then do {
           (w, args) \<leftarrow> va_word args;
           Some (if sint w < 0 then 0 else sint w, tl (tl f), args)
         } else Some (0, tl f, args))
      else Some (-1, f, args))"

text \<open>The qualifier, 0 for none.\<close>

definition fmt_qualifier :: "u8 list \<Rightarrow> u8 \<times> u8 list" where
  "fmt_qualifier f =
     (let q = cur8 f
      in if q = ch CHR ''h'' \<or> q = ch CHR ''l'' \<or> q = ch CHR ''L'' \<or> q = ch CHR ''Z'' \<or> q = ch CHR ''z'' then
           (if q = ch CHR ''l'' \<and> cur8 (tl f) = ch CHR ''l'' then (ch CHR ''L'', tl (tl f)) else (q, tl f))
         else (0, f))"

definition out_char :: "u32 \<Rightarrow> int \<Rightarrow> u32 \<Rightarrow> u32 \<Rightarrow> out \<Rightarrow> out option" where
  "out_char e field_width flags w pm = do {
     (pm, field_width) \<leftarrow>
       (if flags AND LEFT = 0
        then do { pm \<leftarrow> emit_n e (field_width - 1) (ch CHR '' '') pm; Some (pm, min (field_width - 1) 0) }
        else Some (pm, field_width));
     pm \<leftarrow> emit e (ucast w) pm;
     emit_n e (field_width - 1) (ch CHR '' '') pm
   }"

text \<open>The loop that copies the string argument, byte by byte.\<close>

primrec out_copy :: "u32 \<Rightarrow> nat \<Rightarrow> u32 \<Rightarrow> out \<Rightarrow> out option" where
  "out_copy e 0 s pm = Some pm"
| "out_copy e (Suc n) s pm = do { v \<leftarrow> snd pm s; pm \<leftarrow> emit e v pm; out_copy e n (s + 1) pm }"

definition null_text :: "u8 list" where
  "null_text = text_bytes ''<NULL>''"

definition out_str :: "u32 \<Rightarrow> int \<Rightarrow> int \<Rightarrow> u32 \<Rightarrow> u32 \<Rightarrow> out \<Rightarrow> out option" where
  "out_str e field_width precision flags s pm = do {
     len \<leftarrow> (if s < 1024 then Some (of_nat (min (unat (word_of_int precision :: u32)) (length null_text)))
            else strnlen_lib (snd pm) s (word_of_int precision));
     let len = sint len;
     (pm, field_width) \<leftarrow>
       (if flags AND LEFT = 0
        then do { pm \<leftarrow> emit_n e (field_width - len) (ch CHR '' '') pm; Some (pm, min field_width len - 1) }
        else Some (pm, field_width));
     pm \<leftarrow> (if s < 1024 then emits e (take (nat len) null_text) pm else out_copy e (nat len) s pm);
     emit_n e (field_width - len) (ch CHR '' '') pm
   }"

definition store_word :: "u32 \<Rightarrow> u32 \<Rightarrow> mem \<Rightarrow> mem option" where
  "store_word p v m = do {
     m \<leftarrow> stb p (ucast v) m;
     m \<leftarrow> stb (p + 1) (ucast (drop_bit 8 v)) m;
     m \<leftarrow> stb (p + 2) (ucast (drop_bit 16 v)) m;
     stb (p + 3) (ucast (drop_bit 24 v)) m
   }"

definition int_arg :: "u8 \<Rightarrow> u32 \<Rightarrow> u32 list \<Rightarrow> (u64 \<times> u32 list) option" where
  "int_arg qualifier flags args =
     (if qualifier = ch CHR ''L'' then va_long args
      else do {
        (w, args) \<leftarrow> va_word args;
        let num =
          (if qualifier = ch CHR ''l'' then (if flags AND SIGN \<noteq> 0 then scast w else ucast w)
           else if qualifier = ch CHR ''Z'' \<or> qualifier = ch CHR ''z'' then ucast w
           else if qualifier = ch CHR ''h'' then
             (if flags AND SIGN \<noteq> 0 then scast (ucast w :: u16) else ucast (ucast w :: u16))
           else (if flags AND SIGN \<noteq> 0 then scast w else ucast w));
        Some (num, args)
      })"

text \<open>The base and the flags that a conversion letter adds; \<open>None\<close> for a letter that is not an
  integer conversion.\<close>

definition int_conv :: "u8 \<Rightarrow> (nat \<times> u32) option" where
  "int_conv c =
     (if c = ch CHR ''o'' then Some (8, 0)
      else if c = ch CHR ''X'' then Some (16, LARGE)
      else if c = ch CHR ''x'' then Some (16, 0)
      else if c = ch CHR ''d'' \<or> c = ch CHR ''i'' then Some (10, SIGN)
      else if c = ch CHR ''u'' then Some (10, 0)
      else None)"

text \<open>The \<^verbatim>\<open>switch\<close>: the conversion at the head of the format, with its flags, width, precision and
  qualifier.  The result is the rest of the format, the rest of the arguments and the output.\<close>

definition convert ::
  "u32 \<Rightarrow> u32 \<Rightarrow> u32 \<Rightarrow> int \<Rightarrow> int \<Rightarrow> u8 \<Rightarrow> u8 list \<Rightarrow> u32 list \<Rightarrow> out
   \<Rightarrow> (u8 list \<times> u32 list \<times> out) option" where
  "convert e buf flags field_width precision qualifier f args pm =
     (let c = cur8 f
      in if c = ch CHR ''c'' then do {
           (w, args) \<leftarrow> va_word args;
           pm \<leftarrow> out_char e field_width flags w pm;
           Some (tl f, args, pm)
         }
         else if c = ch CHR ''s'' then do {
           (s, args) \<leftarrow> va_word args;
           pm \<leftarrow> out_str e field_width precision flags s pm;
           Some (tl f, args, pm)
         }
         else if c = ch CHR ''p'' then do {
           (w, args) \<leftarrow> va_word args;
           pm \<leftarrow> (if field_width = -1 then number_lib e (ucast w) 16 8 precision (flags OR ZEROPAD) pm
                  else number_lib e (ucast w) 16 field_width precision flags pm);
           Some (tl f, args, pm)
         }
         else if c = ch CHR ''n'' then do {
           (ip, args) \<leftarrow> va_word args;
           m \<leftarrow> store_word ip (fst pm - buf) (snd pm);
           Some (tl f, args, fst pm, m)
         }
         else if c = ch CHR ''%'' then do {
           pm \<leftarrow> emit e (ch CHR ''%'') pm;
           Some (tl f, args, pm)
         }
         else (case int_conv c of
            None \<Rightarrow> do {
              pm \<leftarrow> emit e (ch CHR ''%'') pm;
              if c \<noteq> 0 then do { pm \<leftarrow> emit e c pm; Some (tl f, args, pm) }
              else Some (f, args, pm)
            }
          | Some (base, fl) \<Rightarrow> do {
              (num, args) \<leftarrow> int_arg qualifier (flags OR fl) args;
              pm \<leftarrow> number_lib e num base field_width precision (flags OR fl) pm;
              Some (tl f, args, pm)
            }))"

definition directive ::
  "u32 \<Rightarrow> u32 \<Rightarrow> u8 list \<Rightarrow> u32 list \<Rightarrow> out \<Rightarrow> (u8 list \<times> u32 list \<times> out) option" where
  "directive e buf f args pm = do {
     let (flags, f) = fmt_flags f 0;
     (field_width, f, args, flags) \<leftarrow> fmt_width f args flags;
     (precision, f, args) \<leftarrow> fmt_precision f args;
     let (qualifier, f) = fmt_qualifier f;
     convert e buf flags field_width precision qualifier f args pm
   }"

text \<open>No step lengthens the format that is left, so the loop over it ends.\<close>

lemma skip_atoi_shorter: "skip_atoi s i = (v, r) \<Longrightarrow> length r \<le> length s"
  by (induction s i rule: skip_atoi.induct) (auto split: if_splits)

lemma fmt_flags_shorter: "fmt_flags f fl = (v, r) \<Longrightarrow> length r \<le> length f"
  by (induction f fl rule: fmt_flags.induct) (auto split: if_splits)

lemma fmt_width_shorter: "fmt_width f args fl = Some (w, r, a, fl') \<Longrightarrow> length r \<le> length f"
  by (auto simp: fmt_width_def dest: skip_atoi_shorter split: if_splits prod.splits)

lemma fmt_precision_shorter: "fmt_precision f args = Some (p, r, a) \<Longrightarrow> length r \<le> length f"
  by (auto simp: fmt_precision_def dest: skip_atoi_shorter split: if_splits prod.splits)

lemma fmt_qualifier_shorter: "fmt_qualifier f = (q, r) \<Longrightarrow> length r \<le> length f"
  by (auto simp: fmt_qualifier_def Let_def split: if_splits)

lemma convert_shorter: "convert e b fl w p q f a pm = Some (r, a', pm') \<Longrightarrow> length r \<le> length f"
  by (auto simp: convert_def Let_def split: if_splits option.splits)

lemma directive_shorter:
  assumes "directive e b f a pm = Some (r, a', pm')"
  shows "length r \<le> length f"
proof -
  obtain fl f1 where f1: "fmt_flags f 0 = (fl, f1)" by fastforce
  with assms obtain w f2 a2 fl2 where f2: "fmt_width f1 a fl = Some (w, f2, a2, fl2)"
    by (auto simp: directive_def)
  with assms f1 obtain p f3 a3 where f3: "fmt_precision f2 a2 = Some (p, f3, a3)"
    by (auto simp: directive_def)
  obtain q f4 where f4: "fmt_qualifier f3 = (q, f4)" by fastforce
  have "convert e b fl2 w p q f4 a3 pm = Some (r, a', pm')"
    using assms f1 f2 f3 f4 by (simp add: directive_def)
  from convert_shorter [OF this] fmt_flags_shorter [OF f1] fmt_width_shorter [OF f2]
    fmt_precision_shorter [OF f3] fmt_qualifier_shorter [OF f4]
  show ?thesis by simp
qed

function vsn_loop :: "u32 \<Rightarrow> u32 \<Rightarrow> u8 list \<Rightarrow> u32 list \<Rightarrow> out \<Rightarrow> out option" where
  "vsn_loop e buf [] args pm = Some pm"
| "vsn_loop e buf (c # f) args pm =
     (if c \<noteq> ch CHR ''%'' then
        (case emit e c pm of None \<Rightarrow> None | Some pm \<Rightarrow> vsn_loop e buf f args pm)
      else
        (case directive e buf f args pm of
           None \<Rightarrow> None
         | Some (f, args, pm) \<Rightarrow> vsn_loop e buf f args pm))"
  by pat_completeness auto
termination
  by (relation "measure (\<lambda>(_, _, f, _, _). length f)") (auto dest: directive_shorter)

definition vsnprintf_lib :: "u32 \<Rightarrow> u32 \<Rightarrow> u8 list \<Rightarrow> u32 list \<Rightarrow> mem \<Rightarrow> (u32 \<times> mem) option" where
  "vsnprintf_lib buf n fmt args m =
     (if sint n < 0 then Some (0, m)
      else let e = buf + n - 1;
             (e, n) = (if e < buf - 1 then (- 1, - 1 - buf + 1) else (e, n))
        in do {
          (str, m) \<leftarrow> vsn_loop e buf fmt args (buf, m);
          m \<leftarrow> (if str \<le> e then stb str 0 m else if 0 < n then stb e 0 m else Some m);
          Some (str - buf, m)
        })"

definition vscnprintf_lib :: "u32 \<Rightarrow> u32 \<Rightarrow> u8 list \<Rightarrow> u32 list \<Rightarrow> mem \<Rightarrow> (u32 \<times> mem) option" where
  "vscnprintf_lib buf n fmt args m = do {
     (i, m) \<leftarrow> vsnprintf_lib buf n fmt args m;
     Some (if n \<le> i then n - 1 else i, m)
   }"

definition vsprintf_lib :: "u32 \<Rightarrow> u8 list \<Rightarrow> u32 list \<Rightarrow> mem \<Rightarrow> (u32 \<times> mem) option" where
  "vsprintf_lib buf fmt args m = vsnprintf_lib buf 0x7FFFFFFF fmt args m"

text \<open>\<^verbatim>\<open>sprintf\<close>, \<^verbatim>\<open>snprintf\<close> and \<^verbatim>\<open>scnprintf\<close> collect their arguments and call the functions above.\<close>

definition sprintf_lib :: "u32 \<Rightarrow> u8 list \<Rightarrow> u32 list \<Rightarrow> mem \<Rightarrow> (u32 \<times> mem) option" where
  "sprintf_lib buf fmt args m = vsprintf_lib buf fmt args m"

definition snprintf_lib :: "u32 \<Rightarrow> u32 \<Rightarrow> u8 list \<Rightarrow> u32 list \<Rightarrow> mem \<Rightarrow> (u32 \<times> mem) option" where
  "snprintf_lib buf n fmt args m = vsnprintf_lib buf n fmt args m"

definition scnprintf_lib :: "u32 \<Rightarrow> u32 \<Rightarrow> u8 list \<Rightarrow> u32 list \<Rightarrow> mem \<Rightarrow> (u32 \<times> mem) option" where
  "scnprintf_lib buf n fmt args m = do {
     (i, m) \<leftarrow> vsnprintf_lib buf n fmt args m;
     Some (if n \<le> i then n - 1 else i, m)
   }"

text \<open>\<^verbatim>\<open>printf\<close> formats into \<^verbatim>\<open>g_pcOutBuf\<close> and sends the string there; the length is taken again in
  every round.\<close>

partial_function (option) send_buf ::
  "(u32 \<Rightarrow> hist \<Rightarrow> hist option) \<Rightarrow> u32 \<Rightarrow> mem \<Rightarrow> u32 \<Rightarrow> hist \<Rightarrow> hist option" where
  "send_buf putc buf m i h = do {
     n \<leftarrow> strlen_lib m buf;
     if i < n then do {
       c \<leftarrow> m (buf + i);
       h \<leftarrow> putc (ucast c) h;
       send_buf putc buf m (i + 1) h
     } else Some h
   }"

definition printf_lib ::
  "(u32 \<Rightarrow> hist \<Rightarrow> hist option) \<Rightarrow> u32 \<Rightarrow> u8 list \<Rightarrow> u32 list \<Rightarrow> mem \<times> hist
   \<Rightarrow> (u32 \<times> mem \<times> hist) option" where
  "printf_lib putc outbuf fmt args mh = do {
     (len, m) \<leftarrow> vsprintf_lib outbuf fmt args (fst mh);
     h \<leftarrow> send_buf putc outbuf m 0 (snd mh);
     Some (len, m, h)
   }"

subsection \<open>Formatted input\<close>

text \<open>What is stored through the pointer arguments, in order.\<close>

datatype scanned =
    Chars "u8 list"
  | Text "u8 list"
  | Count u32
  | Num8 u8
  | Num16 u16
  | Num32 u32
  | Num64 u64

definition scan_qualifier :: "u8 list \<Rightarrow> u8 \<times> u8 list" where
  "scan_qualifier f =
     (let q = cur8 f
      in if q = ch CHR ''h'' \<or> q = ch CHR ''l'' \<or> q = ch CHR ''L'' \<or> q = ch CHR ''Z'' \<or> q = ch CHR ''z'' then
           (if q = cur8 (tl f) \<and> q = ch CHR ''h'' then (ch CHR ''H'', tl (tl f))
            else if q = cur8 (tl f) \<and> q = ch CHR ''l'' then (ch CHR ''L'', tl (tl f))
            else (q, tl f))
         else (0, f))"

text \<open>The base and the sign of an integer conversion.\<close>

definition scan_base :: "u8 \<Rightarrow> (u32 \<times> bool) option" where
  "scan_base c =
     (if c = ch CHR ''o'' then Some (8, False)
      else if c = ch CHR ''x'' \<or> c = ch CHR ''X'' then Some (16, False)
      else if c = ch CHR ''i'' then Some (0, True)
      else if c = ch CHR ''d'' then Some (10, True)
      else if c = ch CHR ''u'' then Some (10, False)
      else None)"

definition scan_starts :: "u32 \<Rightarrow> bool \<Rightarrow> u8 list \<Rightarrow> bool" where
  "scan_starts base is_sign str =
     (let digit = cur8 str;
          digit = (if is_sign \<and> digit = ch CHR ''-'' then cur8 (tl str) else digit)
      in \<not> (digit = 0
           \<or> (base = 16 \<and> \<not> isxdigit_lib digit)
           \<or> (base = 10 \<and> \<not> isdigit_lib digit)
           \<or> (base = 8 \<and> (\<not> isdigit_lib digit \<or> ch CHR ''7'' < digit))
           \<or> (base = 0 \<and> \<not> isdigit_lib digit)))"

definition scan_value :: "u8 \<Rightarrow> u32 \<Rightarrow> bool \<Rightarrow> u8 list \<Rightarrow> scanned \<times> u8 list" where
  "scan_value qualifier base is_sign str =
     (if qualifier = ch CHR ''L'' then
        (let (v, r) = (if is_sign then simple_strtoll_lib str base else simple_strtoull_lib str base)
         in (Num64 v, r))
      else
        let (v, r) = (if is_sign \<and> qualifier \<noteq> ch CHR ''Z'' \<and> qualifier \<noteq> ch CHR ''z''
                      then simple_strtol_lib str base else simple_strtoul_lib str base)
        in (if qualifier = ch CHR ''H'' then Num8 (ucast v)
            else if qualifier = ch CHR ''h'' then Num16 (ucast v)
            else Num32 v, r))"

text \<open>One conversion, behind its \<^verbatim>\<open>%\<close>: the rest of the format, the rest of the input, what is stored, and
  how much the count grows; \<open>None\<close> ends the scan.  A pointer difference counts from the start of an
  input of length \<open>n\<close>.\<close>

definition scan_conv_lib ::
  "nat \<Rightarrow> int \<Rightarrow> u8 \<Rightarrow> u8 list \<Rightarrow> u8 list \<Rightarrow> (u8 list \<times> u8 list \<times> scanned list \<times> int) option" where
  "scan_conv_lib n field_width qualifier f str =
     (let c = cur8 f; f = tl f
      in if c = ch CHR ''c'' then
           (let k = nat (max 1 (if field_width = -1 then 1 else field_width))
            in Some (f, drop k str, [Chars (take k str)], 1))
         else if c = ch CHR ''s'' then
           (let str = dropWhile isspace_lib str;
                w = take (nat (if field_width = -1 then 2147483647 else field_width))
                      (takeWhile (\<lambda>v. \<not> isspace_lib v) str)
            in Some (f, drop (length w) str, [Text w], 1))
         else if c = ch CHR ''n'' then Some (f, str, [Count (of_nat (n - length str))], 0)
         else if c = ch CHR ''%'' then (if cur8 str \<noteq> ch CHR ''%'' then None else Some (f, tl str, [], 0))
         else (case scan_base c of
            None \<Rightarrow> None
          | Some (base, is_sign) \<Rightarrow>
              (let str = dropWhile isspace_lib str
               in if \<not> scan_starts base is_sign str then None
                  else (let (v, r) = scan_value qualifier base is_sign str in Some (f, r, [v], 1)))))"

definition scan_step ::
  "nat \<Rightarrow> u8 list \<Rightarrow> u8 list \<Rightarrow> (u8 list \<times> u8 list \<times> scanned list \<times> int) option" where
  "scan_step n fmt str =
     (let sp = isspace_lib (cur8 fmt);
          f = (if sp then dropWhile isspace_lib fmt else fmt);
          str = (if sp then dropWhile isspace_lib str else str)
      in if f = [] then None
         else if hd f \<noteq> ch CHR ''%'' then
           (if hd f \<noteq> cur8 str then None else Some (tl f, tl str, [], 0))
         else let f = tl f
           in if cur8 f = ch CHR ''*'' then
                Some (dropWhile (\<lambda>c. \<not> isspace_lib c) f, dropWhile (\<lambda>c. \<not> isspace_lib c) str, [], 0)
              else let (field_width, f) = (if isdigit_lib (cur8 f) then skip_atoi f 0 else (-1, f));
                       (qualifier, f) = scan_qualifier f
                in if f = [] \<or> str = [] then None else scan_conv_lib n field_width qualifier f str)"

lemma scan_conv_lib_shorter:
  "scan_conv_lib n w q f str = Some (r, str', vs, k) \<Longrightarrow> f \<noteq> [] \<Longrightarrow> length r < length f"
  by (auto simp: scan_conv_lib_def Let_def split: if_splits option.splits prod.splits)

lemma scan_qualifier_shorter: "scan_qualifier f = (q, r) \<Longrightarrow> length r \<le> length f"
  by (auto simp: scan_qualifier_def Let_def split: if_splits)

lemma scan_step_shorter:
  assumes "scan_step n fmt str = Some (r, str', vs, k)"
  shows "length r < length fmt"
proof -
  define f where "f = (if isspace_lib (cur8 fmt) then dropWhile isspace_lib fmt else fmt)"
  have f: "f \<noteq> []" "length f \<le> length fmt"
    using assms length_dropWhile_le [of isspace_lib fmt]
    by (auto simp: scan_step_def Let_def f_def split: if_splits)
  then have tl: "length (tl f) < length fmt" by (cases f) auto
  obtain w f1 where f1: "(if isdigit_lib (cur8 (tl f)) then skip_atoi (tl f) 0 else (-1, tl f)) = (w, f1)"
    by fastforce
  obtain q f2 where f2: "scan_qualifier f1 = (q, f2)" by fastforce
  have "length f1 \<le> length (tl f)" using f1 skip_atoi_shorter [of "tl f" 0 w f1] by (auto split: if_splits)
  with scan_qualifier_shorter [OF f2] tl have l: "length f2 < length fmt" by simp
  show ?thesis
    using assms f tl l f1 f2 length_dropWhile_le [of "\<lambda>c. \<not> isspace_lib c" "tl f"]
    unfolding scan_step_def Let_def f_def [symmetric]
    by (auto split: if_splits dest: scan_conv_lib_shorter)
qed

function scan_loop :: "nat \<Rightarrow> u8 list \<Rightarrow> u8 list \<Rightarrow> int \<Rightarrow> scanned list \<Rightarrow> int \<times> scanned list" where
  "scan_loop n fmt str num ws =
     (if fmt \<noteq> [] \<and> str \<noteq> [] then
        (case scan_step n fmt str of
           None \<Rightarrow> (num, ws)
         | Some (fmt, str, vs, k) \<Rightarrow> scan_loop n fmt str (num + k) (ws @ vs))
      else (num, ws))"
  by pat_completeness auto
termination
  by (relation "measure (\<lambda>(_, f, _, _, _). length f)") (auto dest: scan_step_shorter)

declare scan_loop.simps [simp del]

definition vsscanf_lib :: "u8 list \<Rightarrow> u8 list \<Rightarrow> int \<times> scanned list" where
  "vsscanf_lib buf fmt = scan_loop (length buf) fmt buf 0 []"

definition sscanf_lib :: "u8 list \<Rightarrow> u8 list \<Rightarrow> int \<times> scanned list" where
  "sscanf_lib buf fmt = vsscanf_lib buf fmt"

text \<open>The loop of \<^verbatim>\<open>scanf\<close> that fills \<^verbatim>\<open>g_pcInBuf\<close>, 1024 bytes, up to a line end.\<close>

partial_function (option) scan_line ::
  "(hist \<Rightarrow> (u8 \<times> hist) option) \<Rightarrow> u8 list \<times> hist \<Rightarrow> (u8 list \<times> hist) option" where
  "scan_line getc lh = do {
     (c, h) \<leftarrow> getc (snd lh);
     if length (fst lh) < 1024 then
       (if c = 0x0d \<or> c = 0x0a then Some (fst lh, h) else scan_line getc (fst lh @ [c], h))
     else None
   }"

definition scanf_lib ::
  "(hist \<Rightarrow> (u8 \<times> hist) option) \<Rightarrow> u8 list \<Rightarrow> hist \<Rightarrow> (int \<times> scanned list \<times> hist) option" where
  "scanf_lib getc fmt h = do {
     (l, h) \<leftarrow> scan_line getc ([], h);
     let (n, ws) = vsscanf_lib (takeWhile (\<lambda>c. c \<noteq> 0) l) fmt;
     Some (n, ws, h)
   }"

end
