(* ===== verification/Fmtspec.thy ===== *)
theory Fmtspec
  imports Cfmt
begin

text \<open>
  What \<^verbatim>\<open>lib/vsprintf.c\<close> promises: a reference formatter that says which text a format stands for, and the
  proof that the code writes exactly that text, cut to the buffer; and that scanning a printed
  number gives the number back.
\<close>

subsection \<open>The reference formatter\<close>

text \<open>A number in a base, the highest digit first.\<close>

function base_text :: "(nat \<Rightarrow> u8) \<Rightarrow> nat \<Rightarrow> nat \<Rightarrow> u8 list" where
  "base_text d base n =
     (if n < base \<or> base < 2 then [d n] else base_text d base (n div base) @ [d (n mod base)])"
  by pat_completeness auto
termination by (relation "measure (\<lambda>(_, _, n). n)") auto

declare base_text.simps [simp del]

text \<open>A prefix and a body in a field: filled up with blanks on the right or on the left, or with zeros
  between the two.\<close>

definition justify :: "bool \<Rightarrow> bool \<Rightarrow> int \<Rightarrow> u8 list \<Rightarrow> u8 list \<Rightarrow> u8 list" where
  "justify left zero width pre body =
     (let fill = nat (width - int (length pre) - int (length body))
      in if left then pre @ body @ replicate fill (ch CHR '' '')
         else if zero then pre @ replicate fill (ch CHR ''0'') @ body
         else replicate fill (ch CHR '' '') @ pre @ body)"

definition sign_text :: "u32 \<Rightarrow> int \<Rightarrow> u8 list" where
  "sign_text flags v =
     (if flags AND SIGN = 0 then []
      else if v < 0 then [ch CHR ''-'']
      else if flags AND PLUS \<noteq> 0 then [ch CHR ''+'']
      else if flags AND SPACE \<noteq> 0 then [ch CHR '' ''] else [])"

definition field_number :: "u32 \<Rightarrow> nat \<Rightarrow> int \<Rightarrow> int \<Rightarrow> u64 \<Rightarrow> u8 list" where
  "field_number flags base width precision num =
     (let v = (if flags AND SIGN \<noteq> 0 then sint num else uint num);
          digits = base_text (digit_char flags) base (nat \<bar>v\<bar>);
          zeros = replicate (nat (precision - int (length digits))) (ch CHR ''0'')
      in justify (flags AND LEFT \<noteq> 0) (flags AND ZEROPAD \<noteq> 0) width
           (sign_text flags v @ special_prefix flags base) (zeros @ digits))"

definition str_text :: "u32 \<Rightarrow> int \<Rightarrow> int \<Rightarrow> u8 list \<Rightarrow> u8 list" where
  "str_text flags width precision s =
     justify (flags AND LEFT \<noteq> 0) False width [] (take (unat (word_of_int precision :: u32)) s)"

text \<open>The text of a directive; \<open>strs\<close> gives the strings that pointers stand for.  A format that stores
  its count (\<^verbatim>\<open>%n\<close>) has none.\<close>

definition convert_text ::
  "(u32 \<Rightarrow> u8 list option) \<Rightarrow> u32 \<Rightarrow> int \<Rightarrow> int \<Rightarrow> u8 \<Rightarrow> u8 list \<Rightarrow> u32 list
   \<Rightarrow> (u8 list \<times> u32 list \<times> u8 list) option" where
  "convert_text strs flags width precision qualifier f args =
     (let c = cur8 f
      in if c = ch CHR ''c'' then do {
           (w, args) \<leftarrow> va_word args;
           Some (tl f, args, justify (flags AND LEFT \<noteq> 0) False width [] [ucast w])
         }
         else if c = ch CHR ''s'' then do {
           (q, args) \<leftarrow> va_word args;
           s \<leftarrow> (if q < 1024 then Some null_text else strs q);
           Some (tl f, args, str_text flags width precision s)
         }
         else if c = ch CHR ''p'' then do {
           (w, args) \<leftarrow> va_word args;
           Some (tl f, args,
             if width = -1 then field_number (flags OR ZEROPAD) 16 8 precision (ucast w)
             else field_number flags 16 width precision (ucast w))
         }
         else if c = ch CHR ''n'' then None
         else if c = ch CHR ''%'' then Some (tl f, args, [ch CHR ''%''])
         else (case int_conv c of
            None \<Rightarrow>
              if c \<noteq> 0 then Some (tl f, args, [ch CHR ''%'', c]) else Some (f, args, [ch CHR ''%''])
          | Some (base, fl) \<Rightarrow> do {
              (num, args) \<leftarrow> int_arg qualifier (flags OR fl) args;
              Some (tl f, args, field_number (flags OR fl) base width precision num)
            }))"

definition directive_text ::
  "(u32 \<Rightarrow> u8 list option) \<Rightarrow> u8 list \<Rightarrow> u32 list \<Rightarrow> (u8 list \<times> u32 list \<times> u8 list) option" where
  "directive_text strs f args = do {
     let (flags, f) = fmt_flags f 0;
     (width, f, args, flags) \<leftarrow> fmt_width f args flags;
     (precision, f, args) \<leftarrow> fmt_precision f args;
     let (qualifier, f) = fmt_qualifier f;
     convert_text strs flags width precision qualifier f args
   }"

lemma convert_text_shorter:
  "convert_text strs fl w p q f a = Some (r, a', t) \<Longrightarrow> length r \<le> length f"
  by (auto simp: convert_text_def Let_def split: if_splits option.splits)

lemma directive_text_shorter:
  assumes "directive_text strs f a = Some (r, a', t)"
  shows "length r \<le> length f"
proof -
  obtain fl f1 where f1: "fmt_flags f 0 = (fl, f1)" by fastforce
  with assms obtain w f2 a2 fl2 where f2: "fmt_width f1 a fl = Some (w, f2, a2, fl2)"
    by (auto simp: directive_text_def)
  with assms f1 obtain p f3 a3 where f3: "fmt_precision f2 a2 = Some (p, f3, a3)"
    by (auto simp: directive_text_def)
  obtain q f4 where f4: "fmt_qualifier f3 = (q, f4)" by fastforce
  have "convert_text strs fl2 w p q f4 a3 = Some (r, a', t)"
    using assms f1 f2 f3 f4 by (simp add: directive_text_def)
  from convert_text_shorter [OF this] fmt_flags_shorter [OF f1] fmt_width_shorter [OF f2]
    fmt_precision_shorter [OF f3] fmt_qualifier_shorter [OF f4]
  show ?thesis by simp
qed

function format_text :: "(u32 \<Rightarrow> u8 list option) \<Rightarrow> u8 list \<Rightarrow> u32 list \<Rightarrow> u8 list option" where
  "format_text strs [] args = Some []"
| "format_text strs (c # f) args =
     (if c \<noteq> ch CHR ''%'' then map_option (\<lambda>t. c # t) (format_text strs f args)
      else
        (case directive_text strs f args of
           None \<Rightarrow> None
         | Some (f, args, t) \<Rightarrow> map_option (\<lambda>u. t @ u) (format_text strs f args)))"
  by pat_completeness auto
termination
  by (relation "measure (\<lambda>(_, f, _). length f)") (auto dest: directive_text_shorter)

subsection \<open>Numbers\<close>

lemma bind_emits_Nil [simp]: "Option.bind r (emits e []) = r"
  by (cases r) simp_all

lemma emits_append: "emits e (xs @ ys) pm = Option.bind (emits e xs pm) (emits e ys)"
proof (induction xs arbitrary: pm)
  case (Cons c xs)
  then show ?case by (cases "emit e c pm") simp_all
qed simp

lemma emits_fun:
  "emits e (xs @ ys) = (\<lambda>pm. Option.bind (emits e xs pm) (emits e ys))"
  "emits e (c # xs) = (\<lambda>pm. Option.bind (emit e c pm) (emits e xs))"
  by (auto simp: emits_append fun_eq_iff)

lemma emit_n_fun: "emit_n e n c = emits e (replicate (nat n) c)"
  by (simp add: emit_n_def fun_eq_iff)

lemma low_digits_text:
  assumes "2 \<le> base" and "n \<noteq> 0"
  shows "rev (low_digits type base n) = base_text (digit_char type) base n"
  using assms
proof (induction n rule: less_induct)
  case (less n)
  show ?case
  proof (cases "n < base")
    case True
    with less.prems show ?thesis
      by (simp add: low_digits.simps [of type base n] low_digits.simps [of type base 0] base_text.simps)
  next
    case False
    then have "rev (low_digits type base (n div base)) = base_text (digit_char type) base (n div base)"
      using less.prems by (intro less.IH) (auto simp: div_greater_zero_iff)
    with False less.prems show ?thesis
      by (simp add: low_digits.simps [of type base n] base_text.simps [of "digit_char type" base n])
  qed
qed

lemma tmp_digits_text:
  assumes "2 \<le> base"
  shows "rev (tmp_digits type base n) = base_text (digit_char type) base n"
proof (cases "n = 0")
  case True
  with assms show ?thesis by (simp add: tmp_digits_def base_text.simps digit_char_def)
next
  case False
  with assms show ?thesis by (simp add: tmp_digits_def low_digits_text)
qed

lemma flag_clear:
  fixes f k n :: u32
  assumes "NOT k AND n = n"
  shows "(f AND NOT k) AND n = f AND n"
  using assms by (simp add: and.assoc)

lemma no_zeropad:
  fixes f :: u32
  shows "(f AND NOT ZEROPAD) AND ZEROPAD = 0" "(f AND NOT ZEROPAD) AND SIGN = f AND SIGN"
    "(f AND NOT ZEROPAD) AND PLUS = f AND PLUS" "(f AND NOT ZEROPAD) AND SPACE = f AND SPACE"
    "(f AND NOT ZEROPAD) AND LEFT = f AND LEFT" "(f AND NOT ZEROPAD) AND SPECIAL = f AND SPECIAL"
    "(f AND NOT ZEROPAD) AND LARGE = f AND LARGE"
  by (simp_all add: and.assoc)

lemma effective_flags:
  fixes t type :: u32
  assumes "t = (if type AND LEFT \<noteq> 0 then type AND NOT ZEROPAD else type)"
  shows "t AND SIGN = type AND SIGN" "t AND PLUS = type AND PLUS" "t AND SPACE = type AND SPACE"
    "t AND LEFT = type AND LEFT" "t AND SPECIAL = type AND SPECIAL" "t AND LARGE = type AND LARGE"
    "type AND LEFT = 0 \<Longrightarrow> t AND ZEROPAD = type AND ZEROPAD"
  unfolding assms by (cases "type AND LEFT = 0"; simp only: no_zeropad simp_thms if_True if_False)+

lemma zeropad_left: "(f :: u32) AND (ZEROPAD + LEFT) = 0 \<longleftrightarrow> f AND ZEROPAD = 0 \<and> f AND LEFT = 0"
proof -
  have e: "ZEROPAD + LEFT = ZEROPAD OR LEFT" by simp
  have "f AND (ZEROPAD + LEFT) = (f AND ZEROPAD) OR (f AND LEFT)"
    unfolding e by (rule bit.conj_disj_distrib)
  then show ?thesis by (auto simp: or_eq_0_iff)
qed

lemma unat_minus_signed:
  fixes w :: u64
  assumes "sint w < 0"
  shows "unat (- w) = nat (- sint w)"
proof -
  have le: "- sint w \<le> 9223372036854775808" using sint_ge [of w] by simp
  have "- w = word_of_int (- sint w)" by simp
  then have "uint (- w) = - sint w mod 2 ^ LENGTH(64)" by (simp only: uint_word_of_int)
  also have "\<dots> = - sint w" using assms le by (intro mod_pos_pos_trivial) simp_all
  finally show ?thesis by (simp only: nat_uint_eq [symmetric])
qed

lemma unat_signed:
  fixes w :: u64
  assumes "0 \<le> sint w"
  shows "unat w = nat (sint w)"
proof -
  have "sint w < 9223372036854775808" using sint_lt [of w] by simp
  then have "uint w = sint w" using assms by (simp add: uint_sint take_bit_int_eq_self)
  then show ?thesis by (simp only: nat_uint_eq [symmetric])
qed

lemma number_sign_text:
  defines "v \<equiv> \<lambda>num t. if t AND SIGN \<noteq> 0 then sint num else uint num"
  assumes "number_sign num w t = (sg, n, w')"
  shows "sign_text t (v num t) = (if sg \<noteq> 0 then [sg] else [])"
    and "unat n = nat \<bar>v num t\<bar>" and "w' = w - int (length (sign_text t (v num t)))"
  using assms unat_minus_signed [of num] unat_signed [of num]
  by (auto simp: number_sign_def sign_text_def split: if_splits)

lemma special_width:
  "(if t AND SPECIAL \<noteq> 0 then if base = 16 then w - 2 else if base = 8 then w - 1 else w else w)
   = w - int (length (special_prefix t base))"
  by (simp add: special_prefix_def)

text \<open>The function in terms of what it emits; \<open>st\<close>, \<open>sp\<close> and \<open>D\<close> are sign, prefix and digits.\<close>

lemma number_pieces:
  assumes base: "2 \<le> base" "base \<le> 36" and t: "t = (if type AND LEFT \<noteq> 0 then type AND NOT ZEROPAD else type)"
    and sg: "number_sign num w t = (sg, n, w')"
    and sz: "sz = w' - int (length (special_prefix t base)) - max (int (length D)) precision"
    and D: "D = rev (tmp_digits t base (unat n))"
  shows "number_lib e num base w precision type pm =
    emits e
     ((if t AND ZEROPAD = 0 \<and> t AND LEFT = 0 then replicate (nat sz) (ch CHR '' '') else [])
      @ (if sg \<noteq> 0 then [sg] else []) @ special_prefix t base
      @ (if t AND LEFT = 0 \<and> t AND ZEROPAD \<noteq> 0 then replicate (nat sz) (ch CHR ''0'') else [])
      @ replicate (nat (precision - int (length D))) (ch CHR ''0'') @ D
      @ (if t AND LEFT \<noteq> 0 then replicate (nat sz) (ch CHR '' '') else [])) pm"
proof -
  have nb: "\<not> (base < 2 \<or> 36 < base)" using base by simp
  have len: "length (tmp_digits t base (unat n)) = length D" by (simp add: D)
  have mx: "(if precision < int (length D) then int (length D) else precision) = max (int (length D)) precision"
    by simp
  have z: "nat (max (int (length D)) precision - int (length D)) = nat (precision - int (length D))" by simp
  have c: "nat (counted_out k) = 0" "nat (counted_out (counted_out k)) = 0" for k
    by (simp_all add: counted_out_def)
  have one: "(if sg \<noteq> 0 then emit e sg pm else Some pm) = emits e (if sg \<noteq> 0 then [sg] else []) pm" for pm
    by simp
  show ?thesis
    unfolding number_lib_def Let_def t [symmetric] if_not_P [OF nb] sg prod.case special_width len mx
      D [symmetric] sz [symmetric] zeropad_left emit_n_def one
    by (cases "t AND LEFT = 0"; cases "t AND ZEROPAD = 0") (simp_all add: emits_fun z c)
qed

lemma number_emits:
  assumes base: "2 \<le> base" "base \<le> 36"
  shows "number_lib e num base w precision type pm = emits e (field_number type base w precision num) pm"
proof -
  define t where t: "t = (if type AND LEFT \<noteq> 0 then type AND NOT ZEROPAD else type)"
  define v where "v = (if t AND SIGN \<noteq> 0 then sint num else uint num)"
  obtain sg n w' where sg: "number_sign num w t = (sg, n, w')" using prod_cases3 by blast
  note sign = number_sign_text [OF sg, folded v_def]
  define D where D: "D = rev (tmp_digits t base (unat n))"
  have digits: "D = base_text (digit_char t) base (nat \<bar>v\<bar>)"
    by (simp add: D tmp_digits_text [OF base(1)] sign(2))
  define sz where sz: "sz = w' - int (length (special_prefix t base)) - max (int (length D)) precision"
  let ?zs = "replicate (nat (precision - int (length D))) (ch CHR ''0'')"
  let ?pre = "sign_text t v @ special_prefix t base"
  have fill: "nat (w - int (length ?pre) - int (length (?zs @ D))) = nat sz"
    by (simp add: sz sign(3) diff_diff_eq)
  have eq: "field_number type base w precision num
      = justify (t AND LEFT \<noteq> 0) (t AND ZEROPAD \<noteq> 0) w ?pre (?zs @ D)"
  proof -
    note f = effective_flags [OF t]
    have "special_prefix t base = special_prefix type base" "digit_char t = digit_char type"
      "sign_text t v = sign_text type v" "v = (if type AND SIGN \<noteq> 0 then sint num else uint num)"
      by (simp_all only: v_def special_prefix_def digit_char_def sign_text_def f fun_eq_iff simp_thms)
    moreover have "justify (t AND LEFT \<noteq> 0) (t AND ZEROPAD \<noteq> 0) w x y
        = justify (type AND LEFT \<noteq> 0) (type AND ZEROPAD \<noteq> 0) w x y" for x y
      by (cases "type AND LEFT = 0") (simp_all only: justify_def f(4) f(7) simp_thms if_True)
    ultimately show ?thesis by (simp add: field_number_def Let_def digits)
  qed
  show ?thesis
    unfolding number_pieces [OF base t sg sz D] eq justify_def Let_def fill
    unfolding sign(1) by simp
qed

subsection \<open>Characters and strings\<close>

lemma out_char_emits:
  "out_char e w flags v pm = emits e (justify (flags AND LEFT \<noteq> 0) False w [] [ucast v]) pm"
proof -
  have "nat (min (w - 1) 0 - 1) = 0" by simp
  then show ?thesis by (simp add: out_char_def emit_n_def justify_def emits_fun)
qed

text \<open>Emitting writes only between the start of the buffer and its end, and below \<open>lim\<close> when the whole
  text ends there.\<close>

lemma lim_less: "n \<le> unat (lim :: u32) \<Longrightarrow> n < 2 ^ 32"
  by (rule le_less_trans) (use unsigned_less [of lim] in simp_all)

definition outside :: "u32 \<Rightarrow> u32 \<Rightarrow> u32 \<Rightarrow> u32 \<Rightarrow> nat \<Rightarrow> bool" where
  "outside buf e lim q n \<longleftrightarrow> (\<forall>i < n. q + of_nat i < buf \<or> e < q + of_nat i \<or> lim \<le> q + of_nat i)"

lemma emits_keeps:
  "emits e L pm = Some pm' \<Longrightarrow> buf \<le> fst pm \<Longrightarrow> unat (fst pm) + length L \<le> unat lim \<Longrightarrow>
   fst pm' = fst pm + of_nat (length L) \<and> buf \<le> fst pm'
   \<and> (\<forall>a. a < buf \<or> e < a \<or> lim \<le> a \<longrightarrow> snd pm' a = snd pm a)"
proof (induction L arbitrary: pm)
  case Nil
  then show ?case by simp
next
  case (Cons c L)
  then obtain pm1 where c: "emit e c pm = Some pm1" and L: "emits e L pm1 = Some pm'" by auto
  have p1: "fst pm1 = fst pm + 1" using c by (auto simp: emit_def split: if_splits)
  have agree: "snd pm1 a = snd pm a" if "a < buf \<or> e < a \<or> lim \<le> a" for a
    using c that Cons.prems(2,3) by (auto simp: emit_def stb_def word_le_nat_alt word_less_nat_alt split: if_splits)
  have u: "unat (fst pm1) = unat (fst pm) + 1"
    using lim_less [OF Cons.prems(3)] unat_add_of_nat [of "fst pm" 1] by (simp add: p1)
  have "buf \<le> fst pm1" using Cons.prems(2) u by (simp add: word_le_nat_alt)
  moreover have "unat (fst pm1) + length L \<le> unat lim" using Cons.prems(3) u by simp
  ultimately have ih: "fst pm' = fst pm1 + of_nat (length L)" "buf \<le> fst pm'"
      "\<forall>a. a < buf \<or> e < a \<or> lim \<le> a \<longrightarrow> snd pm' a = snd pm1 a"
    using Cons.IH [OF L] by blast+
  show ?case using ih(2,3) agree by (simp add: ih(1) p1 add.assoc)
qed

lemmas emits_ptr = emits_keeps [THEN conjunct1]
lemmas emits_above = emits_keeps [THEN conjunct2, THEN conjunct1]
lemmas emits_frame = emits_keeps [THEN conjunct2, THEN conjunct2, rule_format]

lemma outside_mono: "outside buf e lim q n \<Longrightarrow> k \<le> n \<Longrightarrow> outside buf e lim q k"
  unfolding outside_def by (meson less_le_trans)

definition good_strs :: "(u32 \<Rightarrow> u8 list option) \<Rightarrow> u32 \<Rightarrow> u32 \<Rightarrow> u32 \<Rightarrow> mem \<Rightarrow> bool" where
  "good_strs strs buf e lim m \<longleftrightarrow>
     (\<forall>q s. strs q = Some s \<longrightarrow> cstr m q s \<and> length s < 2 ^ 31 \<and> outside buf e lim q (Suc (length s)))"

lemma bytes_at_agree:
  "bytes_at m q bs \<Longrightarrow> (\<And>i. i < length bs \<Longrightarrow> m' (q + of_nat i) = m (q + of_nat i)) \<Longrightarrow> bytes_at m' q bs"
  by (simp add: bytes_at_def)

lemma good_strs_agree:
  assumes "good_strs strs buf e lim m" and "\<forall>a. a < buf \<or> e < a \<or> lim \<le> a \<longrightarrow> m' a = m a"
  shows "good_strs strs buf e lim m'"
proof -
  have "cstr m' q s" if "strs q = Some s" for q s
    using assms that bytes_at_agree [of m q "s @ [0]" m']
    by (auto simp: good_strs_def cstr_def outside_def)
  with assms(1) show ?thesis by (simp add: good_strs_def)
qed

lemma out_copy_emits:
  "bytes_at (snd pm) q bs \<Longrightarrow> outside buf e lim q (length bs) \<Longrightarrow> buf \<le> fst pm \<Longrightarrow>
   unat (fst pm) + length bs \<le> unat lim \<Longrightarrow> out_copy e (length bs) q pm = emits e bs pm"
proof (induction bs arbitrary: q pm)
  case Nil
  then show ?case by simp
next
  case (Cons b bs)
  have out: "outside buf e lim (q + 1) (length bs)"
    using Cons.prems(2) by (simp add: outside_def all_less_Suc add.assoc)
  show ?case
  proof (cases "emit e b pm")
    case None
    with Cons.prems(1) show ?thesis by simp
  next
    case (Some pm1)
    then have c: "emits e [b] pm = Some pm1" by simp
    note k = emits_ptr [OF c Cons.prems(3)] emits_above [OF c Cons.prems(3)] emits_frame [OF c Cons.prems(3)]
    have l: "unat (fst pm) + length [b] \<le> unat lim" using Cons.prems(4) by simp
    have p1: "fst pm1 = fst pm + 1" using k(1) [OF l] by simp
    note above = k(2) [OF l] and frame = k(3) [OF l]
    have u: "unat (fst pm1) = unat (fst pm) + 1"
      using lim_less [OF l] unat_add_of_nat [of "fst pm" 1] by (simp add: p1)
    have "bytes_at (snd pm) (q + 1) bs" using Cons.prems(1) by simp
    then have "bytes_at (snd pm1) (q + 1) bs"
      by (rule bytes_at_agree) (rule frame [OF out [unfolded outside_def, rule_format]])
    then have "out_copy e (length bs) (q + 1) pm1 = emits e bs pm1"
      using out above u Cons.prems(4) by (intro Cons.IH) simp_all
    with Some Cons.prems(1) show ?thesis by simp
  qed
qed

lemma unat_sint_min: "k < 2 ^ 31 \<Longrightarrow> sint (of_nat (min j k) :: u32) = int (min j k)"
  by (rule sint_of_nat32) simp

lemma out_str_emits:
  assumes s: "if q < 1024 then s = null_text
              else cstr (snd pm) q s \<and> length s < 2 ^ 31 \<and> outside buf e lim q (Suc (length s))"
    and p: "buf \<le> fst pm" "unat (fst pm) + length (str_text flags w prec s) \<le> unat lim"
  shows "out_str e w prec flags q pm = emits e (str_text flags w prec s) pm"
proof -
  define k where "k = unat (word_of_int prec :: u32)"
  define l where "l = min k (length s)"
  define left where "left \<longleftrightarrow> flags AND LEFT \<noteq> 0"
  have small: "length s < 2 ^ 31" using s by (auto simp: null_text_def text_bytes_def split: if_splits)
  have len: "(if q < 1024 then Some (of_nat (min k (length null_text))) else strnlen_lib (snd pm) q (word_of_int prec))
      = Some (of_nat l)"
    using s by (auto simp: l_def k_def strnlen_ok split: if_splits)
  have l: "sint (of_nat l :: u32) = int l" unfolding l_def by (rule unat_sint_min [OF small])
  have body: "length (take k s) = l" "take l s = take k s" by (simp_all add: l_def min_def)
  define pad where "pad = replicate (nat (w - int l)) (ch CHR '' '')"
  have whole: "str_text flags w prec s = (if left then take k s @ pad else pad @ take k s)"
    by (simp add: str_text_def justify_def left_def k_def [symmetric] body pad_def l_def min.commute)
  have copy: "(if q < 1024 then emits e (take (nat (int l)) null_text) pm1 else out_copy e (nat (int l)) q pm1)
      = emits e (take k s) pm1"
    if "emits e pre pm = Some pm1" and "unat (fst pm) + length pre + l \<le> unat lim" for pre pm1
  proof (cases "q < 1024")
    case True
    with s body show ?thesis by simp
  next
    case False
    have pre: "unat (fst pm) + length pre \<le> unat lim" using that(2) by simp
    have "bytes_at (snd pm) q (take k s)"
      using s False by (auto simp: cstr_def bytes_at_def nth_append)
    moreover have out: "outside buf e lim q (length (take k s))"
      using s False by (auto intro: outside_mono [of buf e lim q "Suc (length s)"])
    ultimately have there: "bytes_at (snd pm1) q (take k s)"
      using emits_frame [OF that(1) p(1) pre out [unfolded outside_def, rule_format]]
      by (intro bytes_at_agree [of "snd pm" q "take k s" "snd pm1"])
    have "unat (fst pm1) = unat (fst pm) + length pre"
      using emits_ptr [OF that(1) p(1) pre] lim_less [OF pre] by (simp add: unat_add_of_nat)
    then have "out_copy e (length (take k s)) q pm1 = emits e (take k s) pm1"
      using that(2) by (intro out_copy_emits [OF there out emits_above [OF that(1) p(1) pre]]) (simp only: body(1))
    then have "out_copy e l q pm1 = emits e (take k s) pm1" by (simp only: body(1))
    with False show ?thesis by simp
  qed
  have total: "unat (fst pm) + length pad + l \<le> unat lim" "unat (fst pm) + length [] + l \<le> unat lim"
    using p(2) whole body(1) by (auto split: if_splits)
  have rest: "nat (min w (int l) - 1 - int l) = 0" by simp
  show ?thesis
  proof (cases left)
    case True
    then show ?thesis
      using copy [of "[]" pm, OF _ total(2)]
      unfolding out_str_def k_def [symmetric] len whole
      by (simp add: left_def emit_n_fun emits_append l pad_def)
  next
    case False
    then show ?thesis
      using copy [OF _ total(1)]
      unfolding out_str_def k_def [symmetric] len whole
      by (cases "emits e pad pm") (auto simp add: left_def emit_n_fun emits_append l rest Let_def pad_def split: if_splits)
  qed
qed

subsection \<open>The whole format\<close>

lemma bind_map:
  "Option.bind r (\<lambda>x. Some (F x)) = map_option F r"
  "Option.bind r (\<lambda>x. map_option F (g x)) = map_option F (Option.bind r g)"
  by (cases r; simp)+

lemma convert_emits:
  assumes "convert_text strs flags w prec q f args = Some (f', args', t)"
    and "good_strs strs buf e lim (snd pm)" and "buf \<le> fst pm" and "unat (fst pm) + length t \<le> unat lim"
  shows "convert e buf flags w prec q f args pm = map_option (\<lambda>pm'. (f', args', pm')) (emits e t pm)"
proof (cases "cur8 f = ch CHR ''s''")
  case True
  with assms(1) obtain p s where p: "args = p # args'" "f' = tl f" "t = str_text flags w prec s"
    and s: "(if p < 1024 then Some null_text else strs p) = Some s"
    by (cases args) (auto simp: convert_text_def)
  have "if p < 1024 then s = null_text
        else cstr (snd pm) p s \<and> length s < 2 ^ 31 \<and> outside buf e lim p (Suc (length s))"
    using s assms(2) by (auto simp: good_strs_def split: if_splits)
  from out_str_emits [OF this assms(3), of flags w prec] assms(4) p(3)
  have "out_str e w prec flags p pm = emits e t pm" by simp
  with True p show ?thesis
    by (cases "emits e t pm") (simp_all add: convert_def)
next
  case False
  have conv: "2 \<le> base \<and> base \<le> 36" if "int_conv c = Some (base, fl)" for c base fl
    using that by (auto simp: int_conv_def split: if_splits)
  show ?thesis
    using assms(1) False conv
    by (cases args)
      (auto simp: convert_text_def convert_def Let_def out_char_emits number_emits bind_map emits_fun
        split: if_splits option.splits)
qed

lemma directive_emits:
  assumes "directive_text strs f args = Some (f', args', t)"
    and "good_strs strs buf e lim (snd pm)" and "buf \<le> fst pm" and "unat (fst pm) + length t \<le> unat lim"
  shows "directive e buf f args pm = map_option (\<lambda>pm'. (f', args', pm')) (emits e t pm)"
proof -
  obtain fl f1 where f1: "fmt_flags f 0 = (fl, f1)" by fastforce
  with assms(1) obtain w f2 a2 fl2 where f2: "fmt_width f1 args fl = Some (w, f2, a2, fl2)"
    by (auto simp: directive_text_def)
  with assms(1) f1 obtain p f3 a3 where f3: "fmt_precision f2 a2 = Some (p, f3, a3)"
    by (auto simp: directive_text_def)
  obtain q f4 where f4: "fmt_qualifier f3 = (q, f4)" by fastforce
  have "convert_text strs fl2 w p q f4 a3 = Some (f', args', t)"
    using assms(1) f1 f2 f3 f4 by (simp add: directive_text_def)
  from convert_emits [OF this assms(2-4)] show ?thesis
    using f1 f2 f3 f4 by (simp add: directive_def)
qed

lemma vsn_loop_emits:
  "format_text strs f args = Some t \<Longrightarrow> good_strs strs buf e lim (snd pm) \<Longrightarrow> buf \<le> fst pm \<Longrightarrow>
   unat (fst pm) + length t \<le> unat lim \<Longrightarrow> vsn_loop e buf f args pm = emits e t pm"
proof (induction strs f args arbitrary: t pm rule: format_text.induct)
  case (1 strs args)
  then show ?case by simp
next
  case (2 strs c f args)
  have go: "vsn_loop e buf f2 a2 pm1 = emits e u pm1"
    if f2: "format_text strs f2 a2 = Some u" and pm1: "emits e t1 pm = Some pm1" and t: "t = t1 @ u"
      and IH: "\<And>u pm. format_text strs f2 a2 = Some u \<Longrightarrow> good_strs strs buf e lim (snd pm) \<Longrightarrow>
        buf \<le> fst pm \<Longrightarrow> unat (fst pm) + length u \<le> unat lim \<Longrightarrow> vsn_loop e buf f2 a2 pm = emits e u pm"
    for f2 a2 u t1 pm1
  proof -
    have l: "unat (fst pm) + length t1 \<le> unat lim" using "2.prems"(4) t by simp
    note k = emits_ptr [OF pm1 "2.prems"(3) l] emits_above [OF pm1 "2.prems"(3) l]
      emits_frame [OF pm1 "2.prems"(3) l]
    have "good_strs strs buf e lim (snd pm1)"
      using k(3) by (intro good_strs_agree [OF "2.prems"(2)]) blast
    moreover have "unat (fst pm1) + length u \<le> unat lim"
      using k(1) lim_less [OF l] "2.prems"(4) t by (simp add: unat_add_of_nat)
    ultimately show ?thesis using IH [OF f2] k(2) by blast
  qed
  show ?case
  proof (cases "c = ch CHR ''%''")
    case False
    with "2.prems"(1) obtain u where u: "format_text strs f args = Some u" "t = [c] @ u" by auto
    show ?thesis
    proof (cases "emit e c pm")
      case None
      with False show ?thesis by (simp add: u(2))
    next
      case (Some pm1)
      then have "emits e [c] pm = Some pm1" by simp
      then have "vsn_loop e buf f args pm1 = emits e u pm1"
        by (rule go [OF u(1) _ u(2) "2.IH"(1) [OF False]])
      with False Some show ?thesis by (simp add: u(2))
    qed
  next
    case True
    with "2.prems"(1) obtain f2 a2 t1 u where d: "directive_text strs f args = Some (f2, a2, t1)"
      "format_text strs f2 a2 = Some u" "t = t1 @ u"
      by (auto split: option.splits)
    have l: "unat (fst pm) + length t1 \<le> unat lim" using "2.prems"(4) d(3) by simp
    have dir: "directive e buf f args pm = map_option (\<lambda>pm'. (f2, a2, pm')) (emits e t1 pm)"
      by (rule directive_emits [OF d(1) "2.prems"(2,3) l])
    show ?thesis
    proof (cases "emits e t1 pm")
      case None
      with True dir show ?thesis by (simp add: d(3) emits_append)
    next
      case (Some pm1)
      have "\<not> c \<noteq> ch CHR ''%''" using True by simp
      from go [OF d(2) Some d(3) "2.IH"(2) [OF this d(1) refl refl]]
      have "vsn_loop e buf f2 a2 pm1 = emits e u pm1" .
      with True dir Some show ?thesis by (simp add: d(3) emits_append)
    qed
  qed
qed

lemma emits_ok:
  "unat p + length L < 2 ^ 32 \<Longrightarrow> room m p (min (length L) (unat e + 1 - unat p)) \<Longrightarrow>
   emits e L (p, m) = Some (p + of_nat (length L), put_bytes p (take (unat e + 1 - unat p) L) m)"
proof (induction L arbitrary: p m)
  case Nil
  then show ?case by simp
next
  case (Cons c L)
  have u: "unat (p + 1) = unat p + 1" using Cons.prems(1) unat_add_of_nat [of p 1] by simp
  have l: "unat (p + 1) + length L < 2 ^ 32" using Cons.prems(1) u by simp
  show ?case
  proof (cases "p \<le> e")
    case True
    then have k: "unat e + 1 - unat p = Suc (unat e + 1 - unat (p + 1))"
      using u by (simp add: word_le_nat_alt)
    have r1: "m p \<noteq> None \<and> room m (p + 1) (min (length L) (unat e + 1 - unat (p + 1)))"
      using Cons.prems(2) by (simp only: k list.size min_Suc_Suc add_Suc_right add_0_right room_Suc simp_thms)
    note r = conjunct1 [OF r1] room_upd [OF conjunct2 [OF r1], of p c]
    have "put_bytes (p + 1) xs (m(p \<mapsto> c)) = put_bytes p (c # xs) m" if "length xs \<le> length L" for xs
      using that Cons.prems(1) by (subst put_bytes_Cons) simp_all
    then show ?thesis
      using True r(1) Cons.IH [OF l r(2)] k by (simp add: emit_def stb_room add.assoc del: fun_upd_apply)
  next
    case False
    then have k: "unat e + 1 - unat p = 0" "unat e + 1 - unat (p + 1) = 0"
      using u by (simp_all add: word_le_nat_alt)
    then have r: "room m (p + 1) (min (length L) (unat e + 1 - unat (p + 1)))" by simp
    show ?thesis using False Cons.IH [OF l r] k by (simp add: emit_def add.assoc)
  qed
qed

lemma put_bytes_end:
  assumes "i \<le> length xs" and "length xs \<le> Suc i" and "i < 2 ^ 32"
  shows "(put_bytes p xs m)(p + of_nat i \<mapsto> v) = put_bytes p (take i xs @ [v]) m"
proof
  fix q
  have "q = p + of_nat i \<longleftrightarrow> unat (q - p) = i"
    using assms(3) word_unat_eq_iff [of "q - p" "of_nat i"]
    by (simp add: unat_of_nat32 eq_diff_eq diff_eq_eq add.commute)
  then show "((put_bytes p xs m)(p + of_nat i \<mapsto> v)) q = put_bytes p (take i xs @ [v]) m q"
    using assms(1,2) by (auto simp: put_bytes_def nth_append)
qed

text \<open>The code against the reference: the text, cut to the buffer and ended with a NUL, and the length
  of the whole text as the result; no byte beside the buffer changes.\<close>

lemma vsnprintf_writes:
  assumes t: "format_text strs fmt args = Some t"
    and n: "0 < sint n" and buf: "buf \<noteq> 0" "unat buf + unat n \<le> 2 ^ 32" "unat buf + length t < 2 ^ 32"
    and room: "room m buf (min (unat n) (Suc (length t)))"
    and strs: "good_strs strs buf (buf + n - 1) (buf + of_nat (length t)) m"
  shows "vsnprintf_lib buf n fmt args m
    = Some (of_nat (length t), put_bytes buf (take (unat n - 1) t @ [0]) m)"
proof -
  define e where "e = buf + n - 1"
  have n0: "0 < unat n" using n by (metis less_irrefl signed_0 unat_eq_zero gr0I)
  have e_nat: "e = buf + of_nat (unat n - 1)" using n0 by (simp add: e_def)
  have ue: "unat e = unat buf + (unat n - 1)"
    unfolding e_nat using buf(2) n0 by (intro unat_add_of_nat) simp
  have b1: "\<not> e < buf - 1"
    using buf(1) ue by (simp add: word_less_nat_alt unat_minus_one)
  have k: "unat e + 1 - unat buf = unat n" using ue n0 by simp
  have room1: "room m buf (min (length t) (unat n))"
    using room by (auto simp: room_def min_def split: if_splits)
  define m1 where "m1 = put_bytes buf (take (unat n) t) m"
  have ustr: "unat (buf + of_nat (length t)) = unat buf + length t" by (rule unat_add_of_nat [OF buf(3)])
  have loop: "vsn_loop e buf fmt args (buf, m) = Some (buf + of_nat (length t), m1)"
    using vsn_loop_emits [OF t, of buf e "buf + of_nat (length t)" "(buf, m)"] emits_ok [OF buf(3), of m e] strs ustr room1 k
    by (simp add: e_def [symmetric] m1_def)
  have n_less: "unat n < 2 ^ 32" using unsigned_less [of n] by simp
  have fin: "(if buf + of_nat (length t) \<le> e then stb (buf + of_nat (length t)) 0 m1
        else if 0 < n then stb e 0 m1 else Some m1)
      = Some (put_bytes buf (take (unat n - 1) t @ [0]) m)"
  proof (cases "buf + of_nat (length t) \<le> e")
    case True
    then have l: "length t \<le> unat n - 1" using ustr ue by (simp add: word_le_nat_alt)
    have "m (buf + of_nat (length t)) \<noteq> None" using room l n0 by (simp add: room_def)
    then have "m1 (buf + of_nat (length t)) \<noteq> None" by (auto simp: m1_def put_bytes_def)
    with True l n_less put_bytes_end [of "length t" t buf m 0] show ?thesis
      by (simp add: stb_room m1_def)
  next
    case False
    then have l: "unat n \<le> length t" using ustr ue n0 by (simp add: word_le_nat_alt)
    have "m e \<noteq> None"
      unfolding e_nat by (rule room [unfolded room_def, rule_format]) (use l n0 in simp)
    then have "m1 e \<noteq> None" by (auto simp: m1_def put_bytes_def)
    moreover have "0 < n" using n0 by (simp add: word_less_nat_alt)
    ultimately show ?thesis
      using False l n_less n0 put_bytes_end [of "unat n - 1" "take (unat n) t" buf m 0, folded e_nat]
      by (simp add: stb_room m1_def min_absorb1)
  qed
  show ?thesis
    using n b1 loop fin
    by (simp add: vsnprintf_lib_def Let_def e_def [symmetric])
qed

subsection \<open>Reading a number back\<close>

lemma class_ranges:
  "isdigit_lib c \<longleftrightarrow> 48 \<le> unat c \<and> unat c < 58"
  "isspace_lib c \<longleftrightarrow> (9 \<le> unat c \<and> unat c < 14) \<or> unat c = 32 \<or> unat c = 160"
  "isxdigit_lib c \<longleftrightarrow> (48 \<le> unat c \<and> unat c < 58) \<or> (65 \<le> unat c \<and> unat c < 71) \<or> (97 \<le> unat c \<and> unat c < 103)"
  by (auto simp: ismask_lib_def ctype_row_def)

lemma unat_digit_char: "d < 10 \<Longrightarrow> unat (digit_char fl d) = 48 + d"
  by (simp add: digit_char_def unat_word_ariths unat_of_nat)

lemma digit_char_value: "d < 10 \<Longrightarrow> digit_value_lib (digit_char fl d) = of_nat d"
proof -
  assume d: "d < 10"
  have "(ucast (digit_char fl d) :: u32) = of_nat (unat (digit_char fl d))" by (rule of_nat_unat [symmetric])
  then have "(ucast (digit_char fl d) :: u32) = 48 + of_nat d" using d by (simp add: unat_digit_char)
  with d show ?thesis by (simp add: digit_value_lib_def class_ranges unat_digit_char)
qed

lemma base_text_digits:
  assumes "2 \<le> base"
  shows "set (base_text d base n) \<subseteq> d ` {..<base}"
proof (induction n rule: less_induct)
  case (less n)
  show ?case
  proof (cases "n < base")
    case True
    then show ?thesis by (simp add: base_text.simps)
  next
    case False
    then have "set (base_text d base (n div base)) \<subseteq> d ` {..<base}"
      using assms by (intro less.IH) (auto simp: div_greater_zero_iff)
    with False assms show ?thesis by (auto simp: base_text.simps [of d base n])
  qed
qed

lemma strtoul_digits:
  assumes "\<forall>c \<in> set s. isdigit_lib c" and "r = [] \<or> \<not> isxdigit_lib (hd r)"
  shows "strtoul_loop_lib 10 (s @ r) acc = (foldl (\<lambda>a c. a * 10 + digit_value_lib c) acc s, r)"
  using assms(1)
proof (induction s arbitrary: acc)
  case Nil
  then show ?case using assms(2) by (cases r) simp_all
next
  case (Cons c s)
  then have c: "48 \<le> unat c" "unat c < 58" by (simp_all add: class_ranges)
  then have "c = digit_char 0 (unat c - 48)"
    by (simp add: digit_char_def word_unat_eq_iff unat_word_ariths unat_of_nat)
  then have "digit_value_lib c = of_nat (unat c - 48)"
    using digit_char_value [of "unat c - 48" 0] c by simp
  moreover have "(of_nat (unat c - 48) :: u32) < 10"
    using c by (simp only: word_less_nat_alt unat_of_nat) simp
  ultimately have "digit_value_lib c < 10" by simp
  with Cons c show ?case by (simp add: class_ranges)
qed

lemma foldl_num_text:
  "foldl (\<lambda>a c. a * 10 + digit_value_lib c) 0 (base_text (digit_char fl) 10 n) = of_nat n"
proof (induction n rule: less_induct)
  case (less n)
  show ?case
  proof (cases "n < 10")
    case True
    then show ?thesis by (simp add: base_text.simps digit_char_value)
  next
    case False
    have "(of_nat n :: u32) = of_nat (n div 10 * 10 + n mod 10)" by simp
    also have "\<dots> = of_nat (n div 10) * 10 + of_nat (n mod 10)" by (simp only: of_nat_add of_nat_mult of_nat_numeral)
    finally show ?thesis
      using False less.IH [of "n div 10"] by (simp add: base_text.simps [of _ 10 n] digit_char_value)
  qed
qed

lemma base_text_isdigit: "c \<in> set (base_text (digit_char fl) 10 n) \<Longrightarrow> isdigit_lib c"
  using base_text_digits [of 10 "digit_char fl" n] by (auto simp: class_ranges unat_digit_char)

lemma base_text_nonempty: "base_text d base n \<noteq> []"
  by (subst base_text.simps) simp

text \<open>\<^verbatim>\<open>%d\<close> reads what \<^verbatim>\<open>%d\<close> prints, behind any white space and before anything that cannot go on the
  number.\<close>

definition int_text :: "int \<Rightarrow> u8 list" where
  "int_text v = (if v < 0 then [ch CHR ''-''] else []) @ base_text (digit_char SIGN) 10 (nat \<bar>v\<bar>)"

lemma directive_d:
  "directive_text strs (ch CHR ''d'' # f) (w # args) = Some (f, args, int_text (sint w))"
proof -
  have "- 9223372036854775808 \<le> sint w" "sint w < 9223372036854775808"
    using sint_ge [of w] sint_lt [of w] by simp_all
  then have s: "sint (scast w :: u64) = sint w"
    by (simp add: signed_scast_eq signed_take_bit_int_eq_self)
  show ?thesis
    by (simp add: text_bytes_def directive_text_def fmt_width_def fmt_precision_def fmt_qualifier_def
        class_ranges convert_text_def int_conv_def int_arg_def Let_def field_number_def justify_def
        sign_text_def special_prefix_def int_text_def s)
qed

lemma directive_c:
  "directive_text strs (ch CHR ''c'' # f) (w # args) = Some (f, args, [ucast w])"
  by (simp add: text_bytes_def directive_text_def fmt_width_def fmt_precision_def fmt_qualifier_def
      class_ranges convert_text_def int_conv_def int_arg_def Let_def field_number_def justify_def
      sign_text_def special_prefix_def int_text_def)

text \<open>The two in the form that the simplifier meets them in.\<close>

lemmas directives = directive_d [simplified] directive_c [simplified]

lemma format_d:
  "format_text strs (text_bytes ''%d'') [w] = Some (int_text (sint w))"
  by (simp add: text_bytes_def directives)

lemma simple_strtol_lib_dec:
  assumes "r = [] \<or> \<not> isxdigit_lib (hd r)"
  shows "simple_strtol_lib (int_text v @ r) 10 = (word_of_int v, r)"
proof -
  define t where "t = base_text (digit_char SIGN) 10 (nat \<bar>v\<bar>)"
  have loop: "strtoul_loop_lib 10 (t @ r) 0 = (of_nat (nat \<bar>v\<bar>), r)"
    using strtoul_digits [of t r 0, OF _ assms] base_text_isdigit foldl_num_text by (simp add: t_def)
  obtain c t' where ct: "t = c # t'" "isdigit_lib c"
    using base_text_nonempty base_text_isdigit by (metis list.exhaust list.set_intros(1) t_def)
  then have "c \<noteq> ch CHR ''-''" by (auto simp: class_ranges)
  then have "v \<ge> 0 \<Longrightarrow> cur8 (t @ r) \<noteq> ch CHR ''-''" using ct(1) by simp
  moreover have "v < 0 \<Longrightarrow> - (of_nat (nat \<bar>v\<bar>) :: u32) = word_of_int v"
    by (metis abs_of_neg minus_minus nat_0_le neg_0_le_iff_le of_int_minus of_int_of_nat_eq less_imp_le)
  ultimately show ?thesis
    using loop by (auto simp: int_text_def t_def [symmetric] simple_strtol_lib_def simple_strtoul_lib_def strto_base_def)
qed

lemma int_text_head:
  obtains c t where "int_text v = c # t" and "isdigit_lib c"
  | c t where "int_text v = ch CHR ''-'' # c # t" and "isdigit_lib c"
proof -
  obtain c t where "base_text (digit_char SIGN) 10 (nat \<bar>v\<bar>) = c # t" "isdigit_lib c"
    using base_text_nonempty base_text_isdigit by (metis list.exhaust list.set_intros(1))
  with that show ?thesis by (cases "v < 0") (auto simp: int_text_def)
qed

lemma sscanf_dec:
  assumes sp: "\<forall>c \<in> set sp. isspace_lib c" and r: "r = [] \<or> \<not> isxdigit_lib (hd r)"
  shows "vsscanf_lib (sp @ int_text v @ r) (text_bytes ''%d'') = (1, [Num32 (word_of_int v)])"
proof -
  let ?s = "sp @ int_text v @ r"
  have start: "scan_starts 10 True (int_text v @ r)" and nsp: "\<not> isspace_lib (hd (int_text v))"
    and ne: "int_text v \<noteq> []"
    by (cases v rule: int_text_head; force simp: scan_starts_def Let_def class_ranges)+
  have skip: "dropWhile isspace_lib ?s = int_text v @ r"
    using sp nsp ne by (cases "int_text v") auto
  have "scan_step (length ?s) (text_bytes ''%d'') ?s = Some ([], r, [Num32 (word_of_int v)], 1)"
    using start skip ne
    by (simp add: text_bytes_def scan_step_def scan_qualifier_def scan_conv_lib_def scan_base_def
        class_ranges scan_value_def simple_strtol_lib_dec [OF r])
  then show ?thesis
    using ne by (simp add: vsscanf_lib_def scan_loop.simps text_bytes_def)
qed

subsection \<open>Printing\<close>

definition shown :: "u8 list \<Rightarrow> string" where
  "shown t = map to_char (takeWhile (\<lambda>c. c \<noteq> 0) t)"

lemma cstr_cut:
  assumes "bytes_at m p (t @ [0])"
  shows "cstr m p (takeWhile (\<lambda>c. c \<noteq> 0) t)"
proof -
  let ?s = "takeWhile (\<lambda>c. c \<noteq> 0) t"
  have "\<exists>r. t @ [0] = (?s @ [0]) @ r"
  proof (induction t)
    case (Cons c t)
    then show ?case by (cases "c = 0") auto
  qed simp
  then obtain r where "t @ [0] = (?s @ [0]) @ r" by blast
  with assms have "bytes_at m p (?s @ [0])" by (metis bytes_at_append)
  moreover have "0 \<notin> set ?s" using set_takeWhileD by fastforce
  ultimately show ?thesis by (simp add: cstr_def)
qed

lemma to_char_ucast_u8: "to_char (ucast (v :: u8) :: u32) = to_char v"
  by (simp add: to_char_def unat_ucast_u8)

text \<open>\<^verbatim>\<open>vsprintf\<close> writes the whole text.\<close>

lemma vsprintf_writes:
  assumes t: "format_text strs fmt args = Some t" and buf: "buf \<noteq> 0" "unat buf + length t < 2 ^ 31"
    and room: "room m buf (Suc (length t))" and strs: "good_strs strs buf (buf + 0x7FFFFFFE) (buf + of_nat (length t)) m"
  shows "vsprintf_lib buf fmt args m = Some (of_nat (length t), put_bytes buf (t @ [0]) m)"
proof -
  let ?n = "0x7FFFFFFF :: u32"
  have e: "buf + ?n - 1 = buf + 0x7FFFFFFE" by simp
  have l: "take (unat ?n - 1) t = t" "min (unat ?n) (Suc (length t)) = Suc (length t)"
    using buf unat_gt_0 [of buf] by simp_all
  have "vsnprintf_lib buf ?n fmt args m
      = Some (of_nat (length t), put_bytes buf (take (unat ?n - 1) t @ [0]) m)"
    by (rule vsnprintf_writes [OF t]) (use buf room strs in \<open>simp_all only: e l, simp_all\<close>)
  then show ?thesis by (simp only: vsprintf_lib_def l)
qed

context char_sink begin

lemma prints_send_from:
  assumes "cstr m buf s" and "length s < 2 ^ 32"
  shows "k \<le> length s \<Longrightarrow> prints (send_buf putc buf m (of_nat k)) (map to_char (drop k s))"
proof (induction "length s - k" arbitrary: k)
  case 0
  then have "\<And>h. send_buf putc buf m (of_nat k) h = Some h"
    using strlen_ok [OF assms(1)] by (subst send_buf.simps) simp
  with 0 show ?case by (intro prints_eqI [OF prints_skip]) simp_all
next
  case (Suc j)
  then have k: "k < length s" by simp
  have less: "(of_nat k :: u32) < of_nat (length s)"
    using k assms(2) by (simp add: word_less_nat_alt unat_of_nat32)
  have v: "m (buf + of_nat k) = Some (s ! k)"
    using cstr_bytes [OF assms(1)] k by (simp add: bytes_at_def nth_append)
  have "prints (\<lambda>h. Option.bind (putc (ucast (s ! k)) h) (send_buf putc buf m (of_nat (Suc k))))
      ([to_char (ucast (s ! k) :: u32)] @ map to_char (drop (Suc k) s))"
    by (intro prints_seq prints_putc Suc.hyps(1)) (use Suc.hyps(2) k in simp_all)
  then show ?case
  proof (rule prints_eqI)
    show "send_buf putc buf m (of_nat k) h
        = Option.bind (putc (ucast (s ! k)) h) (send_buf putc buf m (of_nat (Suc k)))" for h
      by (subst send_buf.simps) (simp add: strlen_ok [OF assms(1)] less v add.commute)
    show "map to_char (drop k s) = [to_char (ucast (s ! k) :: u32)] @ map to_char (drop (Suc k) s)"
      using k by (simp add: to_char_ucast_u8 Cons_nth_drop_Suc [symmetric])
  qed
qed

text \<open>What \<^verbatim>\<open>printf\<close> sends is the formatted text, up to the first NUL in it, when the text fits the buffer.\<close>

lemma printf_prints:
  assumes t: "format_text strs fmt args = Some t" and buf: "buf \<noteq> 0" "unat buf + length t < 2 ^ 31"
    and room: "room m buf (Suc (length t))" and strs: "good_strs strs buf (buf + 0x7FFFFFFE) (buf + of_nat (length t)) m"
    and "ok h"
  shows "\<exists>m' h'. printf_lib putc buf fmt args (m, h) = Some (of_nat (length t), m', h') \<and> ok h'
    \<and> out h' = out h @ shown t \<and> m' = put_bytes buf (t @ [0]) m"
proof -
  note v = vsprintf_writes [OF t buf room strs]
  let ?m = "put_bytes buf (t @ [0]) m" and ?s = "takeWhile (\<lambda>c. c \<noteq> 0) t"
  have len: "length ?s < 2 ^ 32" using buf(2) length_takeWhile_le [of "\<lambda>c. c \<noteq> 0" t] by simp
  have "cstr ?m buf ?s" using buf(2) by (intro cstr_cut bytes_at_put) simp
  from prints_send_from [OF this len, of 0] have "prints (send_buf putc buf ?m 0) (shown t)"
    by (simp add: shown_def)
  from prints_live [OF this assms(6)] obtain h' where
    "send_buf putc buf ?m 0 h = Some h'" "ok h'" "out h' = out h @ shown t" by blast
  with v show ?thesis by (simp add: printf_lib_def)
qed

end

subsection \<open>Properties\<close>


lemma no_strs: "good_strs (\<lambda>_. None) buf e lim m"
  by (simp add: good_strs_def)


lemma base_text_length:
  "n < 10 ^ k \<Longrightarrow> 0 < k \<Longrightarrow> length (base_text d 10 n) \<le> k"
proof (induction k arbitrary: n)
  case (Suc k)
  show ?case
  proof (cases "n < 10")
    case True
    then show ?thesis by (simp add: base_text.simps)
  next
    case False
    with Suc.prems have "0 < k" by (cases k) auto
    moreover have "n div 10 < 10 ^ k" using Suc.prems(1) by (simp add: less_mult_imp_div_less mult.commute)
    ultimately have "length (base_text d 10 (n div 10)) \<le> k" by (intro Suc.IH)
    with False show ?thesis by (simp add: base_text.simps [of d 10 n])
  qed
qed simp

lemma int_text_length: "length (int_text (sint (w :: u32))) \<le> 11"
proof -
  have "- 2147483648 \<le> sint w" "sint w < 2147483648" using sint_ge [of w] sint_lt [of w] by simp_all
  then have "nat \<bar>sint w\<bar> < 10 ^ 10" by simp
  from base_text_length [OF this, of "digit_char SIGN"] show ?thesis by (auto simp: int_text_def)
qed

lemma int_text_no_nul: "0 \<notin> set (int_text v)"
  using base_text_isdigit [of 0 SIGN "nat \<bar>v\<bar>"] by (auto simp: int_text_def class_ranges)

text \<open>C27: a number printed with \<^verbatim>\<open>%d\<close> into a buffer of at least twelve bytes is read back by \<^verbatim>\<open>%d\<close>, for
  every 32-bit value.\<close>

lemma printed_reads_back:
  assumes "12 \<le> sint n" and "buf \<noteq> 0" and "unat buf + unat n \<le> 2 ^ 32" and "room m buf 12"
  shows "\<exists>k m' t. snprintf_lib buf n (text_bytes ''%d'') [w] m = Some (k, m') \<and> cstr m' buf t
    \<and> sscanf_lib t (text_bytes ''%d'') = (1, [Num32 w])"
proof -
  define t where "t = int_text (sint w)"
  have n: "12 \<le> unat n"
  proof -
    have "0 \<le> sint n" using assms(1) by simp
    then have "uint n = sint n"
      using sint_lt [of n] by (simp add: uint_sint take_bit_int_eq_self)
    then have "12 \<le> uint n" using assms(1) by simp
    then show ?thesis using nat_mono [of 12 "uint n"] by simp
  qed
  have len: "length t \<le> 11" by (simp add: t_def int_text_length)
  have f: "format_text (\<lambda>_. None) (text_bytes ''%d'') [w] = Some t" by (simp add: format_d t_def)
  have "room m buf (min (unat n) (Suc (length t)))" using assms(4) len by (auto simp: room_def)
  then have v: "snprintf_lib buf n (text_bytes ''%d'') [w] m = Some (of_nat (length t), put_bytes buf (t @ [0]) m)"
    using vsnprintf_writes [OF f, of n buf m] assms n len no_strs by (simp add: snprintf_lib_def)
  have "cstr (put_bytes buf (t @ [0]) m) buf t"
    using len int_text_no_nul by (intro cstr_put) (simp_all add: t_def)
  moreover have "sscanf_lib t (text_bytes ''%d'') = (1, [Num32 w])"
    using sscanf_dec [of "[]" "[]" "sint w"] by (simp add: t_def sscanf_lib_def)
  ultimately show ?thesis using v by blast
qed

lemma printed_reads_back_witness:
  "\<exists>k m' t. snprintf_lib 0x1000 32 (text_bytes ''%d'') [- 7] (\<lambda>_. Some 0) = Some (k, m') \<and> cstr m' 0x1000 t
     \<and> sscanf_lib t (text_bytes ''%d'') = (1, [Num32 (- 7)])"
  by (rule printed_reads_back) (simp_all add: room_def)

end
