(* ===== verification/Iic.thy ===== *)
theory Iic
  imports I2c Console Fmtspec
begin

text \<open>
  The interrupt dispatcher and the I2C driver of the SPI image,
  \<^verbatim>\<open>SPI/code/01th_spi_i2c_adc_jz2440_oled_020_002/interrupt.c\<close> and \<^verbatim>\<open>i2c.c\<close>.  A transfer waits in a loop
  on the descriptor \<^verbatim>\<open>g_tS3C24xx_I2C\<close> while the interrupts move the bytes; as in the driver of the monitor,
  the loop runs interrupt by interrupt, through the dispatcher.  The state is the descriptor, the
  store (\<^verbatim>\<open>printf\<close> formats into it) and the history.
\<close>

record iic_state =
  pData :: "u8 list"
  DataCount :: int
  Status :: int
  Mode :: int
  Pt :: int

type_synonym iic_world = "iic_state \<times> mem \<times> hist"
type_synonym printer = "u8 list \<Rightarrow> u32 list \<Rightarrow> mem \<times> hist \<Rightarrow> (mem \<times> hist) option"

abbreviation (input) WRDATA :: int where "WRDATA \<equiv> 1"
abbreviation (input) RDDATA :: int where "RDDATA \<equiv> 2"
abbreviation BIT_IIC :: u32 where "BIT_IIC \<equiv> bitm 27"

partial_function (option) Delay :: "int \<Rightarrow> unit option" where
  "Delay time = (if time > 0 then Delay (time - 1) else Some ())"

definition iic_init :: "bus \<Rightarrow> hist \<Rightarrow> hist" where
  "iic_init b h =
     (let h = upd32 b GPEUP (bits_or 0xc000) h;
          h = upd32 b GPECON (bits_or 0xa0000000) h;
          h = upd32 b INTMSK (bits_clear BIT_IIC) h;
          h = wr32 IICCON (bitm 7 OR push_bit 6 0 OR bitm 5 OR 0xf) h;
          h = wr32 IICADD 0x10 h
      in wr32 IICSTAT 0x10 h)"

subsection \<open>The interrupt handler\<close>

definition iic_tx :: "iic_world \<Rightarrow> iic_world option" where
  "iic_tx w =
     (let (s, m, h) = w; count = DataCount s; s = s\<lparr>DataCount := count - 1\<rparr>
      in if count = 0 then do {
           let h = wr32 IICSTAT 0xd0 h;
           let h = wr32 IICCON 0xaf h;
           _ \<leftarrow> Delay 10000;
           Some (s, m, h)
         }
         else if 0 \<le> Pt s \<and> Pt s < int (length (pData s)) then
           (let h = wr32 IICDS (ucast (pData s ! nat (Pt s))) h;
                s = s\<lparr>Pt := Pt s + 1\<rparr>;
                h = wr32 IICCON 0xaf h
            in Some (s, m, h))
         else None)"

definition iic_rx :: "bus \<Rightarrow> iic_world \<Rightarrow> iic_world option" where
  "iic_rx b w =
     (let (s, m, h) = w
      in if Pt s = -1 then
           (let s = s\<lparr>Pt := 0\<rparr>
            in Some (s, m, wr32 IICCON (if DataCount s = 1 then 0x2f else 0xaf) h))
         else let (v, h) = rd32 b IICDS h
           in if 0 \<le> Pt s \<and> Pt s < int (length (pData s)) then
                (let s = s\<lparr>pData := (pData s)[nat (Pt s) := ucast v], Pt := Pt s + 1\<rparr>;
                     s = s\<lparr>DataCount := DataCount s - 1\<rparr>
                 in if DataCount s = 0 then do {
                      let h = wr32 IICSTAT 0x90 h;
                      let h = wr32 IICCON 0xaf h;
                      _ \<leftarrow> Delay 10000;
                      Some (s, m, h)
                    }
                    else Some (s, m, wr32 IICCON (if DataCount s = 1 then 0x2f else 0xaf) h))
              else None)"

definition I2CIntHandle :: "printer \<Rightarrow> bus \<Rightarrow> iic_world \<Rightarrow> iic_world option" where
  "I2CIntHandle pr b w =
     (let (s, m, h) = w;
          h = wr32 SRCPND BIT_IIC h;
          h = wr32 INTPND BIT_IIC h;
          (iicSt, h) = rd32 b IICSTAT h
      in do {
        (m, h) \<leftarrow> (if iicSt AND 0x8 \<noteq> 0
                  then pr (text_bytes ''Bus arbitration failed'' @ [10, 13]) [] (m, h)
                  else Some (m, h));
        if Mode s = WRDATA then iic_tx (s, m, h)
        else if Mode s = RDDATA then iic_rx b (s, m, h)
        else Some (s, m, h)
      })"

subsection \<open>Dispatch\<close>

text \<open>The entries of \<^verbatim>\<open>isr_handle_array\<close> are the two handlers of the image.\<close>

datatype isr = Isr_dummy | Isr_i2c

definition Dummy_isr :: "printer \<Rightarrow> iic_world \<Rightarrow> iic_world option" where
  "Dummy_isr pr w =
     (let (s, mh) = w in do { _ \<leftarrow> pr (text_bytes ''Dummy_isr'' @ [10, 13]) [] mh; None })"

definition init_irq :: "hist \<Rightarrow> isr list \<times> hist" where
  "init_irq h =
     (let tab = replicate 50 Isr_dummy;
          h = wr32 INTMOD 0x0 h;
          h = wr32 INTMSK 0xffffffff h
      in (tab[27 := Isr_i2c], h))"

definition run_isr :: "printer \<Rightarrow> bus \<Rightarrow> isr \<Rightarrow> iic_world \<Rightarrow> iic_world option" where
  "run_isr pr b f w = (case f of Isr_dummy \<Rightarrow> Dummy_isr pr w | Isr_i2c \<Rightarrow> I2CIntHandle pr b w)"

definition IRQ_Handle :: "printer \<Rightarrow> bus \<Rightarrow> isr list \<Rightarrow> iic_world \<Rightarrow> iic_world option" where
  "IRQ_Handle pr b tab w =
     (let (s, m, h) = w;
          (oft, h) = rd32 b INTOFFSET h;
          h = (if oft = 4 then wr32 EINTPEND (bitm 7) h else h);
          h = wr32 SRCPND (push_bit (unat oft) 1) h;
          (pnd, h) = rd32 b INTPND h;
          h = wr32 INTPND pnd h
      in if unat oft < length tab then run_isr pr b (tab ! unat oft) (s, m, h) else None)"

subsection \<open>Transfers\<close>

text \<open>\<^verbatim>\<open>while (g_tS3C24xx_I2C.DataCount != end);\<close> with the interrupts that change it.\<close>

partial_function (option) wait_count ::
  "(hist \<Rightarrow> bool) \<Rightarrow> (iic_world \<Rightarrow> iic_world option) \<Rightarrow> int \<Rightarrow> iic_world \<Rightarrow> iic_world option" where
  "wait_count arrives irq n w =
     (if DataCount (fst w) \<noteq> n then
        (if arrives (snd (snd w)) then do { w \<leftarrow> irq w; wait_count arrives irq n w } else None)
      else Some w)"

definition i2c_write ::
  "(hist \<Rightarrow> bool) \<Rightarrow> (iic_world \<Rightarrow> iic_world option) \<Rightarrow> u32 \<Rightarrow> u8 list \<Rightarrow> int \<Rightarrow> iic_world \<Rightarrow> iic_world option" where
  "i2c_write arrives irq slvAddr buf len w =
     (let (s, m, h) = w;
          s = s\<lparr>Mode := WRDATA, Pt := 0, pData := buf, DataCount := len\<rparr>;
          h = wr32 IICDS slvAddr h;
          h = wr32 IICSTAT 0xf0 h
      in wait_count arrives irq (-1) (s, m, h))"

text \<open>The result is the buffer with what was received.\<close>

definition i2c_read ::
  "(hist \<Rightarrow> bool) \<Rightarrow> (iic_world \<Rightarrow> iic_world option) \<Rightarrow> u32 \<Rightarrow> u8 list \<Rightarrow> int \<Rightarrow> iic_world
   \<Rightarrow> (u8 list \<times> iic_world) option" where
  "i2c_read arrives irq slvAddr buf len w =
     (let (s, m, h) = w;
          s = s\<lparr>Mode := RDDATA, Pt := -1, pData := buf, DataCount := len\<rparr>;
          h = wr32 IICDS slvAddr h;
          h = wr32 IICSTAT 0xb0 h
      in do { w \<leftarrow> wait_count arrives irq 0 (s, m, h); Some (pData (fst w), w) })"

subsection \<open>One interrupt on the wire\<close>

lemma Delay_returns: "Delay t = Some ()"
proof (induction "nat t" arbitrary: t)
  case 0
  then show ?case by (simp add: Delay.simps)
next
  case (Suc n)
  then have "Delay (t - 1) = Some ()" by (intro Suc.hyps(1)) simp
  then show ?case by (simp add: Delay.simps [of t])
qed

abbreviation spi_isrs :: "isr list" where
  "spi_isrs \<equiv> (replicate 50 Isr_dummy)[27 := Isr_i2c]"

lemma init_irq_table: "fst (init_irq h) = spi_isrs"
  by (simp add: init_irq_def Let_def)

text \<open>The interrupts are those of the I2C controller, and the bus is never lost to another master.\<close>

definition iic_irqs :: "bus \<Rightarrow> bool" where
  "iic_irqs b \<longleftrightarrow> (\<forall>g. b g INTOFFSET = 27 \<and> b g IICSTAT AND 0x8 = 0)"

lemma wire_other:
  assumes "a \<noteq> IICDS" and "a \<noteq> IICSTAT" and "a \<noteq> IICCON" and "idle h"
  shows "wire_state (h @ [Wr32 a v]) = (None, wire h)"
  using assms by (simp add: wire_state_append wire_state_idle)

text \<open>Events that neither send to the UART nor take a key from it.\<close>

definition silent :: "hist \<Rightarrow> hist \<Rightarrow> bool" where
  "silent h h' \<longleftrightarrow> (\<exists>e. h' = h @ e \<and> rx_count e = 0 \<and> uart_tx e = [])"

lemma silent_refl [simp]: "silent h h"
  by (simp add: silent_def)

lemma silent_trans: "silent h h1 \<Longrightarrow> silent h1 h2 \<Longrightarrow> silent h h2"
  by (force simp: silent_def)

lemma silent_step [simp]: "silent h (wr32 a v h)" "silent h (h @ [Wr32 a v])" "silent h (h @ [Rd32 a v])"
  by (simp_all add: silent_def wr32_def rx_count_def)

lemma silent_wr32: "silent h g \<Longrightarrow> silent h (wr32 a v g)"
  by (rule silent_trans [OF _ silent_step(1)])

lemma silent_console: "silent h h' \<Longrightarrow> console b h ks \<Longrightarrow> console b h' ks \<and> uart_tx h' = uart_tx h"
  by (auto simp: silent_def console_step)

lemma irq_enters:
  assumes "iic_irqs b" and "idle h"
  obtains g where "idle g" and "wire g = wire h" and "silent h g"
    and "\<And>s m. IRQ_Handle pr b spi_isrs (s, m, h)
      = (if Mode s = WRDATA then iic_tx (s, m, g) else if Mode s = RDDATA then iic_rx b (s, m, g)
         else Some (s, m, g))"
proof -
  define g1 where "g1 = (let h = h @ [Rd32 INTOFFSET 27] @ [Wr32 SRCPND BIT_IIC] in h @ [Rd32 INTPND (b h INTPND)])"
  define g2 where "g2 = g1 @ [Wr32 INTPND (b (h @ [Rd32 INTOFFSET 27] @ [Wr32 SRCPND BIT_IIC]) INTPND)]
      @ [Wr32 SRCPND BIT_IIC] @ [Wr32 INTPND BIT_IIC]"
  define g where "g = g2 @ [Rd32 IICSTAT (b g2 IICSTAT)]"
  have "wire_state g = (None, wire h)"
    using wire_state_idle [OF assms(2)] by (simp add: g_def g2_def g1_def Let_def wire_state_append)
  then have "idle g" "wire g = wire h" using idle_wireI by auto
  moreover have "silent h g" by (simp add: silent_def g_def g2_def g1_def Let_def rx_count_def)
  moreover have "IRQ_Handle pr b spi_isrs (s, m, h)
      = (if Mode s = WRDATA then iic_tx (s, m, g) else if Mode s = RDDATA then iic_rx b (s, m, g)
         else Some (s, m, g))" for s m
    using assms(1)
    by (simp add: IRQ_Handle_def run_isr_def I2CIntHandle_def iic_irqs_def rd32_def wr32_def Let_def
        g_def g2_def g1_def)
  ultimately show ?thesis using that by blast
qed

lemma wire_send_word:
  assumes "idle h" and "c AND bitm 4 = 0"
  shows "wire_state (wr32 IICCON c (wr32 IICDS (ucast (v :: u8)) h)) = (None, wire h @ [Sent v])"
  using wire_state_idle [OF assms(1)] assms(2) by (simp add: wire_simps)

lemma wire_con:
  assumes "idle h"
  shows "wire_state (wr32 IICCON c h) = (None, wire h)"
  using wire_state_idle [OF assms] by (simp add: wire_simps)

lemma wire_stop_word:
  assumes "idle h" and "stat \<in> {0xd0, 0x90}"
  shows "wire_state (wr32 IICCON c (wr32 IICSTAT stat h)) = (None, wire h @ [Stop])"
  using wire_state_idle [OF assms(1)] assms(2) by (auto simp: wire_simps)

lemma resume_bit: "(0xaf :: u32) AND bitm 4 = 0"
  by simp

subsection \<open>Whole transfers\<close>

lemma wait_count_done: "DataCount s = n \<Longrightarrow> wait_count arrives irq n (s, mh) = Some (s, mh)"
  by (simp add: wait_count.simps)

lemma wait_count_step:
  "DataCount s \<noteq> n \<Longrightarrow> arrives h \<Longrightarrow> irq (s, m, h) = Some w \<Longrightarrow>
   wait_count arrives irq n (s, m, h) = wait_count arrives irq n w"
  by (simp add: wait_count.simps [of arrives irq n "(s, m, h)"])

lemma wait_tx_all:
  assumes irqs: "iic_irqs b" and arr: "\<And>g. arrives g"
  shows "Mode s = WRDATA \<Longrightarrow> 0 \<le> Pt s \<Longrightarrow> DataCount s = int n \<Longrightarrow>
    nat (Pt s) + n \<le> length (pData s) \<Longrightarrow> idle h \<Longrightarrow>
    \<exists>s' h'. wait_count arrives (IRQ_Handle pr b spi_isrs) (-1) (s, m, h) = Some (s', m, h')
      \<and> wire_state h' = (None, wire h @ map Sent (take n (drop (nat (Pt s)) (pData s))) @ [Stop])
      \<and> silent h h'"
proof (induction n arbitrary: s h)
  case 0
  obtain g where g: "idle g" "wire g = wire h" "silent h g"
    and e: "\<And>s m. IRQ_Handle pr b spi_isrs (s, m, h)
      = (if Mode s = WRDATA then iic_tx (s, m, g) else if Mode s = RDDATA then iic_rx b (s, m, g)
         else Some (s, m, g))"
    by (rule irq_enters [OF irqs 0(5)]) blast
  let ?s = "s\<lparr>DataCount := -1\<rparr>" and ?h = "wr32 IICCON 0xaf (wr32 IICSTAT 0xd0 g)"
  have "IRQ_Handle pr b spi_isrs (s, m, h) = Some (?s, m, ?h)"
    using 0(1,3) by (simp add: e iic_tx_def Delay_returns)
  from wait_count_step [where irq = "IRQ_Handle pr b spi_isrs" and h = h, OF _ arr this] 0(3)
  have "wait_count arrives (IRQ_Handle pr b spi_isrs) (-1) (s, m, h) = Some (?s, m, ?h)"
    by (simp add: wait_count_done)
  with wire_stop_word [OF g(1), of "0xd0" "0xaf"] g(2) silent_wr32 [OF silent_wr32 [OF g(3)]]
  show ?case by auto
next
  case (Suc n)
  obtain g where g: "idle g" "wire g = wire h" "silent h g"
    and e: "\<And>s m. IRQ_Handle pr b spi_isrs (s, m, h)
      = (if Mode s = WRDATA then iic_tx (s, m, g) else if Mode s = RDDATA then iic_rx b (s, m, g)
         else Some (s, m, g))"
    by (rule irq_enters [OF irqs Suc.prems(5)]) blast
  let ?v = "pData s ! nat (Pt s)"
  let ?s = "s\<lparr>DataCount := int n, Pt := Pt s + 1\<rparr>" and ?h = "wr32 IICCON 0xaf (wr32 IICDS (ucast ?v) g)"
  have i: "nat (Pt s) < length (pData s)" using Suc.prems(4) by simp
  have "IRQ_Handle pr b spi_isrs (s, m, h) = Some (?s, m, ?h)"
    using Suc.prems(1-3) i by (simp add: e iic_tx_def Let_def)
  from wait_count_step [where irq = "IRQ_Handle pr b spi_isrs" and h = h, OF _ arr this] Suc.prems(3)
  have step: "wait_count arrives (IRQ_Handle pr b spi_isrs) (-1) (s, m, h)
      = wait_count arrives (IRQ_Handle pr b spi_isrs) (-1) (?s, m, ?h)" by simp
  have w: "idle ?h" "wire ?h = wire h @ [Sent ?v]"
    using idle_wireI [OF wire_send_word [OF g(1) resume_bit, of ?v]] g(2) by simp_all
  have pt: "nat (Pt ?s) = Suc (nat (Pt s))" using Suc.prems(2) by simp
  obtain s' h' where r: "wait_count arrives (IRQ_Handle pr b spi_isrs) (-1) (?s, m, ?h) = Some (s', m, h')"
    "wire_state h' = (None, wire ?h @ map Sent (take n (drop (nat (Pt ?s)) (pData ?s))) @ [Stop])" "silent ?h h'"
    using Suc.IH [of ?s ?h, OF _ _ _ _ w(1)] Suc.prems(1,2,4) pt by auto
  have "take (Suc n) (drop (nat (Pt s)) (pData s)) = ?v # take n (drop (Suc (nat (Pt s))) (pData s))"
    using i by (simp add: Cons_nth_drop_Suc [symmetric])
  moreover have "silent h h'" by (rule silent_trans [OF silent_wr32 [OF silent_wr32 [OF g(3)]] r(3)])
  ultimately show ?case using r(1,2) step w(2) pt by auto
qed

lemma wait_rx_all:
  assumes irqs: "iic_irqs b" and arr: "\<And>g. arrives g" and resp: "\<And>g. ucast (b g IICDS) = resp (wire g)"
  shows "Mode s = RDDATA \<Longrightarrow> 0 \<le> Pt s \<Longrightarrow> DataCount s = int (Suc n) \<Longrightarrow>
    nat (Pt s) + Suc n \<le> length (pData s) \<Longrightarrow> idle h \<Longrightarrow>
    \<exists>s' h' bs. wait_count arrives (IRQ_Handle pr b spi_isrs) 0 (s, m, h) = Some (s', m, h')
      \<and> pData s' = take (nat (Pt s)) (pData s) @ bs @ drop (nat (Pt s) + Suc n) (pData s)
      \<and> length bs = Suc n \<and> (\<forall>k < length bs. bs ! k = resp (wire h @ map Got (take k bs)))
      \<and> wire_state h' = (None, wire h @ map Got bs @ [Stop]) \<and> silent h h'"
proof (induction n arbitrary: s h)
  case 0
  obtain g where g: "idle g" "wire g = wire h" "silent h g"
    and e: "\<And>s m. IRQ_Handle pr b spi_isrs (s, m, h)
      = (if Mode s = WRDATA then iic_tx (s, m, g) else if Mode s = RDDATA then iic_rx b (s, m, g)
         else Some (s, m, g))"
    by (rule irq_enters [OF irqs 0(5)]) blast
  let ?v = "resp (wire h)"
  define g1 where "g1 = g @ [Rd32 IICDS (b g IICDS)]"
  have v: "ucast (b g IICDS) = ?v" using resp g(2) by simp
  have g1: "idle g1" "wire g1 = wire h @ [Got ?v]"
    using idle_wireI [OF wire_read_data [OF g(1), of "b g IICDS"]] g(2) v by (simp_all add: g1_def)
  let ?s = "s\<lparr>pData := (pData s)[nat (Pt s) := ?v], Pt := Pt s + 1, DataCount := 0\<rparr>"
    and ?h = "wr32 IICCON 0xaf (wr32 IICSTAT 0x90 g1)"
  have i: "nat (Pt s) < length (pData s)" using 0(4) by simp
  have "IRQ_Handle pr b spi_isrs (s, m, h) = Some (?s, m, ?h)"
    using 0(1-3) i v by (simp add: e iic_rx_def rd32_def Delay_returns flip: g1_def)
  from wait_count_step [where irq = "IRQ_Handle pr b spi_isrs" and h = h, OF _ arr this] 0(3)
  have "wait_count arrives (IRQ_Handle pr b spi_isrs) 0 (s, m, h) = Some (?s, m, ?h)"
    by (simp add: wait_count_done)
  moreover have "wire_state ?h = (None, wire h @ map Got [?v] @ [Stop])"
    using wire_stop_word [OF g1(1), of "0x90" "0xaf"] g1(2) by simp
  moreover have "pData ?s = take (nat (Pt s)) (pData s) @ [?v] @ drop (nat (Pt s) + Suc 0) (pData s)"
    using i by (simp add: upd_conv_take_nth_drop)
  moreover have "silent h ?h"
    unfolding g1_def by (intro silent_wr32 silent_trans [OF g(3)]) simp
  ultimately show ?case by (intro exI [of _ ?s] exI [of _ ?h] exI [of _ "[?v]"]) simp
next
  case (Suc n)
  obtain g where g: "idle g" "wire g = wire h" "silent h g"
    and e: "\<And>s m. IRQ_Handle pr b spi_isrs (s, m, h)
      = (if Mode s = WRDATA then iic_tx (s, m, g) else if Mode s = RDDATA then iic_rx b (s, m, g)
         else Some (s, m, g))"
    by (rule irq_enters [OF irqs Suc.prems(5)]) blast
  let ?v = "resp (wire h)"
  define g1 where "g1 = g @ [Rd32 IICDS (b g IICDS)]"
  have v: "ucast (b g IICDS) = ?v" using resp g(2) by simp
  have g1: "idle g1" "wire g1 = wire h @ [Got ?v]"
    using idle_wireI [OF wire_read_data [OF g(1), of "b g IICDS"]] g(2) v by (simp_all add: g1_def)
  define s1 where "s1 = s\<lparr>pData := (pData s)[nat (Pt s) := ?v], Pt := Pt s + 1, DataCount := int (Suc n)\<rparr>"
  define h1 where "h1 = wr32 IICCON (if int (Suc n) = 1 then 0x2f else 0xaf) g1"
  have i: "nat (Pt s) < length (pData s)" using Suc.prems(4) by simp
  have "IRQ_Handle pr b spi_isrs (s, m, h) = Some (s1, m, h1)"
    using Suc.prems(1-3) i v
    by (simp add: e iic_rx_def rd32_def s1_def h1_def flip: g1_def)
  from wait_count_step [where irq = "IRQ_Handle pr b spi_isrs" and h = h, OF _ arr this] Suc.prems(3)
  have step: "wait_count arrives (IRQ_Handle pr b spi_isrs) 0 (s, m, h)
      = wait_count arrives (IRQ_Handle pr b spi_isrs) 0 (s1, m, h1)" by simp
  have w: "idle h1" "wire h1 = wire h @ [Got ?v]"
    using idle_wireI [OF wire_con [OF g1(1)]] g1(2) by (simp_all add: h1_def)
  have pt: "nat (Pt s1) = Suc (nat (Pt s))" using Suc.prems(2) by (simp add: s1_def)
  have s1: "Mode s1 = RDDATA" "0 \<le> Pt s1" "DataCount s1 = int (Suc n)"
    "nat (Pt s1) + Suc n \<le> length (pData s1)"
    using Suc.prems(1,2,4) pt by (simp_all add: s1_def)
  obtain s' h' bs where r: "wait_count arrives (IRQ_Handle pr b spi_isrs) 0 (s1, m, h1) = Some (s', m, h')"
    "pData s' = take (nat (Pt s1)) (pData s1) @ bs @ drop (nat (Pt s1) + Suc n) (pData s1)"
    "length bs = Suc n" "\<forall>k < length bs. bs ! k = resp (wire h1 @ map Got (take k bs))"
    "wire_state h' = (None, wire h1 @ map Got bs @ [Stop])" "silent h1 h'"
    using Suc.IH [OF s1 w(1)] by blast
  have "pData s' = take (nat (Pt s)) (pData s) @ (?v # bs) @ drop (nat (Pt s) + Suc (Suc n)) (pData s)"
    using r(2) i by (simp add: pt) (simp add: s1_def take_Suc_update drop_update_cancel)
  moreover have "\<forall>k < length (?v # bs). (?v # bs) ! k = resp (wire h @ map Got (take k (?v # bs)))"
    using r(4) w(2) by (auto simp: less_Suc_eq_0_disj)
  moreover have "silent h h1"
    unfolding h1_def g1_def by (intro silent_wr32 silent_trans [OF g(3)]) simp
  then have "silent h h'" by (rule silent_trans [OF _ r(6)])
  ultimately show ?case
    using r(1,3,5) step w(2) by (intro exI [of _ s'] exI [of _ h'] exI [of _ "?v # bs"]) simp
qed

subsection \<open>The contract of the driver\<close>

text \<open>What a device driver needs: the traffic of a write and of a read, in order, and the answers of the
  device in the buffer, the last byte included; and printing that stays off the bus.  \<open>resp\<close> is the byte
  that the addressed device answers with after a log of traffic, \<open>out\<close> is what the console shows.\<close>

locale byte_port =
  fixes wr :: "u32 \<Rightarrow> u8 list \<Rightarrow> int \<Rightarrow> 's \<Rightarrow> 's option"
    and rd :: "u32 \<Rightarrow> u8 list \<Rightarrow> int \<Rightarrow> 's \<Rightarrow> (u8 list \<times> 's) option"
    and pr :: "u8 list \<Rightarrow> u32 list \<Rightarrow> 's \<Rightarrow> 's option"
    and log :: "'s \<Rightarrow> wire_event list"
    and out :: "'s \<Rightarrow> string"
    and resp :: "wire_event list \<Rightarrow> u8"
    and ok :: "'s \<Rightarrow> bool"
    and printed :: "u8 list \<Rightarrow> u32 list \<Rightarrow> string option"
  assumes wr_log: "ok s \<Longrightarrow> 0 \<le> len \<Longrightarrow> len \<le> int (length buf) \<Longrightarrow>
      \<exists>s'. wr a buf len s = Some s' \<and> ok s' \<and> out s' = out s
        \<and> log s' = log s @ [Start_tx (ucast a)] @ map Sent (take (nat len) buf) @ [Stop]"
    and rd_log: "ok s \<Longrightarrow> 1 \<le> len \<Longrightarrow> len \<le> int (length buf) \<Longrightarrow>
      \<exists>s' bs. rd a buf len s = Some (bs @ drop (nat len) buf, s') \<and> ok s' \<and> out s' = out s \<and> length bs = nat len
        \<and> (\<forall>k < length bs. bs ! k = resp (log s @ [Start_rx (ucast a)] @ map Got (take k bs)))
        \<and> log s' = log s @ [Start_rx (ucast a)] @ map Got bs @ [Stop]"
    and pr_ok: "ok s \<Longrightarrow> printed fmt args = Some t \<Longrightarrow>
      \<exists>s'. pr fmt args s = Some s' \<and> ok s' \<and> out s' = out s @ t \<and> log s' = log s"

definition iic_log :: "iic_world \<Rightarrow> wire_event list" where
  "iic_log w = wire (snd (snd w))"

definition iic_out :: "iic_world \<Rightarrow> string" where
  "iic_out w = uart_tx (snd (snd w))"

text \<open>The printer of the image: \<^verbatim>\<open>printf\<close> into the buffer at an address, sent by a character routine.\<close>

definition spi_printf :: "(u32 \<Rightarrow> hist \<Rightarrow> hist option) \<Rightarrow> u32 \<Rightarrow> printer" where
  "spi_printf putc outbuf fmt args mh = map_option snd (printf_lib putc outbuf fmt args mh)"

text \<open>The buffer of 1024 bytes lies in the store and away from its end; the text of a format fits it.\<close>

definition outbuf_ok :: "u32 \<Rightarrow> mem \<Rightarrow> bool" where
  "outbuf_ok buf m \<longleftrightarrow> buf \<noteq> 0 \<and> unat buf + 1024 < 2 ^ 31 \<and> room m buf 1024"

definition fmt_printed :: "u8 list \<Rightarrow> u32 list \<Rightarrow> string option" where
  "fmt_printed fmt args =
     (case format_text (\<lambda>_. None) fmt args of
        Some t \<Rightarrow> if length t < 1024 then Some (shown t) else None
      | None \<Rightarrow> None)"

lemma room_put: "room m p n \<Longrightarrow> room (put_bytes q bs m) p n"
  by (simp add: room_def put_bytes_def)

lemma room_le: "room m p n \<Longrightarrow> k \<le> n \<Longrightarrow> room m p k"
  by (simp add: room_def)

context char_sink begin

lemmas printf_lib_prints = printf_prints

lemma spi_printf_ok:
  assumes "fmt_printed fmt args = Some u" and "outbuf_ok buf m" and "ok h"
  shows "\<exists>m' h'. spi_printf putc buf fmt args (m, h) = Some (m', h')
    \<and> outbuf_ok buf m' \<and> ok h' \<and> out h' = out h @ u"
proof -
  from assms(1) obtain t where t: "format_text (\<lambda>_. None) fmt args = Some t" "length t < 1024" "u = shown t"
    by (auto simp: fmt_printed_def split: option.splits if_splits)
  have room: "room m buf (Suc (length t))"
    by (rule room_le [of m buf 1024]) (use assms(2) t(2) in \<open>simp_all add: outbuf_ok_def\<close>)
  have buf: "buf \<noteq> 0" "unat buf + length t < 2 ^ 31"
    using assms(2) t(2) by (simp_all add: outbuf_ok_def)
  from printf_prints [OF t(1) buf room no_strs assms(3)] obtain m' h' where
    p: "printf_lib putc buf fmt args (m, h) = Some (of_nat (length t), m', h')" "ok h'"
      "out h' = out h @ shown t" "m' = put_bytes buf (t @ [0]) m"
    by (elim exE conjE)
  have "outbuf_ok buf m'" using assms(2) by (simp add: p(4) outbuf_ok_def room_put)
  with t(3) p(1-3) show ?thesis by (simp add: spi_printf_def)
qed

end

definition lift_pr :: "printer \<Rightarrow> u8 list \<Rightarrow> u32 list \<Rightarrow> iic_world \<Rightarrow> iic_world option" where
  "lift_pr pr fmt args w = map_option (Pair (fst w)) (pr fmt args (snd w))"

text \<open>The driver on the board: interrupts arrive, the bus is not lost, the data register delivers the
  device's answers, no byte is half sent, and the console works.\<close>

definition iic_board ::
  "(hist \<Rightarrow> bool) \<Rightarrow> bus \<Rightarrow> (wire_event list \<Rightarrow> u8) \<Rightarrow> u32 \<Rightarrow> u8 list \<Rightarrow> iic_world \<Rightarrow> bool" where
  "iic_board arrives b resp outbuf ks w \<longleftrightarrow>
     (\<forall>g. arrives g) \<and> iic_irqs b \<and> (\<forall>g. ucast (b g IICDS) = resp (wire g))
     \<and> idle (snd (snd w)) \<and> outbuf_ok outbuf (fst (snd w)) \<and> console b (snd (snd w)) ks"

lemma quiet_wire_state: "quiet wire_state"
proof -
  have "wire_step (Rd32 UTRSTAT0 v) st = st" for v st by (cases st) simp
  then show ?thesis by (simp add: quiet_def wire_state_append)
qed

abbreviation spi_pr :: "bus \<Rightarrow> u32 \<Rightarrow> printer" where
  "spi_pr b outbuf \<equiv> spi_printf (putchar b) outbuf"

abbreviation spi_irq :: "bus \<Rightarrow> u32 \<Rightarrow> iic_world \<Rightarrow> iic_world option" where
  "spi_irq b outbuf \<equiv> IRQ_Handle (spi_pr b outbuf) b spi_isrs"

lemma board_pr:
  assumes "iic_board arrives b resp outbuf ks w" and "fmt_printed fmt args = Some t"
  shows "\<exists>w'. lift_pr (spi_pr b outbuf) fmt args w = Some w' \<and> iic_board arrives b resp outbuf ks w'
    \<and> iic_out w' = iic_out w @ t \<and> iic_log w' = iic_log w"
proof -
  obtain s m h where w: "w = (s, m, h)" by (cases w)
  have "console b h ks \<and> (quiet wire_state \<longrightarrow> wire_state h = wire_state h)" "outbuf_ok outbuf m"
    using assms(1) by (simp_all add: iic_board_def w)
  with assms(2) obtain m' h' where p: "spi_printf (putchar b) outbuf fmt args (m, h) = Some (m', h')"
    "outbuf_ok outbuf m'" "console b h' ks \<and> (quiet wire_state \<longrightarrow> wire_state h' = wire_state h)"
    "uart_tx h' = uart_tx h @ t"
    using con.spi_printf_ok [where ks = ks and view = wire_state and v = "wire_state h"] by blast
  then have "wire_state h' = wire_state h" using quiet_wire_state by simp
  then have "idle h' = idle h" "wire h' = wire h" by (simp_all add: idle_def wire_def)
  with p assms(1) show ?thesis by (simp add: lift_pr_def w iic_board_def iic_log_def iic_out_def)
qed

lemma port_write:
  assumes "iic_board arrives b resp outbuf ks w" and "0 \<le> len" and "len \<le> int (length buf)"
  shows "\<exists>w'. i2c_write arrives (spi_irq b outbuf) a buf len w = Some w'
    \<and> iic_board arrives b resp outbuf ks w' \<and> iic_out w' = iic_out w
    \<and> iic_log w' = iic_log w @ [Start_tx (ucast a)] @ map Sent (take (nat len) buf) @ [Stop]"
proof -
  obtain s m h where w: "w = (s, m, h)" by (cases w)
  have B: "iic_irqs b" "\<And>g. arrives g" "idle h" "outbuf_ok outbuf m" "console b h ks"
    using assms(1) by (simp_all add: iic_board_def w)
  let ?s = "s\<lparr>Mode := WRDATA, Pt := 0, pData := buf, DataCount := len\<rparr>"
  define g where "g = wr32 IICSTAT 0xf0 (wr32 IICDS a h)"
  have "wire_state g = (None, wire h @ [Start_tx (ucast a)])"
    using wire_state_idle [OF B(3)] by (simp add: g_def wire_simps)
  from idle_wireI [OF this] have g: "idle g" "wire g = wire h @ [Start_tx (ucast a)]" by auto
  have nl: "nat len \<le> length buf" using assms(3) by (simp add: nat_le_iff)
  obtain s' h' where r: "wait_count arrives (spi_irq b outbuf) (-1) (?s, m, g) = Some (s', m, h')"
    "wire_state h' = (None, wire g @ map Sent (take (nat len) buf) @ [Stop])" "silent g h'"
    using wait_tx_all [where arrives = arrives and s = ?s and n = "nat len" and h = g and pr = "spi_pr b outbuf" and m = m, OF B(1,2)] assms(2) g(1) nl by auto
  have "silent h g" unfolding g_def by (intro silent_wr32) simp
  from silent_console [OF silent_trans [OF this r(3)] B(5)]
  have c: "console b h' ks" "uart_tx h' = uart_tx h" by auto
  have "i2c_write arrives (spi_irq b outbuf) a buf len w = Some (s', m, h')"
    using r(1) by (simp add: i2c_write_def w g_def)
  then show ?thesis
    using assms(1) B c idle_wireI [OF r(2)] g(2) by (simp add: iic_board_def iic_log_def iic_out_def w)
qed

lemma port_read:
  assumes "iic_board arrives b resp outbuf ks w" and "1 \<le> len" and "len \<le> int (length buf)"
  shows "\<exists>w' bs. i2c_read arrives (spi_irq b outbuf) a buf len w = Some (bs @ drop (nat len) buf, w')
    \<and> iic_board arrives b resp outbuf ks w' \<and> iic_out w' = iic_out w
    \<and> length bs = nat len
    \<and> (\<forall>k < length bs. bs ! k = resp (iic_log w @ [Start_rx (ucast a)] @ map Got (take k bs)))
    \<and> iic_log w' = iic_log w @ [Start_rx (ucast a)] @ map Got bs @ [Stop]"
proof -
  obtain s m h where w: "w = (s, m, h)" by (cases w)
  have B: "iic_irqs b" "\<And>g. arrives g" "idle h" "outbuf_ok outbuf m" "console b h ks"
    "\<And>g. ucast (b g IICDS) = resp (wire g)"
    using assms(1) by (simp_all add: iic_board_def w)
  obtain n where n: "nat len = Suc n" using assms(2) by (cases "nat len") auto
  let ?s = "s\<lparr>Mode := RDDATA, Pt := -1, pData := buf, DataCount := len\<rparr>"
  define g where "g = wr32 IICSTAT 0xb0 (wr32 IICDS a h)"
  have "wire_state g = (None, wire h @ [Start_rx (ucast a)])"
    using wire_state_idle [OF B(3)] by (simp add: g_def wire_simps)
  from idle_wireI [OF this] have g: "idle g" "wire g = wire h @ [Start_rx (ucast a)]" by auto
  obtain f where f: "idle f" "wire f = wire g" "silent g f"
    and e: "\<And>s m. spi_irq b outbuf (s, m, g)
      = (if Mode s = WRDATA then iic_tx (s, m, f) else if Mode s = RDDATA then iic_rx b (s, m, f)
         else Some (s, m, f))"
    by (rule irq_enters [OF B(1) g(1)]) blast
  let ?s1 = "?s\<lparr>Pt := 0\<rparr>"
  define h1 where "h1 = wr32 IICCON (if len = 1 then 0x2f else 0xaf) f"
  have "spi_irq b outbuf (?s, m, g) = Some (?s1, m, h1)"
    by (simp add: e iic_rx_def h1_def)
  from wait_count_step [where arrives = arrives and irq = "spi_irq b outbuf" and h = g, OF _ B(2) this, of 0] assms(2)
  have first: "wait_count arrives (spi_irq b outbuf) 0 (?s, m, g)
      = wait_count arrives (spi_irq b outbuf) 0 (?s1, m, h1)" by simp
  have h1: "idle h1" "wire h1 = wire g"
    using idle_wireI [OF wire_con [OF f(1)]] f(2) by (simp_all add: h1_def)
  have s1: "Mode ?s1 = RDDATA" "0 \<le> Pt ?s1" "DataCount ?s1 = int (Suc n)"
    "nat (Pt ?s1) + Suc n \<le> length (pData ?s1)"
    using assms(2,3) n by simp_all
  obtain s' h' bs where r: "wait_count arrives (spi_irq b outbuf) 0 (?s1, m, h1) = Some (s', m, h')"
    "pData s' = bs @ drop (Suc n) buf" "length bs = Suc n"
    "\<forall>k < length bs. bs ! k = resp (wire h1 @ map Got (take k bs))"
    "wire_state h' = (None, wire h1 @ map Got bs @ [Stop])" "silent h1 h'"
    using wait_rx_all [where arrives = arrives and resp = resp and pr = "spi_pr b outbuf" and m = m, OF B(1,2,6) s1 h1(1)] by auto
  have "silent h g" unfolding g_def by (intro silent_wr32) simp
  moreover have "silent g h1" unfolding h1_def by (rule silent_wr32 [OF f(3)])
  ultimately have "silent h h'" by (blast intro: silent_trans r(6))
  from silent_console [OF this B(5)] have c: "console b h' ks" "uart_tx h' = uart_tx h" by auto
  have "i2c_read arrives (spi_irq b outbuf) a buf len w = Some (bs @ drop (nat len) buf, s', m, h')"
    using r(1,2) first n by (simp add: i2c_read_def w g_def)
  then show ?thesis
    using assms(1) B c idle_wireI [OF r(5)] g(2) h1(2) r(3,4) n
    by (intro exI [of _ "(s', m, h')"] exI [of _ bs]) (simp add: iic_board_def iic_log_def iic_out_def w)
qed

interpretation spi_iic: byte_port "i2c_write arrives (spi_irq b outbuf)" "i2c_read arrives (spi_irq b outbuf)"
  "lift_pr (spi_pr b outbuf)" iic_log iic_out resp "iic_board arrives b resp outbuf ks" fmt_printed
  for arrives b outbuf resp ks
proof unfold_locales
  fix w :: iic_world and a :: u32 and buf :: "u8 list" and len :: int and fmt :: "u8 list" and args :: "u32 list"
    and t :: string
  assume ok: "iic_board arrives b resp outbuf ks w"
  show "\<exists>s'. i2c_write arrives (spi_irq b outbuf) a buf len w = Some s' \<and> iic_board arrives b resp outbuf ks s'
      \<and> iic_out s' = iic_out w
      \<and> iic_log s' = iic_log w @ [Start_tx (ucast a)] @ map Sent (take (nat len) buf) @ [Stop]"
    if "0 \<le> len" "len \<le> int (length buf)"
    using port_write [OF ok that] by blast
  show "\<exists>s' bs. i2c_read arrives (spi_irq b outbuf) a buf len w = Some (bs @ drop (nat len) buf, s')
      \<and> iic_board arrives b resp outbuf ks s' \<and> iic_out s' = iic_out w \<and> length bs = nat len
      \<and> (\<forall>k < length bs. bs ! k = resp (iic_log w @ [Start_rx (ucast a)] @ map Got (take k bs)))
      \<and> iic_log s' = iic_log w @ [Start_rx (ucast a)] @ map Got bs @ [Stop]"
    if "1 \<le> len" "len \<le> int (length buf)"
    using port_read [OF ok that] by blast
  show "\<exists>s'. lift_pr (spi_pr b outbuf) fmt args w = Some s' \<and> iic_board arrives b resp outbuf ks s'
      \<and> iic_out s' = iic_out w @ t \<and> iic_log s' = iic_log w"
    if "fmt_printed fmt args = Some t"
    by (rule board_pr [OF ok that])
qed

end
