(* ===== verification/Rtc.thy ===== *)
theory Rtc
  imports Iic At24
begin

text \<open>
  The devices on the I2C bus of the SPI image: the clock chip M41T11 (\<^verbatim>\<open>m41t11.c\<close>) and the EEPROM
  (\<^verbatim>\<open>at24cxx.c\<close>), over any driver that keeps the contract of \<^verbatim>\<open>i2c.c\<close>.  Both chips are register files
  with an address counter, specified by what their data sheets say of the bus traffic.
\<close>

record rtc_time =
  tm_sec :: int
  tm_min :: int
  tm_hour :: int
  tm_wday :: int
  tm_mday :: int
  tm_mon :: int
  tm_year :: int
  tm_cs :: int

type_synonym 's wr_fun = "u32 \<Rightarrow> u8 list \<Rightarrow> int \<Rightarrow> 's \<Rightarrow> 's option"
type_synonym 's rd_fun = "u32 \<Rightarrow> u8 list \<Rightarrow> int \<Rightarrow> 's \<Rightarrow> (u8 list \<times> 's) option"
type_synonym 's pr_fun = "u8 list \<Rightarrow> u32 list \<Rightarrow> 's \<Rightarrow> 's option"

definition BCD_TO_BIN :: "u8 \<Rightarrow> int" where
  "BCD_TO_BIN val = uint (val AND 15) + uint (drop_bit 4 val) * 10"

definition BIN_TO_BCD :: "int \<Rightarrow> u8" where
  "BIN_TO_BCD val = word_of_int ((val sdiv 10) * 2 ^ 4 + val smod 10)"

definition days_in_mo :: "int list" where
  "days_in_mo = [0, 31, 28, 31, 30, 31, 30, 31, 31, 30, 31, 30, 31]"

text \<open>The packed structure of the address byte and the eight registers.\<close>

definition rtc_image :: "rtc_time \<Rightarrow> u8 list" where
  "rtc_image dt =
     [0, BIN_TO_BCD (tm_sec dt), BIN_TO_BCD (tm_min dt), BIN_TO_BCD (tm_hour dt),
      BIN_TO_BCD (tm_wday dt), BIN_TO_BCD (tm_mday dt), BIN_TO_BCD (tm_mon dt),
      BIN_TO_BCD (tm_year dt), 0]"

text \<open>The result is the returned value, the caller's structure, whose year the function changes, and the
  state.  The subtraction of the epoch is unsigned; its result is compared as an \<open>int\<close>.\<close>

definition m41t11_set_datetime :: "'s wr_fun \<Rightarrow> rtc_time \<Rightarrow> 's \<Rightarrow> (int \<times> rtc_time \<times> 's) option" where
  "m41t11_set_datetime wr dt s =
     (let leap_yr = (tm_year dt mod 4 = 0 \<and> tm_year dt mod 100 \<noteq> 0) \<or> tm_year dt mod 400 = 0
      in if tm_mon dt < 1 \<or> 12 < tm_mon dt \<or> tm_mday dt = 0 then Some (-1, dt, s)
         else if days_in_mo ! nat (tm_mon dt) + of_bool (tm_mon dt = 2 \<and> leap_yr) < tm_mday dt
           then Some (-2, dt, s)
         else if 24 \<le> tm_hour dt \<or> 60 \<le> tm_min dt \<or> 60 \<le> tm_sec dt then Some (-3, dt, s)
         else let dt = dt\<lparr>tm_year := sint (word_of_int (tm_year dt) - 2000 :: u32)\<rparr>
           in if 255 < tm_year dt then Some (-4, dt, s)
              else let dt = (if 100 \<le> tm_year dt then dt\<lparr>tm_year := tm_year dt - 100\<rparr> else dt)
                in do { s \<leftarrow> wr 0xD0 (rtc_image dt) 9 s; Some (0, dt, s) })"

definition m41t11_get_datetime ::
  "'s wr_fun \<Rightarrow> 's rd_fun \<Rightarrow> rtc_time \<Rightarrow> 's \<Rightarrow> (int \<times> rtc_time \<times> 's) option" where
  "m41t11_get_datetime wr rd dt s = do {
     s \<leftarrow> wr 0xD0 [0] 1 s;
     (r, s) \<leftarrow> rd 0xD0 (replicate 8 0) 8 s;
     let dt = dt\<lparr>tm_year := 2000\<rparr>;
     Some (0,
       dt\<lparr>tm_sec := BCD_TO_BIN (r ! 0 AND 0x7f),
          tm_min := BCD_TO_BIN (r ! 1 AND 0x7f),
          tm_hour := BCD_TO_BIN (r ! 2 AND 0x3f),
          tm_wday := BCD_TO_BIN (r ! 3 AND 0x07),
          tm_mday := BCD_TO_BIN (r ! 4 AND 0x3f),
          tm_mon := BCD_TO_BIN (r ! 5 AND 0x1f),
          tm_year := tm_year dt + BCD_TO_BIN (r ! 6 AND 0xff)\<rparr>, s)
   }"

text \<open>The variable that the read fills is not initialised: its value is the argument \<open>junk\<close>.\<close>

definition crlf_bytes :: "u8 list" where
  "crlf_bytes = [13, 10]"

definition at24_read :: "'s wr_fun \<Rightarrow> 's rd_fun \<Rightarrow> 's pr_fun \<Rightarrow> u8 \<Rightarrow> u8 \<Rightarrow> 's \<Rightarrow> (u8 \<times> 's) option" where
  "at24_read wr rd pr junk address s = do {
     s \<leftarrow> pr (text_bytes ''at24cxx_read address = %d'' @ crlf_bytes) [ucast address] s;
     s \<leftarrow> wr 0xA0 [address] 1 s;
     s \<leftarrow> pr (text_bytes ''at24cxx_read send address ok'' @ crlf_bytes) [] s;
     (val, s) \<leftarrow> rd 0xA0 [junk] 1 s;
     s \<leftarrow> pr (text_bytes ''at24cxx_read get data ok'' @ crlf_bytes) [] s;
     Some (val ! 0, s)
   }"

definition at24_write :: "'s wr_fun \<Rightarrow> u8 \<Rightarrow> u8 \<Rightarrow> 's \<Rightarrow> 's option" where
  "at24_write wr address data s = wr 0xA0 [address, data] 2 s"

subsection \<open>The chips\<close>

text \<open>A register file at a bus address.  The direction of a transfer is that of the start condition, which
  the controller takes from the mode in its status register, whatever the lowest bit of the address
  byte says.\<close>

fun chip_step :: "u8 \<Rightarrow> wire_event \<Rightarrow> eeprom \<Rightarrow> eeprom" where
  "chip_step d (Start_tx a) e = e\<lparr>ee_mode := (if a AND 0xFE = d then Ee_addr else Ee_idle)\<rparr>"
| "chip_step d (Start_rx a) e = e\<lparr>ee_mode := (if a AND 0xFE = d then Ee_read else Ee_idle)\<rparr>"
| "chip_step d ev e = ee_step ev e"

definition chip_run :: "u8 \<Rightarrow> (u8 \<Rightarrow> u8) \<Rightarrow> wire_event list \<Rightarrow> eeprom" where
  "chip_run d m0 log = fold (chip_step d) log \<lparr>ee_mem = m0, ee_ptr = None, ee_mode = Ee_idle\<rparr>"

definition chip_answers :: "u8 \<Rightarrow> (u8 \<Rightarrow> u8) \<Rightarrow> (wire_event list \<Rightarrow> u8) \<Rightarrow> bool" where
  "chip_answers d m0 resp \<longleftrightarrow>
     (\<forall>log p. ee_mode (chip_run d m0 log) = Ee_read \<longrightarrow> ee_ptr (chip_run d m0 log) = Some p
        \<longrightarrow> resp log = ee_mem (chip_run d m0 log) p)"

abbreviation chip_mem :: "u8 \<Rightarrow> (u8 \<Rightarrow> u8) \<Rightarrow> wire_event list \<Rightarrow> u8 \<Rightarrow> u8" where
  "chip_mem d m0 log \<equiv> ee_mem (chip_run d m0 log)"

lemma chip_run_append: "chip_run d m0 (l @ es) = fold (chip_step d) es (chip_run d m0 l)"
  by (simp add: chip_run_def)

lemma chip_stores:
  "ee_mode e = Ee_write \<Longrightarrow> ee_ptr e = Some p \<Longrightarrow>
   fold (chip_step d) (map Sent vs) e
    = e\<lparr>ee_mem := store_at p vs (ee_mem e), ee_ptr := Some (p + of_nat (length vs))\<rparr>"
proof (induction vs arbitrary: e p)
  case (Cons v vs)
  from Cons.IH [of "e\<lparr>ee_mem := (ee_mem e)(p := v), ee_ptr := Some (p + 1)\<rparr>" "p + 1"] Cons.prems
  show ?case by (simp add: add.assoc fun_upd_def)
qed simp

lemma chip_write_frame:
  assumes "a AND 0xFE = d"
  shows "chip_run d m0 (l @ [Start_tx a] @ map Sent (p # vs) @ [Stop])
    = (chip_run d m0 l)\<lparr>ee_mem := store_at p vs (chip_mem d m0 l),
        ee_ptr := Some (p + of_nat (length vs)), ee_mode := Ee_idle\<rparr>"
  using assms chip_stores [of "(chip_run d m0 l)\<lparr>ee_ptr := Some p, ee_mode := Ee_write\<rparr>" p d vs]
  by (simp add: chip_run_append)

lemma chip_gots:
  "ee_mode e = Ee_read \<Longrightarrow> ee_ptr e = Some p \<Longrightarrow>
   fold (chip_step d) (map Got bs) e = e\<lparr>ee_ptr := Some (p + of_nat (length bs))\<rparr>"
proof (induction bs arbitrary: e p)
  case (Cons b bs)
  from Cons.IH [of "e\<lparr>ee_ptr := Some (p + 1)\<rparr>" "p + 1"] Cons.prems show ?case
    by (simp add: add.assoc)
qed simp

text \<open>A read frame delivers the registers from the counter on and leaves the memory.\<close>

lemma chip_read_frame:
  assumes "a AND 0xFE = d" and "ee_ptr (chip_run d m0 l) = Some p" and "chip_answers d m0 resp"
    and "\<forall>k < length bs. bs ! k = resp (l @ [Start_rx a] @ map Got (take k bs))"
  shows "bs = map (\<lambda>k. chip_mem d m0 l (p + of_nat k)) [0..<length bs]"
    and "chip_mem d m0 (l @ [Start_rx a] @ map Got bs @ [Stop]) = chip_mem d m0 l"
proof -
  let ?e = "(chip_run d m0 l)\<lparr>ee_mode := Ee_read\<rparr>"
  have run: "chip_run d m0 (l @ [Start_rx a] @ map Got cs) = ?e\<lparr>ee_ptr := Some (p + of_nat (length cs))\<rparr>" for cs
    using assms(1,2) chip_gots [of ?e p d cs] by (simp add: chip_run_append)
  show "bs = map (\<lambda>k. chip_mem d m0 l (p + of_nat k)) [0..<length bs]"
  proof (rule nth_equalityI)
    fix k assume k: "k < length bs"
    with run [of "take k bs"] assms(3)
    have "resp (l @ [Start_rx a] @ map Got (take k bs)) = chip_mem d m0 l (p + of_nat k)"
      by (simp add: chip_answers_def)
    with assms(4) k show "bs ! k = map (\<lambda>k. chip_mem d m0 l (p + of_nat k)) [0..<length bs] ! k" by simp
  qed simp
  show "chip_mem d m0 (l @ [Start_rx a] @ map Got bs @ [Stop]) = chip_mem d m0 l"
    using run [of bs] by (simp add: chip_run_append)
qed

subsection \<open>Binary coded decimals\<close>

lemma BCD_parts:
  assumes "0 \<le> v" and "v < 100"
  shows "BIN_TO_BCD v = word_of_int (16 * (v div 10) + v mod 10)"
    and "0 \<le> 16 * (v div 10) + v mod 10" and "16 * (v div 10) + v mod 10 < 256"
  using assms by (simp_all add: BIN_TO_BCD_def signed_divide_int_def signed_modulo_int_def sgn_if mult.commute)

lemma BCD_round_all:
  "list_all (\<lambda>v. BCD_TO_BIN (BIN_TO_BCD v) = v) [0..99]"
  "list_all (\<lambda>v. BIN_TO_BCD v AND 0x7f = BIN_TO_BCD v) [0..79]"
  "list_all (\<lambda>v. BIN_TO_BCD v AND 0x3f = BIN_TO_BCD v) [0..39]"
  "list_all (\<lambda>v. BIN_TO_BCD v AND 0x1f = BIN_TO_BCD v) [0..19]"
  "list_all (\<lambda>v. BIN_TO_BCD v AND 0x07 = BIN_TO_BCD v) [0..7]"
  by code_simp+

lemma list_all_upto: "list_all P [a..b] \<Longrightarrow> a \<le> v \<Longrightarrow> v \<le> b \<Longrightarrow> P v"
  by (simp add: list_all_iff)

lemma BCD_round: "0 \<le> v \<Longrightarrow> v < 100 \<Longrightarrow> BCD_TO_BIN (BIN_TO_BCD v) = v"
  using list_all_upto [OF BCD_round_all(1), of v] by simp

lemma BCD_masks:
  "0 \<le> v \<Longrightarrow> v < 80 \<Longrightarrow> BIN_TO_BCD v AND 0x7f = BIN_TO_BCD v"
  "0 \<le> v \<Longrightarrow> v < 40 \<Longrightarrow> BIN_TO_BCD v AND 0x3f = BIN_TO_BCD v"
  "0 \<le> v \<Longrightarrow> v < 20 \<Longrightarrow> BIN_TO_BCD v AND 0x1f = BIN_TO_BCD v"
  "0 \<le> v \<Longrightarrow> v < 8 \<Longrightarrow> BIN_TO_BCD v AND 0x07 = BIN_TO_BCD v"
  using list_all_upto [OF BCD_round_all(2), of v] list_all_upto [OF BCD_round_all(3), of v]
    list_all_upto [OF BCD_round_all(4), of v] list_all_upto [OF BCD_round_all(5), of v] by simp_all

text \<open>A date of the years 2000 to 2099 with every field in its range.\<close>

definition month_days :: "int \<Rightarrow> int \<Rightarrow> int" where
  "month_days y mon =
     (if mon = 2 then (if (y mod 4 = 0 \<and> y mod 100 \<noteq> 0) \<or> y mod 400 = 0 then 29 else 28)
      else if mon \<in> {4, 6, 9, 11} then 30 else 31)"

definition rtc_valid :: "rtc_time \<Rightarrow> bool" where
  "rtc_valid dt \<longleftrightarrow>
     0 \<le> tm_sec dt \<and> tm_sec dt < 60 \<and> 0 \<le> tm_min dt \<and> tm_min dt < 60 \<and> 0 \<le> tm_hour dt \<and> tm_hour dt < 24
     \<and> 0 \<le> tm_wday dt \<and> tm_wday dt < 8 \<and> 1 \<le> tm_mon dt \<and> tm_mon dt \<le> 12
     \<and> 1 \<le> tm_mday dt \<and> tm_mday dt \<le> month_days (tm_year dt) (tm_mon dt)
     \<and> 2000 \<le> tm_year dt \<and> tm_year dt < 2100"

lemma twelve_cases:
  "1 \<le> (m :: int) \<Longrightarrow> m \<le> 12 \<Longrightarrow>
   m = 1 \<or> m = 2 \<or> m = 3 \<or> m = 4 \<or> m = 5 \<or> m = 6 \<or> m = 7 \<or> m = 8 \<or> m = 9 \<or> m = 10 \<or> m = 11 \<or> m = 12"
  by presburger

lemma month_days_table:
  assumes "1 \<le> m" and "m \<le> 12"
  shows "days_in_mo ! nat m + of_bool (m = 2 \<and> ((y mod 4 = 0 \<and> y mod 100 \<noteq> 0) \<or> y mod 400 = 0))
    = month_days y m"
  using twelve_cases [OF assms] by (elim disjE) (simp_all add: days_in_mo_def month_days_def)

lemma month_days_le: "month_days y m \<le> 31"
  by (simp add: month_days_def)

lemma epoch_word:
  assumes "2000 \<le> y" and "y < 2 ^ 31"
  shows "sint (word_of_int y - 2000 :: u32) = y - 2000"
proof -
  have "(word_of_int y - 2000 :: u32) = word_of_int (y - 2000)" by simp
  moreover have "sint (word_of_int (y - 2000) :: u32) = y - 2000"
    unfolding sint_sbintrunc' using assms by (intro signed_take_bit_int_eq_self) simp_all
  ultimately show ?thesis by (simp only:)
qed

lemma set_valid:
  assumes "rtc_valid dt"
  shows "m41t11_set_datetime wr dt s = map_option (\<lambda>s'. (0, dt\<lparr>tm_year := tm_year dt - 2000\<rparr>, s'))
    (wr 0xD0 (rtc_image (dt\<lparr>tm_year := tm_year dt - 2000\<rparr>)) 9 s)"
proof -
  have e: "sint (word_of_int (tm_year dt) - 2000 :: u32) = tm_year dt - 2000"
    using assms by (intro epoch_word) (simp_all add: rtc_valid_def)
  have m: "1 \<le> tm_mon dt" "tm_mon dt \<le> 12" using assms by (simp_all add: rtc_valid_def)
  show ?thesis
    using assms unfolding m41t11_set_datetime_def Let_def month_days_table [OF m] e
    by (simp add: rtc_valid_def map_option_case bind_eq_Some_conv split: Option.bind_splits option.splits)
qed


context byte_port begin

subsection \<open>The drivers over any port\<close>

lemma store_frame:
  assumes "ok s" and "ucast a AND 0xFE = d" and "length vs < 2 ^ 31"
  shows "\<exists>s'. wr a (p # vs) (int (Suc (length vs))) s = Some s' \<and> ok s' \<and> out s' = out s
    \<and> chip_mem d m0 (log s') = store_at p vs (chip_mem d m0 (log s))
    \<and> ee_ptr (chip_run d m0 (log s')) = Some (p + of_nat (length vs))"
proof -
  from wr_log [OF assms(1), of "int (Suc (length vs))" "p # vs" a] obtain s' where
    w: "wr a (p # vs) (int (Suc (length vs))) s = Some s'" "ok s'" "out s' = out s"
      "log s' = log s @ [Start_tx (ucast a)] @ map Sent (p # vs) @ [Stop]" by auto
  with chip_write_frame [of "ucast a" d m0 "log s" p vs, OF assms(2)] show ?thesis by simp
qed

lemma fetch_frame:
  assumes "ok s" and "ucast a AND 0xFE = d" and "ee_ptr (chip_run d m0 (log s)) = Some p"
    and "chip_answers d m0 resp" and "buf \<noteq> []"
  shows "\<exists>s'. rd a buf (int (length buf)) s
      = Some (map (\<lambda>k. chip_mem d m0 (log s) (p + of_nat k)) [0..<length buf], s') \<and> ok s' \<and> out s' = out s
    \<and> chip_mem d m0 (log s') = chip_mem d m0 (log s)"
proof -
  from assms(5) have "1 \<le> int (length buf)" by (cases buf) simp_all
  from rd_log [OF assms(1) this, of buf a] obtain s' bs where
    r: "rd a buf (int (length buf)) s = Some (bs, s')" "ok s'" "out s' = out s" "length bs = length buf"
      "\<forall>k < length bs. bs ! k = resp (log s @ [Start_rx (ucast a)] @ map Got (take k bs))"
      "log s' = log s @ [Start_rx (ucast a)] @ map Got bs @ [Stop]" by auto
  from chip_read_frame [OF assms(2-4) r(5)] r(1-4,6) show ?thesis by auto
qed

lemma set_writes:
  assumes "ok s" and "rtc_valid dt"
  shows "\<exists>s'. m41t11_set_datetime wr dt s = Some (0, dt\<lparr>tm_year := tm_year dt - 2000\<rparr>, s') \<and> ok s'
    \<and> chip_mem 0xD0 m0 (log s')
      = store_at 0 (tl (rtc_image (dt\<lparr>tm_year := tm_year dt - 2000\<rparr>))) (chip_mem 0xD0 m0 (log s))"
proof -
  let ?d = "dt\<lparr>tm_year := tm_year dt - 2000\<rparr>"
  have img: "rtc_image ?d = 0 # tl (rtc_image ?d)" "length (tl (rtc_image ?d)) = 8"
    by (simp_all add: rtc_image_def)
  from store_frame [OF assms(1), where a = "0xD0" and d = "0xD0" and p = 0 and vs = "tl (rtc_image ?d)" and ?m0.0 = m0]
    img(2) obtain s' where
    w: "wr 0xD0 (0 # tl (rtc_image ?d)) 9 s = Some s'" "ok s'"
      "chip_mem 0xD0 m0 (log s') = store_at 0 (tl (rtc_image ?d)) (chip_mem 0xD0 m0 (log s))" by auto
  from w(1) img(1) have "wr 0xD0 (rtc_image ?d) 9 s = Some s'" by simp
  with w(2,3) set_valid [OF assms(2), of wr s] show ?thesis by simp
qed

text \<open>The time is read from the first eight registers, and reading leaves them.\<close>

lemma get_reads:
  assumes "ok s" and "chip_answers 0xD0 m0 resp"
  shows "\<exists>s'. m41t11_get_datetime wr rd dt s
    = (let r = chip_mem 0xD0 m0 (log s)
       in Some (0, dt\<lparr>tm_sec := BCD_TO_BIN (r 0 AND 0x7f), tm_min := BCD_TO_BIN (r 1 AND 0x7f),
            tm_hour := BCD_TO_BIN (r 2 AND 0x3f), tm_wday := BCD_TO_BIN (r 3 AND 0x07),
            tm_mday := BCD_TO_BIN (r 4 AND 0x3f), tm_mon := BCD_TO_BIN (r 5 AND 0x1f),
            tm_year := 2000 + BCD_TO_BIN (r 6)\<rparr>, s'))
    \<and> ok s' \<and> chip_mem 0xD0 m0 (log s') = chip_mem 0xD0 m0 (log s)"
proof -
  from store_frame [OF assms(1), where a = "0xD0" and d = "0xD0" and p = 0 and vs = "[]" and ?m0.0 = m0]
  obtain s1 where w: "wr 0xD0 [0] 1 s = Some s1" "ok s1" "chip_mem 0xD0 m0 (log s1) = chip_mem 0xD0 m0 (log s)"
    "ee_ptr (chip_run 0xD0 m0 (log s1)) = Some 0" by auto
  from fetch_frame [where a = "0xD0" and buf = "replicate 8 0", OF w(2) _ w(4) assms(2)] w(3)
  obtain s2 where r: "rd 0xD0 (replicate 8 0) 8 s1
      = Some (map (\<lambda>k. chip_mem 0xD0 m0 (log s) (of_nat k)) [0..<8], s2)" "ok s2"
    "chip_mem 0xD0 m0 (log s2) = chip_mem 0xD0 m0 (log s)" by auto
  have "(0xff :: u8) = - 1" by simp
  then have ff: "v AND 0xff = v" for v :: u8 by (simp only: and.right_neutral)
  have eq: "m41t11_get_datetime wr rd dt s
    = (let r = chip_mem 0xD0 m0 (log s)
       in Some (0, dt\<lparr>tm_sec := BCD_TO_BIN (r 0 AND 0x7f), tm_min := BCD_TO_BIN (r 1 AND 0x7f),
            tm_hour := BCD_TO_BIN (r 2 AND 0x3f), tm_wday := BCD_TO_BIN (r 3 AND 0x07),
            tm_mday := BCD_TO_BIN (r 4 AND 0x3f), tm_mon := BCD_TO_BIN (r 5 AND 0x1f),
            tm_year := 2000 + BCD_TO_BIN (r 6)\<rparr>, s2))"
    unfolding m41t11_get_datetime_def w(1) Option.bind.simps r(1) prod.case Let_def
    by (simp add: ff)
  show ?thesis by (intro exI [of _ s2] conjI eq r(2,3))
qed

lemma set_get:
  assumes "ok s" and "chip_answers 0xD0 m0 resp" and "rtc_valid dt"
  shows "\<exists>s1 s2. m41t11_set_datetime wr dt s = Some (0, dt\<lparr>tm_year := tm_year dt - 2000\<rparr>, s1)
    \<and> m41t11_get_datetime wr rd old s1 = Some (0, dt\<lparr>tm_cs := tm_cs old\<rparr>, s2) \<and> ok s2"
proof -
  from set_writes [OF assms(1,3), of m0] obtain s1 where
    w: "m41t11_set_datetime wr dt s = Some (0, dt\<lparr>tm_year := tm_year dt - 2000\<rparr>, s1)" "ok s1"
      "chip_mem 0xD0 m0 (log s1) = store_at 0 (tl (rtc_image (dt\<lparr>tm_year := tm_year dt - 2000\<rparr>)))
        (chip_mem 0xD0 m0 (log s))" by blast
  let ?b = "BIN_TO_BCD"
  have regs: "chip_mem 0xD0 m0 (log s1) 0 = ?b (tm_sec dt)" "chip_mem 0xD0 m0 (log s1) 1 = ?b (tm_min dt)"
    "chip_mem 0xD0 m0 (log s1) 2 = ?b (tm_hour dt)" "chip_mem 0xD0 m0 (log s1) 3 = ?b (tm_wday dt)"
    "chip_mem 0xD0 m0 (log s1) 4 = ?b (tm_mday dt)" "chip_mem 0xD0 m0 (log s1) 5 = ?b (tm_mon dt)"
    "chip_mem 0xD0 m0 (log s1) 6 = ?b (tm_year dt - 2000)"
    by (simp_all add: w(3) rtc_image_def)
  from get_reads [OF w(2) assms(2), of old] obtain s2 where g:
    "m41t11_get_datetime wr rd old s1
      = Some (0, old\<lparr>tm_sec := tm_sec dt, tm_min := tm_min dt, tm_hour := tm_hour dt, tm_wday := tm_wday dt,
          tm_mday := tm_mday dt, tm_mon := tm_mon dt, tm_year := tm_year dt\<rparr>, s2)" "ok s2"
    using assms(3) month_days_le [of "tm_year dt" "tm_mon dt"]
    by (auto simp: Let_def regs BCD_masks BCD_round rtc_valid_def)
  have "old\<lparr>tm_sec := tm_sec dt, tm_min := tm_min dt, tm_hour := tm_hour dt, tm_wday := tm_wday dt,
      tm_mday := tm_mday dt, tm_mon := tm_mon dt, tm_year := tm_year dt\<rparr> = dt\<lparr>tm_cs := tm_cs old\<rparr>"
    by simp
  with w(1) g show ?thesis by simp
qed

text \<open>Storing a byte and reading it back; the text that is printed fits the buffer of \<^verbatim>\<open>printf\<close>.\<close>

lemma at24_stores:
  assumes "ok s"
  shows "\<exists>s'. at24_write wr address data s = Some s' \<and> ok s' \<and> out s' = out s
    \<and> chip_mem 0xA0 m0 (log s') = (chip_mem 0xA0 m0 (log s))(address := data)"
  using store_frame [OF assms, where a = "0xA0" and d = "0xA0" and p = address and vs = "[data]" and ?m0.0 = m0]
  by (auto simp: at24_write_def)

lemma at24_reads:
  assumes "ok s" and "chip_answers 0xA0 m0 resp"
    and "printed (text_bytes ''at24cxx_read address = %d'' @ crlf_bytes) [ucast address] = Some t1"
      "printed (text_bytes ''at24cxx_read send address ok'' @ crlf_bytes) [] = Some t2"
      "printed (text_bytes ''at24cxx_read get data ok'' @ crlf_bytes) [] = Some t3"
  shows "\<exists>s'. at24_read wr rd pr junk address s = Some (chip_mem 0xA0 m0 (log s) address, s') \<and> ok s'
    \<and> out s' = out s @ t1 @ t2 @ t3 \<and> chip_mem 0xA0 m0 (log s') = chip_mem 0xA0 m0 (log s)"
proof -
  from pr_ok [OF assms(1,3)] obtain s1 where
    p1: "pr (text_bytes ''at24cxx_read address = %d'' @ crlf_bytes) [ucast address] s = Some s1" "ok s1"
      "out s1 = out s @ t1" "log s1 = log s"
    by blast
  from store_frame [OF p1(2), where a = "0xA0" and d = "0xA0" and p = address and vs = "[]" and ?m0.0 = m0] p1(4)
  obtain s2 where w: "wr 0xA0 [address] 1 s1 = Some s2" "ok s2" "out s2 = out s1"
    "chip_mem 0xA0 m0 (log s2) = chip_mem 0xA0 m0 (log s)"
    "ee_ptr (chip_run 0xA0 m0 (log s2)) = Some address" by auto
  from pr_ok [OF w(2) assms(4)] obtain s3 where
    p2: "pr (text_bytes ''at24cxx_read send address ok'' @ crlf_bytes) [] s2 = Some s3" "ok s3"
      "out s3 = out s2 @ t2" "log s3 = log s2"
    by blast
  from fetch_frame [where a = "0xA0" and buf = "[junk]" and p = address, OF p2(2) _ _ assms(2)] w(4,5) p2(4)
  obtain s4 where r: "rd 0xA0 [junk] 1 s3 = Some ([chip_mem 0xA0 m0 (log s) address], s4)" "ok s4"
    "out s4 = out s3" "chip_mem 0xA0 m0 (log s4) = chip_mem 0xA0 m0 (log s)" by auto
  from pr_ok [OF r(2) assms(5)] obtain s5 where
    p3: "pr (text_bytes ''at24cxx_read get data ok'' @ crlf_bytes) [] s4 = Some s5" "ok s5"
      "out s5 = out s4 @ t3" "log s5 = log s4"
    by blast
  from p1 w p2 r p3 show ?thesis by (simp add: at24_read_def)
qed

end

subsection \<open>On the board\<close>

text \<open>A board with one chip, whose console user types the given characters.\<close>

definition chip_resp :: "u8 \<Rightarrow> (u8 \<Rightarrow> u8) \<Rightarrow> wire_event list \<Rightarrow> u8" where
  "chip_resp d m0 log = (case ee_ptr (chip_run d m0 log) of None \<Rightarrow> 0 | Some p \<Rightarrow> chip_mem d m0 log p)"

definition regs_bus :: "u8 \<Rightarrow> (u8 \<Rightarrow> u8) \<Rightarrow> u8 list \<Rightarrow> bus" where
  "regs_bus d m0 ks h a =
     (if a = INTOFFSET then 27 else if a = IICSTAT then 0
      else if a = IICDS then ucast (chip_resp d m0 (wire h)) else typist ks h a)"

definition spi_start :: iic_world where
  "spi_start = (\<lparr>pData = [], DataCount = 0, Status = 0, Mode = 0, Pt = 0\<rparr>, \<lambda>_. Some 0, [])"

lemma chip_resp_answers: "chip_answers d m0 (chip_resp d m0)"
  by (simp add: chip_answers_def chip_resp_def)

lemma console_typing:
  assumes "\<And>h. b h UTRSTAT0 = - 1" and "\<And>h. b h URXH0 = ucast (ks ! rx_count h)"
  shows "console b [] ks"
proof -
  have "(ucast (ucast (k :: u8) :: u32) :: u8) = k" for k by simp
  with assms show ?thesis
    by (auto simp: console_def typing_def tx_live_def live_def intro!: exI [of _ 0])
qed

lemma console_regs_bus: "console (regs_bus d m0 ks) [] ks"
  by (rule console_typing) (simp_all add: regs_bus_def typist_def)

lemma chip_board: "iic_board (\<lambda>_. True) (regs_bus d m0 ks) (chip_resp d m0) 0x1000 ks spi_start"
  using console_regs_bus
  by (simp add: iic_board_def spi_start_def iic_irqs_def outbuf_ok_def room_def idle_def wire_state_def)
    (simp add: regs_bus_def)

text \<open>C30: setting the clock chip to any valid date and time of the years 2000 to 2099 and reading it, while
  it stands, gives that date and time, through the packed structure, the BCD registers, the interrupts
  and the bus; setting changes the year of the caller's structure.\<close>

lemma rtc_set_get:
  assumes "iic_board arrives b resp outbuf ks w" and "chip_answers 0xD0 m0 resp" and "rtc_valid dt"
  shows "\<exists>w1 w2. m41t11_set_datetime (i2c_write arrives (spi_irq b outbuf)) dt w
      = Some (0, dt\<lparr>tm_year := tm_year dt - 2000\<rparr>, w1)
    \<and> m41t11_get_datetime (i2c_write arrives (spi_irq b outbuf)) (i2c_read arrives (spi_irq b outbuf)) old w1
      = Some (0, dt\<lparr>tm_cs := tm_cs old\<rparr>, w2)"
  using spi_iic.set_get [OF assms] by blast

abbreviation new_year_eve :: rtc_time where
  "new_year_eve \<equiv> \<lparr>tm_sec = 59, tm_min = 59, tm_hour = 23, tm_wday = 5, tm_mday = 31, tm_mon = 12,
     tm_year = 2019, tm_cs = 0\<rparr>"

lemma rtc_set_get_witness:
  "\<exists>w1 w2. m41t11_set_datetime (i2c_write (\<lambda>_. True) (spi_irq (regs_bus 0xD0 (\<lambda>_. 0) []) 0x1000)) new_year_eve spi_start
      = Some (0, new_year_eve\<lparr>tm_year := 19\<rparr>, w1)
    \<and> m41t11_get_datetime (i2c_write (\<lambda>_. True) (spi_irq (regs_bus 0xD0 (\<lambda>_. 0) []) 0x1000))
        (i2c_read (\<lambda>_. True) (spi_irq (regs_bus 0xD0 (\<lambda>_. 0) []) 0x1000)) (new_year_eve\<lparr>tm_mon := 0, tm_year := 0\<rparr>) w1
      = Some (0, new_year_eve, w2)"
  using rtc_set_get [OF chip_board [of "0xD0" "\<lambda>_. 0" "[]"] chip_resp_answers, of new_year_eve
      "new_year_eve\<lparr>tm_mon := 0, tm_year := 0\<rparr>"]
  by (simp add: rtc_valid_def month_days_def)

text \<open>The range check of the year compares a signed value: a year before 2000 is accepted, and its register
  holds no decimal digits; a year of the next century is accepted and stored as one of this.\<close>

lemma rtc_early_year:
  "m41t11_set_datetime wr (new_year_eve\<lparr>tm_year := 1999\<rparr>) s
    = map_option (\<lambda>s'. (0, new_year_eve\<lparr>tm_year := - 1\<rparr>, s'))
        (wr 0xD0 [0, 0x59, 0x59, 0x23, 5, 0x31, 0x12, - 1, 0] 9 s)"
  by (cases "wr 0xD0 [0, 0x59, 0x59, 0x23, 5, 0x31, 0x12, - 1, 0] 9 s")
    (simp_all add: m41t11_set_datetime_def days_in_mo_def rtc_image_def BIN_TO_BCD_def
      signed_divide_int_def signed_modulo_int_def sgn_if)

lemma rtc_late_year:
  "m41t11_set_datetime wr (new_year_eve\<lparr>tm_year := 2119\<rparr>) s = m41t11_set_datetime wr new_year_eve s"
  by (simp add: m41t11_set_datetime_def days_in_mo_def)

end
