(* ===== verification/Spi.thy ===== *)
theory Spi
  imports Soc
begin

text \<open>
  The bit-banged SPI master, the OLED display and the SPI flash of
  \<^verbatim>\<open>bare_board/code/SPI/code/01th_spi_i2c_adc_jz2440_oled_020_002\<close>: \<^verbatim>\<open>gpio_spi.c\<close>, \<^verbatim>\<open>oled.c\<close> and
  \<^verbatim>\<open>spi_flash.c\<close>.  The devices are specified by what they see of the stores to the two ports: \<open>spi_step\<close>
  samples the data line at the rising edges of the clock and hands whole bytes to the display
  controller.  The glyphs of \<^verbatim>\<open>oledfont.h\<close> are the argument \<open>font\<close>.
\<close>

subsection \<open>The bus master\<close>

definition SPI_GPIO_Init :: "bus \<Rightarrow> hist \<Rightarrow> hist" where
  "SPI_GPIO_Init b h =
     (let h = upd32 b GPFCON (bits_clear (push_bit 2 3)) h;
          h = upd32 b GPFCON (bits_or (push_bit 2 1)) h;
          h = upd32 b GPFDAT (bits_or (bitm 1)) h;
          h = upd32 b GPGCON (bits_clear (push_bit 4 3 OR push_bit 8 3 OR push_bit 10 3 OR push_bit 12 3
                OR push_bit 14 3)) h;
          h = upd32 b GPGCON (bits_or (push_bit 4 1 OR push_bit 8 1 OR push_bit 12 1 OR push_bit 14 1)) h
      in upd32 b GPGDAT (bits_or (bitm 2)) h)"

text \<open>The setters of one output line.\<close>

definition SPI_Set_CLK :: "bus \<Rightarrow> u8 \<Rightarrow> hist \<Rightarrow> hist" where
  "SPI_Set_CLK b val h =
     (if val \<noteq> 0 then upd32 b GPGDAT (bits_or (bitm 7)) h else upd32 b GPGDAT (bits_clear (bitm 7)) h)"

definition SPI_Set_DO :: "bus \<Rightarrow> u8 \<Rightarrow> hist \<Rightarrow> hist" where
  "SPI_Set_DO b val h =
     (if val \<noteq> 0 then upd32 b GPGDAT (bits_or (bitm 6)) h else upd32 b GPGDAT (bits_clear (bitm 6)) h)"

primrec send_bits :: "bus \<Rightarrow> nat \<Rightarrow> u8 \<Rightarrow> hist \<Rightarrow> hist" where
  "send_bits b 0 val h = h"
| "send_bits b (Suc n) val h =
     (let h = SPI_Set_CLK b 0 h;
          h = SPI_Set_DO b (val AND 0x80) h;
          h = SPI_Set_CLK b 1 h
      in send_bits b n (push_bit 1 val) h)"

definition SPISendByte :: "bus \<Rightarrow> u8 \<Rightarrow> hist \<Rightarrow> hist" where
  "SPISendByte b val h = send_bits b 8 val h"

definition SPI_Get_DI :: "bus \<Rightarrow> hist \<Rightarrow> bool \<times> hist" where
  "SPI_Get_DI b h = (let (v, h) = rd32 b GPGDAT h in (v AND bitm 5 \<noteq> 0, h))"

primrec rece_bits :: "bus \<Rightarrow> nat \<Rightarrow> u8 \<Rightarrow> hist \<Rightarrow> u8 \<times> hist" where
  "rece_bits b 0 val h = (val, h)"
| "rece_bits b (Suc n) val h =
     (let val = push_bit 1 val;
          h = SPI_Set_CLK b 0 h;
          (di, h) = SPI_Get_DI b h;
          val = (if di then val OR 1 else val);
          h = SPI_Set_CLK b 1 h
      in rece_bits b n val h)"

definition SPIReceByte :: "bus \<Rightarrow> hist \<Rightarrow> u8 \<times> hist" where
  "SPIReceByte b h = rece_bits b 8 0 h"

definition SPIInit :: "bus \<Rightarrow> hist \<Rightarrow> hist" where
  "SPIInit b h = SPI_GPIO_Init b h"

subsection \<open>The display driver\<close>

definition OLED_Set_DC :: "bus \<Rightarrow> u8 \<Rightarrow> hist \<Rightarrow> hist" where
  "OLED_Set_DC b val h =
     (if val \<noteq> 0 then upd32 b GPGDAT (bits_or (bitm 4)) h else upd32 b GPGDAT (bits_clear (bitm 4)) h)"

definition OLED_Set_CS :: "bus \<Rightarrow> u8 \<Rightarrow> hist \<Rightarrow> hist" where
  "OLED_Set_CS b val h =
     (if val \<noteq> 0 then upd32 b GPFDAT (bits_or (bitm 1)) h else upd32 b GPFDAT (bits_clear (bitm 1)) h)"

definition OLEDWriteCmd :: "bus \<Rightarrow> u8 \<Rightarrow> hist \<Rightarrow> hist" where
  "OLEDWriteCmd b cmd h =
     (let h = OLED_Set_DC b 0 h;
          h = OLED_Set_CS b 0 h;
          h = SPISendByte b cmd h;
          h = OLED_Set_CS b 1 h
      in OLED_Set_DC b 1 h)"

definition OLEDWriteDat :: "bus \<Rightarrow> u8 \<Rightarrow> hist \<Rightarrow> hist" where
  "OLEDWriteDat b dat h =
     (let h = OLED_Set_DC b 1 h;
          h = OLED_Set_CS b 0 h;
          h = SPISendByte b dat h;
          h = OLED_Set_CS b 1 h
      in OLED_Set_DC b 1 h)"

definition OLEDSetPageAddrMode :: "bus \<Rightarrow> hist \<Rightarrow> hist" where
  "OLEDSetPageAddrMode b h = OLEDWriteCmd b 0x02 (OLEDWriteCmd b 0x20 h)"

definition OLEDSetPos :: "bus \<Rightarrow> int \<Rightarrow> int \<Rightarrow> hist \<Rightarrow> hist" where
  "OLEDSetPos b page col h =
     (let h = OLEDWriteCmd b (of_int (0xB0 + page)) h;
          h = OLEDWriteCmd b (of_int (col AND 0xf)) h
      in OLEDWriteCmd b (of_int (0x10 + drop_bit 4 col)) h)"

fun write_dots :: "bus \<Rightarrow> u8 list \<Rightarrow> hist \<Rightarrow> hist" where
  "write_dots b [] h = h"
| "write_dots b (d # ds) h = write_dots b ds (OLEDWriteDat b d h)"

text \<open>The pages from \<open>page\<close> on, \<open>n\<close> of them being left.\<close>

primrec clear_pages :: "bus \<Rightarrow> nat \<Rightarrow> int \<Rightarrow> hist \<Rightarrow> hist" where
  "clear_pages b 0 page h = h"
| "clear_pages b (Suc n) page h =
     clear_pages b n (page + 1) (write_dots b (replicate 128 0) (OLEDSetPos b page 0 h))"

definition OLEDClear :: "bus \<Rightarrow> hist \<Rightarrow> hist" where
  "OLEDClear b h = clear_pages b 8 0 h"

fun write_cmds :: "bus \<Rightarrow> u8 list \<Rightarrow> hist \<Rightarrow> hist" where
  "write_cmds b [] h = h"
| "write_cmds b (c # cs) h = write_cmds b cs (OLEDWriteCmd b c h)"

definition oled_init_cmds :: "u8 list" where
  "oled_init_cmds =
     [0xAE, 0x00, 0x10, 0x40, 0xB0, 0x81, 0x66, 0xA1, 0xA6, 0xA8, 0x3F, 0xC8, 0xD3, 0x00, 0xD5, 0x80,
      0xD9, 0x1f, 0xDA, 0x12, 0xdb, 0x30, 0x8d, 0x14]"

definition OLEDInit :: "bus \<Rightarrow> hist \<Rightarrow> hist" where
  "OLEDInit b h =
     (let h = write_cmds b oled_init_cmds h;
          h = OLEDSetPageAddrMode b h;
          h = OLEDClear b h
      in OLEDWriteCmd b 0xAF h)"

text \<open>The table has a row of 16 bytes for each character from the blank on; a character outside the
  table, or a short row, is \<open>None\<close>.\<close>

definition OLEDPutChar :: "bus \<Rightarrow> u8 list list \<Rightarrow> int \<Rightarrow> int \<Rightarrow> char \<Rightarrow> hist \<Rightarrow> hist option" where
  "OLEDPutChar b font page col c h =
     (let i = int (of_char c) - 32
      in if 0 \<le> i \<and> nat i < length font \<and> 16 \<le> length (font ! nat i) then
           (let dots = font ! nat i;
                h = OLEDSetPos b page col h;
                h = write_dots b (take 8 dots) h;
                h = OLEDSetPos b (page + 1) col h
            in Some (write_dots b (take 8 (drop 8 dots)) h))
         else None)"

fun OLEDPrint :: "bus \<Rightarrow> u8 list list \<Rightarrow> int \<Rightarrow> int \<Rightarrow> string \<Rightarrow> hist \<Rightarrow> hist option" where
  "OLEDPrint b font page col [] h = Some h"
| "OLEDPrint b font page col (c # str) h = do {
     h \<leftarrow> OLEDPutChar b font page col c h;
     let col = col + 8;
     if col > 127 then OLEDPrint b font (page + 2) 0 str h else OLEDPrint b font page col str h
   }"

subsection \<open>The flash driver\<close>

definition SPIFLASH_Set_CS :: "bus \<Rightarrow> u8 \<Rightarrow> hist \<Rightarrow> hist" where
  "SPIFLASH_Set_CS b val h =
     (if val \<noteq> 0 then upd32 b GPGDAT (bits_or (bitm 2)) h else upd32 b GPGDAT (bits_clear (bitm 2)) h)"

definition SPIFlashSendAddr :: "bus \<Rightarrow> u32 \<Rightarrow> hist \<Rightarrow> hist" where
  "SPIFlashSendAddr b addr h =
     (let h = SPISendByte b (ucast (drop_bit 16 addr)) h;
          h = SPISendByte b (ucast (drop_bit 8 addr)) h
      in SPISendByte b (ucast (addr AND 0xFF)) h)"

definition SPIFLASHReadID :: "bus \<Rightarrow> hist \<Rightarrow> (u8 \<times> u8) \<times> hist" where
  "SPIFLASHReadID b h =
     (let h = SPIFLASH_Set_CS b 0 h;
          h = SPISendByte b 0x90 h;
          h = SPIFlashSendAddr b 0 h;
          (mid, h) = SPIReceByte b h;
          (did, h) = SPIReceByte b h;
          h = SPIFLASH_Set_CS b 1 h
      in ((mid, did), h))"


subsection \<open>What the devices see\<close>

text \<open>The display controller takes bytes: with the data/command line high a byte goes to the display memory
  at the current position, with the line low it is a command or the parameter that the last command
  awaits.  In page mode the column wraps at the end of the page; the other modes also move the page.\<close>

record oled =
  o_page :: nat
  o_col :: nat
  o_mode :: u8
  o_want :: "u8 option"
  o_on :: bool
  o_ram :: "nat \<Rightarrow> nat \<Rightarrow> u8"

definition oled_data :: "u8 \<Rightarrow> oled \<Rightarrow> oled" where
  "oled_data d o1 =
     (let p = o_page o1; c = o_col o1; next = (c + 1) mod 128;
          o2 = o1\<lparr>o_ram := (o_ram o1)(p := (o_ram o1 p)(c := d))\<rparr>
      in if o_mode o1 = 0 then o2\<lparr>o_col := next, o_page := if next = 0 then (p + 1) mod 8 else p\<rparr>
         else if o_mode o1 = 1 then
           o2\<lparr>o_page := (p + 1) mod 8, o_col := if (p + 1) mod 8 = 0 then next else c\<rparr>
         else o2\<lparr>o_col := next\<rparr>)"

definition oled_cmd :: "u8 \<Rightarrow> oled \<Rightarrow> oled" where
  "oled_cmd c o1 =
     (case o_want o1 of
        Some w \<Rightarrow> if w = 0x20 then o1\<lparr>o_want := None, o_mode := c AND 3\<rparr> else o1\<lparr>o_want := None\<rparr>
      | None \<Rightarrow>
          if c < 0x10 then o1\<lparr>o_col := o_col o1 div 16 * 16 + unat c\<rparr>
          else if c < 0x20 then o1\<lparr>o_col := (unat c - 16) mod 8 * 16 + o_col o1 mod 16\<rparr>
          else if c \<in> {0x20, 0x81, 0xA8, 0xD3, 0xD5, 0xD9, 0xDA, 0xDB, 0x8D} then o1\<lparr>o_want := Some c\<rparr>
          else if 0xB0 \<le> c \<and> c \<le> 0xB7 then o1\<lparr>o_page := unat c - 0xB0\<rparr>
          else if c = 0xAE then o1\<lparr>o_on := False\<rparr>
          else if c = 0xAF then o1\<lparr>o_on := True\<rparr>
          else o1)"

text \<open>The lines of the bus, the shift register of the display (the bits since it was selected, the latest
  last) and the bits that the flash has received since it was selected.  Both sample the data line at
  the rising edges of the clock, while they are selected.\<close>

record spi_view =
  v_clk :: bool
  v_mosi :: bool
  v_dc :: bool
  v_fcs :: bool
  v_ocs :: bool
  v_sh :: "bool list"
  v_oled :: oled
  v_fbits :: "bool list"

definition shift1 :: "bool \<Rightarrow> u8 \<Rightarrow> u8" where
  "shift1 d v = push_bit 1 v OR of_bool d"

definition byte_of :: "bool list \<Rightarrow> u8" where
  "byte_of bs = fold shift1 bs 0"

definition spi_clock :: "spi_view \<Rightarrow> spi_view" where
  "spi_clock w =
     (let sh = v_sh w @ [v_mosi w];
          w = (if v_fcs w then w else w\<lparr>v_fbits := v_fbits w @ [v_mosi w]\<rparr>)
      in if v_ocs w then w
         else if length sh < 8 then w\<lparr>v_sh := sh\<rparr>
         else w\<lparr>v_sh := [], v_oled := (if v_dc w then oled_data else oled_cmd) (byte_of sh) (v_oled w)\<rparr>)"

fun spi_step :: "event \<Rightarrow> spi_view \<Rightarrow> spi_view" where
  "spi_step (Wr32 a v) w =
     (if a = GPGDAT then
        let w = (if \<not> v_clk w \<and> bit v 7 then spi_clock w else w)
        in w\<lparr>v_clk := bit v 7, v_mosi := bit v 6, v_dc := bit v 4, v_fcs := bit v 2,
             v_fbits := if bit v 2 then [] else v_fbits w\<rparr>
      else if a = GPFDAT then w\<lparr>v_ocs := bit v 1, v_sh := if bit v 1 then [] else v_sh w\<rparr>
      else w)"
| "spi_step e w = w"

definition spi_run :: "spi_view \<Rightarrow> hist \<Rightarrow> spi_view" where
  "spi_run w0 h = fold spi_step h w0"

text \<open>The port registers read back the levels of their output lines.\<close>

definition port_ok :: "bus \<Rightarrow> spi_view \<Rightarrow> bool" where
  "port_ok b w0 \<longleftrightarrow>
     (\<forall>h. bit (b h GPGDAT) 7 = v_clk (spi_run w0 h) \<and> bit (b h GPGDAT) 6 = v_mosi (spi_run w0 h) \<and>
          bit (b h GPGDAT) 4 = v_dc (spi_run w0 h) \<and> bit (b h GPGDAT) 2 = v_fcs (spi_run w0 h) \<and>
          bit (b h GPFDAT) 1 = v_ocs (spi_run w0 h))"

lemma spi_run_append: "spi_run w0 (h @ h') = fold spi_step h' (spi_run w0 h)"
  by (simp add: spi_run_def)

lemmas port_simps = upd32_eq spi_run_append port_ok_def bit_simps

text \<open>Flash lines keep the bits while the chip is selected and none while it is not.\<close>

definition view_ok :: "spi_view \<Rightarrow> bool" where
  "view_ok w \<longleftrightarrow> (v_fcs w \<longrightarrow> v_fbits w = []) \<and> (v_ocs w \<longrightarrow> v_sh w = [])"

lemma view_ok_step: "view_ok w \<Longrightarrow> view_ok (spi_step e w)"
  by (cases e) (auto simp: view_ok_def spi_clock_def Let_def)

lemma view_ok_run: "view_ok w0 \<Longrightarrow> view_ok (spi_run w0 h)"
proof (induction h rule: rev_induct)
  case Nil
  then show ?case by (simp add: spi_run_def)
next
  case (snoc e h)
  then show ?case by (simp add: spi_run_append view_ok_step)
qed

subsection \<open>Bytes on the bus\<close>

lemma bit_bitm7 [simp]: "bit (bitm m) n \<longleftrightarrow> n = m \<and> n < 32"
  by (auto simp: bit_simps)

text \<open>Each setter changes its own line.\<close>

lemma set_clk_low:
  assumes "port_ok b w0" and "view_ok w0"
  shows "spi_run w0 (SPI_Set_CLK b 0 h) = (spi_run w0 h)\<lparr>v_clk := False\<rparr>"
  using assms view_ok_run [of w0 h]
  by (cases "spi_run w0 h") (auto simp: SPI_Set_CLK_def port_simps view_ok_def spi_clock_def Let_def)

lemma set_clk_high:
  assumes "port_ok b w0" and "view_ok w0"
  shows "spi_run w0 (SPI_Set_CLK b 1 h) =
    (let w = spi_run w0 h in (if v_clk w then w else spi_clock w)\<lparr>v_clk := True\<rparr>)"
  using assms view_ok_run [of w0 h]
  by (cases "spi_run w0 h") (auto simp: SPI_Set_CLK_def port_simps view_ok_def spi_clock_def Let_def)

lemma set_do:
  assumes "port_ok b w0" and "view_ok w0"
  shows "spi_run w0 (SPI_Set_DO b v h) = (spi_run w0 h)\<lparr>v_mosi := v \<noteq> 0\<rparr>"
  using assms view_ok_run [of w0 h]
  by (cases "spi_run w0 h") (auto simp: SPI_Set_DO_def port_simps view_ok_def spi_clock_def Let_def)

lemma set_dc:
  assumes "port_ok b w0" and "view_ok w0"
  shows "spi_run w0 (OLED_Set_DC b v h) = (spi_run w0 h)\<lparr>v_dc := v \<noteq> 0\<rparr>"
  using assms view_ok_run [of w0 h]
  by (cases "spi_run w0 h") (auto simp: OLED_Set_DC_def port_simps view_ok_def spi_clock_def Let_def)

lemma set_ocs:
  assumes "port_ok b w0" and "view_ok w0"
  shows "spi_run w0 (OLED_Set_CS b v h) =
    (let w = spi_run w0 h in w\<lparr>v_ocs := v \<noteq> 0, v_sh := if v \<noteq> 0 then [] else v_sh w\<rparr>)"
  using assms view_ok_run [of w0 h]
  by (cases "spi_run w0 h") (auto simp: OLED_Set_CS_def port_simps view_ok_def spi_clock_def Let_def)

lemma set_fcs:
  assumes "port_ok b w0" and "view_ok w0"
  shows "spi_run w0 (SPIFLASH_Set_CS b v h) =
    (let w = spi_run w0 h in w\<lparr>v_fcs := v \<noteq> 0, v_fbits := if v \<noteq> 0 then [] else v_fbits w\<rparr>)"
  using assms view_ok_run [of w0 h]
  by (cases "spi_run w0 h") (auto simp: SPIFLASH_Set_CS_def port_simps view_ok_def spi_clock_def Let_def)

lemmas line_simps = set_clk_low set_clk_high set_do set_dc set_ocs set_fcs

definition tick :: "bool \<Rightarrow> spi_view \<Rightarrow> spi_view" where
  "tick d w = (spi_clock (w\<lparr>v_clk := False, v_mosi := d\<rparr>))\<lparr>v_clk := True\<rparr>"

definition msb_bits :: "u8 \<Rightarrow> bool list" where
  "msb_bits v = map (\<lambda>i. bit v (7 - i)) [0..<8]"

lemma msb_bits_list:
  "msb_bits v = [bit v 7, bit v 6, bit v 5, bit v 4, bit v 3, bit v 2, bit v 1, bit v 0]"
  by (simp add: msb_bits_def upt_conv_Cons)

lemma length_msb_bits [simp]: "length (msb_bits v) = 8"
  by (simp add: msb_bits_def)

lemma shift1_add: "shift1 d v = of_bool d + 2 * v"
proof -
  have "of_bool d AND push_bit 1 v = 0"
    by (rule bit_word_eqI) (auto simp only: bit_and_iff bit_of_bool_iff bit_push_bit_iff bit_0_eq bot_apply bot_bool_def)
  then have "of_bool d + push_bit 1 v = of_bool d OR push_bit 1 v"
    by (rule disjunctive_add_eq_or)
  then show ?thesis by (simp only: shift1_def or.commute [of "push_bit 1 v"]) (simp add: mult.commute)
qed

lemma byte_of_horner: "byte_of bs = horner_sum of_bool 2 (rev bs)"
proof (induction bs rule: rev_induct)
  case Nil
  show ?case by (simp add: byte_of_def)
next
  case (snoc d bs)
  have "byte_of (bs @ [d]) = of_bool d + 2 * byte_of bs"
    by (simp only: byte_of_def fold_append fold_simps comp_apply shift1_add)
  with snoc show ?case by simp
qed

lemma byte_of_msb_bits [simp]: "byte_of (msb_bits v) = v"
proof -
  have "[0..<8] ! (7 - i) = 7 - i" for i
    using nth_upt [of 0 "7 - i" 8] by simp
  then have "rev (msb_bits v) = map (bit v) [0..<8]"
    by (intro nth_equalityI) (simp_all add: msb_bits_def rev_nth)
  then show ?thesis by (simp add: byte_of_horner horner_sum_bit_eq_take_bit take_bit_word_eq_self)
qed

lemma top_bit: "(val :: u8) AND 0x80 \<noteq> 0 \<longleftrightarrow> bit val 7"
  using and_exp_eq_0_iff_not_bit [of val 7] by simp

lemma send_bits_ticks:
  assumes port: "port_ok b w0" and view: "view_ok w0"
  shows "spi_run w0 (send_bits b n val h) =
   fold tick (map (\<lambda>i. bit (push_bit i val) 7) [0..<n]) (spi_run w0 h)"
proof (induction n arbitrary: val h)
  case 0
  show ?case by simp
next
  case (Suc n)
  have one: "spi_run w0 (SPI_Set_CLK b 1 (SPI_Set_DO b (val AND 0x80) (SPI_Set_CLK b 0 h)))
      = tick (bit val 7) (spi_run w0 h)"
    by (simp add: line_simps [OF port view] tick_def Let_def top_bit)
  have "map (\<lambda>i. bit (push_bit i val) 7) [0..<Suc n]
      = bit val 7 # map (\<lambda>i. bit (push_bit i (push_bit 1 val)) 7) [0..<n]"
    by (simp only: upt_conv_Cons zero_less_Suc map_Suc_upt [symmetric] list.map map_map comp_def)
      (simp add: push_bit_push_bit)
  with one Suc.IH [of "push_bit 1 val"] show ?case by simp
qed

lemma send_byte_ticks:
  assumes "port_ok b w0" and "view_ok w0"
  shows "spi_run w0 (SPISendByte b val h) = fold tick (msb_bits val) (spi_run w0 h)"
proof -
  have "map (\<lambda>i. bit (push_bit i val) 7) [0..<8] = msb_bits val"
    by (simp add: msb_bits_def bit_simps)
  then show ?thesis by (simp only: SPISendByte_def send_bits_ticks [OF assms])
qed

lemma display_byte:
  assumes "\<not> v_ocs w" and "v_sh w = []" and "v_fcs w"
  shows "fold tick (msb_bits v) w =
    w\<lparr>v_clk := True, v_mosi := bit v 0,
      v_oled := (if v_dc w then oled_data else oled_cmd) v (v_oled w)\<rparr>"
proof -
  have "byte_of [bit v 7, bit v 6, bit v 5, bit v 4, bit v 3, bit v 2, bit v (Suc 0), bit v 0] = v"
    using byte_of_msb_bits [of v] by (simp add: msb_bits_list)
  with assms show ?thesis
    by (cases w) (simp add: msb_bits_list tick_def spi_clock_def)
qed


subsection \<open>Bytes to the display\<close>

text \<open>Between the calls of the driver nothing is selected.\<close>

definition spi_idle :: "spi_view \<Rightarrow> bool" where
  "spi_idle w \<longleftrightarrow> v_fcs w \<and> v_ocs w"

text \<open>A command or a data byte reaches the display and leaves the bus idle.\<close>

lemma write_cmd_view:
  assumes "port_ok b w0" and "view_ok w0" and "spi_idle (spi_run w0 h)"
  shows "spi_idle (spi_run w0 (OLEDWriteCmd b c h)) \<and>
    v_oled (spi_run w0 (OLEDWriteCmd b c h)) = oled_cmd c (v_oled (spi_run w0 h))"
  using assms(3) view_ok_run [OF assms(2), of h]
  by (simp add: OLEDWriteCmd_def line_simps [OF assms(1,2)] send_byte_ticks [OF assms(1,2)]
      Let_def display_byte spi_idle_def view_ok_def)

lemma write_dat_view:
  assumes "port_ok b w0" and "view_ok w0" and "spi_idle (spi_run w0 h)"
  shows "spi_idle (spi_run w0 (OLEDWriteDat b d h)) \<and>
    v_oled (spi_run w0 (OLEDWriteDat b d h)) = oled_data d (v_oled (spi_run w0 h))"
  using assms(3) view_ok_run [OF assms(2), of h]
  by (simp add: OLEDWriteDat_def line_simps [OF assms(1,2)] send_byte_ticks [OF assms(1,2)]
      Let_def display_byte spi_idle_def view_ok_def)

text \<open>What the driver's operations do is stated of the display under an idle bus.\<close>

definition shows_oled :: "bus \<Rightarrow> spi_view \<Rightarrow> hist \<Rightarrow> oled \<Rightarrow> bool" where
  "shows_oled b w0 h ol \<longleftrightarrow>
     port_ok b w0 \<and> view_ok w0 \<and> spi_idle (spi_run w0 h) \<and> v_oled (spi_run w0 h) = ol"

lemma shows_cmd: "shows_oled b w0 h ol \<Longrightarrow> shows_oled b w0 (OLEDWriteCmd b c h) (oled_cmd c ol)"
  using write_cmd_view by (auto simp: shows_oled_def)

lemma shows_dat: "shows_oled b w0 h ol \<Longrightarrow> shows_oled b w0 (OLEDWriteDat b d h) (oled_data d ol)"
  using write_dat_view by (auto simp: shows_oled_def)

lemma shows_dots:
  "shows_oled b w0 h ol \<Longrightarrow> shows_oled b w0 (write_dots b ds h) (fold oled_data ds ol)"
  by (induction b ds h arbitrary: ol rule: write_dots.induct) (simp_all add: shows_dat)

lemma shows_cmds:
  "shows_oled b w0 h ol \<Longrightarrow> shows_oled b w0 (write_cmds b cs h) (fold oled_cmd cs ol)"
  by (induction b cs h arbitrary: ol rule: write_cmds.induct) (simp_all add: shows_cmd)

text \<open>The display in page mode, awaiting no parameter.\<close>

definition page_mode :: "oled \<Rightarrow> bool" where
  "page_mode ol \<longleftrightarrow> o_want ol = None \<and> o_mode ol = 2"

lemma cmd_page:
  "unat c = 0xB0 + p \<Longrightarrow> p < 8 \<Longrightarrow> o_want ol = None \<Longrightarrow> oled_cmd c ol = ol\<lparr>o_page := p\<rparr>"
  by (simp add: oled_cmd_def word_less_nat_alt word_le_nat_alt word_unat_eq_iff)

lemma cmd_col_low:
  "unat c = n \<Longrightarrow> n < 16 \<Longrightarrow> o_want ol = None \<Longrightarrow>
   oled_cmd c ol = ol\<lparr>o_col := o_col ol div 16 * 16 + n\<rparr>"
  by (simp add: oled_cmd_def word_less_nat_alt)

lemma cmd_col_high:
  "unat c = 16 + n \<Longrightarrow> n < 8 \<Longrightarrow> o_want ol = None \<Longrightarrow>
   oled_cmd c ol = ol\<lparr>o_col := n * 16 + o_col ol mod 16\<rparr>"
  by (simp add: oled_cmd_def word_less_nat_alt)

lemma shows_pos:
  assumes "shows_oled b w0 h ol" and "o_want ol = None" and "p < 8" and "c < 128"
  shows "shows_oled b w0 (OLEDSetPos b (int p) (int c) h) (ol\<lparr>o_page := p, o_col := c\<rparr>)"
proof -
  have u: "unat (word_of_int (int n) :: u8) = n" if "n < 256" for n
    using that by (simp add: unat_of_nat)
  have m: "(15 :: int) = mask 4" by (simp add: mask_eq_exp_minus_1)
  have lo: "int c AND 15 = int (c mod 16)" and hi: "drop_bit 4 (int c) = int (c div 16)"
    by (simp_all only: m take_bit_eq_mask [symmetric] take_bit_eq_mod drop_bit_eq_div)
      (simp_all add: zmod_int zdiv_int)
  let ?page = "word_of_int (int (0xB0 + p)) :: u8"
  let ?low = "word_of_int (int (c mod 16)) :: u8"
  let ?high = "word_of_int (int (16 + c div 16)) :: u8"
  have "unat ?page = 0xB0 + p" "unat ?low = c mod 16" "unat ?high = 16 + c div 16"
    using assms(3,4) by (intro u; simp)+
  then have "oled_cmd ?high (oled_cmd ?low (oled_cmd ?page ol)) = ol\<lparr>o_page := p, o_col := c\<rparr>"
    using assms(2-4) by (simp add: cmd_page cmd_col_low cmd_col_high)
  moreover have "shows_oled b w0 (OLEDWriteCmd b ?high (OLEDWriteCmd b ?low (OLEDWriteCmd b ?page h)))
      (oled_cmd ?high (oled_cmd ?low (oled_cmd ?page ol)))"
    by (intro shows_cmd assms(1))
  ultimately show ?thesis by (simp add: OLEDSetPos_def lo hi)
qed

text \<open>A row of bytes inside a page.\<close>

definition draw_row :: "nat \<Rightarrow> nat \<Rightarrow> u8 list \<Rightarrow> (nat \<Rightarrow> nat \<Rightarrow> u8) \<Rightarrow> nat \<Rightarrow> nat \<Rightarrow> u8" where
  "draw_row p c ds ram = (\<lambda>q x. if q = p \<and> c \<le> x \<and> x < c + length ds then ds ! (x - c) else ram q x)"

lemma draw_row_Cons:
  "draw_row p c (d # ds) ram = draw_row p (Suc c) ds (ram(p := (ram p)(c := d)))"
proof (intro ext)
  fix q x
  show "draw_row p c (d # ds) ram q x = draw_row p (Suc c) ds (ram(p := (ram p)(c := d))) q x"
  proof (cases "c < x")
    case True
    then obtain j where "x = Suc (c + j)" by (auto simp: less_iff_Suc_add)
    then show ?thesis by (simp add: draw_row_def)
  next
    case False
    then show ?thesis by (auto simp: draw_row_def)
  qed
qed

lemma draw_row_Nil [simp]: "draw_row p c [] ram = ram"
  by (auto simp: draw_row_def fun_eq_iff)

lemma fold_data_row:
  assumes "o_mode ol = 2" and "o_page ol = p" and "o_col ol = c" and "c + length ds \<le> 128" and "c < 128"
  shows "\<exists>k. fold oled_data ds ol = ol\<lparr>o_col := k, o_ram := draw_row p c ds (o_ram ol)\<rparr>"
  using assms
proof (induction ds arbitrary: ol c)
  case Nil
  then show ?case by (cases ol) (auto intro!: exI [of _ c])
next
  case (Cons d ds)
  let ?ol = "oled_data d ol"
  have ol: "?ol = ol\<lparr>o_col := (c + 1) mod 128, o_ram := (o_ram ol)(p := (o_ram ol p)(c := d))\<rparr>"
    using Cons.prems by (simp add: oled_data_def Let_def)
  show ?case
  proof (cases "ds = []")
    case True
    with ol show ?thesis by (auto simp: draw_row_def fun_eq_iff intro!: exI [of _ "(c + 1) mod 128"])
  next
    case False
    with Cons.prems have len: "c + 1 + length ds \<le> 128" "c + 1 < 128" by (cases ds; simp)+
    have "o_mode ?ol = 2" "o_page ?ol = p" "o_col ?ol = c + 1"
      using Cons.prems len by (simp_all add: ol)
    from Cons.IH [OF this len] obtain k where
      "fold oled_data ds ?ol = ?ol\<lparr>o_col := k, o_ram := draw_row p (c + 1) ds (o_ram ?ol)\<rparr>" by blast
    then show ?thesis by (auto simp: ol draw_row_Cons)
  qed
qed

lemma shows_row:
  assumes "shows_oled b w0 h ol" and "page_mode ol" and "p < 8" and "c < 128" and "c + length ds \<le> 128"
  shows "\<exists>k. shows_oled b w0 (write_dots b ds (OLEDSetPos b (int p) (int c) h))
    (ol\<lparr>o_page := p, o_col := k, o_ram := draw_row p c ds (o_ram ol)\<rparr>)"
proof -
  let ?ol = "ol\<lparr>o_page := p, o_col := c\<rparr>"
  have "shows_oled b w0 (OLEDSetPos b (int p) (int c) h) ?ol"
    using assms by (intro shows_pos) (simp_all add: page_mode_def)
  then have "shows_oled b w0 (write_dots b ds (OLEDSetPos b (int p) (int c) h)) (fold oled_data ds ?ol)"
    by (rule shows_dots)
  moreover obtain k where "fold oled_data ds ?ol = ?ol\<lparr>o_col := k, o_ram := draw_row p c ds (o_ram ?ol)\<rparr>"
    using fold_data_row [of ?ol p c ds] assms by (auto simp: page_mode_def)
  ultimately show ?thesis by auto
qed

subsection \<open>Text on the display\<close>

text \<open>The glyph of a character: its two rows of eight bytes.\<close>

definition in_font :: "u8 list list \<Rightarrow> char \<Rightarrow> bool" where
  "in_font font c \<longleftrightarrow> 32 \<le> (of_char c :: nat) \<and> of_char c - 32 < length font \<and>
     16 \<le> length (font ! (of_char c - 32))"

definition draw_glyph ::
  "u8 list list \<Rightarrow> nat \<Rightarrow> nat \<Rightarrow> char \<Rightarrow> (nat \<Rightarrow> nat \<Rightarrow> u8) \<Rightarrow> nat \<Rightarrow> nat \<Rightarrow> u8" where
  "draw_glyph font p c ch ram =
     (\<lambda>q x. if (q = p \<or> q = p + 1) \<and> c \<le> x \<and> x < c + 8
            then font ! (of_char ch - 32) ! (8 * (q - p) + (x - c)) else ram q x)"

lemma put_char_draws:
  assumes "shows_oled b w0 h ol" and "page_mode ol" and "in_font font ch" and "p < 7" and "c + 8 \<le> 128"
  shows "\<exists>h' ol'. OLEDPutChar b font (int p) (int c) ch h = Some h' \<and> shows_oled b w0 h' ol' \<and>
    page_mode ol' \<and> o_on ol' = o_on ol \<and> o_ram ol' = draw_glyph font p c ch (o_ram ol)"
proof -
  define dots where "dots = font ! (of_char ch - 32)"
  let ?h1 = "write_dots b (take 8 dots) (OLEDSetPos b (int p) (int c) h)"
  let ?h2 = "write_dots b (take 8 (drop 8 dots)) (OLEDSetPos b (int (p + 1)) (int c) ?h1)"
  have len: "length (take 8 dots) = 8" "length (take 8 (drop 8 dots)) = 8"
    using assms(3) by (auto simp: dots_def in_font_def min_def)
  obtain k where 1: "shows_oled b w0 ?h1
      (ol\<lparr>o_page := p, o_col := k, o_ram := draw_row p c (take 8 dots) (o_ram ol)\<rparr>)" (is "shows_oled _ _ _ ?o1")
    using shows_row [OF assms(1,2), of p c "take 8 dots"] assms(4,5) len by auto
  have "page_mode ?o1" using assms(2) by (simp add: page_mode_def)
  then obtain k' where 2: "shows_oled b w0 ?h2
      (?o1\<lparr>o_page := p + 1, o_col := k', o_ram := draw_row (p + 1) c (take 8 (drop 8 dots)) (o_ram ?o1)\<rparr>)"
      (is "shows_oled _ _ _ ?o2")
    using shows_row [OF 1, of "p + 1" c "take 8 (drop 8 dots)"] assms(4,5) len by auto
  have "OLEDPutChar b font (int p) (int c) ch h = Some ?h2"
    using assms(3) by (simp add: OLEDPutChar_def in_font_def dots_def Let_def nat_diff_distrib algebra_simps)
  moreover have "o_ram ?o2 = draw_glyph font p c ch (o_ram ol)"
    using len by (auto simp: draw_row_def draw_glyph_def fun_eq_iff dots_def)
  moreover have "page_mode ?o2" "o_on ?o2 = o_on ol"
    using assms(2) by (simp_all add: page_mode_def)
  ultimately show ?thesis using 2 by blast
qed


text \<open>The text as the display memory shows it.  The characters fill cells of two pages and eight columns,
  sixteen to a line; counted from the line of the first character, the cell of column \<open>x\<close> of page \<open>q\<close> has
  number \<open>16 * ((q - p) div 2) + x div 8\<close>, and the first character has number \<open>k\<close>.\<close>

definition text_ram ::
  "u8 list list \<Rightarrow> nat \<Rightarrow> nat \<Rightarrow> string \<Rightarrow> (nat \<Rightarrow> nat \<Rightarrow> u8) \<Rightarrow> nat \<Rightarrow> nat \<Rightarrow> u8" where
  "text_ram font p k str ram q x =
     (let cell = 16 * ((q - p) div 2) + x div 8
      in if p \<le> q \<and> k \<le> cell \<and> cell < k + length str
         then font ! (of_char (str ! (cell - k)) - 32) ! (8 * ((q - p) mod 2) + x mod 8) else ram q x)"

lemma text_ram_Nil [simp]: "text_ram font p k [] ram = ram"
  by (auto simp: text_ram_def fun_eq_iff Let_def)

text \<open>The cell after the last one of a line is the first of the next.\<close>

lemma text_ram_wrap:
  assumes "x < 128"
  shows "text_ram font p 16 str ram q x = text_ram font (p + 2) 0 str ram q x"
proof (cases "p + 2 \<le> q")
  case True
  then obtain r where q: "q = p + 2 + r" by (auto simp: le_iff_add)
  have "(2 + r) div 2 = Suc (r div 2)" "(2 + r) mod 2 = r mod 2" by simp_all
  then show ?thesis by (simp add: text_ram_def q)
next
  case False
  then have "(q - p) div 2 = 0" by auto
  moreover have "x div 8 < 16" using assms by auto
  ultimately show ?thesis using False by (simp add: text_ram_def Let_def)
qed

lemma cell_here:
  assumes "k < 16" and "x < 128"
  shows "(p :: nat) \<le> q \<and> 16 * ((q - p) div 2) + x div 8 = k \<longleftrightarrow>
    (q = p \<or> q = p + 1) \<and> 8 * k \<le> x \<and> x < 8 * k + 8"
proof (cases "q < p + 2")
  case True
  then have "(q - p) div 2 = 0" by auto
  with True show ?thesis by auto
next
  case False
  then have "1 \<le> (q - p) div 2" by auto
  with False assms show ?thesis by auto
qed

lemma text_ram_Cons:
  assumes "k < 16" and "x < 128"
  shows "text_ram font p k (ch # str) ram q x =
    text_ram font p (Suc k) str (draw_glyph font p (8 * k) ch ram) q x"
proof -
  define cell where "cell = 16 * ((q - p) div 2) + x div 8"
  have here: "p \<le> q \<and> cell = k \<longleftrightarrow> (q = p \<or> q = p + 1) \<and> 8 * k \<le> x \<and> x < 8 * k + 8"
    unfolding cell_def by (rule cell_here [OF assms])
  show ?thesis
  proof (cases "p \<le> q \<and> cell = k")
    case True
    with here obtain j where "x = 8 * k + j" "j < 8" by (auto simp: le_iff_add)
    with True here have "(q - p) mod 2 = q - p" "x mod 8 = x - 8 * k" "x div 8 = k" by auto
    with True here show ?thesis
      by (simp add: text_ram_def draw_glyph_def cell_def [symmetric] Let_def)
  next
    case False
    with here have "draw_glyph font p (8 * k) ch ram q x = ram q x"
      unfolding draw_glyph_def by (metis (mono_tags, lifting))
    with False show ?thesis
      by (auto simp: text_ram_def cell_def [symmetric] Let_def nth_Cons' le_Suc_eq)
  qed
qed

lemma print_draws:
  assumes "shows_oled b w0 h ol" and "page_mode ol" and "\<forall>ch \<in> set str. in_font font ch"
    and "k < 16" and "str \<noteq> [] \<longrightarrow> k + length str \<le> 16 * ((8 - p) div 2)"
  shows "\<exists>h' ol'. OLEDPrint b font (int p) (int (8 * k)) str h = Some h' \<and> shows_oled b w0 h' ol' \<and>
    page_mode ol' \<and> o_on ol' = o_on ol \<and>
    (\<forall>q x. x < 128 \<longrightarrow> o_ram ol' q x = text_ram font p k str (o_ram ol) q x)"
  using assms
proof (induction str arbitrary: h ol p k)
  case Nil
  then show ?case by auto
next
  case (Cons ch str)
  let ?fits = "\<lambda>p k. str \<noteq> [] \<longrightarrow> k + length str \<le> 16 * ((8 - p) div 2)"
  have "0 < (8 - p) div 2"
    using Cons.prems(5) by (cases "(8 - p) div 2") auto
  then have p: "p < 7" by (simp add: div_greater_zero_iff)
  have k: "8 * k + 8 \<le> 128" using Cons.prems(4) by simp
  from Cons.prems(3) have ch: "in_font font ch" and str: "\<forall>ch \<in> set str. in_font font ch" by auto
  from put_char_draws [OF Cons.prems(1,2) ch p k] obtain h1 o1 where 1:
    "OLEDPutChar b font (int p) (int (8 * k)) ch h = Some h1" "shows_oled b w0 h1 o1" "page_mode o1"
    "o_on o1 = o_on ol" "o_ram o1 = draw_glyph font p (8 * k) ch (o_ram ol)" by blast
  show ?case
  proof (cases "k = 15")
    case True
    have "8 - p = 2 + (8 - (p + 2))" using p by simp
    then have "(8 - p) div 2 = (2 + (8 - (p + 2))) div 2" by (rule arg_cong)
    also have "\<dots> = Suc ((8 - (p + 2)) div 2)" by (simp only: add_2_eq_Suc div2_Suc_Suc)
    finally have "(8 - p) div 2 = Suc ((8 - (p + 2)) div 2)" .
    then have "?fits (p + 2) 0" using Cons.prems(5) True by auto
    from Cons.IH [OF 1(2,3) str _ this] obtain h2 o2 where 2:
      "OLEDPrint b font (int (p + 2)) (int (8 * 0)) str h1 = Some h2" "shows_oled b w0 h2 o2" "page_mode o2"
      "o_on o2 = o_on o1" "\<forall>q x. x < 128 \<longrightarrow> o_ram o2 q x = text_ram font (p + 2) 0 str (o_ram o1) q x"
      by auto
    have "OLEDPrint b font (int p) (int (8 * k)) (ch # str) h = Some h2"
      using 1(1) 2(1) True by (simp add: add.commute)
    moreover have "o_ram o2 q x = text_ram font p k (ch # str) (o_ram ol) q x" if "x < 128" for q x
      using 2(5) 1(5) that True text_ram_wrap [OF that, of font p]
      by (simp add: text_ram_Cons numeral_eq_Suc del: add_2_eq_Suc')
    moreover have "o_on o2 = o_on ol" using 1(4) 2(4) by simp
    ultimately show ?thesis using 2(2,3) by blast
  next
    case False
    with Cons.prems(4,5) have "Suc k < 16" "?fits p (Suc k)" by auto
    from Cons.IH [OF 1(2,3) str this] obtain h2 o2 where 2:
      "OLEDPrint b font (int p) (int (8 * Suc k)) str h1 = Some h2" "shows_oled b w0 h2 o2" "page_mode o2"
      "o_on o2 = o_on o1" "\<forall>q x. x < 128 \<longrightarrow> o_ram o2 q x = text_ram font p (Suc k) str (o_ram o1) q x"
      by auto
    have "OLEDPrint b font (int p) (int (8 * k)) (ch # str) h = Some h2"
      using 1(1) 2(1) \<open>Suc k < 16\<close> by (simp add: add.commute)
    moreover have "o_ram o2 q x = text_ram font p k (ch # str) (o_ram ol) q x" if "x < 128" for q x
      using 2(5) 1(5) that Cons.prems(4) by (simp add: text_ram_Cons)
    moreover have "o_on o2 = o_on ol" using 1(4) 2(4) by simp
    ultimately show ?thesis using 2(2,3) by blast
  qed
qed


subsection \<open>Bringing the display up\<close>

lemma clear_pages_blank:
  assumes "shows_oled b w0 h ol" and "page_mode ol" and "p + n \<le> 8"
  shows "\<exists>ol'. shows_oled b w0 (clear_pages b n (int p) h) ol' \<and> page_mode ol' \<and> o_on ol' = o_on ol \<and>
    (\<forall>q x. x < 128 \<longrightarrow> o_ram ol' q x = (if p \<le> q \<and> q < p + n then 0 else o_ram ol q x))"
  using assms
proof (induction n arbitrary: h ol p)
  case 0
  then show ?case by (auto intro!: exI [of _ ol])
next
  case (Suc n)
  from shows_row [OF Suc.prems(1,2), of p 0 "replicate 128 0"] Suc.prems(3) obtain k where 1:
    "shows_oled b w0 (write_dots b (replicate 128 0) (OLEDSetPos b (int p) 0 h))
       (ol\<lparr>o_page := p, o_col := k, o_ram := draw_row p 0 (replicate 128 0) (o_ram ol)\<rparr>)"
       (is "shows_oled _ _ ?h1 ?o1")
    by auto
  have "page_mode ?o1" using Suc.prems(2) by (simp add: page_mode_def)
  from Suc.IH [OF 1 this, of "p + 1"] Suc.prems(3) obtain o2 where 2:
    "shows_oled b w0 (clear_pages b n (int (p + 1)) ?h1) o2" "page_mode o2" "o_on o2 = o_on ?o1"
    "\<forall>q x. x < 128 \<longrightarrow> o_ram o2 q x = (if p + 1 \<le> q \<and> q < p + 1 + n then 0 else o_ram ?o1 q x)" by auto
  have row: "draw_row p 0 (replicate 128 0) (o_ram ol) q x = (if q = p then 0 else o_ram ol q x)"
    if "x < 128" for q x
    using that by (simp add: draw_row_def)
  have "o_ram o2 q x = (if p \<le> q \<and> q < p + Suc n then 0 else o_ram ol q x)" if "x < 128" for q x
    using 2(4) row [OF that] that by auto
  with 2(1-3) show ?case by (intro exI [of _ o2]) (simp add: algebra_simps)
qed

lemma init_cmds_mode:
  "o_want ol = None \<Longrightarrow> o_want (fold oled_cmd oled_init_cmds ol) = None"
  by (simp add: oled_init_cmds_def oled_cmd_def)

lemma page_mode_cmds:
  "o_want ol = None \<Longrightarrow> oled_cmd 2 (oled_cmd 0x20 ol) = ol\<lparr>o_want := None, o_mode := 2\<rparr>"
  by (simp add: oled_cmd_def)

lemma cmd_on: "o_want ol = None \<Longrightarrow> oled_cmd 0xAF ol = ol\<lparr>o_on := True\<rparr>"
  by (simp add: oled_cmd_def)

lemma gpio_init_idle:
  assumes "port_ok b w0" and "view_ok w0"
  shows "spi_idle (spi_run w0 (SPIInit b h)) \<and> v_oled (spi_run w0 (SPIInit b h)) = v_oled (spi_run w0 h)"
  using assms view_ok_run [of w0 h]
  by (cases "spi_run w0 h") (auto simp: SPIInit_def SPI_GPIO_Init_def port_simps view_ok_def spi_idle_def Let_def)

subsection \<open>Identifying the flash\<close>

text \<open>After the identification command and the address, 32 bits in all, the flash drives its two
  identification bytes onto the data line while the clock is low, the highest bit first, one bit a
  clock.\<close>

abbreviation rdid_bits :: "bool list" where
  "rdid_bits \<equiv> msb_bits 0x90 @ msb_bits 0 @ msb_bits 0 @ msb_bits 0"

definition flash_ids :: "bus \<Rightarrow> spi_view \<Rightarrow> u8 \<Rightarrow> u8 \<Rightarrow> bool" where
  "flash_ids b w0 mid did \<longleftrightarrow>
     (\<forall>h ds. let w = spi_run w0 h in
        \<not> v_fcs w \<and> \<not> v_clk w \<and> v_fbits w = rdid_bits @ ds \<and> length ds < 16 \<longrightarrow>
        bit (b h GPGDAT) 5 = (msb_bits mid @ msb_bits did) ! length ds)"

text \<open>The flash selected and the display not; the flash has received \<open>bs\<close>.\<close>

definition flash_got :: "spi_view \<Rightarrow> bool list \<Rightarrow> oled \<Rightarrow> bool" where
  "flash_got w bs ol \<longleftrightarrow> \<not> v_fcs w \<and> v_ocs w \<and> v_fbits w = bs \<and> v_oled w = ol"

lemma flash_ticks: "flash_got w bs ol \<Longrightarrow> flash_got (fold tick ds w) (bs @ ds) ol"
proof (induction ds arbitrary: w bs)
  case Nil
  then show ?case by simp
next
  case (Cons d ds)
  have "flash_got (tick d w) (bs @ [d]) ol"
    using Cons.prems by (simp add: flash_got_def tick_def spi_clock_def Let_def)
  from Cons.IH [OF this] show ?case by simp
qed

lemma flash_rece:
  assumes "port_ok b w0" and "view_ok w0" and "flash_ids b w0 mid did"
    and ids: "ids = msb_bits mid @ msb_bits did"
  shows "flash_got (spi_run w0 h) (rdid_bits @ ds) ol \<Longrightarrow> length ds + n \<le> 16 \<Longrightarrow>
    \<exists>h' ds'. rece_bits b n val h = (fold shift1 (take n (drop (length ds) ids)) val, h') \<and>
      flash_got (spi_run w0 h') (rdid_bits @ ds') ol \<and> length ds' = length ds + n"
proof (induction n arbitrary: h ds val)
  case 0
  then show ?case by auto
next
  case (Suc n)
  define h1 where "h1 = SPI_Set_CLK b 0 h"
  define d where "d = bit (b h1 GPGDAT) 5"
  define h2 where "h2 = SPI_Set_CLK b 1 (h1 @ [Rd32 GPGDAT (b h1 GPGDAT)])"
  have 1: "spi_run w0 h1 = (spi_run w0 h)\<lparr>v_clk := False\<rparr>"
    unfolding h1_def by (rule set_clk_low [OF assms(1,2)])
  then have "d = ids ! length ds"
    using assms(3) Suc.prems unfolding flash_ids_def flash_got_def d_def ids by (simp add: Let_def)
  moreover have "length ds < length ids" using Suc.prems(2) by (simp add: ids)
  ultimately have nxt: "take (Suc n) (drop (length ds) ids) = d # take n (drop (Suc (length ds)) ids)"
    by (simp add: Cons_nth_drop_Suc [symmetric])
  obtain d' where 2: "flash_got (spi_run w0 h2) (rdid_bits @ ds @ [d']) ol"
    using Suc.prems(1) 1
    by (auto simp: h2_def set_clk_high [OF assms(1,2)] spi_run_append flash_got_def spi_clock_def Let_def)
  have di: "SPI_Get_DI b h1 = (d, h1 @ [Rd32 GPGDAT (b h1 GPGDAT)])"
    using and_exp_eq_0_iff_not_bit [of "b h1 GPGDAT" 5] by (simp add: SPI_Get_DI_def rd32_def d_def)
  have "rece_bits b (Suc n) val h = rece_bits b n (shift1 d val) h2"
    by (simp add: di h1_def [symmetric] h2_def [symmetric] shift1_def Let_def)
  moreover from Suc.IH [OF 2, of "shift1 d val"] Suc.prems(2) obtain h' ds' where
    "rece_bits b n (shift1 d val) h2 = (fold shift1 (take n (drop (Suc (length ds)) ids)) (shift1 d val), h')"
    "flash_got (spi_run w0 h') (rdid_bits @ ds') ol" "length ds' = Suc (length ds + n)" by auto
  ultimately show ?case unfolding nxt by auto
qed

text \<open>One identification byte, the first when no bit of them has gone and the second after eight.\<close>

lemma flash_rece_byte:
  assumes "port_ok b w0" and "view_ok w0" and "flash_ids b w0 mid did"
    and "flash_got (spi_run w0 h) (rdid_bits @ ds) ol" and "length ds = 0 \<or> length ds = 8"
  shows "\<exists>h' ds'. SPIReceByte b h = (if ds = [] then mid else did, h') \<and>
    flash_got (spi_run w0 h') (rdid_bits @ ds') ol \<and> length ds' = length ds + 8"
proof -
  have "take 8 (drop (length ds) (msb_bits mid @ msb_bits did)) = msb_bits (if ds = [] then mid else did)"
    using assms(5) by auto
  with flash_rece [OF assms(1-3) refl assms(4), of 8 0] assms(5) show ?thesis
    by (simp only: SPIReceByte_def byte_of_def [symmetric] byte_of_msb_bits) auto
qed

subsection \<open>A bus with both devices\<close>

definition spi_bus :: "spi_view \<Rightarrow> u8 \<Rightarrow> u8 \<Rightarrow> bus" where
  "spi_bus w0 mid did h a =
     (let w = spi_run w0 h;
          miso = (32 \<le> length (v_fbits w) \<and> (msb_bits mid @ msb_bits did) ! (length (v_fbits w) - 32))
      in if a = GPGDAT then
           push_bit 7 (of_bool (v_clk w)) OR push_bit 6 (of_bool (v_mosi w)) OR push_bit 5 (of_bool miso)
             OR push_bit 4 (of_bool (v_dc w)) OR push_bit 2 (of_bool (v_fcs w))
         else if a = GPFDAT then push_bit 1 (of_bool (v_ocs w)) else 0)"

definition oled_off :: oled where
  "oled_off = \<lparr>o_page = 0, o_col = 0, o_mode = 2, o_want = None, o_on = False, o_ram = \<lambda>q x. 0xFF\<rparr>"

definition spi_off :: spi_view where
  "spi_off = \<lparr>v_clk = False, v_mosi = False, v_dc = False, v_fcs = True, v_ocs = True, v_sh = [],
     v_oled = oled_off, v_fbits = []\<rparr>"

lemma spi_bus_port_ok: "port_ok (spi_bus w0 mid did) w0"
  by (auto simp: port_ok_def spi_bus_def Let_def bit_or_iff bit_push_bit_iff bit_of_bool_iff
      simp del: push_bit_of_1)

lemma spi_bus_flash_ids: "flash_ids (spi_bus w0 mid did) w0 mid did"
  by (auto simp: flash_ids_def spi_bus_def Let_def bit_or_iff bit_push_bit_iff bit_of_bool_iff)

lemma spi_off_view_ok: "view_ok spi_off"
  by (simp add: view_ok_def spi_off_def)

lemma spi_off_start:
  "spi_idle (spi_run spi_off [])" "page_mode (v_oled (spi_run spi_off []))"
  "o_want (v_oled (spi_run spi_off [])) = None"
  by (simp_all add: spi_run_def spi_off_def oled_off_def spi_idle_def page_mode_def)

lemmas spi_bus_facts = spi_bus_port_ok spi_bus_flash_ids spi_off_view_ok spi_off_start

subsection \<open>The drivers\<close>

lemma init_blank:
  assumes "port_ok b w0" and "view_ok w0" and "o_want (v_oled (spi_run w0 h)) = None"
  shows "\<exists>w. w = spi_run w0 (OLEDInit b (SPIInit b h)) \<and> spi_idle w \<and> page_mode (v_oled w) \<and>
    o_on (v_oled w) \<and> (\<forall>q < 8. \<forall>x < 128. o_ram (v_oled w) q x = 0)"
proof -
  let ?ol = "v_oled (spi_run w0 h)"
  let ?o1 = "oled_cmd 2 (oled_cmd 0x20 (fold oled_cmd oled_init_cmds ?ol))"
  have "shows_oled b w0 (SPIInit b h) ?ol"
    using gpio_init_idle [OF assms(1,2)] assms(1,2) by (simp add: shows_oled_def)
  then have 1: "shows_oled b w0 (OLEDSetPageAddrMode b (write_cmds b oled_init_cmds (SPIInit b h))) ?o1"
    unfolding OLEDSetPageAddrMode_def by (intro shows_cmd shows_cmds)
  have "page_mode ?o1"
    using init_cmds_mode [OF assms(3)] by (simp add: page_mode_cmds page_mode_def)
  from clear_pages_blank [OF 1 this, of 0 8] obtain o2 where 2:
    "shows_oled b w0 (OLEDClear b (OLEDSetPageAddrMode b (write_cmds b oled_init_cmds (SPIInit b h)))) o2"
    "page_mode o2" "\<forall>q x. x < 128 \<longrightarrow> o_ram o2 q x = (if q < 8 then 0 else o_ram ?o1 q x)"
    by (auto simp: OLEDClear_def)
  have "shows_oled b w0 (OLEDInit b (SPIInit b h)) (o2\<lparr>o_on := True\<rparr>)"
    using shows_cmd [OF 2(1), where c = "0xAF"] 2(2) by (simp add: OLEDInit_def cmd_on page_mode_def Let_def)
  then show ?thesis using 2(2,3) by (auto simp: shows_oled_def page_mode_def)
qed

text \<open>Setting up the bus and the display, whatever the lines were, ends with the bus idle and the display
  switched on, in page mode, with its 8 pages of 128 columns blank.\<close>

theorem oled_init_blank:
  assumes "port_ok b w0" and "view_ok w0" and "o_want (v_oled (spi_run w0 h)) = None"
  shows "\<exists>w. w = spi_run w0 (OLEDInit b (SPIInit b h)) \<and> spi_idle w \<and> page_mode (v_oled w) \<and>
    o_on (v_oled w) \<and> (\<forall>q < 8. \<forall>x < 128. o_ram (v_oled w) q x = 0)"
  by (rule init_blank [OF assms])

lemma oled_init_blank_witness:
  "\<exists>w. w = spi_run spi_off (OLEDInit (spi_bus spi_off 0xEF 0x13) (SPIInit (spi_bus spi_off 0xEF 0x13) [])) \<and>
    spi_idle w \<and> page_mode (v_oled w) \<and> o_on (v_oled w) \<and> (\<forall>q < 8. \<forall>x < 128. o_ram (v_oled w) q x = 0)"
  by (rule oled_init_blank) (simp_all add: spi_bus_facts)

text \<open>C22: printing a string whose characters are in the font and fit on the screen puts exactly their
  glyphs into the display memory, sixteen to a line from the given cell on, and leaves the rest of it.\<close>

theorem oled_print_shows:
  assumes "port_ok b w0" and "view_ok w0" and "spi_idle (spi_run w0 h)"
    and "page_mode (v_oled (spi_run w0 h))" and "\<forall>ch \<in> set str. in_font font ch"
    and "k < 16" and "str \<noteq> [] \<longrightarrow> k + length str \<le> 16 * ((8 - p) div 2)"
  shows "\<exists>h'. OLEDPrint b font (int p) (int (8 * k)) str h = Some h' \<and> spi_idle (spi_run w0 h') \<and>
    (\<forall>q x. x < 128 \<longrightarrow> o_ram (v_oled (spi_run w0 h')) q x =
       text_ram font p k str (o_ram (v_oled (spi_run w0 h))) q x)"
proof -
  have "shows_oled b w0 h (v_oled (spi_run w0 h))"
    using assms(1-3) by (simp add: shows_oled_def)
  from print_draws [OF this assms(4-7)] show ?thesis
    unfolding shows_oled_def by blast
qed

lemma oled_print_shows_witness:
  "\<exists>h'. OLEDPrint (spi_bus spi_off 0 0) (replicate 95 (replicate 16 0x5A)) (int 4) (int (8 * 15)) ''ok'' []
      = Some h' \<and> spi_idle (spi_run spi_off h') \<and>
    (\<forall>q x. x < 128 \<longrightarrow> o_ram (v_oled (spi_run spi_off h')) q x =
       text_ram (replicate 95 (replicate 16 0x5A)) 4 15 ''ok'' (o_ram (v_oled (spi_run spi_off []))) q x)"
  by (rule oled_print_shows) (simp_all add: spi_bus_facts in_font_def)

lemma read_id_ok:
  assumes "port_ok b w0" and "view_ok w0" and "flash_ids b w0 mid did" and "spi_idle (spi_run w0 h)"
  shows "\<exists>h'. SPIFLASHReadID b h = ((mid, did), h') \<and> spi_idle (spi_run w0 h') \<and>
    v_oled (spi_run w0 h') = v_oled (spi_run w0 h)"
proof -
  let ?ol = "v_oled (spi_run w0 h)"
  note send = send_byte_ticks [OF assms(1,2)]
  define h1 where "h1 = SPIFlashSendAddr b 0 (SPISendByte b 0x90 (SPIFLASH_Set_CS b 0 h))"
  have "flash_got (spi_run w0 (SPIFLASH_Set_CS b 0 h)) [] ?ol"
    using assms(4) view_ok_run [OF assms(2), of h]
    by (simp add: set_fcs [OF assms(1,2)] flash_got_def spi_idle_def view_ok_def Let_def)
  from flash_ticks [OF flash_ticks [OF flash_ticks [OF flash_ticks [OF this]]]]
  have "flash_got (spi_run w0 h1) (rdid_bits @ []) ?ol"
    by (simp add: h1_def SPIFlashSendAddr_def send)
  from flash_rece_byte [OF assms(1-3) this] obtain h2 ds where 2:
    "SPIReceByte b h1 = (mid, h2)" "flash_got (spi_run w0 h2) (rdid_bits @ ds) ?ol" "length ds = 8"
    by auto
  have "ds \<noteq> []" using 2(3) by auto
  with flash_rece_byte [OF assms(1-3) 2(2)] 2(3) obtain h3 ds' where 3:
    "SPIReceByte b h2 = (did, h3)" "flash_got (spi_run w0 h3) (rdid_bits @ ds') ?ol"
    by auto
  have "SPIFLASHReadID b h = ((mid, did), SPIFLASH_Set_CS b 1 h3)"
    by (simp add: SPIFLASHReadID_def h1_def [symmetric] 2(1) 3(1) Let_def)
  moreover have "spi_idle (spi_run w0 (SPIFLASH_Set_CS b 1 h3))"
      "v_oled (spi_run w0 (SPIFLASH_Set_CS b 1 h3)) = ?ol"
    using 3(2) by (simp_all add: set_fcs [OF assms(1,2)] flash_got_def spi_idle_def Let_def)
  ultimately show ?thesis by blast
qed

text \<open>Identifying the flash over a bus on which nothing is selected returns the two bytes that the flash
  drives, and leaves the bus idle and the display as it was.\<close>

theorem flash_id_reads:
  assumes "port_ok b w0" and "view_ok w0" and "flash_ids b w0 mid did" and "spi_idle (spi_run w0 h)"
  shows "\<exists>h'. SPIFLASHReadID b h = ((mid, did), h') \<and> spi_idle (spi_run w0 h') \<and>
    v_oled (spi_run w0 h') = v_oled (spi_run w0 h)"
  by (rule read_id_ok [OF assms])

lemma flash_id_reads_witness:
  "\<exists>h'. SPIFLASHReadID (spi_bus spi_off 0xEF 0x13) [] = ((0xEF, 0x13), h') \<and> spi_idle (spi_run spi_off h') \<and>
    v_oled (spi_run spi_off h') = v_oled (spi_run spi_off [])"
  by (rule flash_id_reads) (simp_all add: spi_bus_facts)

end
