(* ===== verification/Spimain.thy ===== *)
theory Spimain
  imports Rtc Spi
begin

text \<open>
  The serial port and the program of the SPI image, \<^verbatim>\<open>serial.c\<close> and \<^verbatim>\<open>main.c\<close>: a menu on the console that
  reads and writes bytes of the EEPROM.  One round of the endless loop is \<open>menu_round\<close>; its state is the
  pair of variables \<^verbatim>\<open>address\<close> and \<^verbatim>\<open>data\<close>, which outlive a round, and the world.
\<close>

subsection \<open>The serial port\<close>

definition uart0_init_spi :: "bus \<Rightarrow> hist \<Rightarrow> hist" where
  "uart0_init_spi b h =
     (let h = upd32 b GPHCON (bits_or 0xa0) h;
          h = wr32 GPHUP 0x0c h;
          h = wr32 ULCON0 0x03 h;
          h = wr32 UCON0 0x05 h;
          h = wr32 UFCON0 0x00 h;
          h = wr32 UMCON0 0x00 h
      in wr32 UBRDIV0 (word_of_int (50000000 sdiv (115200 * 16) - 1)) h)"

definition putc_spi :: "bus \<Rightarrow> u8 \<Rightarrow> hist \<Rightarrow> hist option" where
  "putc_spi b c h = do {
     h \<leftarrow> spin (bits_set32 b UTRSTAT0 (bitm 2)) h;
     Some (wr8 UTXH0 c h)
   }"

definition getc_spi :: "bus \<Rightarrow> hist \<Rightarrow> (u8 \<times> hist) option" where
  "getc_spi b h = do {
     h \<leftarrow> spin (bits_set32 b UTRSTAT0 1) h;
     Some (rd8 b URXH0 h)
   }"

definition isDigit :: "u8 \<Rightarrow> int" where
  "isDigit c = (if ch CHR ''0'' \<le> c \<and> c \<le> ch CHR ''9'' then 1 else 0)"

definition isLetter :: "u8 \<Rightarrow> int" where
  "isLetter c =
     (if ch CHR ''a'' \<le> c \<and> c \<le> ch CHR ''z'' then 1
      else if ch CHR ''A'' \<le> c \<and> c \<le> ch CHR ''Z'' then 1 else 0)"

subsection \<open>The menu\<close>

definition putc_w :: "bus \<Rightarrow> u8 \<Rightarrow> iic_world \<Rightarrow> iic_world option" where
  "putc_w b c w = (let (s, m, h) = w in do { h \<leftarrow> putc_spi b c h; Some (s, m, h) })"

definition getc_w :: "bus \<Rightarrow> iic_world \<Rightarrow> (u8 \<times> iic_world) option" where
  "getc_w b w = (let (s, m, h) = w in do { (c, h) \<leftarrow> getc_spi b h; Some (c, s, m, h) })"

text \<open>The loop that fills \<^verbatim>\<open>str\<close>, 200 bytes, up to and including a line end, and the terminator behind it.
  A store past the array is \<open>None\<close>.\<close>

partial_function (option) read_str :: "bus \<Rightarrow> u8 list \<times> iic_world \<Rightarrow> (u8 list \<times> iic_world) option" where
  "read_str b st =
     (let (str, w) = st
      in do {
        (c, w) \<leftarrow> getc_w b w;
        if length str < 200 then do {
          let str = str @ [c];
          w \<leftarrow> putc_w b c w;
          if c \<noteq> 10 \<and> c \<noteq> 13 then read_str b (str, w)
          else if length str < 200 then Some (str, w) else None
        } else None
      })"

text \<open>Everything that is no digit becomes a blank.\<close>

definition blank_str :: "u8 list \<Rightarrow> u8 list" where
  "blank_str str = map (\<lambda>c. if c < ch CHR ''0'' \<or> ch CHR ''9'' < c then ch CHR '' '' else c) str"

text \<open>\<^verbatim>\<open>sscanf(str, "%d", &v)\<close> on a variable with the value \<open>old\<close>.\<close>

definition scan_var :: "u8 list \<Rightarrow> u32 \<Rightarrow> u32" where
  "scan_var str old = (case sscanf_lib str (text_bytes ''%d'') of (_, Num32 v # _) \<Rightarrow> v | _ \<Rightarrow> old)"

type_synonym menu_state = "u32 \<times> u32 \<times> iic_world"

definition menu_read ::
  "bus \<Rightarrow> iic_world wr_fun \<Rightarrow> iic_world rd_fun \<Rightarrow> iic_world pr_fun \<Rightarrow> u8 \<Rightarrow> menu_state \<Rightarrow> menu_state option" where
  "menu_read b wr rd pr junk st =
     (let (address, data, w) = st
      in do {
        w \<leftarrow> pr (text_bytes ''Enter address: '') [] w;
        (str, w) \<leftarrow> read_str b ([], w);
        let address = scan_var (blank_str str) address;
        w \<leftarrow> pr (crlf_bytes @ text_bytes ''read address = %d'' @ crlf_bytes) [address] w;
        (v, w) \<leftarrow> at24_read wr rd pr junk (ucast address) w;
        let data = ucast v;
        w \<leftarrow> pr (text_bytes ''data = %d'' @ crlf_bytes) [data] w;
        Some (address, data, w)
      })"

definition menu_write ::
  "bus \<Rightarrow> iic_world wr_fun \<Rightarrow> iic_world pr_fun \<Rightarrow> menu_state \<Rightarrow> menu_state option" where
  "menu_write b wr pr st =
     (let (address, data, w) = st
      in do {
        w \<leftarrow> pr (text_bytes ''Enter address: '') [] w;
        (str, w) \<leftarrow> read_str b ([], w);
        w \<leftarrow> pr crlf_bytes [] w;
        let address = scan_var (blank_str str) address;
        w \<leftarrow> pr (text_bytes ''Enter data: '') [] w;
        (str, w) \<leftarrow> read_str b ([], w);
        w \<leftarrow> pr crlf_bytes [] w;
        let data = scan_var (blank_str str) data;
        w \<leftarrow> pr (text_bytes ''write address %d with data %d'' @ crlf_bytes) [address, data] w;
        w \<leftarrow> at24_write wr (ucast address) (ucast data) w;
        Some (address, data, w)
      })"

definition lfcr_bytes :: "u8 list" where
  "lfcr_bytes = [10, 13]"

definition menu_round ::
  "bus \<Rightarrow> iic_world wr_fun \<Rightarrow> iic_world rd_fun \<Rightarrow> iic_world pr_fun \<Rightarrow> u8 \<Rightarrow> menu_state \<Rightarrow> menu_state option" where
  "menu_round b wr rd pr junk st =
     (let (address, data, w) = st
      in do {
        w \<leftarrow> pr (crlf_bytes @ text_bytes ''##### AT24CXX Menu #####'' @ crlf_bytes) [] w;
        w \<leftarrow> pr (text_bytes ''[R] Read AT24CXX'' @ lfcr_bytes) [] w;
        w \<leftarrow> pr (text_bytes ''[W] Write AT24CXX'' @ lfcr_bytes) [] w;
        w \<leftarrow> pr (text_bytes ''Enter your selection: '') [] w;
        (c, w) \<leftarrow> getc_w b w;
        w \<leftarrow> pr (text_bytes ''%c'' @ lfcr_bytes) [ucast c] w;
        if c = ch CHR ''r'' \<or> c = ch CHR ''R'' then menu_read b wr rd pr junk (address, data, w)
        else if c = ch CHR ''w'' \<or> c = ch CHR ''W'' then menu_write b wr pr (address, data, w)
        else Some (address, data, w)
      })"

subsection \<open>What a step does\<close>

text \<open>\<open>yields c P\<close>: the computation returns a result with \<open>P\<close>.\<close>

definition yields :: "'a option \<Rightarrow> ('a \<Rightarrow> bool) \<Rightarrow> bool" where
  "yields c P \<longleftrightarrow> (\<exists>r. c = Some r \<and> P r)"

lemma yields_Some [simp]: "yields (Some r) P \<longleftrightarrow> P r"
  by (simp add: yields_def)

lemma yields_bind: "yields c Q \<Longrightarrow> (\<And>r. Q r \<Longrightarrow> yields (f r) P) \<Longrightarrow> yields (Option.bind c f) P"
  by (auto simp: yields_def)

lemma yields_weaken: "yields c Q \<Longrightarrow> (\<And>r. Q r \<Longrightarrow> P r) \<Longrightarrow> yields c P"
  by (auto simp: yields_def)

lemma serial_eq: "putc_spi b c = putchar b (ucast c)" "getc_spi b = getchar b"
  by (simp_all add: putc_spi_def putchar_def getc_spi_def getchar_def fun_eq_iff)

text \<open>The board as the user and the EEPROM see it: the keys still to be typed, what the console has shown
  and the contents of the EEPROM.\<close>

definition sees ::
  "(hist \<Rightarrow> bool) \<Rightarrow> bus \<Rightarrow> (wire_event list \<Rightarrow> u8) \<Rightarrow> u32 \<Rightarrow> (u8 \<Rightarrow> u8)
   \<Rightarrow> u8 list \<Rightarrow> string \<Rightarrow> (u8 \<Rightarrow> u8) \<Rightarrow> iic_world \<Rightarrow> bool" where
  "sees arrives b resp outbuf m0 ks sh mem w \<longleftrightarrow>
     iic_board arrives b resp outbuf ks w \<and> iic_out w = sh \<and> chip_mem 0xA0 m0 (iic_log w) = mem"

lemma sees_putc:
  assumes "sees arrives b resp outbuf m0 ks sh mem w"
  shows "yields (putc_w b c w) (sees arrives b resp outbuf m0 ks (sh @ [to_char c]) mem)"
proof -
  obtain s m h where w: "w = (s, m, h)" by (cases w)
  have "console b h ks" using assms by (simp add: w sees_def iic_board_def)
  from putchar_console [OF this, of "ucast c" wire_state] quiet_wire_state obtain h' where
    p: "putchar b (ucast c) h = Some h'" "console b h' ks" "uart_tx h' = uart_tx h @ [to_char (ucast c :: u32)]"
      "wire_state h' = wire_state h" by blast
  then show ?thesis using assms
    by (simp add: w sees_def iic_board_def iic_out_def iic_log_def putc_w_def serial_eq idle_def wire_def
        to_char_ucast_u8)
qed

lemma sees_getc:
  assumes "sees arrives b resp outbuf m0 (k # ks) sh mem w"
  shows "yields (getc_w b w) (\<lambda>(c, w'). c = k \<and> sees arrives b resp outbuf m0 ks sh mem w')"
proof -
  obtain s m h where w: "w = (s, m, h)" by (cases w)
  have "console b h (k # ks)" using assms by (simp add: w sees_def iic_board_def)
  from getchar_console [OF this, of wire_state] quiet_wire_state obtain h' where
    p: "getchar b h = Some (k, h')" "console b h' ks" "uart_tx h' = uart_tx h" "wire_state h' = wire_state h"
    by blast
  then show ?thesis using assms
    by (simp add: w sees_def iic_board_def iic_out_def iic_log_def getc_w_def serial_eq idle_def wire_def)
qed

lemma sees_pr:
  assumes "sees arrives b resp outbuf m0 ks sh mem w" and "fmt_printed fmt args = Some t"
  shows "yields (lift_pr (spi_pr b outbuf) fmt args w) (sees arrives b resp outbuf m0 ks (sh @ t) mem)"
  using spi_iic.pr_ok [of arrives b resp outbuf ks w fmt args t] assms by (auto simp: sees_def yields_def)

lemma sees_read_str:
  "list_all (\<lambda>k. k \<noteq> 10 \<and> k \<noteq> 13) line \<Longrightarrow> e = 10 \<or> e = 13 \<Longrightarrow> length (str @ line) < 199 \<Longrightarrow>
   sees arrives b resp outbuf m0 (line @ e # ks) sh mem w \<Longrightarrow>
   yields (read_str b (str, w)) (\<lambda>(l, w'). l = str @ line @ [e]
     \<and> sees arrives b resp outbuf m0 ks (sh @ map to_char (line @ [e])) mem w')"
proof (induction line arbitrary: str sh w)
  case Nil
  then have g: "yields (getc_w b w) (\<lambda>(c, w'). c = e \<and> sees arrives b resp outbuf m0 ks sh mem w')"
    by (intro sees_getc) simp
  show ?case
    using Nil(2,3) by (subst read_str.simps)
      (auto intro!: yields_bind [OF g] yields_bind [OF sees_putc])
next
  case (Cons k line)
  then have g: "yields (getc_w b w) (\<lambda>(c, w'). c = k \<and> sees arrives b resp outbuf m0 (line @ e # ks) sh mem w')"
    by (intro sees_getc) simp
  have IH: "yields (read_str b (str @ [k], w')) (\<lambda>(l, w'). l = str @ (k # line) @ [e]
     \<and> sees arrives b resp outbuf m0 ks (sh @ map to_char ((k # line) @ [e])) mem w')"
    if "sees arrives b resp outbuf m0 (line @ e # ks) (sh @ [to_char k]) mem w'" for w'
    using Cons.IH [OF _ _ _ that, of "str @ [k]"] Cons.prems(1-3) by simp
  show ?case
    using Cons.prems(1,3) by (subst read_str.simps)
      (auto intro!: yields_bind [OF g] yields_bind [OF sees_putc] IH [simplified])
qed

text \<open>The array is not guarded: a line that goes on past 200 characters is stored behind it.\<close>

lemma read_str_overruns:
  "list_all (\<lambda>k. k \<noteq> 10 \<and> k \<noteq> 13) line \<Longrightarrow> length str \<le> 200 \<Longrightarrow> 200 < length str + length line \<Longrightarrow>
   sees arrives b resp outbuf m0 (line @ ks) sh mem w \<Longrightarrow> read_str b (str, w) = None"
proof (induction line arbitrary: str sh w)
  case (Cons k line)
  from sees_getc [of arrives b resp outbuf m0 k "line @ ks" sh mem w] Cons.prems(4) obtain w1 where
    g: "getc_w b w = Some (k, w1)" "sees arrives b resp outbuf m0 (line @ ks) sh mem w1" by (auto simp: yields_def)
  from sees_putc [OF g(2), of k] obtain w2 where
    p: "putc_w b k w1 = Some w2" "sees arrives b resp outbuf m0 (line @ ks) (sh @ [to_char k]) mem w2"
    by (auto simp: yields_def)
  show ?case
    using g(1) p(1) Cons.prems(1-3) Cons.IH [OF _ _ _ p(2), of "str @ [k]"]
    by (subst read_str.simps) auto
qed simp

subsection \<open>Printed texts\<close>

lemma unat_ch: "unat (of_char c :: u8) = of_char c"
proof -
  have "(of_char c :: u8) = of_nat (of_char c)" by (simp add: of_nat_of_char)
  then show ?thesis by (simp only: unat_of_nat) simp
qed

lemma to_char_of_char: "to_char (of_char c :: u8) = c"
  by (simp only: to_char_def unat_ch char_of_char)

lemma ch_eq_iff: "(of_char c :: u8) = of_char d \<longleftrightarrow> c = d"
  using to_char_of_char by metis

lemma map_to_char_text_bytes [simp]: "map to_char (text_bytes s) = s"
  by (induction s) (simp_all add: text_bytes_def to_char_of_char)

lemma text_bytes_append: "text_bytes (s @ t) = text_bytes s @ text_bytes t"
  by (simp add: text_bytes_def)

text \<open>Texts that a format prints as they stand.\<close>

definition plain :: "string \<Rightarrow> bool" where
  "plain s \<longleftrightarrow> list_all (\<lambda>c. c \<noteq> CHR ''%'' \<and> c \<noteq> CHR 0x00) s"

lemma plain_Cons: "plain (c # s) \<longleftrightarrow> c \<noteq> CHR ''%'' \<and> c \<noteq> CHR 0x00 \<and> plain s"
  by (simp add: plain_def)

lemma plain_Nil [simp]: "plain []"
  by (simp add: plain_def)

lemma format_plain:
  "plain s \<Longrightarrow> format_text strs (text_bytes s @ f) args = map_option (\<lambda>t. text_bytes s @ t) (format_text strs f args)"
proof (induction s)
  case Nil
  then show ?case by (cases "format_text strs f args") (simp_all add: text_bytes_def)
next
  case (Cons c s)
  have "(ch c = ch CHR ''%'') = (c = CHR ''%'')" by (rule ch_eq_iff)
  with Cons.prems have "ch c \<noteq> ch CHR ''%''" by (simp only: plain_Cons) simp
  with Cons show ?case by (cases "format_text strs f args") (simp_all add: plain_Cons text_bytes_def)
qed

lemma text_bytes_no_nul: "plain s \<Longrightarrow> 0 \<notin> set (text_bytes s)"
proof (induction s)
  case (Cons c s)
  have "(ch c = ch CHR 0x00) = (c = CHR 0x00)" by (rule ch_eq_iff)
  with Cons.prems have "ch c \<noteq> 0" by (simp add: plain_Cons)
  with Cons show ?case by (simp add: plain_Cons text_bytes_def)
qed (simp add: text_bytes_def)

lemma fmt_printed_text:
  assumes "format_text (\<lambda>_. None) fmt args = Some t" and "0 \<notin> set t" and "length t < 1024"
  shows "fmt_printed fmt args = Some (map to_char t)"
proof -
  have "takeWhile (\<lambda>c. c \<noteq> 0) t = t"
    unfolding takeWhile_eq_all_conv using assms(2) by metis
  note tw = this
  show ?thesis by (simp only: fmt_printed_def shown_def assms(1) option.case tw assms(3) if_True)
qed

abbreviation dec :: "int \<Rightarrow> string" where
  "dec v \<equiv> map to_char (int_text v)"

lemma length_text_bytes [simp]: "length (text_bytes s) = length s"
  by (simp add: text_bytes_def)

lemma printed_plain:
  assumes "plain s" and "length s < 1024"
  shows "fmt_printed (text_bytes s) args = Some s"
  using fmt_printed_text [OF _ text_bytes_no_nul [OF assms(1)], of "text_bytes s" args]
    format_plain [OF assms(1), of "\<lambda>_. None" "[]" args] assms(2)
  by simp

text \<open>A number between two texts.\<close>

lemma format_num:
  assumes "plain s"
  shows "format_text strs (text_bytes s @ text_bytes ''%d'' @ f) (v # args)
    = map_option (\<lambda>t. text_bytes s @ int_text (sint v) @ t) (format_text strs f args)"
proof -
  have "format_text strs (text_bytes ''%d'' @ f) (v # args) = map_option (\<lambda>t. int_text (sint v) @ t) (format_text strs f args)"
    by (simp add: text_bytes_def directives)
  then show ?thesis unfolding format_plain [OF assms] by (cases "format_text strs f args") simp_all
qed

lemma printed_num:
  assumes "plain s" and "plain t" and "length s < 400" and "length t < 400"
  shows "fmt_printed (text_bytes s @ text_bytes ''%d'' @ text_bytes t) [v] = Some (s @ dec (sint v) @ t)"
proof -
  have f: "format_text (\<lambda>_. None) (text_bytes s @ text_bytes ''%d'' @ text_bytes t) [v]
      = Some (text_bytes s @ int_text (sint v) @ text_bytes t)"
    using format_plain [OF assms(2), of "\<lambda>_. None" "[]" "[]"] by (simp add: format_num [OF assms(1)])
  have "0 \<notin> set (text_bytes s @ int_text (sint v) @ text_bytes t)"
    using text_bytes_no_nul [OF assms(1)] text_bytes_no_nul [OF assms(2)] int_text_no_nul by simp
  moreover have "length (text_bytes s @ int_text (sint v) @ text_bytes t) < 1024"
    using assms(3,4) int_text_length [of v] by simp
  ultimately show ?thesis using fmt_printed_text [OF f] by simp
qed

subsection \<open>A dialogue\<close>

text \<open>What one round shows before and after the choice.\<close>

definition crlf :: string where
  "crlf = [CHR 0x0D, CHR 0x0A]"

definition lfcr :: string where
  "lfcr = [CHR 0x0A, CHR 0x0D]"

definition menu_head :: "u8 \<Rightarrow> string" where
  "menu_head c = crlf @ ''##### AT24CXX Menu #####'' @ crlf @ ''[R] Read AT24CXX'' @ lfcr
     @ ''[W] Write AT24CXX'' @ lfcr @ ''Enter your selection: '' @ [to_char c] @ lfcr"

definition write_dialogue :: "u8 list \<Rightarrow> u8 list \<Rightarrow> int \<Rightarrow> int \<Rightarrow> string" where
  "write_dialogue l1 l2 a v = ''Enter address: '' @ map to_char l1 @ crlf @ ''Enter data: '' @ map to_char l2 @ crlf
     @ ''write address '' @ dec a @ '' with data '' @ dec v @ crlf"

definition read_dialogue :: "u8 list \<Rightarrow> int \<Rightarrow> int \<Rightarrow> int \<Rightarrow> string" where
  "read_dialogue l a byte v = ''Enter address: '' @ map to_char l @ crlf @ ''read address = '' @ dec a @ crlf
     @ ''at24cxx_read address = '' @ dec byte @ crlf @ ''at24cxx_read send address ok'' @ crlf
     @ ''at24cxx_read get data ok'' @ crlf @ ''data = '' @ dec v @ crlf"

lemma crlf_text: "crlf_bytes = text_bytes crlf" "lfcr_bytes = text_bytes lfcr"
  by (simp_all add: crlf_bytes_def lfcr_bytes_def text_bytes_def crlf_def lfcr_def)

lemma plain_crlf [simp]: "plain crlf" "plain lfcr" "length crlf = 2" "length lfcr = 2"
  by (simp_all add: plain_def crlf_def lfcr_def)

lemma plain_append [simp]: "plain (s @ t) \<longleftrightarrow> plain s \<and> plain t"
  by (simp add: plain_def)

lemma printed_lines:
  "plain s \<Longrightarrow> length s < 400 \<Longrightarrow> fmt_printed (text_bytes s @ crlf_bytes) [] = Some (s @ crlf)"
  "plain s \<Longrightarrow> length s < 400 \<Longrightarrow> fmt_printed (text_bytes s @ lfcr_bytes) [] = Some (s @ lfcr)"
  "plain s \<Longrightarrow> length s < 400 \<Longrightarrow> fmt_printed (crlf_bytes @ text_bytes s @ crlf_bytes) [] = Some (crlf @ s @ crlf)"
  "fmt_printed crlf_bytes [] = Some crlf"
  using printed_plain [of "s @ crlf" "[]"] printed_plain [of "s @ lfcr" "[]"]
    printed_plain [of "crlf @ s @ crlf" "[]"] printed_plain [of crlf "[]"]
  by (simp_all add: crlf_text text_bytes_append)

lemma printed_write:
  "fmt_printed (text_bytes ''write address %d with data %d'' @ crlf_bytes) [a, v]
    = Some (''write address '' @ dec (sint a) @ '' with data '' @ dec (sint v) @ crlf)"
proof -
  let ?t = "text_bytes ''write address '' @ int_text (sint a) @ text_bytes '' with data '' @ int_text (sint v) @ crlf_bytes"
  have split: "text_bytes ''write address %d with data %d'' @ crlf_bytes = text_bytes ''write address '' @ text_bytes ''%d''
      @ text_bytes '' with data '' @ text_bytes ''%d'' @ text_bytes crlf"
    by (simp add: text_bytes_def crlf_text)
  have f: "format_text (\<lambda>_. None) (text_bytes ''write address %d with data %d'' @ crlf_bytes) [a, v] = Some ?t"
    unfolding split by (subst format_num, simp add: plain_def)+
      (simp add: format_plain [of crlf _ "[]" "[]", simplified] crlf_text)
  have "0 \<notin> set ?t"
    using int_text_no_nul text_bytes_no_nul [of crlf] by (simp add: crlf_text) (simp add: text_bytes_def)
  moreover have "length ?t < 1024"
    using int_text_length [of a] int_text_length [of v] by (simp add: crlf_text)
  ultimately show ?thesis using fmt_printed_text [OF f] by (simp add: crlf_text)
qed

lemma printed_char:
  fixes c :: u8
  assumes "c \<noteq> 0"
  shows "fmt_printed (text_bytes ''%c'' @ lfcr_bytes) [ucast c] = Some (to_char c # lfcr)"
proof -
  have f: "format_text (\<lambda>_. None) (text_bytes ''%c'' @ lfcr_bytes) [ucast c] = Some (c # lfcr_bytes)"
    by (simp add: text_bytes_def lfcr_bytes_def directives)
  have "0 \<notin> set (c # lfcr_bytes)" using assms by (simp add: lfcr_bytes_def)
  from fmt_printed_text [OF f this] show ?thesis by (simp add: crlf_text)
qed

text \<open>A round up to the choice.\<close>

abbreviation spi_round ::
  "(hist \<Rightarrow> bool) \<Rightarrow> bus \<Rightarrow> u32 \<Rightarrow> u8 \<Rightarrow> menu_state \<Rightarrow> menu_state option" where
  "spi_round arrives b outbuf junk \<equiv>
     menu_round b (i2c_write arrives (spi_irq b outbuf)) (i2c_read arrives (spi_irq b outbuf))
       (lift_pr (spi_pr b outbuf)) junk"

lemma round_starts:
  assumes "sees arrives b resp outbuf m0 (c # ks) sh mem w" and "c \<noteq> 0"
    and "\<And>w'. sees arrives b resp outbuf m0 ks (sh @ menu_head c) mem w' \<Longrightarrow>
      yields (if c = ch CHR ''r'' \<or> c = ch CHR ''R''
        then menu_read b (i2c_write arrives (spi_irq b outbuf)) (i2c_read arrives (spi_irq b outbuf))
          (lift_pr (spi_pr b outbuf)) junk (address, data, w')
        else if c = ch CHR ''w'' \<or> c = ch CHR ''W''
          then menu_write b (i2c_write arrives (spi_irq b outbuf)) (lift_pr (spi_pr b outbuf)) (address, data, w')
          else Some (address, data, w')) P"
  shows "yields (spi_round arrives b outbuf junk (address, data, w)) P"
  unfolding menu_round_def Let_def prod.case
  apply (rule yields_bind [OF sees_pr [OF assms(1)]])
   apply (rule printed_lines(3); simp add: plain_def)
  apply (rule yields_bind [OF sees_pr], assumption)
   apply (rule printed_lines(2); simp add: plain_def)
  apply (rule yields_bind [OF sees_pr], assumption)
   apply (rule printed_lines(2); simp add: plain_def)
  apply (rule yields_bind [OF sees_pr], assumption)
   apply (rule printed_plain; simp add: plain_def)
  apply (rule yields_bind [OF sees_getc], assumption)
  apply clarify
  apply (rule yields_bind [OF sees_pr], assumption)
   apply (rule printed_char [OF assms(2)])
  using assms(3) apply (simp add: menu_head_def)
  done

text \<open>A line of input, the number in it, and what the two choices do.\<close>

definition typed_line :: "u8 list \<Rightarrow> bool" where
  "typed_line l \<longleftrightarrow> (\<exists>line e. l = line @ [e] \<and> list_all (\<lambda>k. k \<noteq> 10 \<and> k \<noteq> 13) line \<and> (e = 10 \<or> e = 13)
     \<and> length line < 199)"

lemma sees_line:
  assumes "typed_line l" and "sees arrives b resp outbuf m0 (l @ ks) sh mem w"
  shows "yields (read_str b ([], w)) (\<lambda>(str, w'). str = l
    \<and> sees arrives b resp outbuf m0 ks (sh @ map to_char l) mem w')"
  using assms sees_read_str [of _ _ "[]" arrives b resp outbuf m0 ks sh mem w]
  by (fastforce simp: typed_line_def)

lemma sees_store:
  assumes "sees arrives b resp outbuf m0 ks sh mem w"
  shows "yields (at24_write (i2c_write arrives (spi_irq b outbuf)) address v w)
    (sees arrives b resp outbuf m0 ks sh (mem(address := v)))"
  using spi_iic.at24_stores [of arrives b resp outbuf ks w address v m0] assms by (auto simp: sees_def yields_def)

lemma write_choice:
  fixes address data :: u32
  assumes "sees arrives b resp outbuf m0 (l1 @ l2 @ ks) sh mem w" and "typed_line l1" and "typed_line l2"
  defines "a \<equiv> scan_var (blank_str l1) address" and "v \<equiv> scan_var (blank_str l2) data"
  shows "yields (menu_write b (i2c_write arrives (spi_irq b outbuf)) (lift_pr (spi_pr b outbuf)) (address, data, w))
    (\<lambda>(a', v', w'). a' = a \<and> v' = v
       \<and> sees arrives b resp outbuf m0 ks (sh @ write_dialogue l1 l2 (sint a) (sint v)) (mem(ucast a := ucast v)) w')"
  unfolding menu_write_def Let_def prod.case a_def [symmetric] v_def [symmetric]
  apply (rule yields_bind [OF sees_pr [OF assms(1)]])
   apply (rule printed_plain; simp add: plain_def)
  apply (rule yields_bind [OF sees_line [OF assms(2)]], assumption)
  apply clarify
  apply (rule yields_bind [OF sees_pr], assumption)
   apply (rule printed_lines(4))
  apply (rule yields_bind [OF sees_pr], assumption)
   apply (rule printed_plain; simp add: plain_def)
  apply (rule yields_bind [OF sees_line [OF assms(3)]], assumption)
  apply clarify
  apply (rule yields_bind [OF sees_pr], assumption)
   apply (rule printed_lines(4))
  apply (rule yields_bind [OF sees_pr], assumption)
   apply (simp only: a_def [symmetric] v_def [symmetric])
   apply (rule printed_write)
  apply (rule yields_bind [OF sees_store], assumption)
  apply (simp add: write_dialogue_def a_def v_def)
  done

lemma printed_fetch:
  "fmt_printed (text_bytes ''at24cxx_read address = %d'' @ crlf_bytes) [v] = Some (''at24cxx_read address = '' @ dec (sint v) @ crlf)"
  "fmt_printed (crlf_bytes @ text_bytes ''read address = %d'' @ crlf_bytes) [v] = Some (crlf @ ''read address = '' @ dec (sint v) @ crlf)"
  "fmt_printed (text_bytes ''data = %d'' @ crlf_bytes) [v] = Some (''data = '' @ dec (sint v) @ crlf)"
proof -
  have s: "text_bytes ''at24cxx_read address = %d'' = text_bytes ''at24cxx_read address = '' @ text_bytes ''%d''"
    "text_bytes ''read address = %d'' = text_bytes ''read address = '' @ text_bytes ''%d''"
    "text_bytes ''data = %d'' = text_bytes ''data = '' @ text_bytes ''%d''"
    by (simp_all add: text_bytes_def)
  note p = printed_num [where t = crlf and v = v]
  show "fmt_printed (text_bytes ''at24cxx_read address = %d'' @ crlf_bytes) [v] = Some (''at24cxx_read address = '' @ dec (sint v) @ crlf)"
    using p [of "''at24cxx_read address = ''"] by (simp add: s crlf_text plain_Cons)
  show "fmt_printed (crlf_bytes @ text_bytes ''read address = %d'' @ crlf_bytes) [v] = Some (crlf @ ''read address = '' @ dec (sint v) @ crlf)"
    using p [of "crlf @ ''read address = ''"] by (simp add: s crlf_text text_bytes_append plain_Cons)
  show "fmt_printed (text_bytes ''data = %d'' @ crlf_bytes) [v] = Some (''data = '' @ dec (sint v) @ crlf)"
    using p [of "''data = ''"] by (simp add: s crlf_text plain_Cons)
qed

lemma sint_ucast8: "sint (ucast (v :: u8) :: u32) = uint v"
proof -
  have "0 \<le> uint v" "uint v < 256" using unsigned_less [of v, where ?'a = int] by simp_all
  moreover have "- (2 ^ 31) \<le> (0 :: int)" "(256 :: int) \<le> 2 ^ 31" by simp_all
  ultimately have "signed_take_bit 31 (uint v) = uint v"
    by (intro signed_take_bit_int_eq_self) linarith+
  then show ?thesis by (simp add: sint_uint uint_up_ucast is_up)
qed

lemma sees_load:
  assumes "sees arrives b resp outbuf m0 ks sh mem w" and "chip_answers 0xA0 m0 resp"
  shows "yields (at24_read (i2c_write arrives (spi_irq b outbuf)) (i2c_read arrives (spi_irq b outbuf))
      (lift_pr (spi_pr b outbuf)) junk address w)
    (\<lambda>(v, w'). v = mem address \<and> sees arrives b resp outbuf m0 ks
      (sh @ ''at24cxx_read address = '' @ dec (uint address) @ crlf @ ''at24cxx_read send address ok'' @ crlf
        @ ''at24cxx_read get data ok'' @ crlf) mem w')"
proof -
  note p1 = printed_fetch(1) [of "ucast address", unfolded sint_ucast8]
  have p2: "fmt_printed (text_bytes ''at24cxx_read send address ok'' @ crlf_bytes) [] = Some (''at24cxx_read send address ok'' @ crlf)"
    "fmt_printed (text_bytes ''at24cxx_read get data ok'' @ crlf_bytes) [] = Some (''at24cxx_read get data ok'' @ crlf)"
    by (rule printed_lines(1); simp add: plain_def)+
  from spi_iic.at24_reads [OF _ assms(2) p1 p2, of arrives b outbuf ks w junk] assms(1) show ?thesis
    by (auto simp: sees_def yields_def)
qed

lemma read_choice:
  fixes address data :: u32
  assumes "sees arrives b resp outbuf m0 (l @ ks) sh mem w" and "typed_line l" and "chip_answers 0xA0 m0 resp"
  defines "a \<equiv> scan_var (blank_str l) address"
  shows "yields (menu_read b (i2c_write arrives (spi_irq b outbuf)) (i2c_read arrives (spi_irq b outbuf))
      (lift_pr (spi_pr b outbuf)) junk (address, data, w))
    (\<lambda>(a', v', w'). a' = a \<and> v' = ucast (mem (ucast a))
       \<and> sees arrives b resp outbuf m0 ks
           (sh @ read_dialogue l (sint a) (uint (ucast a :: u8)) (uint (mem (ucast a)))) mem w')"
  unfolding menu_read_def Let_def prod.case a_def [symmetric]
  apply (rule yields_bind [OF sees_pr [OF assms(1)]])
   apply (rule printed_plain; simp add: plain_def)
  apply (rule yields_bind [OF sees_line [OF assms(2)]], assumption)
  apply clarify
  apply (rule yields_bind [OF sees_pr], assumption)
   apply (rule printed_fetch(2))
  apply (rule yields_bind [OF sees_load [OF _ assms(3)]], assumption)
  apply clarify
  apply (rule yields_bind [OF sees_pr], assumption)
   apply (rule printed_fetch(3))
  apply (simp add: read_dialogue_def a_def sint_ucast8)
  done

lemma int_text_digits: "0 \<le> n \<Longrightarrow> c \<in> set (int_text n) \<Longrightarrow> 48 \<le> unat c \<and> unat c < 58"
  using base_text_isdigit [of c SIGN "nat n"] by (simp add: int_text_def class_ranges)

lemma unat_lt_iff: "(c :: u8) < d \<longleftrightarrow> unat c < unat d"
  by (rule word_less_nat_alt)

lemma number_line:
  assumes "0 \<le> n" and "n < 1000"
  shows "typed_line (int_text n @ [13])" and "scan_var (blank_str (int_text n @ [13])) old = word_of_int n"
proof -
  have s: "sint (word_of_int n :: u32) = n"
    using assms unfolding sint_sbintrunc' by (intro signed_take_bit_int_eq_self) simp_all
  have "length (int_text n) < 199" using int_text_length [of "word_of_int n"] by (simp add: s)
  moreover have "k \<noteq> 10 \<and> k \<noteq> 13" if "k \<in> set (int_text n)" for k
    using int_text_digits [OF assms(1) that] by auto
  ultimately show "typed_line (int_text n @ [13])" by (auto simp: typed_line_def list_all_iff)
  have "map (\<lambda>c. if c < ch CHR ''0'' \<or> ch CHR ''9'' < c then ch CHR '' '' else c) (int_text n) = int_text n"
  proof (rule map_idI)
    fix c assume "c \<in> set (int_text n)"
    then have "48 \<le> unat c" "unat c < 58" using int_text_digits [OF assms(1)] by blast+
    then show "(if c < ch CHR ''0'' \<or> ch CHR ''9'' < c then ch CHR '' '' else c) = c"
      by (simp add: unat_lt_iff)
  qed
  then have bl: "blank_str (int_text n @ [13]) = [] @ int_text n @ [32]" by (simp add: blank_str_def)
  have "vsscanf_lib ([] @ int_text n @ [32]) (text_bytes ''%d'') = (1, [Num32 (word_of_int n)])"
    by (rule sscanf_dec) (simp_all add: class_ranges)
  then show "scan_var (blank_str (int_text n @ [13])) old = word_of_int n"
    unfolding bl by (simp add: scan_var_def sscanf_lib_def)
qed

lemma byte_values:
  assumes "0 \<le> n" and "n < 256"
  shows "sint (word_of_int n :: u32) = n" and "(ucast (word_of_int n :: u32) :: u8) = word_of_int n"
    and "uint (word_of_int n :: u8) = n" and "(ucast (word_of_int n :: u8) :: u32) = word_of_int n"
proof -
  show "sint (word_of_int n :: u32) = n"
    using assms unfolding sint_sbintrunc' by (intro signed_take_bit_int_eq_self) simp_all
  show "(ucast (word_of_int n :: u32) :: u8) = word_of_int n"
    using assms by (simp add: unsigned_of_int take_bit_int_eq_self word_of_int_eq_iff)
  show "(ucast (word_of_int n :: u8) :: u32) = word_of_int n"
    using assms by (simp add: unsigned_of_int take_bit_int_eq_self)
  show "uint (word_of_int n :: u8) = n"
    using assms by (simp add: unsigned_of_int take_bit_int_eq_self)
qed

lemma round_write:
  fixes address data :: u32
  assumes "sees arrives b resp outbuf m0 (ch CHR ''w'' # l1 @ l2 @ ks) sh mem w" and "typed_line l1" and "typed_line l2"
  defines "a \<equiv> scan_var (blank_str l1) address" and "v \<equiv> scan_var (blank_str l2) data"
  shows "yields (spi_round arrives b outbuf junk (address, data, w))
    (\<lambda>(a', v', w'). a' = a \<and> v' = v \<and> sees arrives b resp outbuf m0 ks
       (sh @ menu_head (ch CHR ''w'') @ write_dialogue l1 l2 (sint a) (sint v)) (mem(ucast a := ucast v)) w')"
  apply (rule round_starts [OF assms(1)], simp)
  apply (drule write_choice [OF _ assms(2,3), where address = address and data = data])
  apply (simp add: a_def v_def)
  done

lemma round_read:
  fixes address data :: u32
  assumes "sees arrives b resp outbuf m0 (ch CHR ''r'' # l @ ks) sh mem w" and "typed_line l" and "chip_answers 0xA0 m0 resp"
  defines "a \<equiv> scan_var (blank_str l) address"
  shows "yields (spi_round arrives b outbuf junk (address, data, w))
    (\<lambda>(a', v', w'). a' = a \<and> v' = ucast (mem (ucast a)) \<and> sees arrives b resp outbuf m0 ks
       (sh @ menu_head (ch CHR ''r'') @ read_dialogue l (sint a) (uint (ucast a :: u8)) (uint (mem (ucast a)))) mem w')"
  apply (rule round_starts [OF assms(1)], simp)
  apply (drule read_choice [OF _ assms(2,3), where junk = junk and address = address and data = data])
  apply (simp add: a_def)
  done

text \<open>The keys of a session that stores a value and reads it back, and what it shows.\<close>

definition session_keys :: "int \<Rightarrow> int \<Rightarrow> u8 list" where
  "session_keys a v = [ch CHR ''w''] @ (int_text a @ [13]) @ (int_text v @ [13]) @ [ch CHR ''r''] @ (int_text a @ [13])"

definition session_text :: "int \<Rightarrow> int \<Rightarrow> string" where
  "session_text a v = menu_head (ch CHR ''w'') @ write_dialogue (int_text a @ [13]) (int_text v @ [13]) a v
     @ menu_head (ch CHR ''r'') @ read_dialogue (int_text a @ [13]) a a v"

lemma session:
  assumes "sees arrives b resp outbuf m0 (session_keys a v @ ks) sh mem w" and "chip_answers 0xA0 m0 resp"
    and a: "0 \<le> a" "a < 256" and v: "0 \<le> v" "v < 256"
  shows "yields (do { st \<leftarrow> spi_round arrives b outbuf junk (address, data, w); spi_round arrives b outbuf junk st })
    (\<lambda>(a', v', w'). a' = word_of_int a \<and> v' = word_of_int v
      \<and> sees arrives b resp outbuf m0 ks (sh @ session_text a v) (mem(word_of_int a := word_of_int v)) w')"
proof -
  let ?l1 = "int_text a @ [13]" and ?l2 = "int_text v @ [13]"
  note la = number_line [of a] and lv = number_line [of v]
  have "sees arrives b resp outbuf m0 (ch CHR ''w'' # ?l1 @ ?l2 @ ch CHR ''r'' # ?l1 @ ks) sh mem w"
    using assms(1) by (simp add: session_keys_def)
  from round_write [OF this la(1) lv(1), of junk address data] a v
  have w: "yields (spi_round arrives b outbuf junk (address, data, w))
    (\<lambda>(a', v', w'). a' = word_of_int a \<and> v' = word_of_int v \<and> sees arrives b resp outbuf m0 (ch CHR ''r'' # ?l1 @ ks)
       (sh @ menu_head (ch CHR ''w'') @ write_dialogue ?l1 ?l2 a v) (mem(word_of_int a := word_of_int v)) w')"
    by (simp add: la(2) lv(2) byte_values)
  show ?thesis
  proof (rule yields_bind [OF w], clarify)
    fix s m h
    assume "sees arrives b resp outbuf m0 (ch CHR ''r'' # ?l1 @ ks)
      (sh @ menu_head (ch CHR ''w'') @ write_dialogue ?l1 ?l2 a v) (mem(word_of_int a := word_of_int v)) (s, m, h)"
    from round_read [OF this la(1) assms(2), of junk "word_of_int a" "word_of_int v"] a v
    show "yields (spi_round arrives b outbuf junk (word_of_int a, word_of_int v, s, m, h))
      (\<lambda>(a', v', w'). a' = word_of_int a \<and> v' = word_of_int v
        \<and> sees arrives b resp outbuf m0 ks (sh @ session_text a v) (mem(word_of_int a := word_of_int v)) w')"
      by (simp add: la(2) byte_values session_text_def)
  qed
qed

end
