(* ===== verification/Spistart.thy ===== *)
theory Spistart
  imports Spimain
begin

text \<open>
  The whole program of the SPI image, \<^verbatim>\<open>main.c\<close>: the start-up, which prints the identification of the SPI
  flash on the console and on the display, and the rounds of the menu.
\<close>

text \<open>The C string at an address, as a callee walks it.\<close>

definition c_string :: "mem \<Rightarrow> u32 \<Rightarrow> string option" where
  "c_string m p = do {
     n \<leftarrow> strlen_lib m p;
     Some (map (\<lambda>i. to_char (the (m (p + of_nat i)))) [0..<unat n])
   }"

text \<open>The statements before the loop; \<open>str\<close> is the address of the local array.\<close>

definition main_init :: "bus \<Rightarrow> iic_world pr_fun \<Rightarrow> u8 list list \<Rightarrow> u32 \<Rightarrow> iic_world \<Rightarrow> iic_world option" where
  "main_init b pr font str w =
     (let (s, m, h) = w;
          h = uart0_init_spi b h;
          h = SPIInit b h;
          h = OLEDInit b h
      in do {
        h \<leftarrow> OLEDPrint b font 0 0 ''www.100ask.net, 100ask.taobao.com'' h;
        let ((mid, pid), h) = SPIFLASHReadID b h;
        (s, m, h) \<leftarrow> pr (text_bytes ''SPI Flash : MID = 0x%02x, PID = 0x%02x'' @ lfcr_bytes) [ucast mid, ucast pid] (s, m, h);
        (_, m) \<leftarrow> sprintf_lib str (text_bytes ''SPI : %02x, %02x'') [ucast mid, ucast pid] m;
        t \<leftarrow> c_string m str;
        h \<leftarrow> OLEDPrint b font 4 0 t h;
        Some (s, m, iic_init b h)
      })"



subsection \<open>Accesses to the two ports of the SPI bus\<close>

text \<open>\<open>ports_only h h'\<close>: since \<open>h\<close> only the registers of the ports F and G were accessed.\<close>

definition port_event :: "event \<Rightarrow> bool" where
  "port_event e = (case e of Rd32 a _ \<Rightarrow> a \<in> {GPFCON, GPFDAT, GPGCON, GPGDAT}
     | Wr32 a _ \<Rightarrow> a \<in> {GPFCON, GPFDAT, GPGCON, GPGDAT} | _ \<Rightarrow> False)"

definition ports_only :: "hist \<Rightarrow> hist \<Rightarrow> bool" where
  "ports_only h h' \<longleftrightarrow> (\<exists>e. h' = h @ e \<and> list_all port_event e)"

lemma ports_refl [simp]: "ports_only h h"
  by (simp add: ports_only_def)

lemma ports_access:
  "ports_only h g \<Longrightarrow> a \<in> {GPFCON, GPFDAT, GPGCON, GPGDAT} \<Longrightarrow> ports_only h (upd32 b a f g)"
  "ports_only h g \<Longrightarrow> a \<in> {GPFCON, GPFDAT, GPGCON, GPGDAT} \<Longrightarrow> ports_only h (g @ [Rd32 a v])"
  by (auto simp: ports_only_def upd32_eq port_event_def)

lemma ports_lines:
  assumes "ports_only h g"
  shows "ports_only h (SPI_Set_CLK b v g)" "ports_only h (SPI_Set_DO b v g)" "ports_only h (OLED_Set_DC b v g)"
    "ports_only h (OLED_Set_CS b v g)" "ports_only h (SPIFLASH_Set_CS b v g)" "ports_only h (SPIInit b g)"
  using assms
  by (simp_all add: SPI_Set_CLK_def SPI_Set_DO_def OLED_Set_DC_def OLED_Set_CS_def SPIFLASH_Set_CS_def
      SPIInit_def SPI_GPIO_Init_def Let_def ports_access)

lemma ports_send_bits: "ports_only h g \<Longrightarrow> ports_only h (send_bits b n v g)"
  by (induction n arbitrary: v g) (simp_all add: Let_def ports_lines)

lemma ports_rece_bits: "ports_only h g \<Longrightarrow> ports_only h (snd (rece_bits b n v g))"
  by (induction n arbitrary: v g) (simp_all add: Let_def ports_lines ports_access SPI_Get_DI_def rd32_def)

lemma ports_bytes:
  assumes "ports_only h g"
  shows "ports_only h (SPISendByte b v g)" "ports_only h (snd (SPIReceByte b g))"
    "ports_only h (OLEDWriteCmd b c g)" "ports_only h (OLEDWriteDat b c g)"
  using assms
  by (simp_all add: SPISendByte_def SPIReceByte_def OLEDWriteCmd_def OLEDWriteDat_def Let_def ports_send_bits
      ports_rece_bits ports_lines)

lemma ports_pos: "ports_only h g \<Longrightarrow> ports_only h (OLEDSetPos b page col g)"
  by (simp add: OLEDSetPos_def Let_def ports_bytes)

lemma ports_dots: "ports_only h g \<Longrightarrow> ports_only h (write_dots b ds g)"
  by (induction ds arbitrary: g) (simp_all add: ports_bytes)

lemma ports_cmds: "ports_only h g \<Longrightarrow> ports_only h (write_cmds b ds g)"
  by (induction ds arbitrary: g) (simp_all add: ports_bytes)

lemma ports_pages: "ports_only h g \<Longrightarrow> ports_only h (clear_pages b n p g)"
  by (induction n arbitrary: p g) (simp_all add: ports_dots ports_pos)

lemma ports_init: "ports_only h g \<Longrightarrow> ports_only h (OLEDInit b g)"
  by (simp add: OLEDInit_def OLEDSetPageAddrMode_def OLEDClear_def Let_def ports_bytes ports_cmds ports_pages)

lemma ports_print: "OLEDPrint b font p c str g = Some g' \<Longrightarrow> ports_only h g \<Longrightarrow> ports_only h g'"
  by (induction str arbitrary: p c g)
    (auto simp: OLEDPutChar_def Let_def ports_dots ports_pos split: if_splits)

lemma ports_read_id: "ports_only h g \<Longrightarrow> ports_only h (snd (SPIFLASHReadID b g))"
  using ports_bytes(2) [of h _ b]
  by (simp add: SPIFLASHReadID_def SPIFlashSendAddr_def Let_def split: prod.split)
    (metis ports_bytes ports_lines(5) snd_conv)

text \<open>Such accesses leave the console and the I2C bus alone.\<close>

lemma ports_quiet:
  assumes "ports_only h h'"
  shows "wire_state h' = wire_state h" and "console b h ks \<Longrightarrow> console b h' ks" and "uart_tx h' = uart_tx h"
proof -
  from assms obtain e where e: "h' = h @ e" "list_all port_event e" by (auto simp: ports_only_def)
  have w: "fold wire_step e st = st" for st using e(2)
    by (induction e arbitrary: st) (auto simp: port_event_def split: event.splits)
  have u: "rx_count e = 0 \<and> uart_tx e = []" using e(2)
    by (induction e) (auto simp: port_event_def rx_count_def split: event.splits)
  show "wire_state h' = wire_state h" by (simp add: e(1) wire_state_append w)
  show "console b h' ks" if "console b h ks" using console_step [OF that, of e] u e(1) by simp
  show "uart_tx h' = uart_tx h" using u by (simp add: e(1))
qed

subsection \<open>Two hexadecimal digits\<close>

definition hex2 :: "u8 \<Rightarrow> u8 list" where
  "hex2 v = [digit_char 0 (unat v div 16), digit_char 0 (unat v mod 16)]"

lemma base_text_hex2:
  assumes "n < 256"
  shows "replicate (nat (2 - int (length (base_text d 16 n)))) (d 0) @ base_text d 16 n = [d (n div 16), d (n mod 16)]"
proof (cases "n < 16")
  case False
  with assms show ?thesis
    by (simp add: base_text.simps [of d 16 n] base_text.simps [of d 16 "n div 16"] div_less_iff_less_mult)
qed (simp add: base_text.simps)

lemma directive_02x:
  "directive_text strs (text_bytes ''02x'' @ f) (ucast (v :: u8) # args) = Some (f, args, hex2 v)"
proof -
  have u: "uint (ucast (ucast v :: u32) :: u64) = int (unat v)"
    by (simp add: uint_up_ucast is_up)
  have z: "digit_char ZEROPAD = digit_char 0" by (simp add: digit_char_def fun_eq_iff)
  have "unat v < 256" using unsigned_less [of v, where ?'a = nat] by simp
  from base_text_hex2 [OF this, of "digit_char 0"]
  have "replicate (nat (2 - int (length (base_text (digit_char 0) 16 (unat v))))) 48 @ base_text (digit_char 0) 16 (unat v)
      = hex2 v" by (simp add: hex2_def digit_char_def)
  then show ?thesis
    by (simp add: text_bytes_def directive_text_def fmt_width_def fmt_precision_def fmt_qualifier_def
        class_ranges convert_text_def int_conv_def int_arg_def Let_def field_number_def justify_def
        sign_text_def special_prefix_def u z)
qed

lemma format_hex:
  assumes "plain s"
  shows "format_text strs (text_bytes s @ text_bytes ''%02x'' @ f) (ucast (v :: u8) # args)
    = map_option (\<lambda>t. text_bytes s @ hex2 v @ t) (format_text strs f args)"
proof -
  have "format_text strs (ch CHR ''%'' # text_bytes ''02x'' @ f) (ucast v # args)
      = map_option (\<lambda>t. hex2 v @ t) (format_text strs f args)"
    by (simp only: format_text.simps directive_02x option.case prod.case simp_thms if_False)
  moreover have "text_bytes ''%02x'' @ f = ch CHR ''%'' # text_bytes ''02x'' @ f" by (simp add: text_bytes_def)
  ultimately show ?thesis unfolding format_plain [OF assms]
    by (cases "format_text strs f args") (simp_all del: of_char_Char)
qed

lemma hex2_chars: "c \<in> set (hex2 v) \<Longrightarrow> 48 \<le> unat c \<and> unat c < 127"
proof -
  have "48 \<le> unat (digit_char 0 d) \<and> unat (digit_char 0 d) < 127" if "d < 16" for d
    using that by (simp add: digit_char_def unat_word_ariths unat_of_nat)
  moreover have "unat v div 16 < 16" "unat v mod 16 < 16"
    using unsigned_less [of v, where ?'a = nat] by (simp_all add: div_less_iff_less_mult)
  moreover assume "c \<in> set (hex2 v)"
  ultimately show ?thesis by (auto simp: hex2_def)
qed

definition ids_text :: "string \<Rightarrow> string \<Rightarrow> string \<Rightarrow> u8 \<Rightarrow> u8 \<Rightarrow> u8 list" where
  "ids_text s1 s2 s3 mid did = text_bytes s1 @ hex2 mid @ text_bytes s2 @ hex2 did @ text_bytes s3"

lemma format_ids:
  assumes "plain s1" "plain s2" "plain s3"
  shows "format_text strs (text_bytes s1 @ text_bytes ''%02x'' @ text_bytes s2 @ text_bytes ''%02x'' @ text_bytes s3)
      [ucast (mid :: u8), ucast (did :: u8)] = Some (ids_text s1 s2 s3 mid did)"
  using format_plain [OF assms(3), of strs "[]" "[]"]
  by (simp add: format_hex [OF assms(1)] format_hex [OF assms(2)] ids_text_def)

lemma ids_text_no_nul:
  assumes "plain s1" "plain s2" "plain s3"
  shows "0 \<notin> set (ids_text s1 s2 s3 mid did)"
  using assms [THEN text_bytes_no_nul] hex2_chars [of 0] by (auto simp: ids_text_def)

subsection \<open>The start-up\<close>

text \<open>The board while the program starts: the console works, the I2C bus is idle, and the display, its bus
  idle, shows \<open>ram\<close> on its 8 pages of 128 columns.\<close>

definition starting ::
  "bus \<Rightarrow> spi_view \<Rightarrow> u8 list \<Rightarrow> wire_event list \<Rightarrow> string \<Rightarrow> (nat \<Rightarrow> nat \<Rightarrow> u8) \<Rightarrow> hist \<Rightarrow> bool" where
  "starting b w0 ks l sh ram h \<longleftrightarrow>
     console b h ks \<and> wire_state h = (None, l) \<and> uart_tx h = sh
     \<and> (\<exists>ol. shows_oled b w0 h ol \<and> page_mode ol \<and> o_on ol \<and> (\<forall>q < 8. \<forall>x < 128. o_ram ol q x = ram q x))"

definition spi_quiet :: "spi_view \<Rightarrow> hist \<Rightarrow> wire_state \<times> spi_view" where
  "spi_quiet w0 h = (wire_state h, spi_run w0 h)"

lemma quiet_spi: "quiet (spi_quiet w0)"
proof -
  have "wire_step (Rd32 UTRSTAT0 v) st = st" for v st by (cases st) simp
  then show ?thesis by (simp add: quiet_def spi_quiet_def wire_state_append spi_run_append)
qed

lemma uart_init_quiet:
  "wire_state (uart0_init_spi b h) = wire_state h" "spi_run w0 (uart0_init_spi b h) = spi_run w0 h"
  "console b h ks \<Longrightarrow> console b (uart0_init_spi b h) ks" "uart_tx (uart0_init_spi b h) = uart_tx h"
proof -
  obtain e where e: "uart0_init_spi b h = h @ e" "rx_count e = 0" "uart_tx e = []"
    "fold spi_step e (spi_run w0 h) = spi_run w0 h" "\<And>ds l. fold wire_step e (ds, l) = (ds, l)"
    by (simp add: uart0_init_spi_def upd32_eq wr32_def Let_def rx_count_def)
  show "wire_state (uart0_init_spi b h) = wire_state h"
    by (cases "wire_state h") (simp add: e(1,5) wire_state_append)
  show "spi_run w0 (uart0_init_spi b h) = spi_run w0 h" by (simp add: e spi_run_append)
  show "uart_tx (uart0_init_spi b h) = uart_tx h" by (simp add: e)
  show "console b h ks \<Longrightarrow> console b (uart0_init_spi b h) ks" using console_step [of b h ks e] by (simp add: e)
qed

lemma start_display:
  assumes "port_ok b w0" and "view_ok w0" and "o_want (v_oled (spi_run w0 h)) = None"
    and "console b h ks" and "wire_state h = (None, l)"
  shows "starting b w0 ks l (uart_tx h) (\<lambda>_ _. 0) (OLEDInit b (SPIInit b h))"
proof -
  have "ports_only h (OLEDInit b (SPIInit b h))" by (simp add: ports_init ports_lines)
  note q = ports_quiet [OF this]
  from init_blank [OF assms(1-3)] obtain w where w: "w = spi_run w0 (OLEDInit b (SPIInit b h))"
    "spi_idle w" "page_mode (v_oled w)" "o_on (v_oled w)" "\<forall>q < 8. \<forall>x < 128. o_ram (v_oled w) q x = 0" by blast
  then have "shows_oled b w0 (OLEDInit b (SPIInit b h)) (v_oled w)" using assms(1,2) by (simp add: shows_oled_def)
  with w(3-5) q(1,3) q(2) [OF assms(4)] assms(5) show ?thesis unfolding starting_def by auto
qed

lemma start_print:
  assumes "starting b w0 ks l sh ram h" and "\<forall>ch \<in> set str. in_font font ch"
    and "k < 16" and "str \<noteq> [] \<longrightarrow> k + length str \<le> 16 * ((8 - p) div 2)"
  shows "\<exists>h'. OLEDPrint b font (int p) (int (8 * k)) str h = Some h' \<and> starting b w0 ks l sh (text_ram font p k str ram) h'"
proof -
  from assms(1) obtain ol where ol: "shows_oled b w0 h ol" "page_mode ol" "o_on ol"
    "\<forall>q < 8. \<forall>x < 128. o_ram ol q x = ram q x" by (auto simp: starting_def)
  from print_draws [OF ol(1,2) assms(2-4)] obtain h' ol' where h': "OLEDPrint b font (int p) (int (8 * k)) str h = Some h'"
    "shows_oled b w0 h' ol'" "page_mode ol'" "o_on ol' = o_on ol"
    "\<forall>q x. x < 128 \<longrightarrow> o_ram ol' q x = text_ram font p k str (o_ram ol) q x" by blast
  have "text_ram font p k str (o_ram ol) q x = text_ram font p k str ram q x" if "q < 8" "x < 128" for q x
    using ol(4) that by (simp add: text_ram_def Let_def)
  with h' ports_quiet [OF ports_print [OF h'(1) ports_refl]] assms(1) ol(3) show ?thesis
    by (intro exI [of _ h']) (auto simp: starting_def)
qed

lemma start_read_id:
  assumes "starting b w0 ks l sh ram h" and "flash_ids b w0 mid did"
  shows "\<exists>h'. SPIFLASHReadID b h = ((mid, did), h') \<and> starting b w0 ks l sh ram h'"
proof -
  from assms(1) obtain ol where ol: "port_ok b w0" "view_ok w0" "spi_idle (spi_run w0 h)" "v_oled (spi_run w0 h) = ol"
    "page_mode ol" "o_on ol" "\<forall>q < 8. \<forall>x < 128. o_ram ol q x = ram q x" by (auto simp: starting_def shows_oled_def)
  from read_id_ok [OF ol(1,2) assms(2) ol(3)] obtain h' where h': "SPIFLASHReadID b h = ((mid, did), h')"
    "spi_idle (spi_run w0 h')" "v_oled (spi_run w0 h') = ol" using ol(4) by auto
  have "ports_only h h'" using ports_read_id [of h h b] h'(1) by simp
  from ports_quiet [OF this] h' ol assms(1) show ?thesis
    by (intro exI [of _ h']) (auto simp: starting_def shows_oled_def)
qed

lemma start_printf:
  assumes "starting b w0 ks l sh ram h" and "format_text (\<lambda>_. None) fmt args = Some t" and "0 \<notin> set t" "length t < 1024"
    and "outbuf_ok outbuf m"
  shows "\<exists>h'. lift_pr (spi_pr b outbuf) fmt args (s, m, h) = Some (s, put_bytes outbuf (t @ [0]) m, h')
    \<and> starting b w0 ks l (sh @ map to_char t) ram h'"
proof -
  have room: "room m outbuf (Suc (length t))"
    by (rule room_le [of m outbuf 1024]) (use assms(4,5) in \<open>simp_all add: outbuf_ok_def\<close>)
  have buf: "outbuf \<noteq> 0" "unat outbuf + length t < 2 ^ 31" using assms(4,5) by (simp_all add: outbuf_ok_def)
  have c: "console b h ks \<and> (quiet (spi_quiet w0) \<longrightarrow> spi_quiet w0 h = spi_quiet w0 h)"
    using assms(1) by (simp add: starting_def)
  from con.printf_lib_prints [where view = "spi_quiet w0" and v = "spi_quiet w0 h", OF assms(2) buf room no_strs c] quiet_spi
  obtain h' where p: "printf_lib (putchar b) outbuf fmt args (m, h) = Some (of_nat (length t), put_bytes outbuf (t @ [0]) m, h')"
    "console b h' ks" "spi_quiet w0 h' = spi_quiet w0 h" "uart_tx h' = uart_tx h @ shown t" by blast
  have "takeWhile (\<lambda>c. c \<noteq> 0) t = t" unfolding takeWhile_eq_all_conv using assms(3) by metis
  then have "shown t = map to_char t" by (simp only: shown_def)
  with p assms(1) show ?thesis
    by (simp add: lift_pr_def spi_printf_def spi_quiet_def starting_def shows_oled_def)
qed

lemma start_i2c:
  assumes "starting b w0 ks l sh ram h"
  shows "starting b w0 ks l sh ram (iic_init b h)"
proof -
  obtain e where e: "iic_init b h = h @ e" "rx_count e = 0" "uart_tx e = []"
    "fold spi_step e (spi_run w0 h) = spi_run w0 h" "fold wire_step e (None, l) = (None, l)"
    by (simp add: iic_init_def upd32_eq wr32_def Let_def rx_count_def)
  have "console b (h @ e) ks" using console_step [of b h ks e] e(2) assms by (simp add: starting_def)
  then show ?thesis
    using assms e by (simp add: starting_def shows_oled_def wire_state_append spi_run_append)
qed

lemma c_string_ok:
  assumes "cstr m p s" and "length s < 2 ^ 32"
  shows "c_string m p = Some (map to_char s)"
proof -
  have "the (m (p + of_nat i)) = s ! i" if "i < length s" for i
    using assms(1) that by (auto simp: cstr_def bytes_at_def nth_append)
  then have "map (\<lambda>i. to_char (the (m (p + of_nat i)))) [0..<length s] = map to_char s"
    by (intro nth_equalityI) simp_all
  then show ?thesis using strlen_ok [OF assms(1)] assms(2) by (simp add: c_string_def unat_of_nat)
qed

text \<open>A table with a glyph for each printing character.\<close>

definition full_font :: "u8 list list \<Rightarrow> bool" where
  "full_font font \<longleftrightarrow> 95 \<le> length font \<and> list_all (\<lambda>g. 16 \<le> length g) font"

lemma full_font_char: "full_font font \<Longrightarrow> 32 \<le> (of_char c :: nat) \<Longrightarrow> of_char c < (127 :: nat) \<Longrightarrow> in_font font c"
  by (auto simp: full_font_def in_font_def list_all_length)

abbreviation banner :: string where
  "banner \<equiv> ''www.100ask.net, 100ask.taobao.com''"

abbreviation flash_line :: "u8 \<Rightarrow> u8 \<Rightarrow> string" where
  "flash_line mid did \<equiv> map to_char (ids_text ''SPI Flash : MID = 0x'' '', PID = 0x'' lfcr mid did)"

abbreviation flash_label :: "u8 \<Rightarrow> u8 \<Rightarrow> string" where
  "flash_label mid did \<equiv> map to_char (ids_text ''SPI : '' '', '' [] mid did)"

lemma flash_label_in_font:
  assumes "full_font font"
  shows "\<forall>c \<in> set (flash_label mid did). in_font font c"
proof -
  have "in_font font (to_char c)" if "c \<in> set (hex2 v)" for c v
    using full_font_char [OF assms, of "to_char c"] hex2_chars [OF that] by (simp add: to_char_def)
  moreover have "in_font font c" if "c \<in> set ''SPI : '' \<union> set '', ''" for c
    using full_font_char [OF assms, of c] that by auto
  ultimately show ?thesis
    by (auto simp: ids_text_def text_bytes_def to_char_of_char simp del: of_char_Char)
qed

lemma flash_line_format:
  "format_text strs (text_bytes ''SPI Flash : MID = 0x%02x, PID = 0x%02x'' @ lfcr_bytes) [ucast mid, ucast did]
    = Some (ids_text ''SPI Flash : MID = 0x'' '', PID = 0x'' lfcr mid did)" (is ?f)
  "0 \<notin> set (ids_text ''SPI Flash : MID = 0x'' '', PID = 0x'' lfcr mid did)"
  "length (ids_text ''SPI Flash : MID = 0x'' '', PID = 0x'' lfcr mid did) < 1024"
proof -
  have s: "text_bytes ''SPI Flash : MID = 0x%02x, PID = 0x%02x'' @ lfcr_bytes = text_bytes ''SPI Flash : MID = 0x''
      @ text_bytes ''%02x'' @ text_bytes '', PID = 0x'' @ text_bytes ''%02x'' @ text_bytes lfcr"
    by (simp add: text_bytes_def crlf_text)
  show ?f unfolding s by (rule format_ids) (simp_all add: plain_Cons)
  show "0 \<notin> set (ids_text ''SPI Flash : MID = 0x'' '', PID = 0x'' lfcr mid did)"
    by (rule ids_text_no_nul) (simp_all add: plain_Cons)
qed (simp add: ids_text_def hex2_def)

lemma flash_label_format:
  "format_text strs (text_bytes ''SPI : %02x, %02x'') [ucast mid, ucast did] = Some (ids_text ''SPI : '' '', '' [] mid did)" (is ?f)
  "0 \<notin> set (ids_text ''SPI : '' '', '' [] mid did)" "length (ids_text ''SPI : '' '', '' [] mid did) = 12"
proof -
  have s: "text_bytes ''SPI : %02x, %02x'' = text_bytes ''SPI : '' @ text_bytes ''%02x'' @ text_bytes '', ''
      @ text_bytes ''%02x'' @ text_bytes []" by (simp add: text_bytes_def)
  show ?f unfolding s by (rule format_ids) (simp_all add: plain_Cons)
  show "0 \<notin> set (ids_text ''SPI : '' '', '' [] mid did)"
    by (rule ids_text_no_nul) (simp_all add: plain_Cons)
qed (simp add: ids_text_def hex2_def)

lemma init_ok:
  assumes board: "iic_board arrives b resp outbuf ks (s, m, h)"
    and spi: "port_ok b w0" "view_ok w0" "flash_ids b w0 mid did" "o_want (v_oled (spi_run w0 h)) = None"
    and font: "full_font font" and str: "str \<noteq> 0" "unat str + 200 < 2 ^ 31" "room m str 200"
  shows "\<exists>m' h'. main_init b (lift_pr (spi_pr b outbuf)) font str (s, m, h) = Some (s, m', h') \<and> outbuf_ok outbuf m'
    \<and> starting b w0 ks (wire h) (uart_tx h @ flash_line mid did)
        (text_ram font 4 0 (flash_label mid did) (text_ram font 0 0 banner (\<lambda>_ _. 0))) h'"
proof -
  have B: "console b h ks" "wire_state h = (None, wire h)" "outbuf_ok outbuf m"
    using board wire_state_idle by (auto simp: iic_board_def)
  let ?g = "uart0_init_spi b h"
  have "starting b w0 ks (wire h) (uart_tx ?g) (\<lambda>_ _. 0) (OLEDInit b (SPIInit b ?g))"
    by (rule start_display) (use spi B uart_init_quiet in simp_all)
  then have 1: "starting b w0 ks (wire h) (uart_tx h) (\<lambda>_ _. 0) (OLEDInit b (SPIInit b ?g))"
    by (simp add: uart_init_quiet)
  have "\<forall>c \<in> set banner. in_font font c" using full_font_char [OF font] by simp
  from start_print [OF 1 this, of 0 0] obtain h2 where 2: "OLEDPrint b font 0 0 banner (OLEDInit b (SPIInit b ?g)) = Some h2"
    "starting b w0 ks (wire h) (uart_tx h) (text_ram font 0 0 banner (\<lambda>_ _. 0)) h2" by auto
  from start_read_id [OF 2(2) spi(3)] obtain h3 where 3: "SPIFLASHReadID b h2 = ((mid, did), h3)"
    "starting b w0 ks (wire h) (uart_tx h) (text_ram font 0 0 banner (\<lambda>_ _. 0)) h3" by blast
  let ?t1 = "ids_text ''SPI Flash : MID = 0x'' '', PID = 0x'' lfcr mid did" and ?t2 = "ids_text ''SPI : '' '', '' [] mid did"
  let ?f1 = "text_bytes ''SPI Flash : MID = 0x%02x, PID = 0x%02x'' @ lfcr_bytes"
  note f1 = flash_line_format and f2 = flash_label_format
  from start_printf [OF 3(2) f1 B(3), where s = s] obtain h4 where 4:
    "lift_pr (spi_pr b outbuf) ?f1 [ucast mid, ucast did] (s, m, h3) = Some (s, put_bytes outbuf (?t1 @ [0]) m, h4)"
    "starting b w0 ks (wire h) (uart_tx h @ flash_line mid did) (text_ram font 0 0 banner (\<lambda>_ _. 0)) h4" by blast
  let ?m1 = "put_bytes outbuf (?t1 @ [0]) m" and ?m2 = "put_bytes str (?t2 @ [0]) (put_bytes outbuf (?t1 @ [0]) m)"
  have "room ?m1 str (Suc (length ?t2))"
    by (rule room_le [of _ _ 200]) (use str(3) f2(3) in \<open>simp_all add: room_put\<close>)
  then have 5: "sprintf_lib str (text_bytes ''SPI : %02x, %02x'') [ucast mid, ucast did] ?m1 = Some (of_nat (length ?t2), ?m2)"
    using vsprintf_writes [OF f2(1) str(1) _ _ no_strs, where m = ?m1] str(2) f2(3) by (simp add: sprintf_lib_def)
  have "cstr ?m2 str ?t2" using f2(2,3) by (intro cstr_put) simp_all
  then have 6: "c_string ?m2 str = Some (flash_label mid did)" using f2(3) by (intro c_string_ok) simp_all
  from start_print [OF 4(2) flash_label_in_font [OF font], where k = 0 and p = 4 and mid1 = mid and did1 = did] f2(3) obtain h7 where 7:
    "OLEDPrint b font 4 0 (flash_label mid did) h4 = Some h7"
    "starting b w0 ks (wire h) (uart_tx h @ flash_line mid did)
       (text_ram font 4 0 (flash_label mid did) (text_ram font 0 0 banner (\<lambda>_ _. 0))) h7" by auto
  have "outbuf_ok outbuf ?m2" using B(3) by (simp add: outbuf_ok_def room_put)
  moreover have "main_init b (lift_pr (spi_pr b outbuf)) font str (s, m, h) = Some (s, ?m2, iic_init b h7)"
    by (simp only: main_init_def Let_def prod.case Option.bind.simps 2(1) 3(1) 4(1) 5 6 7(1))
  ultimately show ?thesis using start_i2c [OF 7(2)] by blast
qed

subsection \<open>Properties\<close>

text \<open>A board with the display, the flash and the EEPROM.\<close>

definition image_bus :: "spi_view \<Rightarrow> u8 \<Rightarrow> u8 \<Rightarrow> (u8 \<Rightarrow> u8) \<Rightarrow> u8 list \<Rightarrow> bus" where
  "image_bus w0 mid did m0 ks h a =
     (if a \<in> {GPGDAT, GPFDAT} then spi_bus w0 mid did h a else regs_bus 0xA0 m0 ks h a)"

lemma image_bus_port_ok: "port_ok (image_bus w0 mid did m0 ks) w0"
  using spi_bus_port_ok [of w0 mid did] by (simp add: port_ok_def image_bus_def)

lemma image_bus_flash_ids: "flash_ids (image_bus w0 mid did m0 ks) w0 mid did"
  using spi_bus_flash_ids [of w0 mid did] by (simp add: flash_ids_def image_bus_def)

lemma image_board: "iic_board (\<lambda>_. True) (image_bus w0 mid did m0 ks) (chip_resp 0xA0 m0) 0x1000 ks spi_start"
proof -
  have "console (image_bus w0 mid did m0 ks) [] ks"
    by (rule console_typing) (simp_all add: image_bus_def regs_bus_def typist_def)
  then show ?thesis
    by (simp add: iic_board_def spi_start_def iic_irqs_def outbuf_ok_def room_def idle_def wire_state_def)
      (simp add: image_bus_def regs_bus_def)
qed

text \<open>C29: the start-up of the SPI image returns from any history with the bus of the display at rest; the two
  identification bytes of the flash then stand on the console and, below the banner, on the display.\<close>

lemma main_init_shows:
  assumes "iic_board arrives b resp outbuf ks (s, m, h)"
    and "port_ok b w0" and "view_ok w0" and "flash_ids b w0 mid did" and "o_want (v_oled (spi_run w0 h)) = None"
    and "full_font font" and "str \<noteq> 0" and "unat str + 200 < 2 ^ 31" and "room m str 200"
  shows "\<exists>m' h'. main_init b (lift_pr (spi_pr b outbuf)) font str (s, m, h) = Some (s, m', h')
    \<and> uart_tx h' = uart_tx h @ flash_line mid did
    \<and> o_on (v_oled (spi_run w0 h'))
    \<and> (\<forall>q < 8. \<forall>x < 128. o_ram (v_oled (spi_run w0 h')) q x
         = text_ram font 4 0 (flash_label mid did) (text_ram font 0 0 banner (\<lambda>_ _. 0)) q x)"
proof -
  from init_ok [OF assms] obtain m' h' where i: "main_init b (lift_pr (spi_pr b outbuf)) font str (s, m, h) = Some (s, m', h')"
    "starting b w0 ks (wire h) (uart_tx h @ flash_line mid did)
        (text_ram font 4 0 (flash_label mid did) (text_ram font 0 0 banner (\<lambda>_ _. 0))) h'" by blast
  from i(2) show ?thesis by (intro exI [of _ m'] exI [of _ h'] conjI i(1)) (auto simp: starting_def shows_oled_def)
qed

lemma main_init_shows_witness:
  "\<exists>m' h'. main_init (image_bus spi_off 0xEF 0x13 (\<lambda>_. 0) []) (lift_pr (spi_pr (image_bus spi_off 0xEF 0x13 (\<lambda>_. 0) []) 0x1000))
      (replicate 95 (replicate 16 0x5A)) 0x2000 spi_start = Some (fst spi_start, m', h')
    \<and> uart_tx h' = ''SPI Flash : MID = 0xef, PID = 0x13'' @ [CHR 0x0A, CHR 0x0D]"
proof -
  have line: "flash_line 0xEF 0x13 = ''SPI Flash : MID = 0xef, PID = 0x13'' @ [CHR 0x0A, CHR 0x0D]"
    by (simp add: ids_text_def hex2_def digit_char_def lfcr_def to_char_def char_of_def bit_0)
  note start = image_board [of spi_off "0xEF" "0x13" "\<lambda>_. 0" "[]", unfolded spi_start_def]
  have font: "full_font (replicate 95 (replicate 16 0x5A))" by (simp add: full_font_def list_all_iff)
  have str: "room (\<lambda>_. Some 0) 0x2000 200" by (simp add: room_def)
  from main_init_shows [OF start image_bus_port_ok spi_off_view_ok image_bus_flash_ids spi_off_start(3) font _ _ str]
  show ?thesis unfolding spi_start_def line fst_conv by auto
qed



end
