(* ===== verification/Spinand.thy ===== *)
theory Spinand
  imports Nand
begin

text \<open>
  Bringing up the SPI image: the clocks, the memory controller and the copy into SDRAM of \<^verbatim>\<open>init.c\<close>, and the
  NAND flash reader \<^verbatim>\<open>nand.c\<close> behind it, which tells an S3C2410 from an S3C2440 at each access.  The
  assembler instructions of \<^verbatim>\<open>clock_init\<close> that set the bus mode of the core are left out.  The short delay
  loops touch only local variables.
\<close>

subsection \<open>The start-up code\<close>

abbreviation WTCON :: u32 where "WTCON \<equiv> 0x53000000"
abbreviation CLKDIVN :: u32 where "CLKDIVN \<equiv> 0x4c000014"
abbreviation MPLLCON :: u32 where "MPLLCON \<equiv> 0x4c000004"
abbreviation GSTATUS1 :: u32 where "GSTATUS1 \<equiv> 0x560000B0"

definition disable_watch_dog :: "hist \<Rightarrow> hist" where
  "disable_watch_dog h = wr32 WTCON 0 h"

text \<open>The test that the code makes before each choice; the register is volatile.\<close>

definition is_2410 :: "bus \<Rightarrow> hist \<Rightarrow> bool \<times> hist" where
  "is_2410 b h =
     (let (v, h) = rd32 b GSTATUS1 h
      in if v = 0x32410000 then (True, h) else let (v, h) = rd32 b GSTATUS1 h in (v = 0x32410002, h))"

definition clock_init :: "bus \<Rightarrow> hist \<Rightarrow> hist" where
  "clock_init b h =
     (let h = wr32 CLKDIVN 0x03 h;
          (old, h) = is_2410 b h
      in if old then wr32 MPLLCON (push_bit 12 0x5c OR push_bit 4 0x04 OR 0x00) h
         else wr32 MPLLCON (push_bit 12 0x5c OR push_bit 4 0x01 OR 0x02) h)"

definition memsetup_words :: "u32 list" where
  "memsetup_words =
     [0x22011110, 0x00000700, 0x00000700, 0x00000700, 0x00000700, 0x00000700, 0x00000700,
      0x00018005, 0x00018005, 0x008C04F4, 0x000000B1, 0x00000030, 0x00000030]"

definition memsetup :: "hist \<Rightarrow> hist" where
  "memsetup h = fst (foldl (\<lambda>(h, p) w. (wr32 p w h, p + 4)) (h, 0x48000000) memsetup_words)"

partial_function (option) steppingstone_loop :: "bus \<Rightarrow> u32 \<times> u32 \<times> hist \<Rightarrow> hist option" where
  "steppingstone_loop b st =
     (let (src, dest, h) = st
      in if src < 4096 then
           (let (w, h) = rd32 b src h in steppingstone_loop b (src + 4, dest + 4, wr32 dest w h))
         else Some h)"

definition copy_steppingstone_to_sdram :: "bus \<Rightarrow> hist \<Rightarrow> hist option" where
  "copy_steppingstone_to_sdram b h = steppingstone_loop b (0, 0x30000000, h)"

partial_function (option) clean_bss_loop :: "u32 \<Rightarrow> u32 \<times> hist \<Rightarrow> hist option" where
  "clean_bss_loop bss_end st =
     (let (p, h) = st in if p < bss_end then clean_bss_loop bss_end (p + 4, wr32 p 0 h) else Some h)"

definition clean_bss_spi :: "u32 \<Rightarrow> u32 \<Rightarrow> hist \<Rightarrow> hist option" where
  "clean_bss_spi bss_start bss_end h = clean_bss_loop bss_end (bss_start, h)"

subsection \<open>The controllers\<close>

text \<open>The registers of the S3C2410; those of the S3C2440 have the names of \<^verbatim>\<open>s3c2440_soc.h\<close>.\<close>

abbreviation NFCMD_2410 :: u32 where "NFCMD_2410 \<equiv> 0x4E000004"
abbreviation NFADDR_2410 :: u32 where "NFADDR_2410 \<equiv> 0x4E000008"
abbreviation NFDATA_2410 :: u32 where "NFDATA_2410 \<equiv> 0x4E00000C"
abbreviation NFSTAT_2410 :: u32 where "NFSTAT_2410 \<equiv> 0x4E000010"

definition s3c2410_wait_idle :: "bus \<Rightarrow> hist \<Rightarrow> hist option" where
  "s3c2410_wait_idle b h = spin (bits_set8 b NFSTAT_2410 1) h"

definition s3c2410_nand_select_chip :: "bus \<Rightarrow> hist \<Rightarrow> hist" where
  "s3c2410_nand_select_chip b h = upd32 b NFCONF (bits_clear (bitm 11)) h"

definition s3c2410_nand_deselect_chip :: "bus \<Rightarrow> hist \<Rightarrow> hist" where
  "s3c2410_nand_deselect_chip b h = upd32 b NFCONF (bits_or (bitm 11)) h"

definition s3c2410_write_cmd :: "u8 \<Rightarrow> hist \<Rightarrow> hist" where
  "s3c2410_write_cmd cmd h = wr8 NFCMD_2410 cmd h"

definition s3c2410_nand_reset :: "bus \<Rightarrow> hist \<Rightarrow> hist option" where
  "s3c2410_nand_reset b h = do {
     let h = s3c2410_nand_select_chip b h;
     let h = s3c2410_write_cmd 0xff h;
     h \<leftarrow> s3c2410_wait_idle b h;
     Some (s3c2410_nand_deselect_chip b h)
   }"

definition s3c2410_write_addr :: "u32 \<Rightarrow> hist \<Rightarrow> hist" where
  "s3c2410_write_addr addr h =
     (let h = wr8 NFADDR_2410 (ucast (addr AND 0xff)) h;
          h = wr8 NFADDR_2410 (ucast (drop_bit 9 addr AND 0xff)) h;
          h = wr8 NFADDR_2410 (ucast (drop_bit 17 addr AND 0xff)) h
      in wr8 NFADDR_2410 (ucast (drop_bit 25 addr AND 0xff)) h)"

definition s3c2410_read_data :: "bus \<Rightarrow> hist \<Rightarrow> u8 \<times> hist" where
  "s3c2410_read_data b h = rd8 b NFDATA_2410 h"

definition s3c2440_wait_idle :: "bus \<Rightarrow> hist \<Rightarrow> hist option" where
  "s3c2440_wait_idle b h = spin (bits_set8 b NFSTAT 1) h"

definition s3c2440_nand_select_chip :: "bus \<Rightarrow> hist \<Rightarrow> hist" where
  "s3c2440_nand_select_chip b h = upd32 b NFCONT (bits_clear (bitm 1)) h"

definition s3c2440_nand_deselect_chip :: "bus \<Rightarrow> hist \<Rightarrow> hist" where
  "s3c2440_nand_deselect_chip b h = upd32 b NFCONT (bits_or (bitm 1)) h"

definition s3c2440_write_cmd :: "u8 \<Rightarrow> hist \<Rightarrow> hist" where
  "s3c2440_write_cmd cmd h = wr8 NFCMD cmd h"

definition s3c2440_nand_reset :: "bus \<Rightarrow> hist \<Rightarrow> hist option" where
  "s3c2440_nand_reset b h = do {
     let h = s3c2440_nand_select_chip b h;
     let h = s3c2440_write_cmd 0xff h;
     h \<leftarrow> s3c2440_wait_idle b h;
     Some (s3c2440_nand_deselect_chip b h)
   }"

definition s3c2440_write_addr :: "u32 \<Rightarrow> hist \<Rightarrow> hist" where
  "s3c2440_write_addr addr h =
     (let h = wr8 NFADDR (ucast (addr AND 0xff)) h;
          h = wr8 NFADDR (ucast (drop_bit 9 addr AND 0xff)) h;
          h = wr8 NFADDR (ucast (drop_bit 17 addr AND 0xff)) h
      in wr8 NFADDR (ucast (drop_bit 25 addr AND 0xff)) h)"

definition s3c2440_write_addr_lp :: "u32 \<Rightarrow> hist \<Rightarrow> hist" where
  "s3c2440_write_addr_lp addr h =
     (let col = addr AND 2047; page = addr div 2048;
          h = wr8 NFADDR (ucast (col AND 0xff)) h;
          h = wr8 NFADDR (ucast (drop_bit 8 col AND 0x0f)) h;
          h = wr8 NFADDR (ucast (page AND 0xff)) h;
          h = wr8 NFADDR (ucast (drop_bit 8 page AND 0xff)) h
      in wr8 NFADDR (ucast (drop_bit 16 page AND 0x03)) h)"

definition s3c2440_read_data :: "bus \<Rightarrow> hist \<Rightarrow> u8 \<times> hist" where
  "s3c2440_read_data b h = rd8 b NFDATA h"

subsection \<open>The entry points\<close>

definition nand_reset :: "bus \<Rightarrow> hist \<Rightarrow> hist option" where
  "nand_reset b h =
     (let (old, h) = is_2410 b h in if old then s3c2410_nand_reset b h else s3c2440_nand_reset b h)"

definition wait_idle :: "bus \<Rightarrow> hist \<Rightarrow> hist option" where
  "wait_idle b h =
     (let (old, h) = is_2410 b h in if old then s3c2410_wait_idle b h else s3c2440_wait_idle b h)"

definition nand_select_chip :: "bus \<Rightarrow> hist \<Rightarrow> hist" where
  "nand_select_chip b h =
     (let (old, h) = is_2410 b h in if old then s3c2410_nand_select_chip b h else s3c2440_nand_select_chip b h)"

definition nand_deselect_chip :: "bus \<Rightarrow> hist \<Rightarrow> hist" where
  "nand_deselect_chip b h =
     (let (old, h) = is_2410 b h in if old then s3c2410_nand_deselect_chip b h else s3c2440_nand_deselect_chip b h)"

definition write_cmd :: "bus \<Rightarrow> u8 \<Rightarrow> hist \<Rightarrow> hist" where
  "write_cmd b cmd h =
     (let (old, h) = is_2410 b h in if old then s3c2410_write_cmd cmd h else s3c2440_write_cmd cmd h)"

definition write_addr :: "bus \<Rightarrow> u32 \<Rightarrow> hist \<Rightarrow> hist" where
  "write_addr b addr h =
     (let (old, h) = is_2410 b h in if old then s3c2410_write_addr addr h else s3c2440_write_addr_lp addr h)"

text \<open>Both branches read the data register of the S3C2440.\<close>

definition read_data :: "bus \<Rightarrow> hist \<Rightarrow> u8 \<times> hist" where
  "read_data b h =
     (let (old, h) = is_2410 b h in if old then s3c2440_read_data b h else s3c2440_read_data b h)"

definition nand_init_spi :: "bus \<Rightarrow> hist \<Rightarrow> hist option" where
  "nand_init_spi b h =
     (let (old, h) = is_2410 b h
      in if old then
           (let h = wr32 NFCONF (bitm 15 OR bitm 12 OR bitm 11 OR push_bit 8 0 OR push_bit 4 3 OR push_bit 0 0) h
            in s3c2410_nand_reset b h)
         else
           (let h = wr32 NFCONF (push_bit 12 0 OR push_bit 8 3 OR push_bit 4 0) h;
                h = wr32 NFCONT (bitm 4 OR bitm 1 OR bitm 0) h
            in s3c2440_nand_reset b h))"

text \<open>A sector: \<open>n\<close> bytes left, the next one for index \<open>k\<close>.  A store past the buffer is \<open>None\<close>.\<close>

primrec read_sector :: "bus \<Rightarrow> nat \<Rightarrow> nat \<Rightarrow> u8 list \<Rightarrow> hist \<Rightarrow> (u8 list \<times> hist) option" where
  "read_sector b 0 k buf h = Some (buf, h)"
| "read_sector b (Suc n) k buf h =
     (let (v, h) = read_data b h
      in if k < length buf then read_sector b n (Suc k) (buf[k := v]) h else None)"

partial_function (option) read_sectors ::
  "bus \<Rightarrow> u32 \<Rightarrow> u32 \<times> nat \<times> u8 list \<times> hist \<Rightarrow> (u8 list \<times> hist) option" where
  "read_sectors b fin st =
     (let (i, k, buf, h) = st
      in if i < fin then do {
           let h = write_cmd b 0 h;
           let h = write_addr b i h;
           let h = write_cmd b 0x30 h;
           h \<leftarrow> wait_idle b h;
           (buf, h) \<leftarrow> read_sector b 2048 k buf h;
           read_sectors b fin (i + 2048, k + 2048, buf, h)
         } else Some (buf, h))"

definition nand_read_spi :: "bus \<Rightarrow> u8 list \<Rightarrow> u32 \<Rightarrow> u32 \<Rightarrow> hist \<Rightarrow> (u8 list \<times> hist) option" where
  "nand_read_spi b buf start_addr len h = do {
     let h = nand_select_chip b h;
     (buf, h) \<leftarrow> read_sectors b (start_addr + len) (start_addr, 0, buf, h);
     Some (buf, nand_deselect_chip b h)
   }"

definition CopyCode2SDRAM :: "bus \<Rightarrow> u8 list \<Rightarrow> u32 \<Rightarrow> u32 \<Rightarrow> hist \<Rightarrow> (int \<times> u8 list \<times> hist) option" where
  "CopyCode2SDRAM b buf start_addr len h = do {
     (buf, h) \<leftarrow> nand_read_spi b buf start_addr len h;
     Some (0, buf, h)
   }"

subsection \<open>The start-up\<close>

lemma memsetup_stores:
  "memsetup h = h @ map (\<lambda>(i, w). Wr32 (0x48000000 + 4 * of_nat i) w) (enumerate 0 memsetup_words)"
  by (simp add: memsetup_def memsetup_words_def wr32_def)

lemma clean_bss_loop_stores:
  "unat bss_end = unat p + 4 * n \<Longrightarrow>
   clean_bss_loop bss_end (p, h) = Some (h @ map (\<lambda>i. Wr32 (p + 4 * of_nat i) 0) [0..<n])"
proof (induction n arbitrary: p h)
  case 0
  then have "\<not> p < bss_end" by (simp add: word_less_nat_alt)
  then show ?case by (subst clean_bss_loop.simps) simp
next
  case (Suc n)
  have "unat p + 4 < 2 ^ 32" using Suc.prems unsigned_less [of bss_end, where ?'a = nat] by simp
  then have u: "unat (p + 4) = unat p + 4" and lt: "p < bss_end"
    using unat_add_lem [of p 4] Suc.prems by (simp_all add: word_less_nat_alt)
  have "map (\<lambda>i. Wr32 (p + 4 * of_nat i) 0) [0..<Suc n] = Wr32 p 0 # map (\<lambda>i. Wr32 (p + 4 + 4 * of_nat i) 0) [0..<n]"
    by (simp only: upt_conv_Cons zero_less_Suc map_Suc_upt [symmetric] list.map map_map comp_def)
      (simp add: algebra_simps)
  with Suc.IH [of "p + 4" "wr32 p 0 h"] Suc.prems u lt show ?case
    by (subst clean_bss_loop.simps) (simp add: wr32_def del: upt_Suc)
qed

text \<open>A section whose ends are a whole number of words apart is cleared exactly.\<close>

lemma clean_bss_exact:
  assumes "bss_start \<le> bss_end" and "unat (bss_end - bss_start) = 4 * n"
  shows "clean_bss_spi bss_start bss_end h = Some (h @ map (\<lambda>i. Wr32 (bss_start + 4 * of_nat i) 0) [0..<n])"
proof -
  have "unat bss_end = unat bss_start + 4 * n"
    using assms by (simp add: unat_sub word_le_nat_alt)
  then show ?thesis unfolding clean_bss_spi_def by (rule clean_bss_loop_stores)
qed

subsection \<open>On an S3C2440\<close>

definition on_2440 :: "bus \<Rightarrow> bool" where
  "on_2440 b \<longleftrightarrow> (\<forall>h. b h GSTATUS1 \<noteq> 0x32410000 \<and> b h GSTATUS1 \<noteq> 0x32410002)"

lemma is_2440:
  assumes "on_2440 b"
  obtains g where "is_2410 b h = (False, g)" and "nand_view g = nand_view h"
proof -
  have "is_2410 b h = (False, (h @ [Rd32 GSTATUS1 (b h GSTATUS1)]) @ [Rd32 GSTATUS1 (b (h @ [Rd32 GSTATUS1 (b h GSTATUS1)]) GSTATUS1)])"
    using assms by (simp add: is_2410_def on_2440_def rd32_def)
  moreover have "nand_view ((h @ [Rd32 GSTATUS1 v]) @ [Rd32 GSTATUS1 w]) = nand_view h" for v w
    by (simp only: view_keeps)
  ultimately show ?thesis using that by blast
qed

lemma view_entry:
  assumes "on_2440 b"
  shows "nand_view (nand_select_chip b h) = nand_view h"
    and "nand_view (write_cmd b 0 h) = ([], None)"
    and "nand_view h = (bs, pos) \<Longrightarrow> nand_view (write_cmd b 0x30 h) = ([], addr_pos bs)"
proof -
  obtain g where g: "is_2410 b h = (False, g)" "nand_view g = nand_view h" by (rule is_2440 [OF assms])
  show "nand_view (nand_select_chip b h) = nand_view h"
    using g by (simp add: nand_select_chip_def s3c2440_nand_select_chip_def upd32_eq)
  show "nand_view (write_cmd b 0 h) = ([], None)"
    using g view_cmd0 [of g] by (simp add: write_cmd_def s3c2440_write_cmd_def nand_cmd_def)
  show "nand_view (write_cmd b 0x30 h) = ([], addr_pos bs)" if "nand_view h = (bs, pos)"
    using g that view_cmd30 [of g bs pos] by (simp add: write_cmd_def s3c2440_write_cmd_def nand_cmd_def)
qed

lemma low_bits: "unat (ucast (drop_bit n (w :: u32) AND mask m) :: u8) = unat w div 2 ^ n mod 2 ^ m" if "m \<le> 8"
proof -
  have "ucast (take_bit m v) = take_bit m (ucast v :: u8)" for v :: u32
    using that by (intro bit_word_eqI) (auto simp: bit_simps)
  then have "unat (ucast (take_bit m v) :: u8) = unat v mod 256 mod 2 ^ m" for v :: u32
    by (simp only: unsigned_take_bit_eq unsigned_ucast_eq) (simp add: take_bit_eq_mod)
  moreover have "(2 :: nat) ^ m dvd 2 ^ 8" using that by (rule le_imp_power_dvd)
  then have "(x :: nat) mod 256 mod 2 ^ m = x mod 2 ^ m" for x by (simp add: mod_mod_cancel)
  ultimately have t: "unat (ucast (take_bit m v) :: u8) = unat v mod 2 ^ m" for v :: u32 by simp
  have "take_bit 32 (unat w) = unat w"
    using unsigned_less [of w] by (simp add: take_bit_nat_eq_self_iff)
  then have "unat (drop_bit n w) = unat w div 2 ^ n"
    by (simp only: unsigned_drop_bit_eq) (simp add: drop_bit_eq_div)
  then show ?thesis by (simp only: take_bit_eq_mask [symmetric] t)
qed

lemma address_phase:
  assumes "on_2440 b" and "nand_view h = ([], None)" and "unat addr < 2 ^ 29"
  shows "nand_view (write_cmd b 0x30 (write_addr b addr h)) = ([], Some (unat addr div 2048, unat addr mod 2048))"
proof -
  obtain g where g: "is_2410 b h = (False, g)" "nand_view g = ([], None)" using is_2440 [OF assms(1), of h] assms(2) by metis
  let ?col = "addr AND 2047" and ?page = "addr div 2048"
  have v: "nand_view (write_addr b addr h) =
      ([ucast (?col AND 0xff), ucast (drop_bit 8 ?col AND 0x0f), ucast (?page AND 0xff),
        ucast (drop_bit 8 ?page AND 0xff), ucast (drop_bit 16 ?page AND 0x03)], None)"
    using g by (simp add: write_addr_def s3c2440_write_addr_lp_def wr8_def nand_view_append Let_def)
  have m: "(2047 :: u32) = mask 11" "(0x0f :: u32) = mask 4" "(0x03 :: u32) = mask 2" "(0xff :: u32) = mask 8"
    by (simp_all add: mask_eq_exp_minus_1)
  have col: "unat ?col = unat addr mod 2048"
    unfolding m(1) by (simp only: take_bit_eq_mask [symmetric] unsigned_take_bit_eq) (simp add: take_bit_eq_mod)
  have page: "unat ?page = unat addr div 2048" by (simp add: unat_div_distrib)
  have c: "unat addr mod 2048 mod 256 + 256 * (unat addr mod 2048 div 256 mod 16) = unat addr mod 2048"
  proof -
    have "unat addr mod 2048 div 256 mod 16 = unat addr mod 2048 div 256" by simp
    then show ?thesis using mod_mult_div_eq [of "unat addr mod 2048" 256] by simp
  qed
  have "unat addr div 2048 < 262144" using assms(3) by simp
  then have "unat addr div 2048 div 65536 mod 4 = unat addr div 2048 div 65536 mod 256" by simp
  moreover have "unat addr div 2048 < 16777216" using assms(3) by simp
  ultimately have p: "unat addr div 2048 mod 256 + 256 * (unat addr div 2048 div 256 mod 256)
      + 65536 * (unat addr div 2048 div 65536 mod 4) = unat addr div 2048"
    using three_bytes by presburger
  show ?thesis
    unfolding view_entry(3) [OF assms(1) v]
    using low_bits [of 8 0 ?col] low_bits [of 4 8 ?col] low_bits [of 8 0 ?page] low_bits [of 8 8 ?page] low_bits [of 2 16 ?page]
    by (simp add: m(2-4) [symmetric] col page c p)
qed

lemma data_phase:
  assumes "on_2440 b" and "nand_chip content b" and "snd (nand_view h) = Some (p, c)" and "c < 2112"
  obtains g where "read_data b h = (content p c, g)" and "snd (nand_view g) = Some (p, Suc c)"
proof -
  obtain g where g: "is_2410 b h = (False, g)" "nand_view g = nand_view h" by (rule is_2440 [OF assms(1)])
  then have v: "(ucast (b g NFDATA) :: u8) = content p c" using assms(2-4) by (simp add: nand_chip_def)
  have "snd (nand_view (g @ [Rd8 NFDATA (content p c)])) = Some (p, Suc c)"
    using g(2) assms(3) by (cases "nand_view h") (simp add: view_Rd8)
  moreover have "read_data b h = (content p c, g @ [Rd8 NFDATA (content p c)])"
    using g(1) v by (simp add: read_data_def s3c2440_read_data_def rd8_def)
  ultimately show ?thesis using that by blast
qed

lemma ready_phase:
  assumes "on_2440 b" and "nand_chip content b"
  obtains g where "wait_idle b h = Some g" and "nand_view g = nand_view h"
proof -
  obtain f where f: "is_2410 b h = (False, f)" "nand_view f = nand_view h" by (rule is_2440 [OF assms(1)])
  from assms(2) live_spin [of "bits_set8 b NFSTAT 1" f] obtain g where
    "spin (bits_set8 b NFSTAT 1) f = Some g" by (auto simp: nand_chip_def)
  with spin_view f that show ?thesis by (simp add: wait_idle_def s3c2440_wait_idle_def)
qed

lemma read_sector_ok:
  assumes "on_2440 b" and "nand_chip content b"
  shows "snd (nand_view h) = Some (p, c) \<Longrightarrow> c + n \<le> 2112 \<Longrightarrow> k + n \<le> length buf \<Longrightarrow>
    \<exists>h'. read_sector b n k buf h = Some (take k buf @ map (content p) [c..<c + n] @ drop (k + n) buf, h')"
proof (induction n arbitrary: c k buf h)
  case (Suc n)
  obtain g where g: "read_data b h = (content p c, g)" "snd (nand_view g) = Some (p, Suc c)"
    by (rule data_phase [OF assms Suc.prems(1)]) (use Suc.prems(2) in simp)
  from Suc.IH [OF g(2), of "Suc k" "buf[k := content p c]"] Suc.prems(2,3) obtain h' where
    "read_sector b n (Suc k) (buf[k := content p c]) g
      = Some (take (Suc k) (buf[k := content p c]) @ map (content p) [Suc c..<Suc c + n] @ drop (Suc k + n) (buf[k := content p c]), h')"
    by (auto simp del: upt_Suc)
  moreover have "[c..<c + Suc n] = c # [Suc c..<Suc c + n]" by (simp add: upt_conv_Cons)
  ultimately show ?case using g(1) Suc.prems(3) by (simp add: take_Suc_update)
qed simp

text \<open>Whole pages, from an aligned address on.\<close>

lemma read_sectors_ok:
  assumes board: "on_2440 b" and chip: "nand_chip content b"
  shows "2048 * (p + n) \<le> 2 ^ 29 \<Longrightarrow> fin > 2048 * (p + n) - 2048 \<or> n = 0 \<Longrightarrow> fin \<le> 2048 * (p + n)
    \<Longrightarrow> k + 2048 * n \<le> length buf \<Longrightarrow>
    \<exists>h'. read_sectors b (of_nat fin) (of_nat (2048 * p), k, buf, h)
      = Some (take k buf @ map (nand_byte content) [2048 * p..<2048 * (p + n)] @ drop (k + 2048 * n) buf, h')"
proof (induction n arbitrary: p k buf h)
  case 0
  then have "2048 * p < 2 ^ 32" "fin < 2 ^ 32" by simp_all
  then have "unat (of_nat (2048 * p) :: u32) = 2048 * p" "unat (of_nat fin :: u32) = fin"
    by (simp_all only: unat_of_nat) simp_all
  with 0 have "\<not> (of_nat (2048 * p) :: u32) < of_nat fin" by (simp only: word_less_nat_alt) simp
  then show ?case by (subst read_sectors.simps) simp
next
  case (Suc n)
  have small: "2048 * p < 2 ^ 32" "fin < 2 ^ 32" "2048 * p < fin" "2048 * p < 2 ^ 29" using Suc.prems by simp_all
  then have u: "unat (of_nat (2048 * p) :: u32) = 2048 * p" "unat (of_nat fin :: u32) = fin"
    by (simp_all only: unat_of_nat) simp_all
  then have lt: "(of_nat (2048 * p) :: u32) < of_nat fin" using small(3) by (simp only: word_less_nat_alt)
  define g where "g = write_cmd b 0x30 (write_addr b (of_nat (2048 * p)) (write_cmd b 0 h))"
  have "nand_view g = ([], Some (p, 0))"
    unfolding g_def using address_phase [OF board view_entry(2) [OF board], of "of_nat (2048 * p)"] u(1) small(4)
    by (simp del: of_nat_mult)
  moreover obtain f where f: "wait_idle b g = Some f" "nand_view f = nand_view g" by (rule ready_phase [OF board chip])
  ultimately have "snd (nand_view f) = Some (p, 0)" by simp
  from read_sector_ok [OF board chip this, of 2048 k buf] Suc.prems(4) obtain h1 where
    h1: "read_sector b 2048 k buf f = Some (take k buf @ map (content p) [0..<2048] @ drop (k + 2048) buf, h1)"
    by auto
  let ?buf = "take k buf @ map (content p) [0..<2048] @ drop (k + 2048) buf"
  have "\<exists>h'. read_sectors b (of_nat fin) (of_nat (2048 * Suc p), k + 2048, ?buf, h1)
      = Some (take (k + 2048) ?buf @ map (nand_byte content) [2048 * Suc p..<2048 * (Suc p + n)]
          @ drop (k + 2048 + 2048 * n) ?buf, h')"
    by (rule Suc.IH) (use Suc.prems in auto)
  then obtain h' where h': "read_sectors b (of_nat fin) (of_nat (2048 * Suc p), k + 2048, ?buf, h1)
      = Some (take (k + 2048) ?buf @ map (nand_byte content) [2048 * Suc p..<2048 * (Suc p + n)]
          @ drop (k + 2048 + 2048 * n) ?buf, h')" by blast
  have "read_sectors b (of_nat fin) (of_nat (2048 * p), k, buf, h)
      = read_sectors b (of_nat fin) (of_nat (2048 * Suc p), k + 2048, ?buf, h1)"
    using lt f(1) h1 by (subst read_sectors.simps) (simp add: g_def add.commute)
  moreover have "map (nand_byte content) [2048 * p..<2048 * (p + Suc n)]
      = map (content p) [0..<2048] @ map (nand_byte content) [2048 * Suc p..<2048 * (Suc p + n)]"
  proof -
    have "[2048 * p..<2048 * p + 2048 + 2048 * n] = [2048 * p..<2048 * p + 2048] @ [2048 * p + 2048..<2048 * p + 2048 + 2048 * n]"
      by (rule upt_add_eq_append) simp
    moreover have "map (nand_byte content) [2048 * p..<2048 * p + 2048] = map (content p) [0..<2048]"
      using page_bytes [of "2048 * p" 2048 content] by simp
    ultimately show ?thesis by (simp add: algebra_simps)
  qed
  moreover have "take (k + 2048) ?buf = take k buf @ map (content p) [0..<2048]"
    "drop (k + 2048 + 2048 * n) ?buf = drop (k + 2048 * Suc n) buf"
    using Suc.prems(4) by (simp_all add: algebra_simps)
  ultimately show ?case using h' by auto
qed

lemma read_pages_ok:
  assumes "on_2440 b" and "nand_chip content b" and "2048 * (p + n) \<le> 2 ^ 29" and "2048 * (n - 1) < len" and "len \<le> 2048 * n"
    and "2048 * n \<le> length buf"
  shows "\<exists>h'. nand_read_spi b buf (of_nat (2048 * p)) (of_nat len) h
    = Some (map (nand_byte content) [2048 * p..<2048 * (p + n)] @ drop (2048 * n) buf, h')"
proof -
  have "(of_nat (2048 * p) + of_nat len :: u32) = of_nat (2048 * p + len)" by simp
  moreover have "\<exists>h'. read_sectors b (of_nat (2048 * p + len)) (of_nat (2048 * p), 0, buf, nand_select_chip b h)
      = Some (take 0 buf @ map (nand_byte content) [2048 * p..<2048 * (p + n)] @ drop (0 + 2048 * n) buf, h')"
    by (rule read_sectors_ok [OF assms(1,2)]) (use assms(3-6) in \<open>cases n; simp\<close>)+
  ultimately show ?thesis by (auto simp: nand_read_spi_def simp del: of_nat_mult of_nat_add)
qed

text \<open>A buffer that ends inside the last page is overrun: the reader stores whole pages.\<close>

lemma read_sector_overruns:
  "length buf < k + n \<Longrightarrow> k \<le> length buf \<Longrightarrow> read_sector b n k buf h = None"
proof (induction n arbitrary: k buf h)
  case (Suc n)
  then show ?case by (auto simp: Let_def split: prod.split)
qed simp

lemma nand_read_overruns:
  assumes "on_2440 b" and "nand_chip content b" and "length buf < 2048" and "0 < len" and "len < 2048"
  shows "nand_read_spi b buf 0 len h = None"
proof -
  let ?h = "nand_select_chip b h"
  obtain f where f: "wait_idle b (write_cmd b 0x30 (write_addr b 0 (write_cmd b 0 ?h))) = Some f"
    by (rule ready_phase [OF assms(1,2)])
  have "read_sectors b len (0, 0, buf, ?h) = None"
    using f read_sector_overruns [of buf 0 2048 b f] assms(3,4) by (subst read_sectors.simps) simp
  then show ?thesis by (simp add: nand_read_spi_def)
qed

text \<open>On an S3C2410 the data are not read at all: what is stored is the status register.\<close>

lemma read_data_2410:
  assumes "\<And>g. b g GSTATUS1 = 0x32410000"
  shows "\<exists>g. read_data b h = (ucast (b g NFSTAT_2410), g @ [Rd8 NFSTAT_2410 (ucast (b g NFSTAT_2410))])"
  using assms by (auto simp: read_data_def is_2410_def rd32_def s3c2440_read_data_def rd8_def)

subsection \<open>Properties\<close>

text \<open>C31: on an S3C2440 the copy of the image from a page boundary of the flash into SDRAM returns 0 and leaves
  the bytes of the flash there, in whole pages, for every image that ends below 512 megabytes; what lies
  behind the last page stays.\<close>

lemma copy_code_copies:
  assumes "on_2440 b" and "nand_chip content b" and "2048 * (p + n) \<le> 2 ^ 29" and "2048 * (n - 1) < len" and "len \<le> 2048 * n"
    and "2048 * n \<le> length buf"
  shows "\<exists>h'. CopyCode2SDRAM b buf (of_nat (2048 * p)) (of_nat len) h
    = Some (0, map (nand_byte content) [2048 * p..<2048 * (p + n)] @ drop (2048 * n) buf, h')"
  using read_pages_ok [OF assms, of h] by (auto simp: CopyCode2SDRAM_def)

definition flash_2440 :: "(nat \<Rightarrow> nat \<Rightarrow> u8) \<Rightarrow> bus" where
  "flash_2440 content h a = (if a = GSTATUS1 then 0x32440001 else chip_bus content h a)"

lemma flash_2440_ok: "on_2440 (flash_2440 content)" "nand_chip content (flash_2440 content)"
  using nand_chip_bus [of content]
  by (simp add: on_2440_def flash_2440_def) (auto simp: nand_chip_def flash_2440_def chip_bus_def live_def intro: exI [of _ 0])

lemma copy_code_copies_witness:
  "\<exists>h'. CopyCode2SDRAM (flash_2440 chip_content) (replicate 4096 0) 2048 100 []
    = Some (0, map (nand_byte chip_content) [2048..<4096] @ replicate 2048 0, h')"
  using copy_code_copies [OF flash_2440_ok, of 1 1 100 "replicate 4096 0" chip_content "[]"]
  by (simp del: upt_rec_numeral)

end
