(* ===== verification/Kernel.thy ===== *)
theory Kernel
  imports Prelude
begin

text \<open>What the Linux drivers share of the kernel's interface: the error numbers of \<^verbatim>\<open>errno.h\<close>, of which an
  operation returns the negative.\<close>

abbreviation EIO :: int where "EIO \<equiv> 5"
abbreviation EAGAIN :: int where "EAGAIN \<equiv> 11"
abbreviation ENOMEM :: int where "ENOMEM \<equiv> 12"
abbreviation EBUSY :: int where "EBUSY \<equiv> 16"
abbreviation EINVAL :: int where "EINVAL \<equiv> 22"

end
