(* ===== verification/Proclog.thy ===== *)
theory Proclog
  imports Kernel
begin

text \<open>
  The kernel log of \<^verbatim>\<open>my_proc_myprintk/mymsg.c\<close>: \<^verbatim>\<open>myprintk\<close> puts its text into a ring buffer of 1024
  characters that drops the oldest when it is full, and \<^verbatim>\<open>/proc/mymsg\<close> reads it through a cursor of its
  own.  The ring buffer refines a list of at most 1023 characters with a position in it.

  The text that the kernel's \<^verbatim>\<open>vsprintf\<close> makes is an argument, and so are the results of its
  \<^verbatim>\<open>__put_user\<close> (\<open>put\<close>, by the number of the byte) and of its \<^verbatim>\<open>wait_event_interruptible\<close> (\<open>wait\<close>: what
  it returns, and the log at that time, other writers having run meanwhile).
\<close>

definition MYLOG_BUF_LEN :: nat where
  "MYLOG_BUF_LEN = 1024"

record mylog =
  mylog_buf :: "char list"
  mylog_r :: nat
  mylog_w :: nat
  mylog_r_for_read :: nat

definition mylog_start :: mylog where
  "mylog_start = \<lparr>mylog_buf = replicate MYLOG_BUF_LEN NUL, mylog_r = 0, mylog_w = 0, mylog_r_for_read = 0\<rparr>"

definition ringbuffempty_for_read :: "mylog \<Rightarrow> bool" where
  "ringbuffempty_for_read l \<longleftrightarrow> mylog_r_for_read l = mylog_w l"

definition ringbuffempty :: "mylog \<Rightarrow> bool" where
  "ringbuffempty l \<longleftrightarrow> mylog_r l = mylog_w l"

definition ringbufffull :: "mylog \<Rightarrow> bool" where
  "ringbufffull l \<longleftrightarrow> (mylog_w l + 1) mod MYLOG_BUF_LEN = mylog_r l"

definition ringbufffputc :: "char \<Rightarrow> mylog \<Rightarrow> mylog" where
  "ringbufffputc c l =
     (let l = (if ringbufffull l
               then (let l = l\<lparr>mylog_r := (mylog_r l + 1) mod MYLOG_BUF_LEN\<rparr>
                     in if (mylog_r_for_read l + 1) mod MYLOG_BUF_LEN = mylog_r l
                        then l\<lparr>mylog_r_for_read := mylog_r l\<rparr> else l)
               else l);
          l = l\<lparr>mylog_buf := (mylog_buf l)[mylog_w l := c]\<rparr>
      in l\<lparr>mylog_w := (mylog_w l + 1) mod MYLOG_BUF_LEN\<rparr>)"

definition ringbuffgetc_for_read :: "mylog \<Rightarrow> char option \<times> mylog" where
  "ringbuffgetc_for_read l =
     (if ringbuffempty_for_read l then (None, l)
      else (Some (mylog_buf l ! mylog_r_for_read l),
            l\<lparr>mylog_r_for_read := (mylog_r_for_read l + 1) mod MYLOG_BUF_LEN\<rparr>))"

definition ringbuffgetc :: "mylog \<Rightarrow> char option \<times> mylog" where
  "ringbuffgetc l =
     (if ringbuffempty l then (None, l)
      else (Some (mylog_buf l ! mylog_r l), l\<lparr>mylog_r := (mylog_r l + 1) mod MYLOG_BUF_LEN\<rparr>))"

text \<open>The text goes through a buffer of 1024 characters, terminator included, without a bound; a longer
  one is \<open>None\<close>.\<close>

definition myprintk :: "string \<Rightarrow> mylog \<Rightarrow> (int \<times> mylog) option" where
  "myprintk cs l =
     (if length cs < MYLOG_BUF_LEN then Some (int (length cs), fold ringbufffputc cs l) else None)"

text \<open>The loop takes a character out of the buffer before it looks at the count.\<close>

partial_function (option) read_loop ::
  "(nat \<Rightarrow> int) \<Rightarrow> nat \<Rightarrow> int \<times> nat \<times> string \<times> mylog \<Rightarrow> (int \<times> nat \<times> string \<times> mylog) option" where
  "read_loop put count st =
     (case st of (error, i, out, l) \<Rightarrow>
        if error \<noteq> 0 then Some (error, i, out, l)
        else (case ringbuffgetc_for_read l of
            (None, l) \<Rightarrow> Some (error, i, out, l)
          | (Some c, l) \<Rightarrow>
              if i < count
              then read_loop put count (put i, i + 1, if put i = 0 then out @ [c] else out, l)
              else Some (error, i, out, l)))"

text \<open>The result, the characters delivered and the log.\<close>

definition mymsg_read ::
  "(mylog \<Rightarrow> int \<times> mylog) \<Rightarrow> (nat \<Rightarrow> int) \<Rightarrow> bool \<Rightarrow> nat \<Rightarrow> mylog \<Rightarrow> (int \<times> string \<times> mylog) option" where
  "mymsg_read wait put nonblock count l =
     (if nonblock \<and> ringbuffempty_for_read l then Some (- EAGAIN, [], l)
      else do {
        let (error, l) = wait l;
        (error, i, out, l) \<leftarrow> read_loop put count (error, 0, [], l);
        Some (if error = 0 then int i else error, out, l)
      })"

definition mymsg_open :: "mylog \<Rightarrow> mylog" where
  "mymsg_open l = l\<lparr>mylog_r_for_read := mylog_r l\<rparr>"

subsection \<open>The log as a list with a position\<close>

text \<open>The number of steps from one index of the ring to another.\<close>

definition ring_dist :: "nat \<Rightarrow> nat \<Rightarrow> nat" where
  "ring_dist a b = (if a \<le> b then b - a else b + MYLOG_BUF_LEN - a)"

definition mylog_ok :: "mylog \<Rightarrow> bool" where
  "mylog_ok l \<longleftrightarrow> length (mylog_buf l) = MYLOG_BUF_LEN \<and> mylog_r l < MYLOG_BUF_LEN \<and>
     mylog_w l < MYLOG_BUF_LEN \<and> mylog_r_for_read l < MYLOG_BUF_LEN \<and>
     ring_dist (mylog_r l) (mylog_r_for_read l) \<le> ring_dist (mylog_r l) (mylog_w l)"

definition log_text :: "mylog \<Rightarrow> string" where
  "log_text l = map (\<lambda>i. mylog_buf l ! ((mylog_r l + i) mod MYLOG_BUF_LEN)) [0..<ring_dist (mylog_r l) (mylog_w l)]"

definition log_pos :: "mylog \<Rightarrow> nat" where
  "log_pos l = ring_dist (mylog_r l) (mylog_r_for_read l)"

lemma length_log_text [simp]: "length (log_text l) = ring_dist (mylog_r l) (mylog_w l)"
  by (simp add: log_text_def)

lemma ring_dist_less: "a < MYLOG_BUF_LEN \<Longrightarrow> b < MYLOG_BUF_LEN \<Longrightarrow> ring_dist a b < MYLOG_BUF_LEN"
  by (auto simp: ring_dist_def)

lemma ring_dist_self [simp]: "ring_dist a a = 0"
  by (simp add: ring_dist_def)

lemma ring_dist_add:
  "a < MYLOG_BUF_LEN \<Longrightarrow> b < MYLOG_BUF_LEN \<Longrightarrow> (a + ring_dist a b) mod MYLOG_BUF_LEN = b"
  by (auto simp: ring_dist_def)

lemma ring_dist_0_iff:
  "a < MYLOG_BUF_LEN \<Longrightarrow> b < MYLOG_BUF_LEN \<Longrightarrow> ring_dist a b = 0 \<longleftrightarrow> a = b"
  by (auto simp: ring_dist_def)

lemma ring_dist_Suc:
  assumes "a < MYLOG_BUF_LEN" and "b < MYLOG_BUF_LEN" and "(b + 1) mod MYLOG_BUF_LEN \<noteq> a"
  shows "ring_dist a ((b + 1) mod MYLOG_BUF_LEN) = Suc (ring_dist a b)"
  using assms by (auto simp: ring_dist_def mod_Suc Suc_diff_le split: if_splits)

lemma ring_dist_Suc_left:
  assumes "a < MYLOG_BUF_LEN" and "b < MYLOG_BUF_LEN" and "a \<noteq> b"
  shows "ring_dist a b = Suc (ring_dist ((a + 1) mod MYLOG_BUF_LEN) b)"
  using assms by (auto simp: ring_dist_def mod_Suc split: if_splits)

lemma ring_full_iff:
  assumes "a < MYLOG_BUF_LEN" and "b < MYLOG_BUF_LEN"
  shows "(b + 1) mod MYLOG_BUF_LEN = a \<longleftrightarrow> ring_dist a b = MYLOG_BUF_LEN - 1"
  using assms by (auto simp: ring_dist_def mod_Suc split: if_splits)


lemma ring_index_other:
  assumes "a < MYLOG_BUF_LEN" and "b < MYLOG_BUF_LEN" and "i < ring_dist a b"
  shows "(a + i) mod MYLOG_BUF_LEN \<noteq> b"
proof (cases "a + i < MYLOG_BUF_LEN")
  case True
  with assms show ?thesis by (auto simp: ring_dist_def split: if_splits)
next
  case False
  with assms have "(a + i) mod MYLOG_BUF_LEN = a + i - MYLOG_BUF_LEN"
    by (simp add: le_mod_geq ring_dist_def split: if_splits)
  with False assms show ?thesis by (auto simp: ring_dist_def split: if_splits)
qed

lemma ring_Suc_inj:
  "a < MYLOG_BUF_LEN \<Longrightarrow> b < MYLOG_BUF_LEN \<Longrightarrow>
   (a + 1) mod MYLOG_BUF_LEN = (b + 1) mod MYLOG_BUF_LEN \<longleftrightarrow> a = b"
  by (auto simp: mod_Suc split: if_splits)

text \<open>Dropping the oldest character.\<close>

definition drop_oldest :: "mylog \<Rightarrow> mylog" where
  "drop_oldest l =
     (let l = l\<lparr>mylog_r := (mylog_r l + 1) mod MYLOG_BUF_LEN\<rparr>
      in if (mylog_r_for_read l + 1) mod MYLOG_BUF_LEN = mylog_r l
         then l\<lparr>mylog_r_for_read := mylog_r l\<rparr> else l)"

lemma drop_oldest:
  assumes "mylog_ok l" and "mylog_r l \<noteq> mylog_w l"
  shows "mylog_ok (drop_oldest l) \<and> log_text (drop_oldest l) = tl (log_text l) \<and>
    log_pos (drop_oldest l) = log_pos l - 1"
proof -
  let ?r' = "(mylog_r l + 1) mod MYLOG_BUF_LEN"
  have r: "mylog_r l < MYLOG_BUF_LEN" and w: "mylog_w l < MYLOG_BUF_LEN"
    and q: "mylog_r_for_read l < MYLOG_BUF_LEN"
    and le: "ring_dist (mylog_r l) (mylog_r_for_read l) \<le> ring_dist (mylog_r l) (mylog_w l)"
    using assms(1) by (auto simp: mylog_ok_def)
  have r': "?r' < MYLOG_BUF_LEN" using r by simp
  have d: "ring_dist (mylog_r l) (mylog_w l) = Suc (ring_dist ?r' (mylog_w l))"
    by (rule ring_dist_Suc_left [OF r w assms(2)])
  have "log_text (drop_oldest l) = map (\<lambda>i. mylog_buf l ! ((?r' + i) mod MYLOG_BUF_LEN))
      [0..<ring_dist ?r' (mylog_w l)]"
    by (simp add: drop_oldest_def log_text_def Let_def)
  also have "\<dots> = tl (log_text l)"
    by (simp add: log_text_def d upt_conv_Cons map_Suc_upt [symmetric] mod_add_left_eq del: upt_Suc)
  finally have tx: "log_text (drop_oldest l) = tl (log_text l)" .
  show ?thesis
  proof (cases "mylog_r_for_read l = mylog_r l")
    case True
    with r r' tx assms(1) show ?thesis
      by (simp add: drop_oldest_def mylog_ok_def log_pos_def)
  next
    case False
    then have "ring_dist (mylog_r l) (mylog_r_for_read l) = Suc (ring_dist ?r' (mylog_r_for_read l))"
      using ring_dist_Suc_left [OF r q] by simp
    moreover have "(mylog_r_for_read l + 1) mod MYLOG_BUF_LEN \<noteq> ?r'"
      using False ring_Suc_inj [OF q r] by simp
    ultimately show ?thesis
      using tx le d r' assms(1) by (simp add: drop_oldest_def mylog_ok_def log_pos_def)
  qed
qed

text \<open>Appending when there is room.\<close>

lemma append_char:
  assumes "mylog_ok l" and "\<not> ringbufffull l"
  shows "mylog_ok (ringbufffputc c l) \<and> log_text (ringbufffputc c l) = log_text l @ [c] \<and>
    log_pos (ringbufffputc c l) = log_pos l"
proof -
  let ?n = MYLOG_BUF_LEN and ?r = "mylog_r l" and ?w = "mylog_w l"
  have r: "?r < ?n" and w: "?w < ?n" and buf: "length (mylog_buf l) = ?n"
    using assms(1) by (auto simp: mylog_ok_def)
  have d: "ring_dist ?r ((?w + 1) mod ?n) = Suc (ring_dist ?r ?w)"
    using ring_dist_Suc [OF r w] assms(2) by (simp add: ringbufffull_def)
  have put: "ringbufffputc c l = l\<lparr>mylog_buf := (mylog_buf l)[?w := c], mylog_w := (?w + 1) mod ?n\<rparr>"
    using assms(2) by (simp add: ringbufffputc_def Let_def)
  have "(mylog_buf l)[?w := c] ! ((?r + i) mod ?n) = (log_text l @ [c]) ! i" if "i < Suc (ring_dist ?r ?w)" for i
  proof (cases "i = ring_dist ?r ?w")
    case True
    then show ?thesis using ring_dist_add [OF r w] buf w by (simp add: nth_append)
  next
    case False
    then have "i < ring_dist ?r ?w" using that by simp
    with ring_index_other [OF r w this] show ?thesis by (simp add: log_text_def nth_append)
  qed
  moreover have "log_text (ringbufffputc c l) =
      map (\<lambda>i. (mylog_buf l)[?w := c] ! ((?r + i) mod ?n)) [0..<Suc (ring_dist ?r ?w)]"
    by (simp add: put log_text_def d [simplified] del: upt_Suc)
  ultimately have "log_text (ringbufffputc c l) = log_text l @ [c]"
    by (intro nth_equalityI) (simp_all del: upt_Suc)
  then show ?thesis
    using assms(1) d by (simp add: put mylog_ok_def log_pos_def)
qed

text \<open>Putting a character is putting it at the end of the list, of which the ring holds the last 1023.\<close>

definition log_put :: "char \<Rightarrow> string \<times> nat \<Rightarrow> string \<times> nat" where
  "log_put c tp =
     (let (t, p) = tp in if length t = MYLOG_BUF_LEN - 1 then (tl t @ [c], p - 1) else (t @ [c], p))"

abbreviation log_abs :: "mylog \<Rightarrow> string \<times> nat" where
  "log_abs l \<equiv> (log_text l, log_pos l)"

lemma putc_refines:
  assumes "mylog_ok l"
  shows "mylog_ok (ringbufffputc c l) \<and> log_abs (ringbufffputc c l) = log_put c (log_abs l)"
proof (cases "ringbufffull l")
  case False
  moreover from False have "ring_dist (mylog_r l) (mylog_w l) \<noteq> MYLOG_BUF_LEN - 1"
    using assms ring_full_iff by (simp add: ringbufffull_def mylog_ok_def)
  ultimately show ?thesis using append_char [OF assms] by (simp add: log_put_def)
next
  case True
  then have d: "ring_dist (mylog_r l) (mylog_w l) = MYLOG_BUF_LEN - 1"
    using assms ring_full_iff by (simp add: ringbufffull_def mylog_ok_def)
  then have neq: "mylog_r l \<noteq> mylog_w l"
    by (auto simp: MYLOG_BUF_LEN_def)
  note drop = drop_oldest [OF assms neq]
  have "\<not> ringbufffull (drop_oldest l)"
  proof -
    have "length (log_text (drop_oldest l)) = MYLOG_BUF_LEN - 2"
      using drop d by simp
    then have "ring_dist (mylog_r (drop_oldest l)) (mylog_w (drop_oldest l)) \<noteq> MYLOG_BUF_LEN - 1"
      by (simp add: MYLOG_BUF_LEN_def)
    with drop ring_full_iff show ?thesis by (simp add: ringbufffull_def mylog_ok_def)
  qed
  moreover have "ringbufffputc c l = ringbufffputc c (drop_oldest l)"
    using calculation True by (simp add: ringbufffputc_def drop_oldest_def Let_def)
  ultimately show ?thesis
    using append_char [of "drop_oldest l" c] drop d by (simp add: log_put_def)
qed


subsection \<open>Printing\<close>

definition last_n :: "nat \<Rightarrow> 'a list \<Rightarrow> 'a list" where
  "last_n n xs = drop (length xs - n) xs"

lemma length_last_n [simp]: "length (last_n n xs) = min n (length xs)"
  by (auto simp: last_n_def)

lemma last_n_all [simp]: "length xs \<le> n \<Longrightarrow> last_n n xs = xs"
  by (simp add: last_n_def)

lemma last_n_nonempty: "0 < n \<Longrightarrow> xs \<noteq> [] \<Longrightarrow> last_n n xs \<noteq> []"
  by (cases xs) (auto simp: last_n_def)

lemma last_n_snoc:
  "0 < n \<Longrightarrow> last_n n (xs @ [x]) = (if length xs < n then xs @ [x] else tl (last_n n xs) @ [x])"
proof (cases "length xs < n")
  case False
  then have "Suc (length xs) - n = Suc (length xs - n)" by simp
  moreover assume "0 < n"
  ultimately show ?thesis using False by (simp add: last_n_def drop_Suc tl_drop)
qed simp

lemma last_n_append: "last_n n (last_n n xs @ ys) = last_n n (xs @ ys)"
proof (cases "length xs \<le> n")
  case False
  then obtain k where "length xs = n + k" by (metis le_iff_add nat_le_linear)
  then show ?thesis by (simp add: last_n_def add.commute)
qed simp

lemma log_put_last:
  "length t < MYLOG_BUF_LEN \<Longrightarrow> fst (log_put c (t, p)) = last_n (MYLOG_BUF_LEN - 1) (t @ [c])"
  by (auto simp: log_put_def last_n_snoc MYLOG_BUF_LEN_def less_Suc_eq_le)

lemma log_text_less: "mylog_ok l \<Longrightarrow> length (log_text l) < MYLOG_BUF_LEN"
  by (simp add: mylog_ok_def ring_dist_less)

lemma puts_text:
  "mylog_ok l \<Longrightarrow> mylog_ok (fold ringbufffputc cs l) \<and>
   log_text (fold ringbufffputc cs l) = last_n (MYLOG_BUF_LEN - 1) (log_text l @ cs)"
proof (induction cs arbitrary: l)
  case Nil
  with log_text_less [OF Nil] show ?case by simp
next
  case (Cons c cs)
  have ok: "mylog_ok (ringbufffputc c l)"
    and "log_text (ringbufffputc c l) = last_n (MYLOG_BUF_LEN - 1) (log_text l @ [c])"
    using putc_refines [OF Cons.prems, of c] log_put_last [OF log_text_less [OF Cons.prems], of c "log_pos l"]
    by (auto simp: prod_eq_iff)
  with Cons.IH [OF ok] show ?case by (simp add: last_n_append)
qed

fun prints :: "string list \<Rightarrow> mylog \<Rightarrow> mylog option" where
  "prints [] l = Some l"
| "prints (t # ts) l = do { (n, l) \<leftarrow> myprintk t l; prints ts l }"

lemma prints_text:
  assumes "mylog_ok l" and "\<forall>t \<in> set ts. length t < MYLOG_BUF_LEN"
  shows "\<exists>l'. prints ts l = Some l' \<and> mylog_ok l' \<and>
    log_text l' = last_n (MYLOG_BUF_LEN - 1) (log_text l @ concat ts)"
  using assms
proof (induction ts arbitrary: l)
  case Nil
  with log_text_less [OF Nil(1)] show ?case by simp
next
  case (Cons t ts)
  note put = puts_text [OF Cons.prems(1), of t]
  with Cons.IH [of "fold ringbufffputc t l"] Cons.prems(2) show ?case
    by (simp add: myprintk_def last_n_append)
qed

subsection \<open>Reading\<close>

lemma getc_refines:
  assumes "mylog_ok l"
  shows "if log_pos l = length (log_text l) then ringbuffgetc_for_read l = (None, l)
    else \<exists>l'. ringbuffgetc_for_read l = (Some (log_text l ! log_pos l), l') \<and> mylog_ok l' \<and>
      log_text l' = log_text l \<and> log_pos l' = Suc (log_pos l) \<and> log_pos l < length (log_text l)"
proof -
  let ?n = MYLOG_BUF_LEN and ?r = "mylog_r l" and ?w = "mylog_w l" and ?q = "mylog_r_for_read l"
  have r: "?r < ?n" and w: "?w < ?n" and q: "?q < ?n" and le: "ring_dist ?r ?q \<le> ring_dist ?r ?w"
    using assms by (auto simp: mylog_ok_def)
  have eq: "ring_dist ?r ?q = ring_dist ?r ?w \<longleftrightarrow> ?q = ?w"
    using ring_dist_add [OF r q] ring_dist_add [OF r w] by metis
  show ?thesis
  proof (cases "?q = ?w")
    case True
    then show ?thesis by (simp add: ringbuffgetc_for_read_def ringbuffempty_for_read_def log_pos_def)
  next
    case False
    with eq le have less: "ring_dist ?r ?q < ring_dist ?r ?w" by simp
    with ring_dist_less [OF r w] have "ring_dist ?r ?q \<noteq> ?n - 1" by simp
    then have "(?q + 1) mod ?n \<noteq> ?r" using ring_full_iff [OF r q] by simp
    then have d: "ring_dist ?r ((?q + 1) mod ?n) = Suc (ring_dist ?r ?q)" by (rule ring_dist_Suc [OF r q])
    have "log_text l ! log_pos l = mylog_buf l ! ?q"
      using less ring_dist_add [OF r q] by (simp add: log_text_def log_pos_def)
    moreover have "log_text (l\<lparr>mylog_r_for_read := k\<rparr>) = log_text l" for k
      by (simp add: log_text_def)
    ultimately show ?thesis
      using False less d assms
      by (simp add: ringbuffgetc_for_read_def ringbuffempty_for_read_def log_pos_def mylog_ok_def)
  qed
qed

text \<open>The loop delivers what is unread, up to the count; when more is unread it takes one character more
  than it delivers.\<close>

lemma read_loop_delivers:
  assumes "mylog_ok l" and "i \<le> count" and "u = drop (log_pos l) (log_text l)"
  shows "\<exists>l'. read_loop (\<lambda>i. 0) count (0, i, out, l) =
      Some (0, i + min (length u) (count - i), out @ take (count - i) u, l') \<and> mylog_ok l' \<and>
    log_text l' = log_text l \<and> log_pos l' = min (length (log_text l)) (log_pos l + (count - i) + 1)"
  using assms
proof (induction u arbitrary: i out l)
  case Nil
  then have "log_pos l = length (log_text l)"
    by (simp add: mylog_ok_def log_pos_def)
  with getc_refines [OF Nil(1)] have "ringbuffgetc_for_read l = (None, l)" by simp
  with Nil \<open>log_pos l = length (log_text l)\<close> show ?case by (subst read_loop.simps) simp
next
  case (Cons c u)
  then have "log_pos l \<noteq> length (log_text l)" by auto
  with getc_refines [OF Cons.prems(1)] obtain l' where get:
    "ringbuffgetc_for_read l = (Some (log_text l ! log_pos l), l')" "mylog_ok l'" "log_text l' = log_text l"
    "log_pos l' = Suc (log_pos l)" "log_pos l < length (log_text l)" by auto
  then have c: "log_text l ! log_pos l = c" and u: "u = drop (log_pos l') (log_text l')"
    using Cons.prems(3) by (simp_all add: Cons_nth_drop_Suc [symmetric])
  show ?case
  proof (cases "i < count")
    case True
    then have "count - i = Suc (count - Suc i)" by simp
    with Cons.IH [OF get(2) _ u, of "Suc i" "out @ [c]"] True get c show ?thesis
      by (subst read_loop.simps) simp
  next
    case False
    with Cons.prems(2) get c show ?thesis
      by (subst read_loop.simps) simp
  qed
qed


text \<open>The kernel's wait returns at once when its condition holds.\<close>

definition wait_prompt :: "(mylog \<Rightarrow> int \<times> mylog) \<Rightarrow> bool" where
  "wait_prompt wait \<longleftrightarrow> (\<forall>l. \<not> ringbuffempty_for_read l \<longrightarrow> wait l = (0, l))"

lemma empty_iff_unread:
  assumes "mylog_ok l"
  shows "ringbuffempty_for_read l \<longleftrightarrow> drop (log_pos l) (log_text l) = []"
  using getc_refines [OF assms] assms
  by (auto simp: ringbuffgetc_for_read_def mylog_ok_def log_pos_def split: if_splits)

lemma mymsg_read_delivers:
  assumes "mylog_ok l" and "wait_prompt wait" and "u = drop (log_pos l) (log_text l)" and "u \<noteq> []"
  shows "\<exists>l'. mymsg_read wait (\<lambda>i. 0) nonblock count l = Some (int (min (length u) count), take count u, l') \<and>
    mylog_ok l' \<and> drop (log_pos l') (log_text l') = drop (Suc count) u"
proof -
  have ne: "\<not> ringbuffempty_for_read l" using empty_iff_unread [OF assms(1)] assms(3,4) by simp
  then have "wait l = (0, l)" using assms(2) by (simp add: wait_prompt_def)
  moreover obtain l' where l': "read_loop (\<lambda>i. 0) count (0, 0, [], l) =
      Some (0, min (length u) count, take count u, l')" "mylog_ok l'" "log_text l' = log_text l"
      "log_pos l' = min (length (log_text l)) (log_pos l + count + 1)"
    using read_loop_delivers [OF assms(1) _ assms(3), of 0 count "[]"] by auto
  moreover have "drop (log_pos l') (log_text l') = drop (Suc count) u"
    using l'(3,4) assms(3) by (auto simp: min_def add.commute)
  ultimately show ?thesis using ne by (simp add: mymsg_read_def)
qed

lemma read_again:
  assumes "mylog_ok l" and "ringbuffempty_for_read l"
  shows "mymsg_read wait put True count l = Some (- EAGAIN, [], l)"
  using assms by (simp add: mymsg_read_def)

lemma read_interrupted:
  assumes "wait l = (e, l')" and "e \<noteq> 0"
  shows "mymsg_read wait put False count l = Some (e, [], l')"
  using assms by (simp add: mymsg_read_def read_loop.simps)

lemma print_overflow: "MYLOG_BUF_LEN \<le> length cs \<Longrightarrow> myprintk cs l = None"
  by (simp add: myprintk_def)

text \<open>Two reads with a short buffer: the character between them is lost.\<close>

lemma reads_lose_char:
  assumes "mylog_ok l" and "wait_prompt wait" and "u = drop (log_pos l) (log_text l)" and "Suc count < length u"
  shows "\<exists>l1 l2. mymsg_read wait (\<lambda>i. 0) nonblock count l = Some (int count, take count u, l1) \<and>
    mymsg_read wait (\<lambda>i. 0) nonblock count l1 =
      Some (int (min (length u - Suc count) count), take count (drop (Suc count) u), l2)"
proof -
  have "u \<noteq> []" using assms(4) by auto
  from mymsg_read_delivers [OF assms(1-3) this, of nonblock count] assms(4) obtain l1 where 1:
    "mymsg_read wait (\<lambda>i. 0) nonblock count l = Some (int count, take count u, l1)" "mylog_ok l1"
    "drop (Suc count) u = drop (log_pos l1) (log_text l1)" by auto
  have "drop (Suc count) u \<noteq> []" using assms(4) by simp
  from mymsg_read_delivers [OF 1(2) assms(2) 1(3) this, of nonblock count] 1(1) show ?thesis
    by (auto simp only: length_drop)
qed

lemma mylog_start_ok: "mylog_ok mylog_start"
  by (simp add: mylog_ok_def mylog_start_def MYLOG_BUF_LEN_def)

text \<open>C23: whatever texts below 1024 characters drivers have printed, opening the log and reading it delivers
  the last 1023 characters of all that was printed, as far as the reader's buffer goes; the characters
  behind the delivered ones stay readable but for the first of them, which is lost.\<close>

theorem proc_log_tail:
  assumes "\<forall>t \<in> set ts. length t < MYLOG_BUF_LEN" and "concat ts \<noteq> []" and "wait_prompt wait"
  shows "\<exists>l1 l2. prints ts mylog_start = Some l1 \<and>
    mymsg_read wait (\<lambda>i. 0) nonblock count (mymsg_open l1) =
      Some (int (min (length (last_n (MYLOG_BUF_LEN - 1) (concat ts))) count),
            take count (last_n (MYLOG_BUF_LEN - 1) (concat ts)), l2) \<and>
    drop (log_pos l2) (log_text l2) = drop (Suc count) (last_n (MYLOG_BUF_LEN - 1) (concat ts))"
proof -
  let ?tail = "last_n (MYLOG_BUF_LEN - 1) (concat ts)"
  have "log_text mylog_start = []" by (simp add: log_text_def mylog_start_def)
  with prints_text [OF mylog_start_ok assms(1)] obtain l1 where 1:
    "prints ts mylog_start = Some l1" "mylog_ok l1" "log_text l1 = ?tail" by auto
  have "mylog_ok (mymsg_open l1)" "?tail = drop (log_pos (mymsg_open l1)) (log_text (mymsg_open l1))"
    using 1(2,3) by (simp_all add: mylog_ok_def mymsg_open_def log_pos_def log_text_def)
  moreover have "?tail \<noteq> []"
    using assms(2) by (intro last_n_nonempty) (simp_all add: MYLOG_BUF_LEN_def)
  ultimately show ?thesis
    using mymsg_read_delivers [OF _ assms(3), of "mymsg_open l1" ?tail nonblock count] 1(1) by auto
qed

lemma proc_log_tail_witness:
  "\<exists>l1 l2. prints [''open'', ''write''] mylog_start = Some l1 \<and>
    mymsg_read (\<lambda>l. (0, l)) (\<lambda>i. 0) True 4 (mymsg_open l1) =
      Some (int (min (length (last_n (MYLOG_BUF_LEN - 1) (concat [''open'', ''write'']))) 4),
            take 4 (last_n (MYLOG_BUF_LEN - 1) (concat [''open'', ''write''])), l2) \<and>
    drop (log_pos l2) (log_text l2) = drop (Suc 4) (last_n (MYLOG_BUF_LEN - 1) (concat [''open'', ''write'']))"
  by (rule proc_log_tail) (simp_all add: MYLOG_BUF_LEN_def wait_prompt_def)

end
