(* ===== verification/Ramblock.thy ===== *)
theory Ramblock
  imports Prelude
begin

text \<open>
  The RAM disk of \<^verbatim>\<open>linux_driver/code/\<close> (block device driver), \<^verbatim>\<open>ramblock.c\<close>: its geometry, its set-up and the
  function that serves the request queue.  A request is what the kernel's elevator hands out: a
  direction, a first sector, the number of sectors of its current segment and the memory of the segment;
  \<^verbatim>\<open>end_request\<close> completes it, so the queue is a list that the function serves in order.  The disk refines
  a store of bytes.
\<close>

definition RAMBLOCK_SIZE :: nat where
  "RAMBLOCK_SIZE = 1024 * 1024"

record hd_geometry =
  heads :: nat
  cylinders :: nat
  sectors :: nat

definition ramblock_getgeo :: hd_geometry where
  "ramblock_getgeo = \<lparr>heads = 2, cylinders = 32, sectors = RAMBLOCK_SIZE div 2 div 32 div 512\<rparr>"

record ram_request =
  rq_write :: bool
  rq_sector :: u32
  rq_nr_sectors :: u32
  rq_buffer :: "u8 list"

record ramblock =
  rb_r_cnt :: int
  rb_w_cnt :: int
  ramblock_buffer :: "u8 list"

text \<open>\<^verbatim>\<open>memcpy\<close> of \<open>len\<close> bytes between a buffer and the disk at an offset; outside either, it is \<open>None\<close>.\<close>

definition copy_out :: "nat \<Rightarrow> nat \<Rightarrow> u8 list \<Rightarrow> u8 list \<Rightarrow> u8 list option" where
  "copy_out offset len disk buf =
     (if offset + len \<le> length disk \<and> len \<le> length buf
      then Some (take len (drop offset disk) @ drop len buf) else None)"

definition copy_in :: "nat \<Rightarrow> nat \<Rightarrow> u8 list \<Rightarrow> u8 list \<Rightarrow> u8 list option" where
  "copy_in offset len disk buf =
     (if offset + len \<le> length disk \<and> len \<le> length buf
      then Some (take offset disk @ take len buf @ drop (offset + len) disk) else None)"

text \<open>The transfer of one request; the requests come back as they are completed.\<close>

definition ramblock_transfer :: "ram_request \<Rightarrow> ramblock \<Rightarrow> (ram_request \<times> ramblock) option" where
  "ramblock_transfer req s =
     (let offset = unat (rq_sector req * 512);
          len = unat (rq_nr_sectors req * 512)
      in if \<not> rq_write req then do {
           buf \<leftarrow> copy_out offset len (ramblock_buffer s) (rq_buffer req);
           Some (req\<lparr>rq_buffer := buf\<rparr>, s\<lparr>rb_r_cnt := rb_r_cnt s + 1\<rparr>)
         } else do {
           disk \<leftarrow> copy_in offset len (ramblock_buffer s) (rq_buffer req);
           Some (req, s\<lparr>rb_w_cnt := rb_w_cnt s + 1, ramblock_buffer := disk\<rparr>)
         })"

fun do_ramblock_request :: "ram_request list \<Rightarrow> ramblock \<Rightarrow> (ram_request list \<times> ramblock) option" where
  "do_ramblock_request [] s = Some ([], s)"
| "do_ramblock_request (req # q) s = do {
     (req, s) \<leftarrow> ramblock_transfer req s;
     (finished, s) \<leftarrow> do_ramblock_request q s;
     Some (req # finished, s)
   }"

text \<open>What the set-up tells the kernel: the number of minor devices, the major device, the name, the
  capacity in sectors.  \<open>kzalloc\<close> is the kernel's allocator of cleared memory; its result is not checked.\<close>

record gendisk =
  gd_minors :: nat
  gd_major :: int
  gd_first_minor :: nat
  gd_name :: string
  gd_capacity :: nat

definition ramblock_init :: "int \<Rightarrow> (nat \<Rightarrow> u8 list option) \<Rightarrow> (int \<times> gendisk \<times> ramblock) option" where
  "ramblock_init major kzalloc = do {
     disk \<leftarrow> kzalloc RAMBLOCK_SIZE;
     Some (0, \<lparr>gd_minors = 16, gd_major = major, gd_first_minor = 0, gd_name = ''ramblock'',
               gd_capacity = RAMBLOCK_SIZE div 512\<rparr>,
           \<lparr>rb_r_cnt = 0, rb_w_cnt = 0, ramblock_buffer = disk\<rparr>)
   }"

text \<open>The geometry multiplies to the capacity.\<close>

lemma geometry_capacity:
  assumes "ramblock_init major kzalloc = Some (r, d, s)"
  shows "heads ramblock_getgeo * cylinders ramblock_getgeo * sectors ramblock_getgeo = gd_capacity d"
  using assms by (auto simp: ramblock_init_def ramblock_getgeo_def RAMBLOCK_SIZE_def)

subsection \<open>The disk as a store of bytes\<close>

definition request_ok :: "ram_request \<Rightarrow> bool" where
  "request_ok req \<longleftrightarrow> unat (rq_sector req) + unat (rq_nr_sectors req) \<le> RAMBLOCK_SIZE div 512 \<and>
     length (rq_buffer req) = 512 * unat (rq_nr_sectors req)"

definition store_transfer :: "ram_request \<Rightarrow> (nat \<Rightarrow> u8) \<Rightarrow> ram_request \<times> (nat \<Rightarrow> u8)" where
  "store_transfer req m =
     (let a = 512 * unat (rq_sector req); n = length (rq_buffer req)
      in if rq_write req then (req, \<lambda>i. if a \<le> i \<and> i < a + n then rq_buffer req ! (i - a) else m i)
         else (req\<lparr>rq_buffer := map m [a..<a + n]\<rparr>, m))"

fun store_serve :: "ram_request list \<Rightarrow> (nat \<Rightarrow> u8) \<Rightarrow> ram_request list \<times> (nat \<Rightarrow> u8)" where
  "store_serve [] m = ([], m)"
| "store_serve (req # q) m =
     (let (req, m) = store_transfer req m; (finished, m) = store_serve q m in (req # finished, m))"

definition disk_is :: "ramblock \<Rightarrow> (nat \<Rightarrow> u8) \<Rightarrow> bool" where
  "disk_is s m \<longleftrightarrow> length (ramblock_buffer s) = RAMBLOCK_SIZE \<and>
     (\<forall>i < RAMBLOCK_SIZE. ramblock_buffer s ! i = m i)"

lemma sectors_to_bytes: "unat (n :: u32) \<le> 2048 \<Longrightarrow> unat (n * 512) = 512 * unat n"
  by (simp add: unat_word_ariths mult.commute)

lemma transfer_as_store:
  assumes "disk_is s m" and ok: "request_ok req"
  shows "\<exists>s'. ramblock_transfer req s = Some (fst (store_transfer req m), s') \<and>
    disk_is s' (snd (store_transfer req m))"
proof -
  let ?a = "512 * unat (rq_sector req)" and ?n = "length (rq_buffer req)"
  have a: "unat (rq_sector req * 512) = ?a" and n: "unat (rq_nr_sectors req * 512) = ?n"
    and le: "?a + ?n \<le> RAMBLOCK_SIZE"
    using ok by (simp_all add: request_ok_def RAMBLOCK_SIZE_def sectors_to_bytes)
  have len: "length (ramblock_buffer s) = RAMBLOCK_SIZE"
    and at: "\<And>i. i < RAMBLOCK_SIZE \<Longrightarrow> ramblock_buffer s ! i = m i"
    using assms(1) by (auto simp: disk_is_def)
  show ?thesis
  proof (cases "rq_write req")
    case True
    let ?disk = "take ?a (ramblock_buffer s) @ rq_buffer req @ drop (?a + ?n) (ramblock_buffer s)"
    have "disk_is (s\<lparr>rb_w_cnt := rb_w_cnt s + 1, ramblock_buffer := ?disk\<rparr>) (snd (store_transfer req m))"
      using True le len at by (auto simp: store_transfer_def disk_is_def nth_append min_def Let_def)
    with True le len show ?thesis
      by (simp add: ramblock_transfer_def store_transfer_def a n copy_in_def Let_def)
  next
    case False
    have "take ?n (drop ?a (ramblock_buffer s)) = map m [?a..<?a + ?n]"
      using le len at by (intro nth_equalityI) auto
    with False le len assms(1) show ?thesis
      by (simp add: ramblock_transfer_def store_transfer_def a n copy_out_def disk_is_def Let_def)
  qed
qed

text \<open>A request beyond the end, which the kernel's own capacity check excludes, would leave the buffer.\<close>

lemma ramblock_beyond:
  assumes "length (ramblock_buffer s) = RAMBLOCK_SIZE" and "RAMBLOCK_SIZE < unat (rq_sector req * 512)"
  shows "do_ramblock_request (req # q) s = None"
  using assms by (simp add: ramblock_transfer_def copy_out_def copy_in_def Let_def)

text \<open>C24: requests within the disk are all served, in order, as a store of bytes serves them: a read gets the
  bytes last written to its sectors, a write changes its own sectors only.\<close>

theorem ramblock_serves_store:
  assumes "disk_is s m" and "\<forall>req \<in> set q. request_ok req"
  shows "\<exists>s'. do_ramblock_request q s = Some (fst (store_serve q m), s') \<and> disk_is s' (snd (store_serve q m))"
  using assms
proof (induction q arbitrary: s m)
  case Nil
  then show ?case by simp
next
  case (Cons req q)
  from transfer_as_store [OF Cons.prems(1), of req] Cons.prems(2) obtain s1 where 1:
    "ramblock_transfer req s = Some (fst (store_transfer req m), s1)"
    "disk_is s1 (snd (store_transfer req m))" by auto
  from Cons.IH [OF 1(2)] Cons.prems(2) 1(1) show ?case
    by (auto simp: Let_def split: prod.splits)
qed

definition blank_disk :: ramblock where
  "blank_disk = \<lparr>rb_r_cnt = 0, rb_w_cnt = 0, ramblock_buffer = replicate RAMBLOCK_SIZE 0\<rparr>"

definition some_requests :: "ram_request list" where
  "some_requests =
     [\<lparr>rq_write = True, rq_sector = 2047, rq_nr_sectors = 1, rq_buffer = replicate 512 0x41\<rparr>,
      \<lparr>rq_write = False, rq_sector = 2046, rq_nr_sectors = 2, rq_buffer = replicate 1024 0\<rparr>]"

lemma ramblock_serves_store_witness:
  "\<exists>s'. do_ramblock_request some_requests blank_disk = Some (fst (store_serve some_requests (\<lambda>i. 0)), s') \<and>
    disk_is s' (snd (store_serve some_requests (\<lambda>i. 0)))"
  by (rule ramblock_serves_store)
    (simp_all add: disk_is_def blank_disk_def some_requests_def request_ok_def RAMBLOCK_SIZE_def)

end
