(* ===== verification/Vnet.thy ===== *)
theory Vnet
  imports Prelude
begin

text \<open>
  The virtual network card of \<^verbatim>\<open>linux_driver/code/viru_net/viru_net.c\<close>: a frame that is sent comes back as
  the answer to itself, so that pinging any address succeeds.  A frame is the list of its bytes.

  The kernel's checksum over an IP header (\<open>ip_fast_csum\<close>: the header's bytes and its length in words) is
  an argument, and so are whether \<^verbatim>\<open>dev_alloc_skb\<close> finds memory and the length that the driver reads out
  of the frame after it has freed it.
\<close>

abbreviation ETH_ALEN :: nat where "ETH_ALEN \<equiv> 6"
abbreviation ETH_HLEN :: nat where "ETH_HLEN \<equiv> 14"
abbreviation IPHDR_LEN :: nat where "IPHDR_LEN \<equiv> 20"
abbreviation IFF_NOARP :: u32 where "IFF_NOARP \<equiv> 0x80"
abbreviation NETIF_F_NO_CSUM :: u32 where "NETIF_F_NO_CSUM \<equiv> 4"

record net_device =
  dev_addr :: "u8 list"
  dev_flags :: u32
  dev_features :: u32
  queue_stopped :: bool
  rx_packets :: u32
  rx_bytes :: u32
  tx_packets :: u32
  tx_bytes :: u32
  netif_rx_frames :: "u8 list list"
  Tx_cnt :: u32

text \<open>A field of the frame as bytes, and storing one.\<close>

definition field :: "nat \<Rightarrow> nat \<Rightarrow> u8 list \<Rightarrow> u8 list" where
  "field off n data = take n (drop off data)"

definition set_field :: "nat \<Rightarrow> u8 list \<Rightarrow> u8 list \<Rightarrow> u8 list" where
  "set_field off bs data = take off data @ bs @ drop (off + length bs) data"

definition emulator_rx_packet ::
  "(u8 list \<Rightarrow> u8 \<Rightarrow> u16) \<Rightarrow> bool \<Rightarrow> u8 list \<Rightarrow> net_device \<Rightarrow> (u8 list \<times> net_device) option" where
  "emulator_rx_packet ip_fast_csum have_skb data dev =
     (if length data < ETH_HLEN + IPHDR_LEN + 1 then None
      else
        let tmp_dev_addr = field 0 ETH_ALEN data;
            data = set_field 0 (field 6 ETH_ALEN data) data;
            data = set_field 6 tmp_dev_addr data;
            tmp = field (ETH_HLEN + 12) 4 data;
            data = set_field (ETH_HLEN + 12) (field (ETH_HLEN + 16) 4 data) data;
            data = set_field (ETH_HLEN + 16) tmp data;
            data = data[ETH_HLEN + IPHDR_LEN := 0];
            data = set_field (ETH_HLEN + 10) [0, 0] data;
            check = ip_fast_csum (drop ETH_HLEN data) (data ! ETH_HLEN AND 0xf);
            data = set_field (ETH_HLEN + 10) [ucast check, ucast (drop_bit 8 check)] data
        in if \<not> have_skb then None
           else Some (data, dev\<lparr>rx_packets := rx_packets dev + 1,
                                rx_bytes := rx_bytes dev + of_nat (length data),
                                netif_rx_frames := netif_rx_frames dev @ [data]\<rparr>))"

definition virt_net_send_packet ::
  "(u8 list \<Rightarrow> u8 \<Rightarrow> u16) \<Rightarrow> bool \<Rightarrow> u32 \<Rightarrow> u8 list \<Rightarrow> net_device \<Rightarrow> (int \<times> net_device) option" where
  "virt_net_send_packet ip_fast_csum have_skb freed_len data dev = do {
     let dev = dev\<lparr>Tx_cnt := Tx_cnt dev + 1\<rparr>;
     let dev = dev\<lparr>queue_stopped := True\<rparr>;
     (data, dev) \<leftarrow> emulator_rx_packet ip_fast_csum have_skb data dev;
     let dev = dev\<lparr>queue_stopped := False\<rparr>;
     let dev = dev\<lparr>tx_packets := tx_packets dev + 1\<rparr>;
     Some (0, dev\<lparr>tx_bytes := tx_bytes dev + freed_len\<rparr>)
   }"

definition viru_net_init :: "net_device \<Rightarrow> int \<times> net_device" where
  "viru_net_init dev =
     (0, dev\<lparr>dev_addr := [0x08, 0x89, 0x89, 0x89, 0x89, 0x11],
             dev_flags := dev_flags dev OR IFF_NOARP,
             dev_features := dev_features dev OR NETIF_F_NO_CSUM\<rparr>)"

subsection \<open>The answer\<close>

lemma length_set_field [simp]:
  "off + length bs \<le> length data \<Longrightarrow> length (set_field off bs data) = length data"
  by (simp add: set_field_def)

lemma length_field [simp]: "off + n \<le> length data \<Longrightarrow> length (field off n data) = n"
  by (simp add: field_def)

lemma nth_set_field:
  assumes "off + length bs \<le> length data"
  shows "set_field off bs data ! i = (if off \<le> i \<and> i < off + length bs then bs ! (i - off) else data ! i)"
proof -
  have "length (take off data) = off" using assms by simp
  then show ?thesis using assms by (auto simp: set_field_def nth_append simp del: length_take)
qed

lemma nth_field: "off + n \<le> length data \<Longrightarrow> i < n \<Longrightarrow> field off n data ! i = data ! (off + i)"
  by (simp add: field_def)

text \<open>The answer to a frame, byte by byte: where each byte comes from.  The checksum is the one of the
  answer's own header with a cleared checksum field.\<close>

definition answer_byte :: "u8 list \<Rightarrow> u16 \<Rightarrow> nat \<Rightarrow> u8" where
  "answer_byte data check i =
     (if i < 6 then data ! (i + 6) else if i < 12 then data ! (i - 6)
      else if i = 24 then ucast check else if i = 25 then ucast (drop_bit 8 check)
      else if 26 \<le> i \<and> i < 30 then data ! (i + 4) else if 30 \<le> i \<and> i < 34 then data ! (i - 4)
      else if i = 34 then 0 else data ! i)"

definition answer :: "u8 list \<Rightarrow> u16 \<Rightarrow> u8 list" where
  "answer data check = map (answer_byte data check) [0..<length data]"

lemma emulator_answers:
  assumes "35 \<le> length data"
  shows "emulator_rx_packet ip_fast_csum True data dev =
    (let a = answer data (ip_fast_csum (drop 14 (answer data 0)) (data ! 14 AND 0xf))
     in Some (a, dev\<lparr>rx_packets := rx_packets dev + 1, rx_bytes := rx_bytes dev + of_nat (length data),
                     netif_rx_frames := netif_rx_frames dev @ [a]\<rparr>))"
proof -
  define d1 where "d1 = set_field 6 (field 0 6 data) (set_field 0 (field 6 6 data) data)"
  define d2 where "d2 = set_field 30 (field 26 4 d1) (set_field 26 (field 30 4 d1) d1)"
  define d3 where "d3 = set_field 24 [0, 0] (d2[34 := 0])"
  have l1: "length d1 = length data" and l2: "length d2 = length data" and l3: "length d3 = length data"
    using assms by (simp_all add: d1_def d2_def d3_def)
  have n1: "d1 ! i = (if i < 6 then data ! (i + 6) else if i < 12 then data ! (i - 6) else data ! i)" for i
    using assms by (simp add: d1_def nth_set_field nth_field add.commute)
  have n2: "d2 ! i = (if 26 \<le> i \<and> i < 30 then d1 ! (i + 4) else if 30 \<le> i \<and> i < 34 then d1 ! (i - 4)
      else d1 ! i)" for i
    using assms l1 by (auto simp: d2_def nth_set_field nth_field add.commute)
  have n3: "d3 ! i = (if i = 24 \<or> i = 25 then 0 else if i = 34 then 0 else d2 ! i)" for i
    using assms l2 by (auto simp: d3_def nth_set_field nth_list_update nth_Cons')
  have stored: "set_field 24 [ucast c, ucast (drop_bit 8 c)] d3 = answer data c" for c :: u16
  proof (rule nth_equalityI)
    show "length (set_field 24 [ucast c, ucast (drop_bit 8 c)] d3) = length (answer data c)"
      using assms l3 by (simp add: answer_def)
    fix i
    assume "i < length (set_field 24 [ucast c, ucast (drop_bit 8 c)] d3)"
    with assms l3 show "set_field 24 [ucast c, ucast (drop_bit 8 c)] d3 ! i = answer data c ! i"
      by (auto simp: nth_set_field answer_def answer_byte_def n1 n2 n3 nth_Cons')
  qed
  have "d3 = answer data 0"
    by (rule nth_equalityI) (auto simp: l3 answer_def answer_byte_def n1 n2 n3)
  moreover have "d3 ! 14 = data ! 14" by (simp add: n1 n2 n3)
  ultimately show ?thesis
    using assms stored
    by (simp add: emulator_rx_packet_def d1_def [symmetric] d2_def [symmetric] d3_def [symmetric] Let_def
        answer_def)
qed


text \<open>sending a frame with an IP header returns, leaves the queue running, and delivers one frame: the sent
  one with the Ethernet addresses swapped, the IP addresses swapped, the ICMP type of a reply and the
  checksum of the new header; the receive counters count it.\<close>

theorem vnet_answers:
  assumes "35 \<le> length data"
  shows "\<exists>dev' a. virt_net_send_packet ip_fast_csum True freed_len data dev = Some (0, dev') \<and>
    netif_rx_frames dev' = netif_rx_frames dev @ [a] \<and>
    a = answer data (ip_fast_csum (drop 14 (answer data 0)) (data ! 14 AND 0xf)) \<and>
    field 0 6 a = field 6 6 data \<and> field 6 6 a = field 0 6 data \<and>
    field 26 4 a = field 30 4 data \<and> field 30 4 a = field 26 4 data \<and> a ! 34 = 0 \<and>
    drop 35 a = drop 35 data \<and> \<not> queue_stopped dev' \<and>
    rx_packets dev' = rx_packets dev + 1 \<and> tx_packets dev' = tx_packets dev + 1 \<and>
    rx_bytes dev' = rx_bytes dev + of_nat (length data)"
proof -
  have f: "field off n (answer data c) = map (answer_byte data c) [off..<off + n]"
    if "off + n \<le> length data" for off n c
    using that by (intro nth_equalityI) (simp_all add: field_def answer_def)
  have g: "field off n data = map (\<lambda>i. data ! i) [off..<off + n]" if "off + n \<le> length data" for off n
    using that by (intro nth_equalityI) (simp_all add: field_def)
  have "drop 35 (answer data c) = drop 35 data" for c
    by (rule nth_equalityI) (simp_all add: answer_def answer_byte_def)
  moreover have "answer data c ! 34 = 0" for c
    using assms by (simp add: answer_def answer_byte_def)
  ultimately show ?thesis
    using assms
    by (simp add: virt_net_send_packet_def emulator_answers Let_def f g answer_byte_def upt_conv_Cons)
      (simp add: eval_nat_numeral)
qed

definition vnet_off :: net_device where
  "vnet_off = \<lparr>dev_addr = [], dev_flags = 0, dev_features = 0, queue_stopped = False, rx_packets = 0,
     rx_bytes = 0, tx_packets = 0, tx_bytes = 0, netif_rx_frames = [], Tx_cnt = 0\<rparr>"

lemma vnet_answers_witness:
  "\<exists>dev' a. virt_net_send_packet (\<lambda>hdr n. 0x1234) True 7 (map of_nat [0..<60]) vnet_off = Some (0, dev') \<and>
    netif_rx_frames dev' = netif_rx_frames vnet_off @ [a] \<and>
    a = answer (map of_nat [0..<60]) 0x1234 \<and>
    field 0 6 a = field 6 6 (map of_nat [0..<60]) \<and> field 6 6 a = field 0 6 (map of_nat [0..<60]) \<and>
    field 26 4 a = field 30 4 (map of_nat [0..<60]) \<and> field 30 4 a = field 26 4 (map of_nat [0..<60]) \<and>
    a ! 34 = 0 \<and> drop 35 a = drop 35 (map of_nat [0..<60]) \<and> \<not> queue_stopped dev' \<and>
    rx_packets dev' = rx_packets vnet_off + 1 \<and> tx_packets dev' = tx_packets vnet_off + 1 \<and>
    rx_bytes dev' = rx_bytes vnet_off + of_nat (length (map of_nat [0..<60] :: u8 list))"
  by (rule vnet_answers) simp

text \<open>The transmit counter adds whatever is found at the freed frame's length.\<close>

lemma tx_bytes_freed:
  assumes "35 \<le> length data"
    and "virt_net_send_packet ip_fast_csum True freed_len data dev = Some (r, dev')"
  shows "tx_bytes dev' = tx_bytes dev + freed_len"
  using assms by (auto simp: virt_net_send_packet_def emulator_answers Let_def)

text \<open>A frame too short for the fields that are swapped is written to behind its end.\<close>

lemma vnet_short: "length data < 35 \<Longrightarrow> virt_net_send_packet c True n data dev = None"
  by (simp add: virt_net_send_packet_def emulator_rx_packet_def)

end
