(* ===== verification/Buttons.thy ===== *)
theory Buttons
  imports Kernel
begin

text \<open>
  The button driver of \<^verbatim>\<open>linux_driver/code/Asynchronous_Signal_semaphore_Timerdebounce/seventh_drv.c\<close>: an
  edge of a button starts a timer of 10 ms, the timer's function reads the pin and publishes the key, and
  a semaphore admits one process at a time.  The interrupts, the clock, the timer and the processes are
  the steps of a transition relation.

  \<open>HZ\<close>, the clock ticks of a second, and the level that a pin has when it is read are arguments.  An
  operation that sleeps is \<open>None\<close> until what it waits for has happened.
\<close>

datatype pin = GPF0 | GPF2 | GPG3 | GPG11

record pin_desc =
  pd_pin :: pin
  pd_key_val :: u32

definition pins_desc :: "pin_desc list" where
  "pins_desc =
     [\<lparr>pd_pin = GPF0, pd_key_val = 0x01\<rparr>, \<lparr>pd_pin = GPF2, pd_key_val = 0x02\<rparr>,
      \<lparr>pd_pin = GPG3, pd_key_val = 0x03\<rparr>, \<lparr>pd_pin = GPG11, pd_key_val = 0x04\<rparr>]"

text \<open>The driver's variables; \<open>buttons_timer\<close> is the expiry of the pending timer, \<open>irqs\<close> whether the
  handlers are installed, \<open>sigio\<close> the signals sent to the asynchronous readers.\<close>

record buttons =
  key_val :: u8
  ev_press :: bool
  irq_pd :: "pin_desc option"
  buttons_timer :: "nat option"
  button_lock :: nat
  irqs :: bool
  sigio :: nat
  jiffies :: nat

definition buttons_irq :: "nat \<Rightarrow> pin_desc \<Rightarrow> buttons \<Rightarrow> buttons" where
  "buttons_irq HZ dev_id s = s\<lparr>irq_pd := Some dev_id, buttons_timer := Some (jiffies s + HZ div 100)\<rparr>"

abbreviation POLLIN :: u32 where "POLLIN \<equiv> 0x0001"
abbreviation POLLRDNORM :: u32 where "POLLRDNORM \<equiv> 0x0040"

definition seventh_drv_poll :: "buttons \<Rightarrow> u32" where
  "seventh_drv_poll s = (let mask = 0 in if ev_press s then mask OR (POLLIN OR POLLRDNORM) else mask)"

definition request_irqs :: "buttons \<Rightarrow> buttons" where
  "request_irqs s = s\<lparr>irqs := True\<rparr>"

definition seventh_drv_open :: "bool \<Rightarrow> buttons \<Rightarrow> (int \<times> buttons) option" where
  "seventh_drv_open nonblock s =
     (if nonblock then
        (if button_lock s = 0 then Some (- EBUSY, s)
         else Some (0, request_irqs (s\<lparr>button_lock := button_lock s - 1\<rparr>)))
      else if button_lock s = 0 then None
      else Some (0, request_irqs (s\<lparr>button_lock := button_lock s - 1\<rparr>)))"

text \<open>A signal ends the wait too, and its result is not looked at.\<close>

definition seventh_drv_read :: "bool \<Rightarrow> bool \<Rightarrow> nat \<Rightarrow> buttons \<Rightarrow> (int \<times> u8 option \<times> buttons) option" where
  "seventh_drv_read nonblock signal count s =
     (if count \<noteq> 1 then Some (- EINVAL, None, s)
      else if nonblock \<and> \<not> ev_press s then Some (- EAGAIN, None, s)
      else if \<not> nonblock \<and> \<not> ev_press s \<and> \<not> signal then None
      else Some (1, Some (key_val s), s\<lparr>ev_press := False\<rparr>))"

definition seventh_drv_write :: "buttons \<Rightarrow> int \<times> buttons" where
  "seventh_drv_write s = (0, s)"

definition seventh_drv_close :: "buttons \<Rightarrow> int \<times> buttons" where
  "seventh_drv_close s = (0, s\<lparr>irqs := False, button_lock := button_lock s + 1\<rparr>)"

definition buttons_timer_function :: "(pin \<Rightarrow> u32) \<Rightarrow> buttons \<Rightarrow> buttons" where
  "buttons_timer_function getpin s =
     (case irq_pd s of None \<Rightarrow> s
      | Some pindesc \<Rightarrow>
          let pinval = getpin (pd_pin pindesc);
              s = (if pinval \<noteq> 0 then s\<lparr>key_val := ucast (0x80 OR pd_key_val pindesc)\<rparr>
                   else s\<lparr>key_val := ucast (pd_key_val pindesc)\<rparr>);
              s = s\<lparr>ev_press := True\<rparr>
          in s\<lparr>sigio := sigio s + 1\<rparr>)"

text \<open>The set-up leaves the timer pending with expiry 0; at \<open>exit\<close> the driver does not stop it.\<close>

definition seventh_drv_init :: "nat \<Rightarrow> buttons" where
  "seventh_drv_init now =
     \<lparr>key_val = 0, ev_press = False, irq_pd = None, buttons_timer = Some 0, button_lock = 1, irqs = False,
      sigio = 0, jiffies = now\<rparr>"

subsection \<open>The driver among interrupts and processes\<close>

text \<open>The second component counts the processes that have the device open.\<close>

inductive button_step :: "nat \<Rightarrow> buttons \<times> nat \<Rightarrow> buttons \<times> nat \<Rightarrow> bool" for HZ where
  edge: "irqs s \<Longrightarrow> pd \<in> set pins_desc \<Longrightarrow> button_step HZ (s, n) (buttons_irq HZ pd s, n)"
| tick: "button_step HZ (s, n) (s\<lparr>jiffies := jiffies s + 1\<rparr>, n)"
| fire: "buttons_timer s = Some t \<Longrightarrow> t \<le> jiffies s \<Longrightarrow>
    button_step HZ (s, n) (buttons_timer_function getpin (s\<lparr>buttons_timer := None\<rparr>), n)"
| opened: "seventh_drv_open nonblock s = Some (0, s') \<Longrightarrow> button_step HZ (s, n) (s', n + 1)"
| refused: "seventh_drv_open nonblock s = Some (r, s') \<Longrightarrow> r \<noteq> 0 \<Longrightarrow> button_step HZ (s, n) (s', n)"
| read: "0 < n \<Longrightarrow> seventh_drv_read nonblock signal count s = Some (r, key, s') \<Longrightarrow> button_step HZ (s, n) (s', n)"
| close: "0 < n \<Longrightarrow> seventh_drv_close s = (0, s') \<Longrightarrow> button_step HZ (s, n) (s', n - 1)"

inductive button_reach :: "nat \<Rightarrow> buttons \<times> nat \<Rightarrow> bool" for HZ where
  start: "button_reach HZ (seventh_drv_init now, 0)"
| step: "button_reach HZ sn \<Longrightarrow> button_step HZ sn sn' \<Longrightarrow> button_reach HZ sn'"

inductive_cases button_stepE: "button_step HZ (s, n) sn'"

definition key_codes :: "u8 set" where
  "key_codes = {1, 2, 3, 4, 0x81, 0x82, 0x83, 0x84}"

text \<open>The lock and the count of openers add up to one, handlers are installed just while the device is open,
  and a published key is the code of a button.\<close>

definition buttons_ok :: "buttons \<times> nat \<Rightarrow> bool" where
  "buttons_ok sn \<longleftrightarrow>
     (let (s, n) = sn
      in n + button_lock s = 1 \<and> irqs s = (n = 1) \<and> (ev_press s \<longrightarrow> key_val s \<in> key_codes) \<and>
         (\<forall>pd. irq_pd s = Some pd \<longrightarrow> pd \<in> set pins_desc))"

lemma timer_function_key:
  "pd \<in> set pins_desc \<Longrightarrow> irq_pd s = Some pd \<Longrightarrow> key_val (buttons_timer_function getpin s) \<in> key_codes"
  by (auto simp: pins_desc_def buttons_timer_function_def key_codes_def)

lemma timer_function_keeps:
  "button_lock (buttons_timer_function getpin s) = button_lock s"
  "irqs (buttons_timer_function getpin s) = irqs s"
  "irq_pd (buttons_timer_function getpin s) = irq_pd s"
  by (auto simp: buttons_timer_function_def Let_def split: option.splits)

lemma buttons_ok_step: "buttons_ok sn \<Longrightarrow> button_step HZ sn sn' \<Longrightarrow> buttons_ok sn'"
proof (cases sn)
  case (Pair s n)
  assume ok: "buttons_ok sn" and "button_step HZ sn sn'"
  then have "button_step HZ (s, n) sn'" by (simp add: Pair)
  then show ?thesis
  proof cases
    case (fire t getpin)
    let ?s = "s\<lparr>buttons_timer := None\<rparr>"
    have "key_val (buttons_timer_function getpin ?s) \<in> key_codes"
      if "ev_press (buttons_timer_function getpin ?s)"
      using that ok Pair timer_function_key [of _ ?s getpin]
      by (cases "irq_pd s") (auto simp: buttons_ok_def buttons_timer_function_def)
    with fire ok Pair show ?thesis by (auto simp: buttons_ok_def timer_function_keeps)
  qed (use ok Pair in \<open>auto simp: buttons_ok_def buttons_irq_def seventh_drv_open_def request_irqs_def
      seventh_drv_read_def seventh_drv_close_def split: if_splits\<close>)
qed

lemma button_reach_ok: "button_reach HZ sn \<Longrightarrow> buttons_ok sn"
proof (induction rule: button_reach.induct)
  case (start now)
  show ?case by (simp add: buttons_ok_def seventh_drv_init_def)
qed (rule buttons_ok_step)


text \<open>In every reachable state at most one process has the device open, the handlers are installed just
  while it has, a second opener is refused or put to sleep, and a published key is a button's code.\<close>

theorem buttons_exclusive:
  assumes "button_reach HZ (s, n)"
  shows "n \<le> 1 \<and> button_lock s = 1 - n \<and> (irqs s \<longleftrightarrow> n = 1) \<and>
    seventh_drv_open True s = Some (if n = 0 then (0, s\<lparr>button_lock := 0, irqs := True\<rparr>) else (- EBUSY, s)) \<and>
    seventh_drv_open False s = (if n = 0 then Some (0, s\<lparr>button_lock := 0, irqs := True\<rparr>) else None) \<and>
    (if ev_press s then key_val s \<in> key_codes else True)"
  using button_reach_ok [OF assms] by (auto simp: buttons_ok_def seventh_drv_open_def request_irqs_def)

definition buttons_held :: buttons where
  "buttons_held = (seventh_drv_init 100)\<lparr>button_lock := 0, irqs := True\<rparr>"

lemma buttons_held_reached: "button_reach HZ (buttons_held, 1)"
proof -
  have "button_step HZ (seventh_drv_init 100, 0) (buttons_held, 0 + 1)"
    by (rule button_step.opened [where nonblock = True])
      (simp add: seventh_drv_open_def request_irqs_def seventh_drv_init_def buttons_held_def)
  from button_reach.step [OF button_reach.start this] show ?thesis by simp
qed

lemma buttons_exclusive_witness:
  "(1 :: nat) \<le> 1 \<and> button_lock buttons_held = 1 - 1 \<and> (irqs buttons_held \<longleftrightarrow> (1 :: nat) = 1) \<and>
    seventh_drv_open True buttons_held = Some (if (1 :: nat) = 0
      then (0, buttons_held\<lparr>button_lock := 0, irqs := True\<rparr>) else (- EBUSY, buttons_held)) \<and>
    seventh_drv_open False buttons_held = (if (1 :: nat) = 0
      then Some (0, buttons_held\<lparr>button_lock := 0, irqs := True\<rparr>) else None) \<and>
    (if ev_press buttons_held then key_val buttons_held \<in> key_codes else True)"
  by (rule buttons_exclusive [OF buttons_held_reached])

subsection \<open>Debouncing\<close>

text \<open>A bouncing contact: edges of one button, each some ticks after the one before; \<open>None\<close> is a burst in
  which the timer becomes due.\<close>

definition timer_due :: "buttons \<Rightarrow> bool" where
  "timer_due s \<longleftrightarrow> (case buttons_timer s of None \<Rightarrow> False | Some t \<Rightarrow> t \<le> jiffies s)"

definition later :: "nat \<Rightarrow> buttons \<Rightarrow> buttons" where
  "later d s = s\<lparr>jiffies := jiffies s + d\<rparr>"

fun burst :: "nat \<Rightarrow> pin_desc \<Rightarrow> nat list \<Rightarrow> buttons \<Rightarrow> buttons option" where
  "burst HZ pd [] s = Some s"
| "burst HZ pd (d # ds) s =
     (if timer_due (later d s) then None else burst HZ pd ds (buttons_irq HZ pd (later d s)))"

lemma burst_quiet:
  assumes "irq_pd s = Some pd" and "buttons_timer s = Some (jiffies s + HZ div 100)"
    and "\<forall>d \<in> set ds. d < HZ div 100"
  shows "\<exists>s'. burst HZ pd ds s = Some s' \<and> irq_pd s' = Some pd \<and>
    buttons_timer s' = Some (jiffies s' + HZ div 100) \<and> ev_press s' = ev_press s \<and> sigio s' = sigio s"
  using assms
proof (induction ds arbitrary: s)
  case Nil
  then show ?case by simp
next
  case (Cons d ds)
  have "\<not> timer_due (later d s)"
    using Cons.prems(2,3) by (simp add: timer_due_def later_def)
  moreover have "\<exists>s'. burst HZ pd ds (buttons_irq HZ pd (later d s)) = Some s' \<and> irq_pd s' = Some pd \<and>
      buttons_timer s' = Some (jiffies s' + HZ div 100) \<and>
      ev_press s' = ev_press (buttons_irq HZ pd (later d s)) \<and> sigio s' = sigio (buttons_irq HZ pd (later d s))"
    using Cons.prems(3) by (intro Cons.IH) (simp_all add: buttons_irq_def)
  ultimately show ?case by (simp add: buttons_irq_def later_def)
qed

text \<open>C25: an edge of a button and any bouncing after it with gaps below 10 ms publish nothing until 10 ms
  after the last edge; then the timer is due, one event is published and signalled, and a read returns the
  button's code, with the top bit for a released button.\<close>

theorem buttons_debounced:
  assumes "\<forall>d \<in> set ds. d < HZ div 100"
  shows "\<exists>s1. burst HZ pd ds (buttons_irq HZ pd s) = Some s1 \<and> ev_press s1 = ev_press s \<and> sigio s1 = sigio s \<and>
    (\<forall>k < HZ div 100. \<not> timer_due (later k s1)) \<and> timer_due (later (HZ div 100) s1) \<and>
    (\<exists>s2. s2 = buttons_timer_function getpin ((later (HZ div 100) s1)\<lparr>buttons_timer := None\<rparr>) \<and>
      sigio s2 = sigio s + 1 \<and> seventh_drv_poll s2 = POLLIN OR POLLRDNORM \<and>
      seventh_drv_read nonblock signal 1 s2 =
        Some (1, Some (if getpin (pd_pin pd) \<noteq> 0 then ucast (0x80 OR pd_key_val pd) else ucast (pd_key_val pd)),
              s2\<lparr>ev_press := False\<rparr>))"
proof -
  let ?s = "buttons_irq HZ pd s"
  have "\<exists>s1. burst HZ pd ds ?s = Some s1 \<and> irq_pd s1 = Some pd \<and>
      buttons_timer s1 = Some (jiffies s1 + HZ div 100) \<and> ev_press s1 = ev_press ?s \<and> sigio s1 = sigio ?s"
    using assms by (intro burst_quiet) (simp_all add: buttons_irq_def)
  then obtain s1 where 1: "burst HZ pd ds ?s = Some s1" "irq_pd s1 = Some pd"
    "buttons_timer s1 = Some (jiffies s1 + HZ div 100)" "ev_press s1 = ev_press s" "sigio s1 = sigio s"
    by (auto simp: buttons_irq_def)
  then show ?thesis
    by (simp add: timer_due_def later_def buttons_timer_function_def seventh_drv_poll_def seventh_drv_read_def Let_def)
qed

lemma buttons_debounced_witness:
  "\<exists>s1. burst 200 (pins_desc ! 2) [1, 0, 1] (buttons_irq 200 (pins_desc ! 2) buttons_held) = Some s1 \<and>
    ev_press s1 = ev_press buttons_held \<and> sigio s1 = sigio buttons_held \<and>
    (\<forall>k < 200 div 100. \<not> timer_due (later k s1)) \<and> timer_due (later (200 div 100) s1) \<and>
    (\<exists>s2. s2 = buttons_timer_function (\<lambda>p. 0) ((later (200 div 100) s1)\<lparr>buttons_timer := None\<rparr>) \<and>
      sigio s2 = sigio buttons_held + 1 \<and> seventh_drv_poll s2 = POLLIN OR POLLRDNORM \<and>
      seventh_drv_read False False 1 s2 =
        Some (1, Some (if (\<lambda>p. 0 :: u32) (pd_pin (pins_desc ! 2)) \<noteq> 0
                       then ucast (0x80 OR pd_key_val (pins_desc ! 2)) else ucast (pd_key_val (pins_desc ! 2))),
              s2\<lparr>ev_press := False\<rparr>))"
  by (rule buttons_debounced) simp

text \<open>Edges of two buttons within 10 ms share the one timer and the one pointer: the first is lost.\<close>

lemma two_buttons_lose_one:
  assumes "s1 = buttons_irq HZ pd' (later d (buttons_irq HZ pd s))" and "d < HZ div 100"
  shows "buttons_timer s1 = Some (jiffies s1 + HZ div 100) \<and> \<not> timer_due (later d (buttons_irq HZ pd s)) \<and>
    key_val (buttons_timer_function getpin (s1\<lparr>buttons_timer := None\<rparr>)) \<in>
      {ucast (0x80 OR pd_key_val pd'), ucast (pd_key_val pd')}"
  using assms by (auto simp: buttons_irq_def later_def timer_due_def buttons_timer_function_def Let_def)

text \<open>A signal ends a blocking read with the last key and result 1, as if a button had been used.\<close>

lemma read_signal_stale:
  "\<not> ev_press s \<Longrightarrow> seventh_drv_read False True 1 s = Some (1, Some (key_val s), s)"
  by (simp add: seventh_drv_read_def)

end
