(* ===== verification/Tsdrv.thy ===== *)
theory Tsdrv
  imports Kernel Soc
begin









abbreviation ERR_LIMIT :: int where "ERR_LIMIT \<equiv> 10"

text \<open>The filter of one axis, for the third sample against the first two and the fourth against the second
  and third.\<close>

definition det :: "int \<Rightarrow> int \<Rightarrow> int \<Rightarrow> int" where
  "det a b c = (let avr = (a + b) sdiv 2 in if c > avr then c - avr else avr - c)"

definition s3c_filter_ts :: "int list \<Rightarrow> int list \<Rightarrow> bool" where
  "s3c_filter_ts x y =
     (let det_x = det (x ! 0) (x ! 1) (x ! 2); det_y = det (y ! 0) (y ! 1) (y ! 2)
      in if det_x > ERR_LIMIT \<or> det_y > ERR_LIMIT then False
         else
           let det_x = det (x ! 1) (x ! 2) (x ! 3); det_y = det (y ! 1) (y ! 2) (y ! 3)
           in \<not> (det_x > ERR_LIMIT \<or> det_y > ERR_LIMIT))"






subsection \<open>The filter\<close>

lemma det_abs: "0 \<le> a \<Longrightarrow> 0 \<le> b \<Longrightarrow> det a b c = \<bar>c - (a + b) div 2\<bar>"
  by (simp add: det_def sdiv_nonneg Let_def)

text \<open>For samples that are not negative, the filter accepts when the third and the fourth of each axis lie
  within 10 of the average of the two before.\<close>

lemma filter_accepts:
  assumes "\<forall>v \<in> set x \<union> set y. 0 \<le> v" and "length x = 4" and "length y = 4"
  shows "s3c_filter_ts x y \<longleftrightarrow>
    (\<forall>z \<in> {x, y}. \<bar>z ! 2 - (z ! 0 + z ! 1) div 2\<bar> \<le> 10 \<and> \<bar>z ! 3 - (z ! 1 + z ! 2) div 2\<bar> \<le> 10)"
proof -
  have "0 \<le> x ! i \<and> 0 \<le> y ! i" if "i < 4" for i
    using assms that by auto
  then have "det (x ! 0) (x ! 1) (x ! 2) = \<bar>x ! 2 - (x ! 0 + x ! 1) div 2\<bar>"
    "det (y ! 0) (y ! 1) (y ! 2) = \<bar>y ! 2 - (y ! 0 + y ! 1) div 2\<bar>"
    "det (x ! 1) (x ! 2) (x ! 3) = \<bar>x ! 3 - (x ! 1 + x ! 2) div 2\<bar>"
    "det (y ! 1) (y ! 2) (y ! 3) = \<bar>y ! 3 - (y ! 1 + y ! 2) div 2\<bar>"
    by (simp_all only: det_abs)
  then show ?thesis
    unfolding s3c_filter_ts_def Let_def
    by (simp only: not_less de_Morgan_disj if_bool_eq_conj ball_simps simp_thms) argo
qed

subsection \<open>The driver among interrupts\<close>

















end
