(* ===== verification/Leds.thy ===== *)
theory Leds
  imports Kernel Soc
begin

text \<open>
  The Linux LED driver, \<^verbatim>\<open>myleds.c\<close> below \<^verbatim>\<open>linux_driver/code/char_driver\<close>: one device for all three LEDs (minor
  number 0) and one for each (1 to 3).  The driver keeps the state of the LEDs in a byte that its
  semaphore guards; every section between \<^verbatim>\<open>down\<close> and \<^verbatim>\<open>up\<close> is one assignment and is one step here.

  The kernel's \<^verbatim>\<open>s3c2410_gpio_cfgpin\<close> and \<^verbatim>\<open>s3c2410_gpio_setpin\<close> are arguments (\<open>cfgpin\<close>, \<open>setpin\<close>): they
  take a pin of port F and what to set it to, and extend the history.  The registers that the driver
  addresses itself are mapped at a virtual address; here they have their physical one.
\<close>

definition leds_open_all :: "bus \<Rightarrow> hist \<Rightarrow> hist" where
  "leds_open_all b h =
     (let h = upd32 b GPFCON (bits_clear (push_bit 8 3)) h;
          h = upd32 b GPFCON (bits_or (push_bit 8 1)) h;
          h = upd32 b GPFCON (bits_clear (push_bit 10 3)) h;
          h = upd32 b GPFCON (bits_or (push_bit 10 1)) h;
          h = upd32 b GPFCON (bits_clear (push_bit 12 3)) h;
          h = upd32 b GPFCON (bits_or (push_bit 12 1)) h;
          h = upd32 b GPFDAT (bits_clear (bitm 4)) h;
          h = upd32 b GPFDAT (bits_clear (bitm 5)) h
      in upd32 b GPFDAT (bits_clear (bitm 6)) h)"

text \<open>The functions of the kernel that the driver calls.\<close>

record gpio =
  cfgpin :: "nat \<Rightarrow> hist \<Rightarrow> hist"
  setpin :: "nat \<Rightarrow> u32 \<Rightarrow> hist \<Rightarrow> hist"

definition s3c24xx_leds_open :: "bus \<Rightarrow> gpio \<Rightarrow> nat \<Rightarrow> u8 \<times> hist \<Rightarrow> int \<times> u8 \<times> hist" where
  "s3c24xx_leds_open b k minor sh =
     (let (leds_status, h) = sh in
      if minor = 0 then (0, 0x0, leds_open_all b h)
      else if minor = 1 then (0, leds_status AND NOT (push_bit 0 1), setpin k 4 0 (cfgpin k 4 h))
      else if minor = 2 then (0, leds_status AND NOT (push_bit 1 1), setpin k 5 0 (cfgpin k 5 h))
      else if minor = 3 then (0, leds_status AND NOT (push_bit 2 1), setpin k 6 0 (cfgpin k 6 h))
      else (0, leds_status, h))"

text \<open>What a read copies to the user's buffer; for other minor numbers nothing.\<close>

definition s3c24xx_leds_read :: "nat \<Rightarrow> u8 \<Rightarrow> int \<times> u8 option" where
  "s3c24xx_leds_read minor leds_status =
     (if minor = 0 then (1, Some leds_status)
      else if minor = 1 then (1, Some (leds_status AND 0x1))
      else if minor = 2 then (1, Some (drop_bit 1 leds_status AND 0x1))
      else if minor = 3 then (1, Some (drop_bit 2 leds_status AND 0x1))
      else (1, None))"

definition leds_write_one :: "gpio \<Rightarrow> nat \<Rightarrow> nat \<Rightarrow> u8 \<Rightarrow> u8 \<times> hist \<Rightarrow> u8 \<times> hist" where
  "leds_write_one k pin n val sh =
     (let (leds_status, h) = sh;
          h = setpin k pin (ucast val) h
      in if val = 0 then (leds_status AND NOT (push_bit n 1), h) else (leds_status OR push_bit n 1, h))"

definition s3c24xx_leds_write :: "gpio \<Rightarrow> nat \<Rightarrow> u8 \<Rightarrow> u8 \<times> hist \<Rightarrow> int \<times> u8 \<times> hist" where
  "s3c24xx_leds_write k minor val sh =
     (if minor = 0 then
        (let (leds_status, h) = sh;
             h = setpin k 4 (ucast (val AND 0x1)) h;
             h = setpin k 5 (ucast (val AND 0x1)) h;
             h = setpin k 6 (ucast (val AND 0x1)) h
         in (1, val, h))
      else if minor = 1 then (1, leds_write_one k 4 0 val sh)
      else if minor = 2 then (1, leds_write_one k 5 1 val sh)
      else if minor = 3 then (1, leds_write_one k 6 2 val sh)
      else (1, sh))"

text \<open>The set-up: it fails when the registers cannot be mapped, when the major number is taken, and when a
  class or a device node cannot be made; what the kernel's functions answer is the argument.\<close>

record leds_kernel =
  ioremap_ok :: bool
  register_chrdev :: int
  class_err :: "int option"
  device_err :: "nat \<Rightarrow> int option"

fun leds_nodes :: "leds_kernel \<Rightarrow> nat list \<Rightarrow> int" where
  "leds_nodes k [] = 0"
| "leds_nodes k (minor # ms) = (case device_err k minor of Some e \<Rightarrow> e | None \<Rightarrow> leds_nodes k ms)"


definition s3c24xx_leds_init :: "leds_kernel \<Rightarrow> int" where
  "s3c24xx_leds_init k =
     (if \<not> ioremap_ok k then - EIO
      else
        let ret = register_chrdev k
        in if ret < 0 then ret
           else (case class_err k of Some e \<Rightarrow> e | None \<Rightarrow> leds_nodes k [1..<4]))"

subsection \<open>The byte and the pins\<close>

text \<open>Setting a pin to 0 or 1 sets it and no other, and configuring one sets none; \<open>level\<close> is the level of
  a pin of port F after a history.\<close>

definition gpio_ok :: "gpio \<Rightarrow> (hist \<Rightarrow> nat \<Rightarrow> bool) \<Rightarrow> bool" where
  "gpio_ok k level \<longleftrightarrow>
     (\<forall>h p v q. p < 8 \<and> v \<in> {0, 1} \<longrightarrow> level (setpin k p v h) q = (if q = p then v = 1 else level h q)) \<and>
     (\<forall>h p q. level (cfgpin k p h) q = level h q)"

text \<open>The driver's own stores to the data register set the pins of the port, the data register reads the
  levels, and stores to the configuration register change none.\<close>

definition port_follows :: "bus \<Rightarrow> (hist \<Rightarrow> nat \<Rightarrow> bool) \<Rightarrow> bool" where
  "port_follows b level \<longleftrightarrow>
     (\<forall>h q. bit (b h GPFDAT) q = level h q) \<and>
     (\<forall>h v w q. level (h @ [Rd32 GPFDAT v, Wr32 GPFDAT w]) q = bit w q) \<and>
     (\<forall>h v w q. level (h @ [Rd32 GPFCON v, Wr32 GPFCON w]) q = level h q)"

definition leds_agree :: "(hist \<Rightarrow> nat \<Rightarrow> bool) \<Rightarrow> u8 \<times> hist \<Rightarrow> bool" where
  "leds_agree level sh \<longleftrightarrow> (\<forall>n < 3. bit (fst sh) n = level (snd sh) (4 + n))"

text \<open>What processes do with the three single devices.\<close>

datatype led_op = Led_open nat | Led_write nat u8

fun led_op_ok :: "led_op \<Rightarrow> bool" where
  "led_op_ok (Led_open m) = (m \<in> {1, 2, 3})"
| "led_op_ok (Led_write m v) = (m \<in> {1, 2, 3} \<and> v \<in> {0, 1})"

fun led_do :: "bus \<Rightarrow> gpio \<Rightarrow> led_op \<Rightarrow> u8 \<times> hist \<Rightarrow> u8 \<times> hist" where
  "led_do b k (Led_open m) sh = snd (s3c24xx_leds_open b k m sh)"
| "led_do b k (Led_write m v) sh = snd (s3c24xx_leds_write k m v sh)"

lemma gpio_level:
  assumes "gpio_ok k level"
  shows "p < 8 \<Longrightarrow> level (setpin k p 0 h) q = (q \<noteq> p \<and> level h q)"
    and "p < 8 \<Longrightarrow> level (setpin k p 1 h) q = (q = p \<or> level h q)"
    and "level (cfgpin k p h) q = level h q"
  using assms unfolding gpio_ok_def by auto

lemma bit_set_one: "bit ((s :: u8) OR push_bit m 1) n = (bit s n \<or> (n = m \<and> n < 8))"
  by (auto simp: bit_simps)

lemma bit_clear_one: "bit ((s :: u8) AND NOT (push_bit m 1)) n = (bit s n \<and> n \<noteq> m)"
  by (auto simp: bit_simps dest: bit_imp_le_length)

lemma leds_write_one_agree:
  assumes "gpio_ok k level" and "leds_agree level sh" and "v \<in> {0, 1}" and "m < 3"
  shows "leds_agree level (leds_write_one k (4 + m) m v sh)"
proof (cases sh)
  case (Pair s h)
  have m: "4 + m < 8" using assms(4) by simp
  from assms(3) consider "v = 0" | "v = 1" by auto
  then show ?thesis
  proof cases
    case 1
    with assms(2) Pair show ?thesis
      by (auto simp add: leds_agree_def leds_write_one_def gpio_level(1,2) [OF assms(1) m] bit_clear_one
          simp del: push_bit_of_1)
  next
    case 2
    with assms(2,4) Pair show ?thesis
      by (auto simp add: leds_agree_def leds_write_one_def gpio_level(1,2) [OF assms(1) m] bit_set_one
          simp del: push_bit_of_1)
  qed
qed

lemma led_do_agree:
  assumes "gpio_ok k level" and "leds_agree level sh" and "led_op_ok p"
  shows "leds_agree level (led_do b k p sh)"
proof (cases p)
  case (Led_open m)
  obtain s h where sh: "sh = (s, h)" by (cases sh)
  have "leds_agree level (s AND NOT (push_bit n 1), setpin k (4 + n) 0 (cfgpin k (4 + n) h))" if "n < 3" for n
  proof -
    have "4 + n < 8" using that by simp
    with assms(2) show ?thesis
      by (auto simp: sh leds_agree_def gpio_level [OF assms(1)] bit_clear_one simp del: push_bit_of_1)
  qed
  from this [of 0] this [of 1] this [of 2] Led_open assms(3) show ?thesis
    by (auto simp: s3c24xx_leds_open_def sh)
next
  case (Led_write m v)
  with assms leds_write_one_agree [OF assms(1,2), of v 0] leds_write_one_agree [OF assms(1,2), of v 1]
    leds_write_one_agree [OF assms(1,2), of v 2] show ?thesis
    by (auto simp: s3c24xx_leds_write_def)
qed

lemma bit_upd_port:
  assumes "port_follows b level"
  shows "level (upd32 b GPFDAT f h) q = bit (f (b h GPFDAT)) q"
    and "level (upd32 b GPFCON f h) q = level h q" and "bit (b h GPFDAT) q = level h q"
  using assms by (simp_all add: port_follows_def upd32_eq)

lemma leds_open_all_low:
  assumes "port_follows b level" and "q \<in> {4, 5, 6}"
  shows "\<not> level (leds_open_all b h) q"
  using assms(2) unfolding leds_open_all_def Let_def
  by (auto simp only: bit_upd_port [OF assms(1)] bit_and_iff bit_not_iff bit_push_bit_iff bit_1_iff)

text \<open>After the device of all LEDs has been opened, whatever processes open, switch and query through the
  devices of the single LEDs, the driver's byte agrees with the pins, and a read returns the level of the
  LED's pin.\<close>

theorem leds_state_follows:
  assumes "gpio_ok k level" and "port_follows b level" and "\<forall>p \<in> set ops. led_op_ok p"
    and "m \<in> {1, 2, 3}"
  shows "\<exists>s h. fold (led_do b k) ops (snd (s3c24xx_leds_open b k 0 (s0, h0))) = (s, h) \<and>
    leds_agree level (s, h) \<and> s3c24xx_leds_read m s = (1, Some (if level h (3 + m) then 1 else 0))"
proof -
  have "leds_agree level (snd (s3c24xx_leds_open b k 0 (s0, h0)))"
    using leds_open_all_low [OF assms(2), of _ h0]
    by (auto simp: leds_agree_def s3c24xx_leds_open_def less_Suc_eq numeral_3_eq_3)
  then have agree: "leds_agree level (fold (led_do b k) ops sh)"
    if "sh = snd (s3c24xx_leds_open b k 0 (s0, h0))" for sh
    using assms(3) led_do_agree [OF assms(1)] that
    by (intro fold_invariant [where P = "leds_agree level" and Q = led_op_ok]) auto
  obtain s h where sh: "fold (led_do b k) ops (snd (s3c24xx_leds_open b k 0 (s0, h0))) = (s, h)"
    by (cases "fold (led_do b k) ops (snd (s3c24xx_leds_open b k 0 (s0, h0)))")
  with agree [OF refl] have a: "leds_agree level (s, h)" by simp
  have "drop_bit n s AND 1 = (if bit s n then 1 else 0)" for n
    by (simp add: and_one_eq even_drop_bit_iff_not_bit mod_2_eq_odd)
  from this [of 0] this [of 1] this [of 2] a assms(4)
  have "s3c24xx_leds_read m s = (1, Some (if level h (3 + m) then 1 else 0))"
    by (auto simp: s3c24xx_leds_read_def leds_agree_def)
  with sh a show ?thesis by blast
qed

definition port_bus :: bus where
  "port_bus = ram_bus (\<lambda>a. 0)"

definition port_level :: "hist \<Rightarrow> nat \<Rightarrow> bool" where
  "port_level h q = bit (port_bus h GPFDAT) q"

definition port_gpio :: gpio where
  "port_gpio = \<lparr>cfgpin = (\<lambda>p h. h),
     setpin = (\<lambda>p v. upd32 port_bus GPFDAT (if v = 1 then bits_or (bitm p) else bits_clear (bitm p)))\<rparr>"

lemma port_gpio_ok: "gpio_ok port_gpio port_level"
  by (auto simp: gpio_ok_def port_gpio_def port_level_def port_bus_def ram_bus_def upd32_eq latest32_append
      bit_simps dest: bit_imp_le_length)

lemma port_bus_follows: "port_follows port_bus port_level"
  by (simp add: port_follows_def port_level_def port_bus_def ram_bus_def latest32_append)

lemma leds_state_follows_witness:
  "\<exists>s h. fold (led_do port_bus port_gpio) [Led_write 2 1, Led_open 1, Led_write 3 0]
      (snd (s3c24xx_leds_open port_bus port_gpio 0 (0xFF, []))) = (s, h) \<and>
    leds_agree port_level (s, h) \<and> s3c24xx_leds_read 2 s = (1, Some (if port_level h (3 + 2) then 1 else 0))"
  by (rule leds_state_follows [OF port_gpio_ok port_bus_follows]) simp_all

text \<open>The device of all LEDs sets every pin to the lowest bit of the byte written but keeps the whole byte:
  after writing 1 all pins are high, and the devices of the second and third LED read 0.\<close>

lemma leds_write_all_disagrees:
  assumes "gpio_ok k level" and "s3c24xx_leds_write k 0 1 (s, h) = (r, s', h')"
  shows "level h' 5 \<and> s3c24xx_leds_read 2 s' = (1, Some 0)"
  using assms by (auto simp: s3c24xx_leds_write_def s3c24xx_leds_read_def gpio_ok_def Let_def)

end
