(* ===== verification/Dlink.thy ===== *)
theory Dlink
  imports Prelude
begin

text \<open>
  The list macros \<^verbatim>\<open>LL_ADD\<close> and \<^verbatim>\<open>LL_REMOVE\<close> of
  \<^verbatim>\<open>linuxSystemProgrome/code/thread_pool/threadpool.c\<close>.  They work on the members \<^verbatim>\<open>prev\<close> and \<^verbatim>\<open>next\<close> of
  jobs and of workers alike, so the model has one store of links: it maps the address of every object
  that is allocated to its two pointers.  A pointer is an address or \<open>None\<close> for \<^verbatim>\<open>NULL\<close>; an access to an
  object that is not allocated is \<open>None\<close>.

  The macros implement insertion at the head and removal on the list of addresses that \<open>dlist\<close> reads off
  the store, and leave all other objects alone.
\<close>

type_synonym addr = nat

record node =
  prev_of :: "addr option"
  next_of :: "addr option"

type_synonym links = "addr \<Rightarrow> node option"

definition set_prev :: "addr \<Rightarrow> addr option \<Rightarrow> links \<Rightarrow> links option" where
  "set_prev p v s = do { n \<leftarrow> s p; Some (s(p \<mapsto> n\<lparr>prev_of := v\<rparr>)) }"

definition set_next :: "addr \<Rightarrow> addr option \<Rightarrow> links \<Rightarrow> links option" where
  "set_next p v s = do { n \<leftarrow> s p; Some (s(p \<mapsto> n\<lparr>next_of := v\<rparr>)) }"

definition ll_add :: "addr \<Rightarrow> links \<times> addr option \<Rightarrow> (links \<times> addr option) option" where
  "ll_add item sl =
     (let (s, list) = sl in do {
        s \<leftarrow> set_prev item None s;
        s \<leftarrow> set_next item list s;
        s \<leftarrow> (case list of None \<Rightarrow> Some s | Some l \<Rightarrow> set_prev l (Some item) s);
        Some (s, Some item)
      })"

definition ll_remove :: "addr \<Rightarrow> links \<times> addr option \<Rightarrow> (links \<times> addr option) option" where
  "ll_remove item sl =
     (let (s, list) = sl in do {
        n \<leftarrow> s item;
        s \<leftarrow> (case prev_of n of None \<Rightarrow> Some s | Some p \<Rightarrow> set_next p (next_of n) s);
        n \<leftarrow> s item;
        s \<leftarrow> (case next_of n of None \<Rightarrow> Some s | Some q \<Rightarrow> set_prev q (prev_of n) s);
        n \<leftarrow> s item;
        let list = (if list = Some item then next_of n else list);
        s \<leftarrow> set_next item None s;
        s \<leftarrow> set_prev item None s;
        Some (s, list)
      })"

subsection \<open>The list in the store\<close>

text \<open>From the pointer \<open>p\<close> on, the nodes are \<open>xs\<close>, the first of them has \<open>pr\<close> as its predecessor, and the
  successor of the last is \<open>q\<close>.\<close>

fun dseg :: "links \<Rightarrow> addr option \<Rightarrow> addr option \<Rightarrow> addr list \<Rightarrow> addr option \<Rightarrow> bool" where
  "dseg s pr p [] q \<longleftrightarrow> p = q"
| "dseg s pr p (x # xs) q \<longleftrightarrow>
     p = Some x \<and> (case s x of None \<Rightarrow> False | Some n \<Rightarrow> prev_of n = pr \<and> dseg s (Some x) (next_of n) xs q)"

definition dlist :: "links \<Rightarrow> addr option \<Rightarrow> addr list \<Rightarrow> bool" where
  "dlist s p xs \<longleftrightarrow> dseg s None p xs None"

fun final_of :: "addr option \<Rightarrow> addr list \<Rightarrow> addr option" where
  "final_of pr [] = pr"
| "final_of pr (x # xs) = final_of (Some x) xs"

lemma dseg_cong: "(\<And>x. x \<in> set xs \<Longrightarrow> s x = s' x) \<Longrightarrow> dseg s pr p xs q = dseg s' pr p xs q"
  by (induction xs arbitrary: pr p) (auto split: option.splits)

lemma dlist_cong: "(\<And>x. x \<in> set xs \<Longrightarrow> s x = s' x) \<Longrightarrow> dlist s p xs = dlist s' p xs"
  unfolding dlist_def by (rule dseg_cong)

lemma dseg_upd [simp]: "a \<notin> set xs \<Longrightarrow> dseg (s(a := v)) pr p xs q = dseg s pr p xs q"
  by (rule dseg_cong) auto

lemma dseg_append:
  "dseg s pr p (xs @ ys) q \<longleftrightarrow> (\<exists>m. dseg s pr p xs m \<and> dseg s (final_of pr xs) m ys q)"
  by (induction xs arbitrary: pr p) (auto split: option.splits)

lemma dseg_unique: "dseg s pr p xs None \<Longrightarrow> dseg s pr' p ys None \<Longrightarrow> xs = ys"
proof (induction xs arbitrary: pr pr' p ys)
  case Nil
  then show ?case by (cases ys) auto
next
  case (Cons x xs)
  then show ?case by (cases ys) (auto split: option.splits)
qed

lemma dlist_unique: "dlist s p xs \<Longrightarrow> dlist s p ys \<Longrightarrow> xs = ys"
  unfolding dlist_def by (rule dseg_unique)

lemma dseg_distinct: "dseg s pr p xs None \<Longrightarrow> distinct xs"
proof (induction xs arbitrary: pr p)
  case Nil
  show ?case by simp
next
  case (Cons x xs)
  then obtain n where n: "s x = Some n" and tl: "dseg s (Some x) (next_of n) xs None"
    by (auto split: option.splits)
  have "x \<notin> set xs"
  proof
    assume "x \<in> set xs"
    then obtain us vs where xs: "xs = us @ x # vs" by (auto simp: in_set_conv_decomp)
    with tl have "dseg s (final_of (Some x) us) (Some x) (x # vs) None" by (auto simp: dseg_append)
    moreover from Cons.prems have "dseg s pr (Some x) (x # xs) None" by simp
    ultimately have "x # vs = x # xs" by (rule dseg_unique)
    with xs show False by simp
  qed
  with Cons.IH [OF tl] show ?case by simp
qed

lemma dlist_distinct: "dlist s p xs \<Longrightarrow> distinct xs"
  unfolding dlist_def by (rule dseg_distinct)

lemma dlist_nil [simp]: "dlist s p [] \<longleftrightarrow> p = None" by (simp add: dlist_def)

lemma dlist_None [simp]: "dlist s None xs \<longleftrightarrow> xs = []" by (cases xs) (simp_all add: dlist_def)

lemma dlist_allocated: "dlist s p xs \<Longrightarrow> x \<in> set xs \<Longrightarrow> s x \<noteq> None"
  unfolding dlist_def
  by (auto simp: in_set_conv_decomp dseg_append split: option.splits)

text \<open>A segment changes only its first node when its predecessor changes.\<close>

definition reprev :: "addr option \<Rightarrow> addr option \<Rightarrow> links \<Rightarrow> links" where
  "reprev p v s = (case p of None \<Rightarrow> s | Some l \<Rightarrow> s(l := map_option (\<lambda>n. n\<lparr>prev_of := v\<rparr>) (s l)))"

lemma dseg_reprev:
  "dseg s pr p xs None \<Longrightarrow> dseg (reprev p v s) v p xs None"
proof (cases xs)
  case (Cons x ys)
  assume d: "dseg s pr p xs None"
  then have "x \<notin> set ys" using dseg_distinct [OF d] Cons by simp
  with d Cons show ?thesis by (auto simp: reprev_def split: option.splits)
qed (simp add: reprev_def split: option.split)

lemma reprev_set_prev:
  "dseg s pr p xs None \<Longrightarrow> (case p of None \<Rightarrow> Some s | Some l \<Rightarrow> set_prev l v s) = Some (reprev p v s)"
  by (cases xs) (auto simp: reprev_def set_prev_def split: option.splits)

lemma reprev_other: "x \<notin> set xs \<Longrightarrow> dseg s pr p xs None \<Longrightarrow> reprev p v s x = s x"
  by (cases xs) (auto simp: reprev_def)

lemma ll_add_dlist:
  assumes l: "dlist s list xs" and i: "item \<notin> set xs" "s item \<noteq> None"
  obtains s' where "ll_add item (s, list) = Some (s', Some item)" "dlist s' (Some item) (item # xs)"
    "\<And>x. x \<notin> set (item # xs) \<Longrightarrow> s' x = s x"
proof -
  obtain n where n: "s item = Some n" using i by auto
  let ?n = "n\<lparr>prev_of := None, next_of := list\<rparr>"
  let ?t = "s(item \<mapsto> ?n)"
  have t: "dseg ?t None list xs None" using l i by (simp add: dlist_def)
  have r: "reprev list (Some item) ?t item = Some ?n" using reprev_other [OF i(1) t] by simp
  show thesis
  proof (rule that)
    show "ll_add item (s, list) = Some (reprev list (Some item) ?t, Some item)"
      using n reprev_set_prev [OF t, of "Some item"]
      by (simp add: ll_add_def set_prev_def [of item] set_next_def [of item] cong: option.case_cong)
    show "dlist (reprev list (Some item) ?t) (Some item) (item # xs)"
      using r dseg_reprev [OF t, of "Some item"] by (simp add: dlist_def)
    show "reprev list (Some item) ?t x = s x" if "x \<notin> set (item # xs)" for x
      using that reprev_other [OF _ t] by simp
  qed
qed

definition renext :: "addr option \<Rightarrow> addr option \<Rightarrow> links \<Rightarrow> links" where
  "renext p v s = (case p of None \<Rightarrow> s | Some l \<Rightarrow> s(l := map_option (\<lambda>n. n\<lparr>next_of := v\<rparr>) (s l)))"

lemma final_of_in: "final_of pr xs = pr \<or> (\<exists>x \<in> set xs. final_of pr xs = Some x)"
  by (induction xs arbitrary: pr) fastforce+

lemma final_of_member: "xs \<noteq> [] \<Longrightarrow> \<exists>x \<in> set xs. final_of pr xs = Some x"
  by (induction xs arbitrary: pr) (use final_of_in in fastforce)+

lemma renext_other: "x \<notin> set xs \<Longrightarrow> renext (final_of None xs) v s x = s x"
  using final_of_in [of None xs] by (auto simp: renext_def split: option.split)

lemma dseg_renext:
  "dseg s pr p xs m \<Longrightarrow> distinct xs \<Longrightarrow> xs \<noteq> [] \<Longrightarrow> dseg (renext (final_of pr xs) q s) pr p xs q"
proof (induction xs arbitrary: pr p)
  case (Cons x xs)
  show ?case
  proof (cases "xs = []")
    case True
    then show ?thesis using Cons.prems by (auto simp: renext_def split: option.splits)
  next
    case False
    then obtain l where l: "final_of (Some x) xs = Some l" "l \<in> set xs" using final_of_member by metis
    with Cons.prems have same: "renext (final_of (Some x) xs) q s x = s x" by (auto simp: renext_def)
    from Cons.prems obtain n where n: "s x = Some n" "prev_of n = pr" "dseg s (Some x) (next_of n) xs m"
      by (auto split: option.splits)
    have "dseg (renext (final_of (Some x) xs) q s) (Some x) (next_of n) xs q"
      using Cons.IH [OF n(3)] Cons.prems False by simp
    with Cons.prems n same show ?thesis by simp
  qed
qed simp

lemma renext_set_next:
  assumes "dseg s None p xs m"
  shows "(case final_of None xs of None \<Rightarrow> Some s | Some l \<Rightarrow> set_next l v s) = Some (renext (final_of None xs) v s)"
proof (cases "final_of None xs")
  case (Some l)
  then have "l \<in> set xs" using final_of_in [of None xs] by auto
  with assms have "s l \<noteq> None" by (auto simp: in_set_conv_decomp dseg_append split: option.splits)
  with Some show ?thesis by (auto simp: renext_def set_next_def)
qed (simp add: renext_def)

lemma ll_remove_dlist:
  assumes l: "dlist s list (xs @ item # ys)"
  obtains s' list' where "ll_remove item (s, list) = Some (s', list')" "dlist s' list' (xs @ ys)"
    "s' item \<noteq> None" "\<And>x. x \<notin> set (xs @ item # ys) \<Longrightarrow> s' x = s x"
proof -
  obtain n where d: "dseg s None list xs (Some item)" "s item = Some n" "prev_of n = final_of None xs"
    "dseg s (Some item) (next_of n) ys None"
    using l by (auto simp: dlist_def dseg_append split: option.splits)
  have "distinct (xs @ item # ys)" by (rule dlist_distinct [OF l])
  then have dist: "distinct xs" "item \<notin> set xs" "item \<notin> set ys" "set xs \<inter> set ys = {}" by auto
  let ?s1 = "renext (final_of None xs) (next_of n) s"
  let ?s2 = "reprev (next_of n) (final_of None xs) ?s1"
  have s1_ys: "?s1 x = s x" if "x \<notin> set xs" for x using that by (rule renext_other)
  have d1: "dseg ?s1 (Some item) (next_of n) ys None"
    using d(4) dist(4) by (subst dseg_cong [of _ _ s]) (auto intro!: s1_ys)
  have s2_eq: "?s2 x = ?s1 x" if "x \<notin> set ys" for x using reprev_other [OF that d1] .
  have item: "?s1 item = Some n" "?s2 item = Some n" using d(2) dist s1_ys s2_eq by simp_all
  have ys: "dseg ?s2 (final_of None xs) (next_of n) ys None" by (rule dseg_reprev [OF d1])
  have xs: "dseg ?s2 None list xs (next_of n)" if "xs \<noteq> []"
  proof -
    have "dseg ?s1 None list xs (next_of n)" by (rule dseg_renext [OF d(1) dist(1) that])
    then show ?thesis using dist(4) by (subst dseg_cong [of _ _ ?s1]) (auto intro!: s2_eq)
  qed
  let ?list = "if list = Some item then next_of n else list"
  let ?s' = "?s2(item \<mapsto> n\<lparr>next_of := None, prev_of := None\<rparr>)"
  have hd: "list = Some item \<longleftrightarrow> xs = []" using d(1) dist(2) by (cases xs) auto
  show thesis
  proof (rule that)
    show "ll_remove item (s, list) = Some (?s', ?list)"
      using d(2,3) item renext_set_next [OF d(1), of "next_of n"]
        reprev_set_prev [OF d1, of "final_of None xs"]
      by (simp add: ll_remove_def set_next_def [of item] set_prev_def [of item] cong: option.case_cong)
    have "dseg ?s2 None ?list (xs @ ys) None"
      using hd xs ys by (cases "xs = []") (auto simp: dseg_append)
    then show "dlist ?s' ?list (xs @ ys)" using dist by (simp add: dlist_def)
    show "?s' item \<noteq> None" by simp
    show "?s' x = s x" if "x \<notin> set (xs @ item # ys)" for x using that s1_ys s2_eq by simp
  qed
qed

text \<open>C32: The list macros on a doubly linked list that lies anywhere in a store with other objects:
  \<^verbatim>\<open>LL_ADD\<close> of an object that is not in the list makes it the first, \<^verbatim>\<open>LL_REMOVE\<close> of a member takes out just
  this member, and both leave all objects outside the list unchanged.\<close>

lemma list_macros_on_store:
  assumes "dlist s list (xs @ item # ys)" and "other \<notin> set (xs @ item # ys)" and "s other \<noteq> None"
  shows "\<exists>s' list'. ll_remove item (s, list) = Some (s', list') \<and> dlist s' list' (xs @ ys) \<and>
           s' other = s other \<and>
           (\<exists>s''. ll_add other (s', list') = Some (s'', Some other) \<and> dlist s'' (Some other) (other # xs @ ys) \<and>
             (\<forall>x. x \<notin> set (other # xs @ item # ys) \<longrightarrow> s'' x = s x))"
proof -
  obtain s' l' where r: "ll_remove item (s, list) = Some (s', l')" "dlist s' l' (xs @ ys)"
    "\<And>x. x \<notin> set (xs @ item # ys) \<Longrightarrow> s' x = s x"
    using ll_remove_dlist [OF assms(1)] by blast
  have "s' other = s other" using r(3) assms(2) by blast
  moreover obtain s'' where "ll_add other (s', l') = Some (s'', Some other)"
    "dlist s'' (Some other) (other # xs @ ys)" "\<And>x. x \<notin> set (other # xs @ ys) \<Longrightarrow> s'' x = s' x"
    using ll_add_dlist [OF r(2), of other] assms(2,3) calculation by auto
  ultimately show ?thesis using r by auto
qed

definition three_nodes :: links where
  "three_nodes = [1 \<mapsto> \<lparr>prev_of = None, next_of = Some 2\<rparr>, 2 \<mapsto> \<lparr>prev_of = Some 1, next_of = None\<rparr>,
     5 \<mapsto> \<lparr>prev_of = None, next_of = None\<rparr>]"

lemma list_macros_on_store_witness:
  "\<exists>s' list' s''. ll_remove 1 (three_nodes, Some 1) = Some (s', list') \<and> dlist s' list' [2] \<and>
     ll_add 5 (s', list') = Some (s'', Some 5) \<and> dlist s'' (Some 5) [5, 2]"
  using list_macros_on_store [of three_nodes "Some 1" "[]" 1 "[2]" 5] by (auto simp: three_nodes_def dlist_def)

end
