(* ===== verification/Threadpool.thy ===== *)
theory Threadpool
  imports Dlink "HOL-Library.Multiset"
begin

text \<open>
  The thread pool \<^verbatim>\<open>linuxSystemProgrome/code/thread_pool/threadpool.c\<close> as a transition system.  Its steps are
  those of the worker threads (\<^verbatim>\<open>thread_cb\<close>, one step for each access to what the threads share), of the
  clients that submit tasks, and of a thread that destroys the pool.  A section between lock and unlock in
  which nobody else can see or change anything is one step.

  The mutex and the condition variable behave as POSIX says: a signal wakes one of the waiting threads, if
  there is one, a broadcast all of them, and a thread may also wake without being woken.  The file does not
  compile as it stands (\<^verbatim>\<open>NJOB\<close> is declared as a variable, \<^verbatim>\<open>pthread_mutex_t\<close> misspelt, the mutex passed by
  value); the model takes these places as they are meant.
\<close>

text \<open>Where a worker is in \<^verbatim>\<open>thread_cb\<close>: waiting for the mutex (at the top of the loop, or woken in
  \<^verbatim>\<open>pthread_cond_wait\<close>), at the test of the job list, at the test of \<^verbatim>\<open>terminate\<close> inside the loop, about to
  wait, waiting, behind the inner loop, in the task, before \<^verbatim>\<open>free\<close>, ended; \<open>Crashed\<close> if it follows a bad
  pointer.\<close>

datatype thread_at =
  Locking | Testing | Checking | Dozing | Waiting | Leaving | Running addr | Freeing | Gone | Crashed

text \<open>Where the thread is that destroys the pool: before it, at the loop's test and store, at
  \<^verbatim>\<open>worker = worker->next\<close>, before the broadcast, through; \<open>Faulted\<close> if it uses a freed worker.\<close>

datatype destroy_at = Intact | Marking "addr option" | Advancing addr | Broadcasting | Destroyed | Faulted

text \<open>The pool with its threads: the links of all jobs and workers, the members of the pool and of the
  workers, the threads in the order of their creation; and, as a record of the run, the tasks that were
  submitted and those that were executed, the latest first.\<close>

record pool =
  store :: links
  terminate :: "addr \<Rightarrow> bool"
  jobs :: "addr option"
  workes :: "addr option"
  mtx :: "addr option"
  threads :: "addr list"
  at_of :: "addr \<Rightarrow> thread_at"
  destroyer :: destroy_at
  pushed :: "addr list"
  finished :: "addr list"

abbreviation goto :: "addr \<Rightarrow> thread_at \<Rightarrow> pool \<Rightarrow> pool" where
  "goto w p s \<equiv> s\<lparr>at_of := (at_of s)(w := p)\<rparr>"

definition thread_cb :: "addr \<Rightarrow> pool \<Rightarrow> pool option" where
  "thread_cb worker s =
     (case at_of s worker of
        Locking \<Rightarrow> if mtx s = None then Some (goto worker Testing (s\<lparr>mtx := Some worker\<rparr>)) else None
      | Testing \<Rightarrow> Some (goto worker (if jobs s = None then Checking else Leaving) s)
      | Checking \<Rightarrow> Some (goto worker (if terminate s worker then Leaving else Dozing) s)
      | Dozing \<Rightarrow> Some (goto worker Waiting (s\<lparr>mtx := None\<rparr>))
      | Waiting \<Rightarrow> None
      | Leaving \<Rightarrow>
          if terminate s worker then Some (goto worker Freeing (s\<lparr>mtx := None\<rparr>))
          else (case jobs s of None \<Rightarrow> Some (goto worker Crashed (s\<lparr>mtx := None\<rparr>))
                | Some job \<Rightarrow>
                    (case ll_remove job (store s, jobs s) of None \<Rightarrow> Some (goto worker Crashed s)
                     | Some (st, js) \<Rightarrow>
                         Some (goto worker (Running job) (s\<lparr>store := st, jobs := js, mtx := None\<rparr>))))
      | Running job \<Rightarrow> Some (goto worker Locking (s\<lparr>finished := job # finished s\<rparr>))
      | Freeing \<Rightarrow> Some (goto worker Gone (s\<lparr>store := (store s)(worker := None)\<rparr>))
      | Gone \<Rightarrow> None
      | Crashed \<Rightarrow> None)"

subsection \<open>Creating the pool\<close>

text \<open>\<open>malloc\<close> gives a new object or nothing, and \<open>spawn\<close> what \<^verbatim>\<open>pthread_create\<close> returns for a worker; the
  threads that run already find no task and do not look at the list of workers.  The function ends without
  a \<^verbatim>\<open>return\<close> when all went well, so it has no value then.\<close>

fun create_workers ::
  "(links \<Rightarrow> addr option) \<Rightarrow> (addr \<Rightarrow> int) \<Rightarrow> nat \<Rightarrow> pool \<Rightarrow> (int option \<times> pool) option" where
  "create_workers malloc spawn 0 s = Some (None, s)"
| "create_workers malloc spawn (Suc n) s =
     (case malloc (store s) of None \<Rightarrow> Some (Some (-2), s)
      | Some worker \<Rightarrow>
          let s = s\<lparr>store := (store s)(worker \<mapsto> \<lparr>prev_of = None, next_of = None\<rparr>),
                    terminate := (terminate s)(worker := False)\<rparr>
          in if spawn worker \<noteq> 0 then Some (Some (-3), s\<lparr>store := (store s)(worker := None)\<rparr>)
             else do {
               let s = goto worker Locking (s\<lparr>threads := threads s @ [worker]\<rparr>);
               (st, ws) \<leftarrow> ll_add worker (store s, workes s);
               create_workers malloc spawn n (s\<lparr>store := st, workes := ws\<rparr>)
             })"

definition nThreadPoolCreate ::
  "(links \<Rightarrow> addr option) \<Rightarrow> (addr \<Rightarrow> int) \<Rightarrow> bool \<Rightarrow> int \<Rightarrow> pool \<Rightarrow> (int option \<times> pool) option" where
  "nThreadPoolCreate malloc spawn null numberworks s =
     (let numberworks = (if numberworks < 1 then 1 else numberworks) in
      if null then Some (Some (-1), s)
      else create_workers malloc spawn (nat numberworks) (s\<lparr>jobs := None, workes := None, mtx := None\<rparr>))"

subsection \<open>Destroying the pool and submitting a task\<close>

definition cond_broadcast :: "pool \<Rightarrow> pool" where
  "cond_broadcast s = s\<lparr>at_of := (\<lambda>w. if at_of s w = Waiting then Locking else at_of s w)\<rparr>"

definition nThreadPoolDestory :: "pool \<Rightarrow> pool option" where
  "nThreadPoolDestory s =
     (case destroyer s of
        Intact \<Rightarrow> Some (s\<lparr>destroyer := Marking (workes s)\<rparr>)
      | Marking None \<Rightarrow> Some (s\<lparr>destroyer := Broadcasting\<rparr>)
      | Marking (Some worker) \<Rightarrow>
          Some (if store s worker = None then s\<lparr>destroyer := Faulted\<rparr>
                else s\<lparr>terminate := (terminate s)(worker := True), destroyer := Advancing worker\<rparr>)
      | Advancing worker \<Rightarrow>
          Some (case store s worker of None \<Rightarrow> s\<lparr>destroyer := Faulted\<rparr>
                | Some n \<Rightarrow> s\<lparr>destroyer := Marking (next_of n)\<rparr>)
      | Broadcasting \<Rightarrow> if mtx s = None then Some ((cond_broadcast s)\<lparr>destroyer := Destroyed\<rparr>) else None
      | Destroyed \<Rightarrow> None
      | Faulted \<Rightarrow> None)"

text \<open>The thread that a signal wakes is the argument \<open>woken\<close>.\<close>

definition can_wake :: "addr option \<Rightarrow> pool \<Rightarrow> bool" where
  "can_wake woken s \<longleftrightarrow>
     (case woken of None \<Rightarrow> list_all (\<lambda>w. at_of s w \<noteq> Waiting) (threads s)
      | Some w \<Rightarrow> w \<in> set (threads s) \<and> at_of s w = Waiting)"

definition cond_signal :: "addr option \<Rightarrow> pool \<Rightarrow> pool" where
  "cond_signal woken s = (case woken of None \<Rightarrow> s | Some w \<Rightarrow> goto w Locking s)"

definition nThreadPoolPushTask :: "addr option \<Rightarrow> addr \<Rightarrow> pool \<Rightarrow> pool option" where
  "nThreadPoolPushTask woken job s =
     (if mtx s \<noteq> None then None
      else do {
        (st, js) \<leftarrow> ll_add job (store s, jobs s);
        Some (cond_signal woken (s\<lparr>store := st, jobs := js, pushed := job # pushed s\<rparr>))
      })"

subsection \<open>Runs\<close>

text \<open>Clients change objects of their own at will: they allocate jobs, fill them in, and free them.  What they
  owe the pool is not to touch a worker or a task that is queued, and not to submit a task that is queued.
  The address of a freed worker is not given out again, so that an access to a freed worker shows.\<close>

inductive pool_step :: "pool \<Rightarrow> pool \<Rightarrow> bool" where
  worker: "w \<in> set (threads s) \<Longrightarrow> thread_cb w s = Some s' \<Longrightarrow> pool_step s s'"
| spurious: "w \<in> set (threads s) \<Longrightarrow> at_of s w = Waiting \<Longrightarrow> pool_step s (goto w Locking s)"
| push: "job \<notin> set (threads s) \<Longrightarrow> store s job \<noteq> None \<Longrightarrow> dlist (store s) (jobs s) q \<Longrightarrow> job \<notin> set q \<Longrightarrow>
    can_wake woken s \<Longrightarrow> nThreadPoolPushTask woken job s = Some s' \<Longrightarrow> pool_step s s'"
| client: "dlist (store s) (jobs s) q \<Longrightarrow> a \<notin> set q \<Longrightarrow> a \<notin> set (threads s) \<Longrightarrow>
    pool_step s (s\<lparr>store := (store s)(a := v)\<rparr>)"
| destroy: "nThreadPoolDestory s = Some s' \<Longrightarrow> pool_step s s'"

definition blank_pool :: "links \<Rightarrow> pool" where
  "blank_pool st =
     \<lparr>store = st, terminate = (\<lambda>_. False), jobs = None, workes = None, mtx = None, threads = [],
      at_of = (\<lambda>_. Gone), destroyer = Intact, pushed = [], finished = []\<rparr>"

definition malloc_ok :: "(links \<Rightarrow> addr option) \<Rightarrow> bool" where
  "malloc_ok malloc \<longleftrightarrow> (\<forall>st a. malloc st = Some a \<longrightarrow> st a = None)"

inductive pool_reach :: "pool \<Rightarrow> bool" where
  start: "malloc_ok malloc \<Longrightarrow> nThreadPoolCreate malloc spawn False n (blank_pool st) = Some (r, s) \<Longrightarrow> pool_reach s"
| step: "pool_reach s \<Longrightarrow> pool_step s s' \<Longrightarrow> pool_reach s'"

subsection \<open>The invariant\<close>

definition holding :: "thread_at \<Rightarrow> bool" where
  "holding p \<longleftrightarrow> p = Testing \<or> p = Checking \<or> p = Dozing \<or> p = Leaving"

fun task_at :: "thread_at \<Rightarrow> addr multiset" where
  "task_at (Running j) = {#j#}"
| "task_at _ = {#}"

definition in_work :: "pool \<Rightarrow> addr multiset" where
  "in_work s = (\<Sum>w\<leftarrow>threads s. task_at (at_of s w))"

text \<open>The queue is the list \<open>q\<close> in the store and no worker is in it.\<close>

definition queue_ok :: "addr list \<Rightarrow> pool \<Rightarrow> bool" where
  "queue_ok q s \<longleftrightarrow> dlist (store s) (jobs s) q \<and> set q \<inter> set (threads s) = {} \<and> distinct (threads s)"

text \<open>The mutex is held by the worker that is between lock and unlock, and by no other.\<close>

definition locks_ok :: "pool \<Rightarrow> bool" where
  "locks_ok s \<longleftrightarrow>
     (\<forall>w \<in> set (threads s). holding (at_of s w) = (mtx s = Some w)) \<and>
     (\<forall>w. mtx s = Some w \<longrightarrow> w \<in> set (threads s))"

text \<open>What a worker knows where it is.\<close>

definition place_ok :: "addr option \<Rightarrow> bool \<Rightarrow> thread_at \<Rightarrow> bool" where
  "place_ok js term p \<longleftrightarrow>
     (p = Checking \<or> p = Dozing \<longrightarrow> js = None) \<and> (p = Leaving \<longrightarrow> js \<noteq> None \<or> term) \<and>
     (p = Freeing \<or> p = Gone \<longrightarrow> term) \<and> p \<noteq> Crashed"

definition places_ok :: "pool \<Rightarrow> bool" where
  "places_ok s \<longleftrightarrow> (\<forall>w \<in> set (threads s). place_ok (jobs s) (terminate s w) (at_of s w))"

text \<open>Every submitted task is queued, in work or executed, as often as it was submitted.\<close>

definition tasks_ok :: "addr list \<Rightarrow> pool \<Rightarrow> bool" where
  "tasks_ok q s \<longleftrightarrow> mset (pushed s) = mset q + in_work s + mset (finished s)"

text \<open>The list of the workers that were not freed is as it was made (\<open>c\<close>), and \<^verbatim>\<open>terminate\<close> is set up to where
  the destroying thread is.\<close>

definition marked :: "pool \<Rightarrow> addr list \<Rightarrow> bool" where
  "marked s us \<longleftrightarrow> (\<forall>w \<in> set us. terminate s w)"

definition marks_ok :: "links \<Rightarrow> pool \<Rightarrow> bool" where
  "marks_ok c s \<longleftrightarrow>
     (case destroyer s of
        Intact \<Rightarrow> \<forall>w \<in> set (threads s). \<not> terminate s w
      | Marking p \<Rightarrow> \<exists>us vs pr. rev (threads s) = us @ vs \<and> dseg c pr p vs None \<and> marked s us
      | Advancing w \<Rightarrow> \<exists>us vs pr. rev (threads s) = us @ w # vs \<and> dseg c pr (Some w) (w # vs) None \<and> marked s (w # us)
      | Broadcasting \<Rightarrow> marked s (threads s)
      | Destroyed \<Rightarrow> marked s (threads s)
      | Faulted \<Rightarrow> True)"

definition chain_ok :: "links \<Rightarrow> pool \<Rightarrow> bool" where
  "chain_ok c s \<longleftrightarrow>
     dlist c (workes s) (rev (threads s)) \<and>
     (\<forall>w \<in> set (threads s). store s w = (if at_of s w = Gone then None else c w))"

text \<open>Nobody sleeps on a destroyed pool, and not all sleep while a task is queued.\<close>

definition wake_ok :: "pool \<Rightarrow> bool" where
  "wake_ok s \<longleftrightarrow>
     (destroyer s = Destroyed \<longrightarrow> (\<forall>w \<in> set (threads s). at_of s w \<noteq> Dozing \<and> at_of s w \<noteq> Waiting)) \<and>
     (jobs s \<noteq> None \<longrightarrow> threads s \<noteq> [] \<longrightarrow> (\<forall>w \<in> set (threads s). \<not> terminate s w) \<longrightarrow>
        (\<exists>w \<in> set (threads s). at_of s w \<noteq> Waiting))"

definition pool_inv :: "addr list \<Rightarrow> links \<Rightarrow> pool \<Rightarrow> bool" where
  "pool_inv q c s \<longleftrightarrow>
     queue_ok q s \<and> locks_ok s \<and> places_ok s \<and> tasks_ok q s \<and> chain_ok c s \<and> marks_ok c s \<and> wake_ok s"

lemmas pool_oks = queue_ok_def locks_ok_def places_ok_def tasks_ok_def chain_ok_def wake_ok_def

lemma sum_list_outside:
  "w \<notin> set ws \<Longrightarrow> (\<Sum>x\<leftarrow>ws. task_at ((g(w := p)) x)) = (\<Sum>x\<leftarrow>ws. task_at (g x))"
  for g :: "addr \<Rightarrow> thread_at"
  by (intro arg_cong [where f = sum_list] map_cong) auto

lemma sum_list_at:
  "distinct ws \<Longrightarrow> w \<in> set ws \<Longrightarrow>
   (\<Sum>x\<leftarrow>ws. task_at ((g(w := p)) x)) + task_at (g w) = (\<Sum>x\<leftarrow>ws. task_at (g x)) + task_at p"
  for g :: "addr \<Rightarrow> thread_at"
proof (induction ws)
  case (Cons x ws)
  show ?case
  proof (cases "x = w")
    case True
    then show ?thesis using Cons.prems sum_list_outside [of w ws g p] by (simp add: ac_simps)
  qed (use Cons in \<open>auto simp: ac_simps\<close>)
qed simp

text \<open>A step of a worker that moves no task and changes only its place and the mutex.\<close>

lemma in_work_goto:
  "distinct (threads s) \<Longrightarrow> w \<in> set (threads s) \<Longrightarrow>
   in_work (s\<lparr>at_of := (at_of s)(w := p)\<rparr>) + task_at (at_of s w) = in_work s + task_at p"
  using sum_list_at [of "threads s" w "at_of s" p] by (simp add: in_work_def)

lemma in_work_cong [simp]:
  "in_work (s\<lparr>store := v1\<rparr>) = in_work s" "in_work (s\<lparr>jobs := v2\<rparr>) = in_work s" "in_work (s\<lparr>mtx := v2\<rparr>) = in_work s"
  "in_work (s\<lparr>pushed := v3\<rparr>) = in_work s" "in_work (s\<lparr>finished := v3\<rparr>) = in_work s"
  "in_work (s\<lparr>terminate := v4\<rparr>) = in_work s" "in_work (s\<lparr>destroyer := v5\<rparr>) = in_work s"
  by (simp_all add: in_work_def)

lemma marks_ok_cong:
  "terminate s' = terminate s \<Longrightarrow> threads s' = threads s \<Longrightarrow> destroyer s' = destroyer s \<Longrightarrow> marks_ok c s' = marks_ok c s"
  by (simp add: marks_ok_def marked_def split: destroy_at.split)

text \<open>The steps of a worker that move it and give or take the mutex.\<close>

lemma pool_inv_goto:
  assumes inv: "pool_inv q c s" and w: "w \<in> set (threads s)"
    and p: "task_at p = task_at (at_of s w)" "place_ok (jobs s) (terminate s w) p" "at_of s w \<noteq> Gone"
    and m: "(holding p \<and> m = Some w \<and> (mtx s = None \<or> holding (at_of s w))) \<or>
            (\<not> holding p \<and> (holding (at_of s w) \<and> m = None \<or> \<not> holding (at_of s w) \<and> m = mtx s))"
    and d: "p = Dozing \<or> p = Waiting \<Longrightarrow> destroyer s \<noteq> Destroyed" "p = Waiting \<Longrightarrow> jobs s = None" "p \<noteq> Gone"
  shows "pool_inv q c (goto w p (s\<lparr>mtx := m\<rparr>))"
proof -
  let ?s = "goto w p (s\<lparr>mtx := m\<rparr>)"
  note inv' = inv [unfolded pool_inv_def]
  have q: "queue_ok q ?s" using inv' by (simp add: queue_ok_def)
  have l: "locks_ok ?s" using inv' w m by (auto simp: locks_ok_def)
  have pl: "places_ok ?s" using inv' w p(2) by (simp add: places_ok_def)
  have "in_work ?s = in_work s"
    using in_work_goto [of s w p] w p(1) inv' by (simp add: queue_ok_def in_work_def)
  then have t: "tasks_ok q ?s" using inv' by (simp add: tasks_ok_def)
  have c: "chain_ok c ?s" using inv' p(3) d(3) by (auto simp: chain_ok_def)
  have k: "marks_ok c ?s" using inv' by (simp add: marks_ok_def marked_def split: destroy_at.splits)
  have "wake_ok ?s" using inv' w d by (auto simp: wake_ok_def)
  then show ?thesis using q l pl t c k by (simp add: pool_inv_def)
qed

text \<open>A worker takes the task at the head of the queue.\<close>

lemma take_task:
  assumes inv: "pool_inv q c s" and w: "w \<in> set (threads s)" "at_of s w = Leaving" "\<not> terminate s w"
  obtains j q' s' where "q = j # q'" "thread_cb w s = Some s'" "at_of s' = (at_of s)(w := Running j)" "mtx s' = None"
    "threads s' = threads s" "terminate s' = terminate s" "destroyer s' = destroyer s" "finished s' = finished s"
    "pushed s' = pushed s" "workes s' = workes s" "dlist (store s') (jobs s') q'" "\<And>x. x \<notin> set q \<Longrightarrow> store s' x = store s x"
proof -
  note inv' = inv [unfolded pool_inv_def]
  from inv' w obtain j where j: "jobs s = Some j" by (auto simp: places_ok_def place_ok_def)
  moreover from inv' have "dlist (store s) (jobs s) q" by (simp add: queue_ok_def)
  ultimately obtain q' where q: "q = j # q'" by (cases q) (auto simp: dlist_def)
  with inv' have "dlist (store s) (jobs s) ([] @ j # q')" by (simp add: queue_ok_def)
  then obtain st js where "ll_remove j (store s, jobs s) = Some (st, js)" "dlist st js ([] @ q')"
    "\<And>x. x \<notin> set ([] @ j # q') \<Longrightarrow> st x = store s x"
    by (rule ll_remove_dlist) blast
  then show thesis
    using that [of j q' "goto w (Running j) (s\<lparr>store := st, jobs := js, mtx := None\<rparr>)"] q w j
    by (simp add: thread_cb_def)
qed

lemma pool_inv_take:
  assumes inv: "pool_inv q c s" and w: "w \<in> set (threads s)" "at_of s w = Leaving" "\<not> terminate s w"
    and cb: "thread_cb w s = Some s'"
  obtains j q' where "q = j # q'" "pool_inv q' c s'" "at_of s' = (at_of s)(w := Running j)"
    "terminate s' = terminate s" "threads s' = threads s" "mtx s' = None"
proof -
  note inv' = inv [unfolded pool_inv_def]
  obtain j q' s0 where t0: "q = j # q'" "thread_cb w s = Some s0" "at_of s0 = (at_of s)(w := Running j)" "mtx s0 = None"
    "threads s0 = threads s" "terminate s0 = terminate s" "destroyer s0 = destroyer s" "finished s0 = finished s"
    "pushed s0 = pushed s" "workes s0 = workes s" "dlist (store s0) (jobs s0) q'" "\<And>x. x \<notin> set q \<Longrightarrow> store s0 x = store s x"
    by (rule take_task [OF inv w]) (rule that)
  from t0(2) cb have "s0 = s'" by simp
  note t = t0(1,3-11) [unfolded this] and other = t0(12) [unfolded this]
  have q: "queue_ok q' s'" using inv' t by (auto simp: queue_ok_def)
  have "mtx s = Some w" using inv' w by (auto simp: locks_ok_def holding_def)
  then have free: "\<not> holding (at_of s v)" if "v \<in> set (threads s)" "v \<noteq> w" for v
    using inv' that by (auto simp: locks_ok_def)
  have l: "locks_ok s'" using t free by (auto simp: locks_ok_def holding_def)
  have "place_ok (jobs s') (terminate s v) (at_of s v)" if "v \<in> set (threads s)" "v \<noteq> w" for v
    using free [OF that] inv' that by (auto simp: places_ok_def place_ok_def holding_def)
  then have pl: "places_ok s'" using t by (auto simp: places_ok_def place_ok_def)
  have "in_work s' = in_work (s\<lparr>at_of := (at_of s)(w := Running j)\<rparr>)" using t by (simp add: in_work_def)
  then have "in_work s' = in_work s + {#j#}" using in_work_goto [of s w "Running j"] inv' w by (simp add: queue_ok_def)
  then have tk: "tasks_ok q' s'" using inv' t by (simp add: tasks_ok_def)
  have "store s' x = store s x" if "x \<in> set (threads s)" for x using inv' that other by (auto simp: queue_ok_def)
  then have c: "chain_ok c s'" using inv' t w by (auto simp: chain_ok_def)
  have k: "marks_ok c s'" using inv' marks_ok_cong [of s' s c] t by simp
  have "wake_ok s'" using inv' t w by (auto simp: wake_ok_def)
  then show thesis using that t q l pl tk c k by (simp add: pool_inv_def)
qed

lemma pool_inv_run:
  assumes inv: "pool_inv q c s" and w: "w \<in> set (threads s)" "at_of s w = Running j"
  shows "pool_inv q c (goto w Locking (s\<lparr>finished := j # finished s\<rparr>))"
proof -
  let ?s = "goto w Locking (s\<lparr>finished := j # finished s\<rparr>)"
  note inv' = inv [unfolded pool_inv_def]
  have q: "queue_ok q ?s" using inv' by (simp add: queue_ok_def)
  have l: "locks_ok ?s" using inv' w by (auto simp: locks_ok_def holding_def)
  have pl: "places_ok ?s" using inv' by (simp add: places_ok_def place_ok_def)
  have "in_work ?s + {#j#} = in_work s"
    using in_work_goto [of s w Locking] w inv' by (simp add: queue_ok_def in_work_def)
  then have t: "tasks_ok q ?s" using inv' by (auto simp: tasks_ok_def)
  have c: "chain_ok c ?s" using inv' w by (auto simp: chain_ok_def)
  have k: "marks_ok c ?s" using inv' by (simp add: marks_ok_def marked_def split: destroy_at.splits)
  have "wake_ok ?s" using inv' w by (auto simp: wake_ok_def)
  then show ?thesis using q l pl t c k by (simp add: pool_inv_def)
qed

lemma pool_inv_free:
  assumes inv: "pool_inv q c s" and w: "w \<in> set (threads s)" "at_of s w = Freeing"
  shows "pool_inv q c (goto w Gone (s\<lparr>store := (store s)(w := None)\<rparr>))"
proof -
  let ?s = "goto w Gone (s\<lparr>store := (store s)(w := None)\<rparr>)"
  note inv' = inv [unfolded pool_inv_def]
  have "dlist ((store s)(w := None)) (jobs s) q = dlist (store s) (jobs s) q"
    using inv' w by (intro dlist_cong) (auto simp: queue_ok_def)
  then have q: "queue_ok q ?s" using inv' by (simp add: queue_ok_def)
  have l: "locks_ok ?s" using inv' w by (auto simp: locks_ok_def holding_def)
  have pl: "places_ok ?s" using inv' w by (auto simp: places_ok_def place_ok_def)
  have "in_work ?s = in_work s"
    using in_work_goto [of s w Gone] w inv' by (simp add: queue_ok_def in_work_def)
  then have t: "tasks_ok q ?s" using inv' by (simp add: tasks_ok_def)
  have c: "chain_ok c ?s" using inv' by (auto simp: chain_ok_def)
  have k: "marks_ok c ?s" using inv' by (simp add: marks_ok_def marked_def split: destroy_at.splits)
  have "wake_ok ?s" using inv' w by (auto simp: wake_ok_def places_ok_def place_ok_def)
  then show ?thesis using q l pl t c k by (simp add: pool_inv_def)
qed

lemma worker_inv:
  assumes inv: "pool_inv q c s" and w: "w \<in> set (threads s)" and cb: "thread_cb w s = Some s'"
  shows "\<exists>q'. pool_inv q' c s'"
proof -
  note inv' = inv [unfolded pool_inv_def]
  have here: "holding (at_of s w) = (mtx s = Some w)" "place_ok (jobs s) (terminate s w) (at_of s w)"
    using inv' w by (auto simp: locks_ok_def places_ok_def)
  have trm: "terminate s w" if "destroyer s = Destroyed"
    using inv' w that by (auto simp: marks_ok_def marked_def)
  have dz: "at_of s w \<noteq> Dozing" if "destroyer s = Destroyed"
    using inv' w that by (auto simp: wake_ok_def)
  note go = pool_inv_goto [OF inv w]
  show ?thesis
  proof (cases "at_of s w")
    case Locking
    with cb have s': "s' = goto w Testing (s\<lparr>mtx := Some w\<rparr>)" and free: "mtx s = None" by (simp_all add: thread_cb_def split: if_splits)
    have "pool_inv q c s'" unfolding s'
      by (rule go) (use Locking here free in \<open>auto simp: holding_def place_ok_def split: if_splits\<close>)
    then show ?thesis by blast
  next
    case Testing
    with cb have s': "s' = goto w (if jobs s = None then Checking else Leaving) (s\<lparr>mtx := mtx s\<rparr>)" by (simp_all add: thread_cb_def split: if_splits)
    have "pool_inv q c s'" unfolding s'
      by (rule go) (use Testing here in \<open>auto simp: holding_def place_ok_def split: if_splits\<close>)
    then show ?thesis by blast
  next
    case Checking
    with cb have s': "s' = goto w (if terminate s w then Leaving else Dozing) (s\<lparr>mtx := mtx s\<rparr>)" by (simp_all add: thread_cb_def split: if_splits)
    have "pool_inv q c s'" unfolding s'
      by (rule go) (use Checking here trm in \<open>auto simp: holding_def place_ok_def split: if_splits\<close>)
    then show ?thesis by blast
  next
    case Dozing
    with cb have s': "s' = goto w Waiting (s\<lparr>mtx := None\<rparr>)" by (simp_all add: thread_cb_def split: if_splits)
    have "pool_inv q c s'" unfolding s'
      by (rule go) (use Dozing here dz in \<open>auto simp: holding_def place_ok_def split: if_splits\<close>)
    then show ?thesis by blast
  next
    case Leaving
    show ?thesis
    proof (cases "terminate s w")
      case True
      with cb Leaving have s': "s' = goto w Freeing (s\<lparr>mtx := None\<rparr>)" by (simp add: thread_cb_def)
      have "pool_inv q c s'" unfolding s'
        by (rule go) (use Leaving here True in \<open>auto simp: holding_def place_ok_def split: if_splits\<close>)
      then show ?thesis by blast
    next
      case False
      show ?thesis by (rule pool_inv_take [OF inv w Leaving False cb]) blast
    qed
  next
    case (Running j)
    then show ?thesis using cb pool_inv_run [OF inv w Running] by (auto simp: thread_cb_def)
  next
    case Freeing
    then show ?thesis using cb pool_inv_free [OF inv w Freeing] by (auto simp: thread_cb_def)
  qed (use cb in \<open>simp_all add: thread_cb_def\<close>)
qed

lemma push_inv:
  assumes inv: "pool_inv q c s" and job: "job \<notin> set (threads s)" "store s job \<noteq> None" "job \<notin> set q"
    and wake: "can_wake woken s" and psh: "nThreadPoolPushTask woken job s = Some s'"
  shows "pool_inv (job # q) c s'" "jobs s' = Some job" "pushed s' = job # pushed s" "finished s' = finished s"
    "threads s' = threads s" "terminate s' = terminate s"
proof -
  note inv' = inv [unfolded pool_inv_def]
  from inv' have "dlist (store s) (jobs s) q" by (simp add: queue_ok_def)
  then obtain st where st: "ll_add job (store s, jobs s) = Some (st, Some job)" "dlist st (Some job) (job # q)"
    "\<And>x. x \<notin> set (job # q) \<Longrightarrow> st x = store s x"
    by (rule ll_add_dlist [where s = "store s" and item = job and xs = q, OF _ job(3) job(2)]) (rule that)
  from psh have free: "mtx s = None" by (simp add: nThreadPoolPushTask_def split: if_splits)
  define g where "g = (case woken of None \<Rightarrow> at_of s | Some w \<Rightarrow> (at_of s)(w := Locking))"
  have s': "s' = s\<lparr>store := st, jobs := Some job, pushed := job # pushed s, at_of := g\<rparr>"
    using psh free st(1) by (auto simp: nThreadPoolPushTask_def cond_signal_def g_def split: option.split)
  have g: "g w = at_of s w \<or> at_of s w = Waiting \<and> g w = Locking" for w
    using wake by (auto simp: g_def can_wake_def split: option.split)
  have hold: "\<not> holding (at_of s w)" if "w \<in> set (threads s)" for w
    using inv' that free by (auto simp: locks_ok_def)
  have hold': "holding (g w) = holding (at_of s w)" for w using g [of w] by (auto simp: holding_def)
  have "task_at (g w) = task_at (at_of s w)" for w using g [of w] by auto
  then have work: "in_work s' = in_work s" by (simp add: in_work_def s')
  have st': "st x = store s x" if "x \<in> set (threads s)" for x
    using st(3) [of x] inv' that job by (auto simp: queue_ok_def)
  have q: "queue_ok (job # q) s'" using inv' st(2) job by (auto simp: queue_ok_def s')
  have l: "locks_ok s'" using inv' hold' by (auto simp: locks_ok_def s')
  have pl: "places_ok s'"
    unfolding places_ok_def
  proof
    fix w assume "w \<in> set (threads s')"
    then have w: "w \<in> set (threads s)" by (simp add: s')
    with inv' have "place_ok (jobs s) (terminate s w) (at_of s w)" by (simp add: places_ok_def)
    with hold [OF w] g [of w] show "place_ok (jobs s') (terminate s' w) (at_of s' w)"
      by (auto simp: s' place_ok_def holding_def)
  qed
  have t: "tasks_ok (job # q) s'" using inv' work by (simp add: tasks_ok_def s')
  have "(g w = Gone) = (at_of s w = Gone)" for w using g [of w] by auto
  then have c: "chain_ok c s'" using inv' st' by (auto simp: chain_ok_def s')
  have k: "marks_ok c s'" using inv' marks_ok_cong [of s' s c] by (simp add: s')
  have "g w \<noteq> Dozing \<and> g w \<noteq> Waiting" if "at_of s w \<noteq> Dozing" "at_of s w \<noteq> Waiting" for w
    using that g [of w] by auto
  moreover have "\<exists>w \<in> set (threads s). g w \<noteq> Waiting" if "threads s \<noteq> []"
    using wake that by (auto simp: can_wake_def g_def list_all_iff neq_Nil_conv split: option.splits)
  ultimately have "wake_ok s'" using inv' by (auto simp: wake_ok_def s')
  then show "pool_inv (job # q) c s'" using q l pl t c k by (simp add: pool_inv_def)
qed (use psh in \<open>auto simp: nThreadPoolPushTask_def cond_signal_def ll_add_def split: if_splits option.splits\<close>)

lemma client_inv:
  assumes inv: "pool_inv q c s" and a: "a \<notin> set q" "a \<notin> set (threads s)"
  shows "pool_inv q c (s\<lparr>store := (store s)(a := v)\<rparr>)"
proof -
  let ?s = "s\<lparr>store := (store s)(a := v)\<rparr>"
  note inv' = inv [unfolded pool_inv_def]
  have "dlist ((store s)(a := v)) (jobs s) q = dlist (store s) (jobs s) q"
    using a by (intro dlist_cong) auto
  then have "queue_ok q ?s" using inv' by (simp add: queue_ok_def)
  moreover have "chain_ok c ?s" using inv' a by (auto simp: chain_ok_def)
  moreover have "marks_ok c ?s" using inv' marks_ok_cong [of ?s s c] by simp
  ultimately show ?thesis
    using inv' by (simp add: pool_inv_def locks_ok_def places_ok_def tasks_ok_def wake_ok_def)
qed

lemma marks_ok_marking:
  assumes k: "marks_ok c s" and d: "destroyer s = Marking (Some w)"
  obtains us vs pr where "rev (threads s) = us @ w # vs" "dseg c pr (Some w) (w # vs) None" "marked s us"
proof -
  from assms obtain us vs pr where 1: "rev (threads s) = us @ vs" "dseg c pr (Some w) vs None" "marked s us"
    by (auto simp: marks_ok_def)
  moreover from 1(2) obtain vs' where "vs = w # vs'" by (cases vs) auto
  ultimately show thesis using that by blast
qed

lemma destroy_inv:
  assumes inv: "pool_inv q c s" and ds: "nThreadPoolDestory s = Some s'"
  shows "pool_inv q c s'"
proof -
  note inv' = inv [unfolded pool_inv_def]
  have rest: "pool_inv q c (s\<lparr>destroyer := d\<rparr>)" if "marks_ok c (s\<lparr>destroyer := d\<rparr>)" "d \<noteq> Destroyed" for d
    using inv' that by (simp add: pool_inv_def queue_ok_def locks_ok_def places_ok_def tasks_ok_def chain_ok_def wake_ok_def)
  show ?thesis
  proof (cases "destroyer s")
    case Intact
    have "marks_ok c (s\<lparr>destroyer := Marking (workes s)\<rparr>)"
      using inv' by (fastforce simp: marks_ok_def marked_def chain_ok_def dlist_def)
    then show ?thesis using rest ds Intact by (auto simp: nThreadPoolDestory_def)
  next
    case (Marking p)
    show ?thesis
    proof (cases p)
      case None
      obtain us vs pr where m: "rev (threads s) = us @ vs" "dseg c pr None vs None" "marked s us"
        using inv' Marking None by (auto simp: marks_ok_def)
      then have "rev (threads s) = us" by (cases vs) auto
      with m(3) have "marked s (threads s)" using set_rev [of "threads s"] by (simp add: marked_def)
      then have "marks_ok c (s\<lparr>destroyer := Broadcasting\<rparr>)" by (simp add: marks_ok_def marked_def)
      then show ?thesis using rest ds Marking None by (auto simp: nThreadPoolDestory_def)
    next
      case (Some w)
      show ?thesis
      proof (cases "store s w = None")
        case True
        then show ?thesis using rest [of Faulted] ds Marking Some by (auto simp: nThreadPoolDestory_def marks_ok_def)
      next
        case False
        have k: "marks_ok c s" using inv' by simp
        obtain us vs pr where m: "rev (threads s) = us @ w # vs" "dseg c pr (Some w) (w # vs) None" "marked s us"
          using Marking Some by (auto intro: marks_ok_marking [OF k])
        let ?s = "s\<lparr>terminate := (terminate s)(w := True), destroyer := Advancing w\<rparr>"
        have "marks_ok c ?s" using m by (fastforce simp: marks_ok_def marked_def)
        moreover have "places_ok ?s" using inv' by (auto simp: places_ok_def place_ok_def)
        ultimately have "pool_inv q c ?s"
          using inv' by (auto simp: pool_inv_def queue_ok_def locks_ok_def tasks_ok_def chain_ok_def wake_ok_def)
        then show ?thesis using ds Marking Some False by (simp add: nThreadPoolDestory_def)
      qed
    qed
  next
    case (Advancing w)
    then obtain us vs pr where m: "rev (threads s) = us @ w # vs" "dseg c pr (Some w) (w # vs) None" "marked s (w # us)"
      using inv' by (auto simp: marks_ok_def)
    show ?thesis
    proof (cases "store s w")
      case None
      then show ?thesis using rest [of Faulted] ds Advancing by (auto simp: nThreadPoolDestory_def marks_ok_def)
    next
      case (Some n)
      have "w \<in> set (rev (threads s))" unfolding m by simp
      then have "store s w = c w" using inv' Some by (auto simp: chain_ok_def split: if_splits)
      with Some m(2) have "dseg c (Some w) (next_of n) vs None" by simp
      moreover have "rev (threads s) = (us @ [w]) @ vs" "marked s (us @ [w])" using m by (simp_all add: marked_def)
      ultimately have "\<exists>us vs pr. rev (threads s) = us @ vs \<and> dseg c pr (next_of n) vs None \<and> marked s us" by blast
      then have "marks_ok c (s\<lparr>destroyer := Marking (next_of n)\<rparr>)" by (simp add: marks_ok_def marked_def)
      then show ?thesis using rest ds Advancing Some by (auto simp: nThreadPoolDestory_def)
    qed
  next
    case Broadcasting
    with ds have free: "mtx s = None" and s': "s' = (cond_broadcast s)\<lparr>destroyer := Destroyed\<rparr>"
      by (simp_all add: nThreadPoolDestory_def split: if_splits)
    have g: "at_of s' w = (if at_of s w = Waiting then Locking else at_of s w)" for w
      by (simp add: s' cond_broadcast_def)
    have hold: "\<not> holding (at_of s w)" if "w \<in> set (threads s)" for w
      using inv' free that by (auto simp: locks_ok_def)
    have "task_at (at_of s' w) = task_at (at_of s w)" for w using g [of w] by auto
    then have "tasks_ok q s'" using inv' by (simp add: tasks_ok_def in_work_def s' cond_broadcast_def)
    moreover have "marks_ok c s'"
      using inv' Broadcasting by (simp add: marks_ok_def marked_def s' cond_broadcast_def)
    moreover have "wake_ok s'" using inv' hold by (auto simp: wake_ok_def s' cond_broadcast_def holding_def)
    ultimately show ?thesis
      using inv' by (auto simp: pool_inv_def s' cond_broadcast_def queue_ok_def locks_ok_def places_ok_def place_ok_def
          chain_ok_def holding_def)
  qed (use ds in \<open>simp_all add: nThreadPoolDestory_def\<close>)
qed

lemma create_workers_inv:
  assumes "create_workers malloc spawn n s = Some (r, s')" "malloc_ok malloc"
    and "pool_inv [] (store s) s" "jobs s = None" "mtx s = None" "destroyer s = Intact"
  shows "pool_inv [] (store s') s' \<and> (r = None \<longrightarrow> length (threads s') = length (threads s) + n)"
  using assms
proof (induction n arbitrary: s)
  case (Suc n)
  note inv = Suc.prems(3) [unfolded pool_inv_def]
  show ?case
  proof (cases "malloc (store s)")
    case None
    then show ?thesis using Suc.prems by auto
  next
    case (Some w)
    then have new: "store s w = None" using Suc.prems(2) by (simp add: malloc_ok_def)
    have alive: "store s x \<noteq> None" if "x \<in> set (threads s)" for x
      using dlist_allocated [of "store s" "workes s" "rev (threads s)" x] that inv by (auto simp: chain_ok_def)
    then have w: "w \<notin> set (threads s)" using new by blast
    let ?st = "(store s)(w \<mapsto> \<lparr>prev_of = None, next_of = None\<rparr>)"
    show ?thesis
    proof (cases "spawn w = 0")
      case False
      have same: "(store s)(w := None) = store s" using new by (auto simp: fun_eq_iff)
      with False Some Suc.prems(1)
      have r: "r = Some (-3)" "s' = s\<lparr>terminate := (terminate s)(w := False), store := store s\<rparr>"
        by auto
      have "places_ok s'" using inv w Suc.prems(6) unfolding r(2) by (auto simp: places_ok_def marks_ok_def)
      then have "pool_inv [] (store s) s'"
        using inv w Suc.prems(6) unfolding r(2)
        by (simp add: pool_inv_def queue_ok_def locks_ok_def tasks_ok_def in_work_def chain_ok_def
            marks_ok_def wake_ok_def)
      then show ?thesis using r by simp
    next
      case True
      have "dlist ?st (workes s) (rev (threads s)) = dlist (store s) (workes s) (rev (threads s))"
        using w by (intro dlist_cong) auto
      then have "dlist ?st (workes s) (rev (threads s))" using inv by (simp add: chain_ok_def)
      then obtain st where st: "ll_add w (?st, workes s) = Some (st, Some w)" "dlist st (Some w) (w # rev (threads s))"
        "\<And>x. x \<notin> set (w # rev (threads s)) \<Longrightarrow> st x = ?st x"
        by (rule ll_add_dlist [where item = w]) (use w in auto)
      let ?s = "s\<lparr>terminate := (terminate s)(w := False), threads := threads s @ [w],
        at_of := (at_of s)(w := Locking), store := st, workes := Some w\<rparr>"
      have next_s: "create_workers malloc spawn n ?s = Some (r, s')"
        using Suc.prems(1) Some True st(1) by simp
      have "in_work ?s = in_work s"
        using sum_list_outside [OF w, of "at_of s" Locking] by (simp add: in_work_def)
      moreover have "at_of s x \<noteq> Gone" if "x \<in> set (threads s)" for x
        using inv Suc.prems(6) that by (auto simp: places_ok_def place_ok_def marks_ok_def)
      ultimately have "pool_inv [] (store ?s) ?s"
        using inv w st(2) Suc.prems(4-6)
        by (auto simp: pool_inv_def queue_ok_def locks_ok_def places_ok_def place_ok_def tasks_ok_def chain_ok_def
            marks_ok_def wake_ok_def holding_def)
      then show ?thesis using Suc.IH [OF next_s Suc.prems(2)] Suc.prems(4-6) by simp
    qed
  qed
qed simp

lemma create_inv:
  assumes "nThreadPoolCreate malloc spawn False n (blank_pool st) = Some (r, s)" "malloc_ok malloc"
  shows "pool_inv [] (store s) s" "r = None \<Longrightarrow> length (threads s) = (if n < 1 then 1 else nat n)"
proof -
  have "pool_inv [] (store (blank_pool st)) (blank_pool st)"
    by (simp add: pool_inv_def queue_ok_def locks_ok_def places_ok_def tasks_ok_def in_work_def chain_ok_def
        marks_ok_def wake_ok_def blank_pool_def)
  moreover have "(blank_pool st)\<lparr>jobs := None, workes := None, mtx := None\<rparr> = blank_pool st"
    by (simp add: blank_pool_def)
  ultimately show "pool_inv [] (store s) s" "r = None \<Longrightarrow> length (threads s) = (if n < 1 then 1 else nat n)"
    using create_workers_inv [of malloc spawn _ "blank_pool st" r s] assms
    by (auto simp: nThreadPoolCreate_def blank_pool_def split: if_splits)
qed

lemma pool_step_inv:
  assumes "pool_inv q c s" "pool_step s s'"
  shows "\<exists>q'. pool_inv q' c s'"
  using assms(2)
proof cases
  case (worker w)
  then show ?thesis using worker_inv [OF assms(1)] by blast
next
  case (spurious w)
  have "pool_inv q c (goto w Locking (s\<lparr>mtx := mtx s\<rparr>))"
    by (rule pool_inv_goto [OF assms(1)]) (use spurious in \<open>auto simp: place_ok_def holding_def\<close>)
  then show ?thesis using spurious by auto
next
  case (push job q' woken)
  moreover from this have "q' = q" using assms(1) dlist_unique by (auto simp: pool_inv_def queue_ok_def)
  ultimately show ?thesis using push_inv(1) [OF assms(1)] by blast
next
  case (client q' a v)
  moreover from this have "q' = q" using assms(1) dlist_unique by (auto simp: pool_inv_def queue_ok_def)
  ultimately show ?thesis using client_inv [OF assms(1)] by blast
next
  case destroy
  then show ?thesis using destroy_inv [OF assms(1)] by blast
qed

lemma pool_reach_inv: "pool_reach s \<Longrightarrow> \<exists>q c. pool_inv q c s"
proof (induction rule: pool_reach.induct)
  case (start malloc spawn n st r s)
  then show ?case using create_inv(1) by blast
next
  case (step s s')
  then show ?case using pool_step_inv by blast
qed

subsection \<open>What the workers do on their own\<close>

definition worker_step :: "pool \<Rightarrow> pool \<Rightarrow> bool" where
  "worker_step s s' \<longleftrightarrow> (\<exists>w \<in> set (threads s). thread_cb w s = Some s')"

definition working :: "pool \<Rightarrow> bool" where
  "working s \<longleftrightarrow> threads s \<noteq> [] \<and> (\<forall>w \<in> set (threads s). \<not> terminate s w)"

lemma thread_cb_frame:
  "thread_cb w s = Some s' \<Longrightarrow>
   threads s' = threads s \<and> terminate s' = terminate s \<and> pushed s' = pushed s \<and> destroyer s' = destroyer s"
  by (auto simp: thread_cb_def split: thread_at.splits if_splits option.splits)

lemma worker_steps_frame:
  "worker_step\<^sup>*\<^sup>* s s' \<Longrightarrow>
   threads s' = threads s \<and> terminate s' = terminate s \<and> pushed s' = pushed s \<and> destroyer s' = destroyer s"
  by (induction rule: rtranclp_induct) (auto simp: worker_step_def dest: thread_cb_frame)

lemma worker_steps_inv: "worker_step\<^sup>*\<^sup>* s s' \<Longrightarrow> \<exists>q. pool_inv q c s \<Longrightarrow> \<exists>q. pool_inv q c s'"
  by (induction rule: rtranclp_induct) (auto simp: worker_step_def dest: worker_inv)

lemma worker_stepI: "w \<in> set (threads s) \<Longrightarrow> thread_cb w s = Some s' \<Longrightarrow> worker_step s s'"
  by (auto simp: worker_step_def)

lemma worker_step_reach: "pool_reach s \<Longrightarrow> worker_step s s' \<Longrightarrow> pool_reach s'"
  by (auto simp: worker_step_def intro: pool_reach.step pool_step.worker)

text \<open>The workers come to take the task at the head of the queue \<open>q\<close>.\<close>

definition served :: "links \<Rightarrow> addr list \<Rightarrow> pool \<Rightarrow> bool" where
  "served c q s \<longleftrightarrow> (\<exists>s' j q'. worker_step\<^sup>*\<^sup>* s s' \<and> q = j # q' \<and> pool_inv q' c s' \<and> working s')"

lemma served_step: "worker_step s t \<Longrightarrow> served c q t \<Longrightarrow> served c q s"
  unfolding served_def by (blast intro: converse_rtranclp_into_rtranclp)

lemma leaving_takes:
  assumes inv: "pool_inv q c s" and wk: "working s" and w: "w \<in> set (threads s)" "at_of s w = Leaving"
  shows "served c q s"
proof -
  have t: "\<not> terminate s w" using wk w by (simp add: working_def)
  then obtain s' where cb: "thread_cb w s = Some s'" using take_task [OF inv w] by blast
  obtain j q' where s': "q = j # q'" "pool_inv q' c s'" "terminate s' = terminate s" "threads s' = threads s"
    by (rule pool_inv_take [OF inv w t cb]) (rule that)
  have "worker_step\<^sup>*\<^sup>* s s'" using worker_stepI [OF w(1) cb] by blast
  moreover have "working s'" using wk s' by (simp add: working_def)
  ultimately show ?thesis using s'(1,2) unfolding served_def by blast
qed

lemma testing_takes:
  assumes inv: "pool_inv q c s" and wk: "working s" and w: "w \<in> set (threads s)" "at_of s w = Testing"
    and j: "jobs s \<noteq> None"
  shows "served c q s"
proof (rule served_step)
  let ?s = "goto w Leaving (s\<lparr>mtx := mtx s\<rparr>)"
  obtain i where "jobs s = Some i" using j by blast
  then show "worker_step s ?s" by (intro worker_stepI [OF w(1)]) (simp add: thread_cb_def w)
  have "mtx s = Some w" using inv w by (auto simp: pool_inv_def locks_ok_def holding_def)
  then have "pool_inv q c ?s"
    using j w by (intro pool_inv_goto [OF inv w(1)]) (auto simp: holding_def place_ok_def)
  then show "served c q ?s" by (rule leaving_takes [where w = w]) (use w wk in \<open>auto simp: working_def\<close>)
qed

lemma locking_takes:
  assumes inv: "pool_inv q c s" and wk: "working s" and w: "w \<in> set (threads s)" "at_of s w = Locking"
    and j: "jobs s \<noteq> None" and m: "mtx s = None"
  shows "served c q s"
proof (rule served_step)
  let ?s = "goto w Testing (s\<lparr>mtx := Some w\<rparr>)"
  show "worker_step s ?s" by (rule worker_stepI [OF w(1)]) (simp add: thread_cb_def w m)
  have "pool_inv q c ?s"
    using j w m by (intro pool_inv_goto [OF inv w(1)]) (auto simp: holding_def place_ok_def)
  then show "served c q ?s" by (rule testing_takes [where w = w]) (use w wk j in \<open>auto simp: working_def\<close>)
qed

lemma worker_awake:
  assumes inv: "pool_inv q c s" and wk: "working s" and j: "jobs s \<noteq> None" and m: "mtx s = None"
  obtains w where "w \<in> set (threads s)" "at_of s w = Locking" | w i where "w \<in> set (threads s)" "at_of s w = Running i"
proof -
  note inv' = inv [unfolded pool_inv_def]
  obtain w where w: "w \<in> set (threads s)" "at_of s w \<noteq> Waiting"
    using inv' wk j by (auto simp: wake_ok_def working_def)
  moreover have "\<not> holding (at_of s w)" using inv' m w by (auto simp: locks_ok_def)
  moreover have "place_ok (jobs s) False (at_of s w)"
    using inv' wk w by (auto simp: places_ok_def working_def)
  ultimately show thesis using that by (cases "at_of s w") (auto simp: holding_def place_ok_def)
qed

text \<open>While a task is queued, some worker comes to take one.\<close>

lemma queue_served:
  assumes inv: "pool_inv q c s" and wk: "working s" and j: "jobs s \<noteq> None"
  shows "served c q s"
proof (cases "mtx s")
  case (Some v)
  note inv' = inv [unfolded pool_inv_def]
  have v: "v \<in> set (threads s)" "holding (at_of s v)" using inv' Some by (auto simp: locks_ok_def)
  then have "at_of s v = Testing \<or> at_of s v = Leaving"
    using inv' j by (auto simp: places_ok_def place_ok_def holding_def)
  then show ?thesis using testing_takes [OF inv wk v(1) _ j] leaving_takes [OF inv wk v(1)] by blast
next
  case None
  show ?thesis
  proof (rule worker_awake [OF inv wk j None])
    fix w assume "w \<in> set (threads s)" "at_of s w = Locking"
    then show ?thesis by (rule locking_takes [OF inv wk _ _ j None])
  next
    fix w i assume w: "w \<in> set (threads s)" "at_of s w = Running i"
    let ?s = "goto w Locking (s\<lparr>finished := i # finished s\<rparr>)"
    have "served c q ?s"
      by (rule locking_takes [where w = w, OF pool_inv_run [OF inv w]]) (use w wk j None in \<open>auto simp: working_def\<close>)
    moreover have "worker_step s ?s" by (rule worker_stepI [OF w(1)]) (simp add: thread_cb_def w)
    ultimately show ?thesis by (blast intro: served_step)
  qed
qed

lemma jobs_queue: "pool_inv q c s \<Longrightarrow> jobs s = None \<longleftrightarrow> q = []"
  by (cases q) (auto simp: pool_inv_def queue_ok_def dlist_def)

lemma queue_emptied:
  "pool_inv q c s \<Longrightarrow> working s \<Longrightarrow> \<exists>s'. worker_step\<^sup>*\<^sup>* s s' \<and> pool_inv [] c s' \<and> working s'"
proof (induction q arbitrary: s)
  case (Cons a q)
  have "jobs s \<noteq> None" using jobs_queue [OF Cons.prems(1)] by simp
  then obtain s' j q' where s': "worker_step\<^sup>*\<^sup>* s s'" "a # q = j # q'" "pool_inv q' c s'" "working s'"
    using queue_served [OF Cons.prems] by (auto simp: served_def)
  then obtain t where "worker_step\<^sup>*\<^sup>* s' t" "pool_inv [] c t" "working t" using Cons.IH [of s'] by auto
  with s'(1) show ?case by (meson rtranclp_trans)
qed blast

text \<open>Tasks in work come to their end.\<close>

lemma in_work_member: "in_work s \<noteq> {#} \<Longrightarrow> \<exists>w \<in> set (threads s). \<exists>j. at_of s w = Running j"
proof (rule ccontr)
  assume "in_work s \<noteq> {#}" and "\<not> (\<exists>w \<in> set (threads s). \<exists>j. at_of s w = Running j)"
  moreover from this have "task_at (at_of s w) = {#}" if "w \<in> set (threads s)" for w
    using that by (cases "at_of s w") auto
  then have "in_work s = (\<Sum>w\<leftarrow>threads s. {#})" unfolding in_work_def
    by (intro arg_cong [where f = sum_list] map_cong) auto
  then have "in_work s = {#}" by simp
  ultimately show False by simp
qed

lemma work_finished:
  "pool_inv q c s \<Longrightarrow> \<exists>s'. worker_step\<^sup>*\<^sup>* s s' \<and> pool_inv q c s' \<and> in_work s' = {#}"
proof (induction "size (in_work s)" arbitrary: s)
  case 0
  then show ?case by auto
next
  case (Suc n)
  then have "in_work s \<noteq> {#}" by auto
  then obtain w j where w: "w \<in> set (threads s)" "at_of s w = Running j" using in_work_member by blast
  let ?s = "goto w Locking (s\<lparr>finished := j # finished s\<rparr>)"
  have inv: "pool_inv q c ?s" by (rule pool_inv_run [OF Suc.prems w])
  have "in_work ?s + {#j#} = in_work s"
    using in_work_goto [of s w Locking] w Suc.prems by (simp add: pool_inv_def queue_ok_def in_work_def)
  with Suc.hyps(2) have "n = size (in_work ?s)" by (metis size_add_mset add_mset_add_single nat.inject)
  from Suc.hyps(1) [OF this inv] obtain s' where "worker_step\<^sup>*\<^sup>* ?s s'" "pool_inv q c s'" "in_work s' = {#}" by blast
  moreover have "worker_step s ?s" by (rule worker_stepI [OF w(1)]) (use w in \<open>simp add: thread_cb_def\<close>)
  ultimately show ?case by (meson converse_rtranclp_into_rtranclp)
qed

lemma queue_emptied_finished:
  assumes "pool_inv q c s" "working s"
  shows "\<exists>s'. worker_step\<^sup>*\<^sup>* s s' \<and> pool_inv [] c s' \<and> in_work s' = {#}"
proof -
  obtain t where t: "worker_step\<^sup>*\<^sup>* s t" "pool_inv [] c t" using queue_emptied [OF assms] by blast
  obtain s' where "worker_step\<^sup>*\<^sup>* t s'" "pool_inv [] c s'" "in_work s' = {#}" using work_finished [OF t(2)] by blast
  with t(1) show ?thesis by (blast intro: rtranclp_trans)
qed

subsection \<open>After the pool is destroyed\<close>

fun rank :: "thread_at \<Rightarrow> nat" where
  "rank (Running _) = 6" | "rank Locking = 5" | "rank Testing = 4" | "rank Checking = 3" | "rank Leaving = 2"
| "rank Freeing = 1" | "rank _ = 0"

definition ranks :: "pool \<Rightarrow> nat" where
  "ranks s = (\<Sum>w\<leftarrow>threads s. rank (at_of s w))"

lemma sum_list_less:
  "w \<in> set ws \<Longrightarrow> f w < g w \<Longrightarrow> (\<And>v. f v \<le> g v) \<Longrightarrow> (\<Sum>v\<leftarrow>ws. f v) < (\<Sum>v\<leftarrow>ws. g v)"
  for f g :: "addr \<Rightarrow> nat"
proof (induction ws)
  case (Cons x ws)
  have "(\<Sum>v\<leftarrow>ws. f v) \<le> (\<Sum>v\<leftarrow>ws. g v)" by (rule sum_list_mono) (rule Cons.prems(3))
  with Cons show ?case by (cases "x = w") (auto intro: add_less_le_mono add_le_less_mono)
qed simp

lemma ranks_less:
  assumes "w \<in> set (threads s)" "threads s' = threads s" "at_of s' = (at_of s)(w := p)" "rank p < rank (at_of s w)"
  shows "ranks s' < ranks s"
  unfolding ranks_def assms(2) by (rule sum_list_less [OF assms(1)]) (use assms in simp_all)

lemma destroyed_moves:
  assumes "terminate s w" "at_of s w \<notin> {Waiting, Dozing, Gone, Crashed}" "at_of s w = Locking \<Longrightarrow> mtx s = None"
  shows "\<exists>s' p. thread_cb w s = Some s' \<and> at_of s' = (at_of s)(w := p) \<and> rank p < rank (at_of s w)"
  using assms by (cases "at_of s w") (auto simp: thread_cb_def)

lemma destroyed_progress:
  assumes inv: "pool_inv q c s" and d: "destroyer s = Destroyed" and w: "w \<in> set (threads s)" "at_of s w \<noteq> Gone"
  shows "\<exists>s'. worker_step s s' \<and> ranks s' < ranks s"
proof -
  note inv' = inv [unfolded pool_inv_def]
  have ok: "terminate s v" "at_of s v \<notin> {Waiting, Dozing, Crashed}" if "v \<in> set (threads s)" for v
    using inv' d that by (auto simp: marks_ok_def marked_def wake_ok_def places_ok_def place_ok_def)
  obtain v where v: "v \<in> set (threads s)" "at_of s v \<noteq> Gone" "at_of s v = Locking \<Longrightarrow> mtx s = None"
  proof (cases "mtx s")
    case None
    then show thesis using that w by blast
  next
    case (Some v)
    then have "v \<in> set (threads s)" "holding (at_of s v)" using inv' by (auto simp: locks_ok_def)
    then show thesis using that [of v] by (auto simp: holding_def)
  qed
  have "at_of s v \<notin> {Waiting, Dozing, Gone, Crashed}" using ok(2) [OF v(1)] v(2) by simp
  from destroyed_moves [OF ok(1) [OF v(1)] this v(3)]
  obtain s' p where s': "thread_cb v s = Some s'" "at_of s' = (at_of s)(v := p)" "rank p < rank (at_of s v)" by blast
  then show ?thesis using ranks_less [OF v(1) _ s'(2,3)] worker_stepI [OF v(1) s'(1)] thread_cb_frame [OF s'(1)] by blast
qed

lemma destroyed_ends:
  "pool_inv q c s \<Longrightarrow> destroyer s = Destroyed \<Longrightarrow>
   \<exists>s'. worker_step\<^sup>*\<^sup>* s s' \<and> (\<forall>w \<in> set (threads s). at_of s' w = Gone)"
proof (induction "ranks s" arbitrary: q s rule: less_induct)
  case less
  show ?case
  proof (cases "\<forall>w \<in> set (threads s). at_of s w = Gone")
    case False
    then obtain t where t: "worker_step s t" "ranks t < ranks s" using destroyed_progress [OF less.prems] by blast
    then obtain q' where "pool_inv q' c t" using worker_inv [OF less.prems(1)] by (auto simp: worker_step_def)
    moreover have "threads t = threads s" "destroyer t = Destroyed"
      using t(1) less.prems(2) by (auto simp: worker_step_def dest: thread_cb_frame)
    ultimately show ?thesis using less.hyps [OF t(2)] t(1) by (metis converse_rtranclp_into_rtranclp)
  qed blast
qed

subsection \<open>The properties of the pool\<close>


text \<open>C4: No wake-up is lost and nothing deadlocks: from every reachable state of a pool that is not being
  destroyed, the workers on their own can come to a state in which all submitted tasks have been executed.\<close>

lemma pool_runs_tasks:
  assumes "pool_reach s" "working s"
  shows "\<exists>s'. worker_step\<^sup>*\<^sup>* s s' \<and> jobs s' = None \<and> mset (finished s') = mset (pushed s)"
proof -
  from pool_reach_inv [OF assms(1)] obtain q c where "pool_inv q c s" by blast
  from queue_emptied_finished [OF this assms(2)] obtain s' where
    s': "worker_step\<^sup>*\<^sup>* s s'" "pool_inv [] c s'" "in_work s' = {#}" by blast
  then show ?thesis using worker_steps_frame [OF s'(1)] by (auto simp: pool_inv_def queue_ok_def tasks_ok_def)
qed

text \<open>C6: When \<^verbatim>\<open>nThreadPoolDestory\<close> has returned, no worker sleeps, and the workers come to their end.\<close>

lemma pool_destroy_ends:
  assumes "pool_reach s" "destroyer s = Destroyed"
  shows "list_all (\<lambda>w. at_of s w \<noteq> Waiting) (threads s) \<and>
         (\<exists>s'. worker_step\<^sup>*\<^sup>* s s' \<and> list_all (\<lambda>w. at_of s' w = Gone) (threads s))"
proof -
  from pool_reach_inv [OF assms(1)] obtain q c where "pool_inv q c s" by blast
  with destroyed_ends [OF this assms(2)] assms(2) show ?thesis
    by (auto simp: pool_inv_def wake_ok_def list_all_iff)
qed

text \<open>A schedule says which thread makes each step: a worker, or (\<open>None\<close>) the one that destroys the pool.\<close>

fun schedule :: "addr option list \<Rightarrow> pool \<Rightarrow> pool option" where
  "schedule [] s = Some s"
| "schedule (None # ts) s = Option.bind (nThreadPoolDestory s) (schedule ts)"
| "schedule (Some w # ts) s = (if w \<in> set (threads s) then Option.bind (thread_cb w s) (schedule ts) else None)"

lemma schedule_reach: "pool_reach s \<Longrightarrow> schedule ts s = Some s' \<Longrightarrow> pool_reach s'"
proof (induction ts s rule: schedule.induct)
  case (2 ts s)
  then show ?case by (auto split: bind_splits intro: pool_reach.step pool_step.destroy)
next
  case (3 w ts s)
  then show ?case by (auto split: bind_splits if_splits intro: pool_reach.step pool_step.worker)
qed simp

definition first_unused :: "links \<Rightarrow> addr option" where
  "first_unused st = find (\<lambda>a. st a = None) [1, 2, 3]"

lemma first_unused_ok: "malloc_ok first_unused"
  by (auto simp: malloc_ok_def first_unused_def find_Some_iff)

definition demo_node :: node where "demo_node = \<lparr>prev_of = None, next_of = None\<rparr>"

text \<open>A pool with one worker, at address 1, and a client's task at address 5.\<close>

definition demo_pool :: pool where
  "demo_pool =
     (blank_pool [5 \<mapsto> demo_node, 1 \<mapsto> demo_node])\<lparr>workes := Some 1, threads := [1], at_of := (\<lambda>_. Gone)(1 := Locking)\<rparr>"

lemma demo_pool_reach: "pool_reach demo_pool"
proof (rule pool_reach.start [OF first_unused_ok])
  have "(\<lambda>_. False)(Suc 0 := False) = (\<lambda>_. False)" by auto
  then show "nThreadPoolCreate first_unused (\<lambda>_. 0) False 1 (blank_pool [5 \<mapsto> demo_node]) = Some (None, demo_pool)"
    by (simp add: nThreadPoolCreate_def blank_pool_def first_unused_def ll_add_def set_prev_def set_next_def demo_node_def
        demo_pool_def fun_upd_twist)
qed

definition demo_pushed :: pool where
  "demo_pushed = demo_pool\<lparr>jobs := Some 5, pushed := [5]\<rparr>"

lemma demo_pushed_reach: "pool_reach demo_pushed"
proof (rule pool_reach.step [OF demo_pool_reach], rule pool_step.push [where q = "[]" and job = 5 and woken = None])
  show "nThreadPoolPushTask None 5 demo_pool = Some demo_pushed"
    by (auto simp: nThreadPoolPushTask_def demo_pool_def demo_pushed_def blank_pool_def ll_add_def set_prev_def set_next_def
        cond_signal_def demo_node_def)
qed (simp_all add: demo_pool_def blank_pool_def can_wake_def)


lemma pool_runs_tasks_witness: "\<exists>s'. worker_step\<^sup>*\<^sup>* demo_pushed s' \<and> mset (finished s') = {#5#}"
  using pool_runs_tasks [OF demo_pushed_reach]
  by (auto simp: working_def demo_pushed_def demo_pool_def blank_pool_def)

lemmas pool_run_defs = nThreadPoolDestory_def thread_cb_def demo_pool_def blank_pool_def demo_node_def cond_broadcast_def

lemma demo_destroyed:
  obtains s where "pool_reach s" "destroyer s = Destroyed" "threads s = [1]"
proof -
  have "\<exists>s. schedule [None, None, None, None, None] demo_pool = Some s \<and> destroyer s = Destroyed \<and> threads s = [1]"
    by (simp add: pool_run_defs)
  then show thesis using that schedule_reach [OF demo_pool_reach] by blast
qed

lemma pool_destroy_ends_witness:
  "\<exists>s s'. destroyer s = Destroyed \<and> threads s = [1] \<and> worker_step\<^sup>*\<^sup>* s s' \<and> at_of s' 1 = Gone"
proof (rule demo_destroyed)
  fix s assume s: "pool_reach s" "destroyer s = Destroyed" "threads s = [1]"
  show ?thesis using pool_destroy_ends [OF s(1,2)] s(2,3) by auto
qed

text \<open>A worker that sees \<^verbatim>\<open>terminate\<close> frees itself at once, but the destroying thread still has to read its
  \<^verbatim>\<open>next\<close>.\<close>

lemma pool_destroy_use_after_free: "\<exists>s. pool_reach s \<and> destroyer s = Faulted"
proof -
  have "\<exists>s. schedule [Some 1, Some 1, None, None, Some 1, Some 1, Some 1, None] demo_pool = Some s \<and> destroyer s = Faulted"
    by (simp add: pool_run_defs)
  then show ?thesis using schedule_reach [OF demo_pool_reach] by blast
qed

text \<open>The task that was submitted last is executed first.\<close>

lemma newest_task_first:
  assumes "pool_inv (new # old # q) c s" "w \<in> set (threads s)" "at_of s w = Leaving" "\<not> terminate s w"
  shows "\<exists>s'. thread_cb w s = Some s' \<and> at_of s' w = Running new \<and> pool_inv (old # q) c s'"
proof -
  obtain s' where "thread_cb w s = Some s'" using take_task [OF assms] by blast
  then show ?thesis by (rule pool_inv_take [OF assms]) (use \<open>thread_cb w s = Some s'\<close> in auto)
qed

end
