(* ===== verification/Dma.thy ===== *)
theory Dma
  imports Kernel
begin

text \<open>
  The DMA example, \<^verbatim>\<open>linux_driver/code/DMA\<close> (\<^verbatim>\<open>s3c_DMA.c\<close>): an \<^verbatim>\<open>ioctl\<close> fills two buffers and copies one to
  the other, by a loop or by DMA channel 3.  In the second case it programs the channel, sleeps until the
  interrupt handler wakes it, and compares the buffers.

  The channel is specified by what the S3C2440 manual says of its registers; it runs beside the processor,
  so the driver, the channel, the interrupt and signals are the steps of a transition relation.  Memory is
  physical; \<open>src\<close> and \<open>dst\<close> are the addresses that \<^verbatim>\<open>dma_alloc_writecombine\<close> returned.
\<close>

definition BUF_SIZE :: nat where
  "BUF_SIZE = 512 * 1024"

abbreviation MEM_CPY_NO_DMA :: u32 where "MEM_CPY_NO_DMA \<equiv> 0"
abbreviation MEM_CPY_DMA :: u32 where "MEM_CPY_DMA \<equiv> 1"

type_synonym bytes = "u32 \<Rightarrow> u8"

subsection \<open>The functions on memory\<close>

definition in_dma_buf :: "u32 \<Rightarrow> u32 \<Rightarrow> bool" where
  "in_dma_buf p a \<longleftrightarrow> unat (a - p) < BUF_SIZE"

definition memset_buf :: "u32 \<Rightarrow> u8 \<Rightarrow> bytes \<Rightarrow> bytes" where
  "memset_buf p v m = (\<lambda>a. if in_dma_buf p a then v else m a)"

text \<open>The first \<open>n\<close> rounds of \<^verbatim>\<open>dst[i] = src[i]\<close>.\<close>

fun copy_rounds :: "u32 \<Rightarrow> u32 \<Rightarrow> nat \<Rightarrow> bytes \<Rightarrow> bytes" where
  "copy_rounds src dst 0 m = m"
| "copy_rounds src dst (Suc n) m =
     (let m = copy_rounds src dst n m in m(dst + of_nat n := m (src + of_nat n)))"

definition same_bufs :: "u32 \<Rightarrow> u32 \<Rightarrow> bytes \<Rightarrow> bool" where
  "same_bufs p q m \<longleftrightarrow> list_all (\<lambda>i. m (p + of_nat i) = m (q + of_nat i)) [0..<BUF_SIZE]"

subsection \<open>The driver and the channel\<close>

record s3c_dma_regs =
  disrc :: u32
  disrcc :: u32
  didst :: u32
  didstc :: u32
  dcon :: u32
  dmasktrig :: u32

text \<open>A transfer that runs: where the next unit comes from and goes to, and how many are left.\<close>

record transfer =
  curr_src :: u32
  curr_dst :: u32
  left_units :: nat

text \<open>What happens in the machine: the memory, the channel's registers and its transfer, the interrupt that
  it has raised, the driver's flag, whether the process sleeps in the call, and the kernel's messages.\<close>

record machine =
  ram :: bytes
  dma_regs :: s3c_dma_regs
  running :: "transfer option"
  irq_raised :: bool
  ev_dma :: int
  asleep :: bool
  messages :: "string list"

definition printk :: "string \<Rightarrow> machine \<Rightarrow> machine" where
  "printk msg s = s\<lparr>messages := messages s @ [msg]\<rparr>"

text \<open>A store to \<^verbatim>\<open>DMASKTRIG\<close> with the channel on and a software trigger starts the transfer that the other
  registers describe: in whole-service mode as many units as the count says, else one.  The driver's
  settings are a unit of one byte, both addresses going up.\<close>

definition trigger :: "s3c_dma_regs \<Rightarrow> transfer option" where
  "trigger r =
     (if bit (dmasktrig r) 1 \<and> bit (dmasktrig r) 0 \<and> \<not> bit (dcon r) 23 then
        Some \<lparr>curr_src = disrc r, curr_dst = didst r,
              left_units = (if bit (dcon r) 27 then unat (dcon r AND 0xFFFFF) else 1)\<rparr>
      else None)"

definition set_regs :: "u32 \<Rightarrow> u32 \<Rightarrow> s3c_dma_regs" where
  "set_regs src_phys dst_phys =
     \<lparr>disrc = src_phys, disrcc = push_bit 1 0 OR push_bit 0 0, didst = dst_phys,
      didstc = push_bit 2 0 OR push_bit 1 0 OR push_bit 0 0,
      dcon = push_bit 30 1 OR push_bit 29 1 OR push_bit 28 0 OR push_bit 27 1 OR push_bit 23 0 OR push_bit 20 0 OR
             push_bit 0 (of_nat BUF_SIZE),
      dmasktrig = push_bit 1 1 OR push_bit 0 1\<rparr>"

text \<open>The call up to its return, or up to where it sleeps.\<close>

definition s3c_dma_ioctl :: "u32 \<Rightarrow> u32 \<Rightarrow> u32 \<Rightarrow> machine \<Rightarrow> machine" where
  "s3c_dma_ioctl src dst cmd s =
     (let s = s\<lparr>ram := memset_buf src 0xAA (ram s)\<rparr>;
          s = s\<lparr>ram := memset_buf dst 0x55 (ram s)\<rparr>
      in if cmd = MEM_CPY_NO_DMA then
           let s = s\<lparr>ram := copy_rounds src dst BUF_SIZE (ram s)\<rparr>
           in if same_bufs src dst (ram s) then printk ''MEM_CPY_NO_DMA OK'' s else printk ''MEM_CPY_DMA ERROR'' s
         else if cmd = MEM_CPY_DMA then
           let s = s\<lparr>ev_dma := 0\<rparr>;
               s = s\<lparr>dma_regs := set_regs src dst\<rparr>
           in s\<lparr>running := trigger (dma_regs s), asleep := True\<rparr>
         else s)"

text \<open>What it does when it wakes; the result of \<^verbatim>\<open>wait_event_interruptible\<close> is not looked at.\<close>

definition s3c_dma_woken :: "u32 \<Rightarrow> u32 \<Rightarrow> machine \<Rightarrow> machine" where
  "s3c_dma_woken src dst s =
     (let s = s\<lparr>asleep := False\<rparr>
      in if same_bufs src dst (ram s) then printk ''MEM_CPY_DMA OK'' s else printk ''MEM_CPY_DMA ERROR'' s)"

definition s3c_dma_irq :: "machine \<Rightarrow> machine" where
  "s3c_dma_irq s = s\<lparr>ev_dma := 1, irq_raised := False\<rparr>"

text \<open>One unit of a transfer; the last one ends it and raises the interrupt, if it is enabled (bit 29).\<close>

definition dma_unit :: "transfer \<Rightarrow> machine \<Rightarrow> machine" where
  "dma_unit t s =
     (let s = s\<lparr>ram := (ram s)(curr_dst t := ram s (curr_src t))\<rparr>
      in if left_units t \<le> 1 then s\<lparr>running := None, irq_raised := irq_raised s \<or> bit (dcon (dma_regs s)) 29\<rparr>
         else s\<lparr>running := Some \<lparr>curr_src = curr_src t + 1, curr_dst = curr_dst t + 1, left_units = left_units t - 1\<rparr>\<rparr>)"

inductive dma_step :: "u32 \<Rightarrow> u32 \<Rightarrow> bool \<Rightarrow> machine \<Rightarrow> machine \<Rightarrow> bool" for src dst signals where
  ioctl: "\<not> asleep s \<Longrightarrow> dma_step src dst signals s (s3c_dma_ioctl src dst cmd s)"
| unit: "running s = Some t \<Longrightarrow> dma_step src dst signals s (dma_unit t s)"
| irq: "irq_raised s \<Longrightarrow> dma_step src dst signals s (s3c_dma_irq s)"
| woken: "asleep s \<Longrightarrow> ev_dma s \<noteq> 0 \<Longrightarrow> dma_step src dst signals s (s3c_dma_woken src dst s)"
| signal: "signals \<Longrightarrow> asleep s \<Longrightarrow> dma_step src dst signals s (s3c_dma_woken src dst s)"

definition dma_idle :: "machine \<Rightarrow> bool" where
  "dma_idle s \<longleftrightarrow> running s = None \<and> \<not> irq_raised s \<and> \<not> asleep s \<and> messages s = []"

inductive dma_reach :: "u32 \<Rightarrow> u32 \<Rightarrow> bool \<Rightarrow> machine \<Rightarrow> bool" for src dst signals where
  start: "dma_idle s \<Longrightarrow> dma_reach src dst signals s"
| step: "dma_reach src dst signals s \<Longrightarrow> dma_step src dst signals s s' \<Longrightarrow> dma_reach src dst signals s'"

subsection \<open>Loading and unloading\<close>

datatype dma_resource = Irq_dma3 | Src_buffer | Dst_buffer | Char_device | Device_class | Device_node | Mapped_regs

text \<open>What the module holds; the arguments say whether the interrupt line, and memory for the two buffers,
  can be had.  The other calls are not looked at by the code.\<close>

definition s3c_dma_init :: "bool \<Rightarrow> bool \<Rightarrow> bool \<Rightarrow> dma_resource list \<Rightarrow> int \<times> dma_resource list" where
  "s3c_dma_init irq_ok src_ok dst_ok held =
     (if \<not> irq_ok then (- EBUSY, held)
      else let held = Irq_dma3 # held
      in if \<not> src_ok then (- ENOMEM, remove1 Irq_dma3 held)
      else let held = Src_buffer # held
      in if \<not> dst_ok then (- ENOMEM, remove1 Irq_dma3 (remove1 Src_buffer held))
      else (0, Mapped_regs # Device_node # Device_class # Char_device # Dst_buffer # held))"

definition s3c_dma_exit :: "dma_resource list \<Rightarrow> dma_resource list" where
  "s3c_dma_exit held =
     (let held = remove1 Mapped_regs held;
          held = remove1 Device_node held;
          held = remove1 Device_class held;
          held = remove1 Char_device held;
          held = remove1 Src_buffer held;
          held = remove1 Dst_buffer held
      in remove1 Irq_dma3 held)"

text \<open>A failed set-up leaves nothing behind, and neither does unloading after one that succeeded.\<close>

lemma dma_init_clean:
  assumes "s3c_dma_init irq_ok src_ok dst_ok held = (r, held')"
  shows "r < 0 \<and> held' = held \<and> \<not> (irq_ok \<and> src_ok \<and> dst_ok) \<or>
         r = 0 \<and> s3c_dma_exit held' = held \<and> irq_ok \<and> src_ok \<and> dst_ok"
  using assms by (auto simp: s3c_dma_init_def s3c_dma_exit_def Let_def split: if_splits)

subsection \<open>The copies\<close>

lemma BUF_SIZE_bounds: "0 < BUF_SIZE" "BUF_SIZE < 2 ^ 20" by (simp_all add: BUF_SIZE_def)



definition disjoint_bufs :: "u32 \<Rightarrow> u32 \<Rightarrow> bool" where
  "disjoint_bufs p q \<longleftrightarrow> (\<forall>a. \<not> (in_dma_buf p a \<and> in_dma_buf q a))"







lemma trigger_set_regs:
  "trigger (set_regs src dst) = Some \<lparr>curr_src = src, curr_dst = dst, left_units = BUF_SIZE\<rparr>"
  "bit (dcon (set_regs src dst)) 29"
  by (simp_all add: trigger_def set_regs_def BUF_SIZE_def)

subsection \<open>The invariant\<close>










subsection \<open>The transfer comes to its end\<close>






definition demo_machine :: machine where
  "demo_machine =
     \<lparr>ram = (\<lambda>_. 0), dma_regs = set_regs 0 0, running = None, irq_raised = False, ev_dma = 0, asleep = False, messages = []\<rparr>"

lemma demo_disjoint: "disjoint_bufs 0x33000000 0x33100000"
  unfolding disjoint_bufs_def
proof
  fix a :: u32
  have far: "\<not> unat (x + 0x100000) < 0x80000" if "unat x < 0x80000" for x :: u32
    using that by (simp only: unat_word_ariths) (simp add: take_bit_eq_mod)
  have "a - 0x33000000 = (a - 0x33100000) + 0x100000" "BUF_SIZE = 0x80000" by (simp_all add: BUF_SIZE_def)
  then show "\<not> (in_dma_buf 0x33000000 a \<and> in_dma_buf 0x33100000 a)"
    unfolding in_dma_buf_def using far by metis
qed

lemma demo_asleep:
  "dma_reach 0x33000000 0x33100000 sig (s3c_dma_ioctl 0x33000000 0x33100000 MEM_CPY_DMA demo_machine)"
  by (rule dma_reach.step [OF dma_reach.start dma_step.ioctl]) (simp_all add: demo_machine_def dma_idle_def)


text \<open>A signal makes the call compare the buffers before the transfer is through.\<close>

lemma dma_signal_error:
  "\<exists>s. dma_reach 0x33000000 0x33100000 True s \<and> messages s = [''MEM_CPY_DMA ERROR''] \<and> running s \<noteq> None"
proof -
  let ?s = "s3c_dma_ioctl 0x33000000 0x33100000 MEM_CPY_DMA demo_machine"
  have a: "asleep ?s" by (simp add: s3c_dma_ioctl_def)
  have b: "in_dma_buf 0x33000000 0x33000000" "in_dma_buf 0x33100000 0x33100000" using BUF_SIZE_bounds by (simp_all add: in_dma_buf_def)
  then have "\<not> in_dma_buf 0x33100000 0x33000000" using demo_disjoint by (auto simp: disjoint_bufs_def)
  with b have "ram ?s 0x33000000 \<noteq> ram ?s 0x33100000" by (simp add: s3c_dma_ioctl_def memset_buf_def)
  then have "\<not> same_bufs 0x33000000 0x33100000 (ram ?s)"
    using BUF_SIZE_bounds(1) by (auto simp: same_bufs_def list_all_iff intro!: bexI [of _ 0])
  then have "messages (s3c_dma_woken 0x33000000 0x33100000 ?s) = [''MEM_CPY_DMA ERROR'']"
    "running (s3c_dma_woken 0x33000000 0x33100000 ?s) \<noteq> None"
    by (simp_all add: s3c_dma_woken_def printk_def) (simp_all add: s3c_dma_ioctl_def demo_machine_def trigger_set_regs)
  then show ?thesis using dma_reach.step [OF demo_asleep dma_step.signal [OF TrueI a]] by blast
qed

end
