(* ===== verification/Regedit.thy ===== *)
theory Regedit
  imports Kernel Printf
begin

text \<open>
  The register editor of the debugging examples, \<^verbatim>\<open>26_debug_register\<close>: the driver \<^verbatim>\<open>ker_rw.c\<close>, which loads
  and stores cells of physical memory for a process, and the program \<^verbatim>\<open>regeditor.c\<close> on top of it.  The two
  talk through a buffer of two words, an address and a value.

  Arguments are \<open>mapped\<close>, whether \<^verbatim>\<open>ioremap\<close> can map an address (the driver does not look, so a failure is
  a null pointer, \<open>None\<close>), the answer of \<^verbatim>\<open>open\<close>, the C library's \<^verbatim>\<open>strtoul\<close> with base 0, and the values
  that the program's buffer has before it is set.
\<close>

subsection \<open>The driver\<close>

abbreviation KER_RW_R8 :: u32 where "KER_RW_R8 \<equiv> 0"
abbreviation KER_RW_R16 :: u32 where "KER_RW_R16 \<equiv> 1"
abbreviation KER_RW_R32 :: u32 where "KER_RW_R32 \<equiv> 2"
abbreviation KER_RW_W8 :: u32 where "KER_RW_W8 \<equiv> 3"
abbreviation KER_RW_W16 :: u32 where "KER_RW_W16 \<equiv> 4"
abbreviation KER_RW_W32 :: u32 where "KER_RW_W32 \<equiv> 5"

text \<open>The result is that of the call, the buffer of the process afterwards, and the history.\<close>

definition ker_rw_ioctl ::
  "bus \<Rightarrow> (u32 \<Rightarrow> bool) \<Rightarrow> u32 \<Rightarrow> u32 \<times> u32 \<Rightarrow> hist \<Rightarrow> (int \<times> (u32 \<times> u32) \<times> hist) option" where
  "ker_rw_ioctl b mapped cmd buf h =
     (let (addr, val) = buf in
      if cmd \<in> {KER_RW_R8, KER_RW_R16, KER_RW_R32, KER_RW_W8, KER_RW_W16, KER_RW_W32} \<and> \<not> mapped addr then None
      else if cmd = KER_RW_R8 then (let (val, h) = rd8 b addr h in Some (0, (addr, ucast val), h))
      else if cmd = KER_RW_R16 then (let (val, h) = rd16 b addr h in Some (0, (addr, ucast val), h))
      else if cmd = KER_RW_R32 then (let (val, h) = rd32 b addr h in Some (0, (addr, val), h))
      else if cmd = KER_RW_W8 then Some (0, (addr, val), wr8 addr (ucast val) h)
      else if cmd = KER_RW_W16 then Some (0, (addr, val), wr16 addr (ucast val) h)
      else if cmd = KER_RW_W32 then Some (0, (addr, val), wr32 addr val h)
      else Some (0, (addr, val), h))"

subsection \<open>The program\<close>

definition print_usage :: "string \<Rightarrow> string" where
  "print_usage file =
     ''Usage:'' @ [CHR 0x0A] @ file @ '' <r8 | r16 | r32> <phy addr> [num]'' @ [CHR 0x0A] @
     file @ '' <w8 | w16 | w32> <phy addr> <val>'' @ [CHR 0x0A]"

text \<open>One line of a dump: \<^verbatim>\<open>"%02d. [%08x] = %02x\n"\<close>.\<close>

definition dump_line :: "u32 \<Rightarrow> u32 \<Rightarrow> u32 \<Rightarrow> string" where
  "dump_line i addr val =
     num_text 10 CHR ''0'' 2 (sint i) @ ''. ['' @ num_text 16 CHR ''0'' 8 (uint addr) @ ''] = '' @
     num_text 16 CHR ''0'' 2 (uint val) @ [CHR 0x0A]"

text \<open>The loops \<^verbatim>\<open>for (i = 0; i < num; i++)\<close> for a command, the width of a cell, and the conversion of the
  value; \<open>n\<close> rounds are left.\<close>

fun dump_loop ::
  "bus \<Rightarrow> (u32 \<Rightarrow> bool) \<Rightarrow> u32 \<Rightarrow> u32 \<Rightarrow> (u32 \<Rightarrow> u32) \<Rightarrow> nat \<Rightarrow> u32 \<Rightarrow> u32 \<times> u32 \<Rightarrow> hist \<Rightarrow> (string \<times> hist) option" where
  "dump_loop b mapped cmd width conv 0 i buf h = Some ([], h)"
| "dump_loop b mapped cmd width conv (Suc n) i buf h = do {
     (_, buf, h) \<leftarrow> ker_rw_ioctl b mapped cmd buf h;
     let line = dump_line i (fst buf) (conv (snd buf));
     (out, h) \<leftarrow> dump_loop b mapped cmd width conv n (i + 1) (fst buf + width, snd buf) h;
     Some (line @ out, h)
   }"

text \<open>What \<^verbatim>\<open>printf(argv[0])\<close> prints: the name, if it is no format of its own.\<close>

definition printf_name :: "string \<Rightarrow> string option" where
  "printf_name s = (if CHR ''%'' \<in> set s then None else Some s)"

text \<open>The result is the exit value, the text printed and the history.\<close>

definition regeditor ::
  "bus \<Rightarrow> (u32 \<Rightarrow> bool) \<Rightarrow> int \<Rightarrow> (string \<Rightarrow> u32) \<Rightarrow> u32 \<times> u32 \<Rightarrow> string list \<Rightarrow> hist \<Rightarrow> (int \<times> string \<times> hist) option" where
  "regeditor b mapped fd strtoul buf argv h =
     (if length argv \<noteq> 3 \<and> length argv \<noteq> 4 then
        (if argv = [] then None else Some (-1, print_usage (argv ! 0), h))
      else if fd < 0 then Some (-2, ''can't open /dev/ker_rw'' @ [CHR 0x0A], h)
      else
        let buf = (strtoul (argv ! 2), snd buf);
            buf = (if length argv = 4 then (fst buf, strtoul (argv ! 3)) else buf);
            num = (if length argv = 4 then snd buf else 1);
            dump = (\<lambda>cmd width conv.
              map_option (\<lambda>(out, h). (0, out, h)) (dump_loop b mapped cmd width conv (unat num) 0 buf h));
            store = (\<lambda>cmd. map_option (\<lambda>(_, _, h). (0, [], h)) (ker_rw_ioctl b mapped cmd buf h))
        in if argv ! 1 = ''r8'' then dump KER_RW_R8 1 (\<lambda>v. ucast (ucast v :: u8))
           else if argv ! 1 = ''r16'' then dump KER_RW_R16 2 (\<lambda>v. ucast (ucast v :: u16))
           else if argv ! 1 = ''r32'' then dump KER_RW_R32 4 id
           else if argv ! 1 = ''w8'' then store KER_RW_W8
           else if argv ! 1 = ''w16'' then store KER_RW_W16
           else if argv ! 1 = ''w32'' then store KER_RW_W32
           else map_option (\<lambda>out. (-1, out, h)) (printf_name (argv ! 0)))"

subsection \<open>Reading and writing memory\<close>

text \<open>What a cell of memory holds after a history.\<close>

definition cell32 :: "(u32 \<Rightarrow> u32) \<Rightarrow> hist \<Rightarrow> u32 \<Rightarrow> u32" where
  "cell32 rst h a = (case latest32 a h of None \<Rightarrow> rst a | Some v \<Rightarrow> v)"

lemma cell32_rd [simp]: "cell32 rst (h @ [Rd32 a v]) = cell32 rst h"
  by (simp add: fun_eq_iff cell32_def latest32_append)

lemma cell32_wr [simp]: "cell32 rst (h @ [Wr32 a v]) = (cell32 rst h)(a := v)"
  by (simp add: fun_eq_iff cell32_def latest32_append)

definition cells :: "u32 \<Rightarrow> nat \<Rightarrow> u32 set" where
  "cells a n = (\<lambda>i. a + 4 * of_nat i) ` {..<n}"

lemma cells_Suc: "cells a (Suc n) = insert a (cells (a + 4) n)"
proof -
  have "{..<Suc n} = insert 0 (Suc ` {..<n})" by (auto simp: lessThan_Suc_eq_insert_0)
  then show ?thesis by (simp add: cells_def image_image algebra_simps)
qed

definition dump_text :: "(u32 \<Rightarrow> u32) \<Rightarrow> u32 \<Rightarrow> nat \<Rightarrow> u32 \<Rightarrow> string" where
  "dump_text m a n i0 = concat (map (\<lambda>i. dump_line (i0 + of_nat i) (a + 4 * of_nat i) (m (a + 4 * of_nat i))) [0..<n])"

lemma dump_text_Suc: "dump_text m a (Suc n) i = dump_line i a (m a) @ dump_text m (a + 4) n (i + 1)"
proof -
  have "[0..<Suc n] = 0 # map Suc [0..<n]" by (simp only: upt_conv_Cons map_Suc_upt zero_less_Suc)
  then show ?thesis by (simp add: dump_text_def comp_def algebra_simps)
qed

lemma dump_loop_text:
  assumes "ram_like b rst (cells a n)" "\<And>x. x \<in> cells a n \<Longrightarrow> mapped x"
  shows "\<exists>h'. dump_loop b mapped KER_RW_R32 4 id n i (a, v) h = Some (dump_text (cell32 rst h) a n i, h') \<and>
           cell32 rst h' = cell32 rst h"
  using assms
proof (induction n arbitrary: a v i h)
  case 0
  show ?case by (simp add: dump_text_def)
next
  case (Suc n)
  have v: "b h a = cell32 rst h a" using Suc.prems(1) by (simp add: ram_like_def cell32_def cells_Suc)
  have "ram_like b rst (cells (a + 4) n)" using Suc.prems(1) by (auto simp: ram_like_def cells_Suc)
  moreover have "\<And>x. x \<in> cells (a + 4) n \<Longrightarrow> mapped x" "mapped a" using Suc.prems(2) by (auto simp: cells_Suc)
  ultimately show ?case
    using Suc.IH [of "a + 4" "i + 1" "b h a" "h @ [Rd32 a (b h a)]"] v
    by (auto simp: ker_rw_ioctl_def rd32_def dump_text_Suc)
qed

text \<open>C36: \<^verbatim>\<open>w32\<close> with an address and a value stores just this word, and \<^verbatim>\<open>r32\<close> with an address and a number
  prints one line for each word from there on, with its index, its address and the value that memory holds;
  so what was written is what is read, and all other words read as before.\<close>

lemma regedit_write_read:
  assumes "0 \<le> fd" and "mapped (parse waddr)"
    and "ram_like b rst (cells (parse raddr) (unat (parse num)))"
    and "list_all (\<lambda>i. mapped (parse raddr + 4 * of_nat i)) [0..<unat (parse num)]"
  shows "\<exists>h1 h2. regeditor b mapped fd parse buf [prog, ''w32'', waddr, val] h = Some (0, [], h1) \<and>
           regeditor b mapped fd parse buf' [prog, ''r32'', raddr, num] h1 =
             Some (0, dump_text ((cell32 rst h)(parse waddr := parse val)) (parse raddr) (unat (parse num)) 0, h2)"
proof -
  have "\<And>x. x \<in> cells (parse raddr) (unat (parse num)) \<Longrightarrow> mapped x"
    using assms(4) by (auto simp: cells_def list_all_iff)
  from dump_loop_text [where mapped = mapped, OF assms(3) this, where i = 0 and v = "parse num" and h = "h @ [Wr32 (parse waddr) (parse val)]"]
  show ?thesis using assms(1,2) by (auto simp: regeditor_def ker_rw_ioctl_def wr32_def)
qed

lemma regedit_write_read_witness:
  "\<exists>h1 h2. regeditor (ram_bus (\<lambda>_. 7)) (\<lambda>_. True) 3 (\<lambda>s. if s = ''2'' then 2 else 0x1000) (0, 0)
         [''regeditor'', ''w32'', ''0x1000'', ''2''] [] = Some (0, [], h1) \<and>
       regeditor (ram_bus (\<lambda>_. 7)) (\<lambda>_. True) 3 (\<lambda>s. if s = ''2'' then 2 else 0x1000) (0, 0)
         [''regeditor'', ''r32'', ''0x1000'', ''2''] h1 =
           Some (0, dump_line 0 0x1000 2 @ dump_line 1 0x1004 7, h2)"
proof -
  have two: "[0..<2] = [0, 1 :: nat]" by (simp add: upt_rec)
  show ?thesis
    using regedit_write_read [of 3 "\<lambda>_. True" "\<lambda>s. if s = ''2'' then 2 else 0x1000" "''0x1000''"
        "ram_bus (\<lambda>_. 7)" "\<lambda>_. 7" "''0x1000''" "''2''" "(0, 0)" "''regeditor''" "''2''" "[]" "(0, 0)"]
    by (simp add: two dump_text_def cell32_def)
qed

text \<open>\<^verbatim>\<open>r8\<close> loads the bytes from an address on, each once and in order.\<close>

lemma dump_loop_loads8:
  assumes "\<And>i. i < n \<Longrightarrow> mapped (a + of_nat i)"
  shows "\<exists>out vs. length vs = n \<and>
     dump_loop b mapped KER_RW_R8 1 conv n i (a, v) h = Some (out, h @ map (\<lambda>j. Rd8 (a + of_nat j) (vs ! j)) [0..<n])"
  using assms
proof (induction n arbitrary: a v i h)
  case (Suc n)
  let ?v = "ucast (b h a) :: u8"
  have "mapped (a + 1 + of_nat i)" if "i < n" for i using Suc.prems [of "Suc i"] that by (simp add: algebra_simps)
  from Suc.IH [OF this, of "i + 1" "ucast ?v" "h @ [Rd8 a ?v]"] obtain out vs where
    IH: "length vs = n" "dump_loop b mapped KER_RW_R8 1 conv n (i + 1) (a + 1, ucast ?v) (h @ [Rd8 a ?v]) =
      Some (out, (h @ [Rd8 a ?v]) @ map (\<lambda>j. Rd8 (a + 1 + of_nat j) (vs ! j)) [0..<n])" by blast
  have "[0..<Suc n] = 0 # map Suc [0..<n]" by (simp only: upt_conv_Cons map_Suc_upt zero_less_Suc)
  with IH show ?case using Suc.prems [of 0]
    by (intro exI [of _ "dump_line i a (conv (ucast ?v)) @ out"] exI [of _ "?v # vs"])
      (simp add: ker_rw_ioctl_def rd8_def comp_def algebra_simps)
qed simp

text \<open>Without a value \<^verbatim>\<open>w32\<close> stores what the buffer happens to hold.\<close>

lemma regedit_write_unset:
  "mapped (parse waddr) \<Longrightarrow>
   regeditor b mapped 3 parse (0, junk) [prog, ''w32'', waddr] h = Some (0, [], h @ [Wr32 (parse waddr) junk])"
  by (simp add: regeditor_def ker_rw_ioctl_def wr32_def)

text \<open>A wrong command prints the program's name as a format.\<close>

lemma regedit_name_format:
  "regeditor b mapped 3 parse buf [''%s'', ''x'', waddr] h = None"
  "regeditor b mapped 3 parse buf [''edit'', ''x'', waddr] h = Some (-1, ''edit'', h)"
  by (simp_all add: regeditor_def printf_name_def)

end
