(* ===== verification/Inputs.thy ===== *)
theory Inputs
  imports Kernel
begin

text \<open>
  What the input drivers share: the events that a driver hands to the kernel's input core with
  \<^verbatim>\<open>input_event\<close> and \<^verbatim>\<open>input_sync\<close>, and the contract of a source of keys.
\<close>

datatype key_event = Key nat int | Sync

abbreviation KEY_ENTER :: nat where "KEY_ENTER \<equiv> 28"
abbreviation KEY_S :: nat where "KEY_S \<equiv> 31"
abbreviation KEY_L :: nat where "KEY_L \<equiv> 38"
abbreviation KEY_LEFTSHIFT :: nat where "KEY_LEFTSHIFT \<equiv> 42"

text \<open>Which keys are down for the users of the device, after some events.\<close>

fun keys_after :: "key_event list \<Rightarrow> (nat \<Rightarrow> bool) \<Rightarrow> nat \<Rightarrow> bool" where
  "keys_after [] K = K"
| "keys_after (Key c v # es) K = keys_after es (K(c := (v \<noteq> 0)))"
| "keys_after (Sync # es) K = keys_after es K"

lemma keys_after_append: "keys_after (es @ es') K = keys_after es' (keys_after es K)"
  by (induction es K rule: keys_after.induct) (simp_all del: fun_upd_apply)

text \<open>A driver handles one input after the other.\<close>

fun handle_all :: "('i \<Rightarrow> 's \<Rightarrow> key_event list \<times> 's) \<Rightarrow> 'i list \<Rightarrow> 's \<Rightarrow> key_event list \<times> 's" where
  "handle_all f [] s = ([], s)"
| "handle_all f (i # is) s = (let (es, s) = f i s; (es', s) = handle_all f is s in (es @ es', s))"

text \<open>What the inputs say of a key: the last of them that speaks of it decides.\<close>

fun last_word :: "('i \<Rightarrow> nat set) \<Rightarrow> ('i \<Rightarrow> nat \<Rightarrow> bool) \<Rightarrow> 'i list \<Rightarrow> (nat \<Rightarrow> bool) \<Rightarrow> nat \<Rightarrow> bool" where
  "last_word speaks says [] K = K"
| "last_word speaks says (i # is) K =
     last_word speaks says is (\<lambda>k. if k \<in> speaks i then says i k else K k)"

text \<open>The contract: from a state that agrees with the keys that are down, the events of an input make each
  key that it speaks of as it says, leave the others, and the state agrees again.\<close>

locale key_source =
  fixes handle :: "'i \<Rightarrow> 's \<Rightarrow> key_event list \<times> 's"
    and speaks :: "'i \<Rightarrow> nat set"
    and says :: "'i \<Rightarrow> nat \<Rightarrow> bool"
    and agrees :: "'s \<Rightarrow> (nat \<Rightarrow> bool) \<Rightarrow> bool"
  assumes agrees_again: "agrees s K \<Longrightarrow> handle i s = (es, s') \<Longrightarrow> agrees s' (keys_after es K)"
    and as_said: "agrees s K \<Longrightarrow> handle i s = (es, s') \<Longrightarrow> k \<in> speaks i \<Longrightarrow> keys_after es K k = says i k"
    and unsaid: "agrees s K \<Longrightarrow> handle i s = (es, s') \<Longrightarrow> k \<notin> speaks i \<Longrightarrow> keys_after es K k = K k"
begin

lemma step_keys:
  "agrees s K \<Longrightarrow> handle i s = (es, s') \<Longrightarrow> keys_after es K = (\<lambda>k. if k \<in> speaks i then says i k else K k)"
  using as_said unsaid by fastforce

lemma keys_follow:
  "agrees s K \<Longrightarrow> handle_all handle is s = (es, s') \<Longrightarrow>
   keys_after es K = last_word speaks says is K \<and> agrees s' (keys_after es K)"
proof (induction "is" arbitrary: s K es s')
  case (Cons i "is")
  obtain e1 s1 where 1: "handle i s = (e1, s1)" by (cases "handle i s")
  obtain e2 s2 where 2: "handle_all handle is s1 = (e2, s2)" by (cases "handle_all handle is s1")
  have "es = e1 @ e2" "s' = s2" using Cons.prems(2) 1 2 by auto
  then have es: "keys_after es K = keys_after e2 (keys_after e1 K)" by (simp add: keys_after_append)
  have "last_word speaks says (i # is) K = last_word speaks says is (keys_after e1 K)"
    by (simp only: last_word.simps step_keys [OF Cons.prems(1) 1])
  then show ?case
    using Cons.IH [OF agrees_again [OF Cons.prems(1) 1] 2] unfolding es \<open>s' = s2\<close> by metis
qed simp

end

end
