(* ===== verification/Usbmouse.thy ===== *)
theory Usbmouse
  imports Inputs
begin

text \<open>
  The USB mouse as a keyboard, \<^verbatim>\<open>linux_driver/code/USB_driver/Usbmouce_as_key.c\<close>: the buttons of a mouse are
  reported as the keys L, S and Enter.  Every change of the second byte of the mouse's report becomes a key
  event.  The host controller, the USB core and the input core are the kernel's.
\<close>

text \<open>The driver's variables: the static variable of the handler, the length of the buffer, and whether the
  request \<^verbatim>\<open>uk_urb\<close> is with the host controller.\<close>

record mouse =
  pre_val :: u8
  packet_len :: nat
  submitted :: bool

definition report_button :: "nat \<Rightarrow> nat \<Rightarrow> u8 \<Rightarrow> u8 \<Rightarrow> key_event list" where
  "report_button n code old new =
     (if (old AND push_bit n 1) \<noteq> (new AND push_bit n 1)
      then [Key code (if new AND push_bit n 1 \<noteq> 0 then 1 else 0), Sync] else [])"

definition mouse_report :: "u8 \<Rightarrow> mouse \<Rightarrow> key_event list \<times> mouse" where
  "mouse_report b s =
     (report_button 0 KEY_L (pre_val s) b @ report_button 1 KEY_S (pre_val s) b @
        report_button 2 KEY_ENTER (pre_val s) b,
      s\<lparr>pre_val := b, submitted := True\<rparr>)"

text \<open>The handler takes the second byte; a buffer without one is \<open>None\<close>.  The request that ended is given to
  the host controller again.\<close>

definition usbmouse_as_key_irq :: "u8 list \<Rightarrow> mouse \<Rightarrow> (key_event list \<times> mouse) option" where
  "usbmouse_as_key_irq usb_buf s =
     (if length usb_buf < 2 then None else Some (mouse_report (usb_buf ! 1) (s\<lparr>submitted := False\<rparr>)))"

text \<open>A mouse is found or taken away.  A newly registered input device has all keys up.\<close>

definition usbmouse_as_key_probe :: "nat \<Rightarrow> mouse \<Rightarrow> int \<times> mouse" where
  "usbmouse_as_key_probe wMaxPacketSize s = (0, s\<lparr>packet_len := wMaxPacketSize, submitted := True\<rparr>)"

definition usbmouse_as_key_disconnect :: "mouse \<Rightarrow> mouse" where
  "usbmouse_as_key_disconnect s = s\<lparr>submitted := False\<rparr>"

definition mouse_loaded :: mouse where
  "mouse_loaded = \<lparr>pre_val = 0, packet_len = 0, submitted = False\<rparr>"

subsection \<open>The keys follow the buttons\<close>

definition button_of :: "nat \<Rightarrow> nat" where
  "button_of k = (if k = KEY_L then 0 else if k = KEY_S then 1 else 2)"

definition mouse_keys :: "nat set" where
  "mouse_keys = {KEY_L, KEY_S, KEY_ENTER}"

definition button_down :: "u8 \<Rightarrow> nat \<Rightarrow> bool" where
  "button_down b k \<longleftrightarrow> bit b (button_of k)"

definition mouse_agrees :: "mouse \<Rightarrow> (nat \<Rightarrow> bool) \<Rightarrow> bool" where
  "mouse_agrees s K \<longleftrightarrow> (\<forall>k \<in> mouse_keys. K k = button_down (pre_val s) k)"

lemma and_button: "b AND 2 ^ n = (if bit b n then 2 ^ n else 0)" for b :: u8
  by (rule bit_eqI) (auto simp: bit_and_iff bit_exp_iff)

lemma and_button_0: "(2 :: u8) ^ n = 0 \<longleftrightarrow> 8 \<le> n"
  by (simp add: exp_eq_zero_iff)

lemma report_button_keys:
  "n < 8 \<Longrightarrow> K code = bit old n \<Longrightarrow> keys_after (report_button n code old new) K = K(code := bit new n)"
  by (auto simp: report_button_def and_button and_button_0 fun_upd_def)

lemma mouse_report_keys:
  assumes "mouse_agrees s K"
  shows "keys_after (fst (mouse_report b s)) K = K(KEY_L := bit b 0, KEY_S := bit b 1, KEY_ENTER := bit b 2)"
  using assms by (simp add: mouse_report_def keys_after_append report_button_keys mouse_agrees_def mouse_keys_def
      button_down_def button_of_def)

interpretation mouse: key_source mouse_report "\<lambda>_. mouse_keys" button_down mouse_agrees
proof
  fix s K i es s' k
  assume a: "mouse_agrees s K" and m: "mouse_report i s = (es, s')"
  have es: "keys_after es K = K(KEY_L := bit i 0, KEY_S := bit i 1, KEY_ENTER := bit i 2)"
    using mouse_report_keys [OF a, of i] m by simp
  have "pre_val s' = i" using m by (auto simp: mouse_report_def)
  then show "mouse_agrees s' (keys_after es K)"
    by (auto simp: es mouse_agrees_def mouse_keys_def button_down_def button_of_def)
  show "keys_after es K k = button_down i k" if "k \<in> mouse_keys"
    using that by (auto simp: es mouse_keys_def button_down_def button_of_def)
  show "keys_after es K k = K k" if "k \<notin> mouse_keys"
    using that by (auto simp: es mouse_keys_def)
qed

lemma mouse_stays_submitted: "submitted t \<Longrightarrow> submitted (snd (handle_all mouse_report bs t))"
proof (induction bs arbitrary: t)
  case (Cons b bs)
  have "submitted (snd (mouse_report b t))" by (simp add: mouse_report_def)
  from Cons.IH [OF this] show ?case by (simp add: split_beta)
qed simp

text \<open>The handler on a list of packets.\<close>

fun mouse_packets :: "u8 list list \<Rightarrow> mouse \<Rightarrow> (key_event list \<times> mouse) option" where
  "mouse_packets [] s = Some ([], s)"
| "mouse_packets (p # ps) s = do {
     (es, s) \<leftarrow> usbmouse_as_key_irq p s;
     (es', s) \<leftarrow> mouse_packets ps s;
     Some (es @ es', s)
   }"

lemma mouse_report_submitted: "mouse_report b (s\<lparr>submitted := v\<rparr>) = mouse_report b s"
  by (simp add: mouse_report_def)

lemma mouse_packets_all:
  "list_all (\<lambda>p. 2 \<le> length p) ps \<Longrightarrow>
   mouse_packets ps s = Some (handle_all mouse_report (map (\<lambda>p. p ! 1) ps) s)"
  by (induction ps arbitrary: s)
    (auto simp: usbmouse_as_key_irq_def mouse_report_submitted split: prod.split)

text \<open>C37: After any packets of a mouse that is plugged in for the first time, of which each has at least two
  bytes, the keys L, S and Enter are down exactly as the buttons of the last packet, and no other key is.\<close>

lemma mouse_keys_follow:
  assumes "list_all (\<lambda>p. 2 \<le> length p) (ps @ [p])"
  shows "\<exists>es s. mouse_packets (ps @ [p]) (snd (usbmouse_as_key_probe len mouse_loaded)) = Some (es, s) \<and> submitted s \<and>
           keys_after es (\<lambda>_. False) = (\<lambda>k. k \<in> mouse_keys \<and> button_down (p ! 1) k)"
proof -
  let ?s = "snd (usbmouse_as_key_probe len mouse_loaded)"
  let ?bs = "map (\<lambda>p. p ! 1) (ps @ [p])"
  obtain es s where es: "handle_all mouse_report ?bs ?s = (es, s)" by (cases "handle_all mouse_report ?bs ?s")
  have "mouse_agrees ?s (\<lambda>_. False)"
    by (simp add: mouse_agrees_def usbmouse_as_key_probe_def mouse_loaded_def button_down_def)
  then have "keys_after es (\<lambda>_. False) = last_word (\<lambda>_. mouse_keys) button_down ?bs (\<lambda>_. False)"
    using mouse.keys_follow es by blast
  moreover have "last_word (\<lambda>_. mouse_keys) button_down (bs @ [b]) K =
      (\<lambda>k. if k \<in> mouse_keys then button_down b k else last_word (\<lambda>_. mouse_keys) button_down bs K k)" for bs b K
    by (induction bs arbitrary: K) auto
  moreover have "last_word (\<lambda>_. mouse_keys) button_down bs K k = K k" if "k \<notin> mouse_keys" for bs K k
    using that by (induction bs arbitrary: K) auto
  ultimately have "keys_after es (\<lambda>_. False) = (\<lambda>k. k \<in> mouse_keys \<and> button_down (p ! 1) k)" by auto
  moreover have "submitted ?s" by (simp add: usbmouse_as_key_probe_def)
  then have "submitted s" using mouse_stays_submitted [of ?s ?bs] es by simp
  ultimately show ?thesis using mouse_packets_all [OF assms, of ?s] es by auto
qed

lemma mouse_keys_follow_witness:
  "\<exists>es s. mouse_packets [[0, 1], [0, 4]] (snd (usbmouse_as_key_probe 4 mouse_loaded)) = Some (es, s) \<and>
     keys_after es (\<lambda>_. False) = (\<lambda>k. k = KEY_ENTER)"
proof -
  have "(\<lambda>k. k \<in> mouse_keys \<and> button_down 4 k) = (\<lambda>k. k = KEY_ENTER)"
    by (auto simp: mouse_keys_def button_down_def button_of_def fun_eq_iff)
  then show ?thesis using mouse_keys_follow [of "[[0, 1]]" "[0, 4]" 4] by auto
qed

text \<open>The handler's variable outlives the device: a button that is held while the mouse is unplugged and
  still held after it is plugged in again is not reported.\<close>

lemma mouse_replugged:
  assumes "mouse_packets [[0, 1]] (snd (usbmouse_as_key_probe len mouse_loaded)) = Some (es, s)"
  shows "keys_after es (\<lambda>_. False) KEY_L"
    and "mouse_packets [[0, 1]] (snd (usbmouse_as_key_probe len (usbmouse_as_key_disconnect s))) = Some (es', s') \<Longrightarrow> es' = []"
  using assms
  by (auto simp: usbmouse_as_key_irq_def usbmouse_as_key_probe_def usbmouse_as_key_disconnect_def mouse_report_def
      mouse_loaded_def report_button_def and_button)

end
