(* ===== verification/Inputkeys.thy ===== *)
theory Inputkeys
  imports Inputs Buttons
begin

text \<open>
  The board's four buttons as keys of the input system, \<^verbatim>\<open>linux_driver/code/Input_Buttons_001_200808/Buttons.c\<close>:
  the handling of edges and the timer of \<^verbatim>\<open>seventh_drv.c\<close> with key events in place of a character device.
\<close>

record key_desc =
  kd_pin :: pin
  kd_key :: nat

definition input_pins_desc :: "key_desc list" where
  "input_pins_desc =
     [\<lparr>kd_pin = GPF0, kd_key = KEY_L\<rparr>, \<lparr>kd_pin = GPF2, kd_key = KEY_S\<rparr>, \<lparr>kd_pin = GPG3, kd_key = KEY_ENTER\<rparr>,
      \<lparr>kd_pin = GPG11, kd_key = KEY_LEFTSHIFT\<rparr>]"

text \<open>The driver's variables: the last button with an edge, the expiry of the pending timer, the buttons whose
  interrupts are requested, and the keys that the input device can send.\<close>

record input_buttons =
  edge_pd :: "key_desc option"
  key_timer :: "nat option"
  key_irqs :: "key_desc list"
  key_bits :: "nat set"

definition input_timer_function :: "(pin \<Rightarrow> u32) \<Rightarrow> input_buttons \<Rightarrow> key_event list" where
  "input_timer_function getpin s =
     (case edge_pd s of None \<Rightarrow> []
      | Some pindesc \<Rightarrow>
          let pinval = getpin (kd_pin pindesc)
          in if pinval \<noteq> 0 then [Key (kd_key pindesc) 0, Sync] else [Key (kd_key pindesc) 1, Sync])"

definition input_buttons_irq :: "nat \<Rightarrow> nat \<Rightarrow> key_desc \<Rightarrow> input_buttons \<Rightarrow> input_buttons" where
  "input_buttons_irq HZ now dev_id s = s\<lparr>edge_pd := Some dev_id, key_timer := Some (now + HZ div 100)\<rparr>"

text \<open>The timer is pending with expiry 0 after the set-up.\<close>

definition input_buttons_init :: input_buttons where
  "input_buttons_init =
     \<lparr>edge_pd = None, key_timer = Some 0, key_irqs = input_pins_desc,
      key_bits = {KEY_L, KEY_S, KEY_ENTER, KEY_LEFTSHIFT}\<rparr>"

definition input_buttons_exit :: "input_buttons \<Rightarrow> input_buttons" where
  "input_buttons_exit s = s\<lparr>key_irqs := [], key_timer := None\<rparr>"

text \<open>A movement of a button that comes to rest: edges, of which the last decides the timer, then the timer's
  function when the pins have settled.\<close>

fun bounces :: "nat \<Rightarrow> nat list \<Rightarrow> key_desc \<Rightarrow> input_buttons \<Rightarrow> input_buttons" where
  "bounces HZ [] pd s = s"
| "bounces HZ (now # ts) pd s = bounces HZ ts pd (input_buttons_irq HZ now pd s)"

record movement =
  moved :: key_desc
  edge_times :: "nat list"
  levels :: "pin \<Rightarrow> u32"

definition settle :: "nat \<Rightarrow> movement \<Rightarrow> input_buttons \<Rightarrow> key_event list \<times> input_buttons" where
  "settle HZ i s =
     (let s = bounces HZ (edge_times i) (moved i) s;
          s = s\<lparr>key_timer := None\<rparr>
      in if edge_times i = [] then ([], s) else (input_timer_function (levels i) s, s))"

lemma bounces_pd: "edge_pd (bounces HZ ts pd s) = (if ts = [] then edge_pd s else Some pd)"
  by (induction ts arbitrary: s) (auto simp: input_buttons_irq_def)

lemma settle_keys:
  "keys_after (fst (settle HZ i s)) K =
     (if edge_times i = [] then K else K(kd_key (moved i) := levels i (kd_pin (moved i)) = 0))"
  by (simp add: settle_def input_timer_function_def bounces_pd Let_def)

interpretation buttons: key_source "settle HZ"
  "\<lambda>i. if edge_times i = [] then {} else {kd_key (moved i)}" "\<lambda>i k. levels i (kd_pin (moved i)) = 0" "\<lambda>_ _. True"
proof
  fix s :: input_buttons and K i es s' k
  assume "settle HZ i s = (es, s')"
  then have es: "keys_after es K = (if edge_times i = [] then K else K(kd_key (moved i) := levels i (kd_pin (moved i)) = 0))"
    using settle_keys [of HZ i s K] by simp
  show "keys_after es K k = (levels i (kd_pin (moved i)) = 0)"
    if "k \<in> (if edge_times i = [] then {} else {kd_key (moved i)})"
    using that by (simp add: es split: if_splits)
  show "keys_after es K k = K k" if "k \<notin> (if edge_times i = [] then {} else {kd_key (moved i)})"
    using that by (simp add: es split: if_splits)
qed simp

text \<open>After any movements of the buttons, a key is down if the last movement of its button left the pin low.\<close>

lemma input_keys_follow:
  assumes "handle_all (settle HZ) ms input_buttons_init = (es, s)"
  shows "keys_after es (\<lambda>_. False) =
     last_word (\<lambda>i. if edge_times i = [] then {} else {kd_key (moved i)}) (\<lambda>i k. levels i (kd_pin (moved i)) = 0) ms
       (\<lambda>_. False)"
  using buttons.keys_follow [OF TrueI assms, of "\<lambda>_. False"] by blast

text \<open>Two buttons moved within 10 ms: one timer and one pointer serve both, so the first is not reported.\<close>

lemma input_two_buttons:
  assumes "pd' \<noteq> pd" "now' < now + HZ div 100"
  shows "input_timer_function getpin (input_buttons_irq HZ now' pd' (input_buttons_irq HZ now pd s)) =
    input_timer_function getpin (input_buttons_irq HZ now' pd' s)"
  by (simp add: input_timer_function_def input_buttons_irq_def)

end
