(* ===== verification/Lcdfb.thy ===== *)
theory Lcdfb
  imports Lcd
begin


record fb_bitfield =
  bf_offset :: nat
  bf_length :: nat

text \<open>What the set-up puts into \<^verbatim>\<open>fb_info\<close>; a field has at most 16 bits.\<close>

record fb_info =
  fix_id :: string
  smem_len :: u32
  line_length :: u32
  xres :: u32
  yres :: u32
  bits_per_pixel :: u32
  red :: fb_bitfield
  green :: fb_bitfield
  blue :: fb_bitfield
  smem_start :: u32
  pseudo_palette :: "u32 list"

definition chan_to_field :: "u32 \<Rightarrow> fb_bitfield \<Rightarrow> u32" where
  "chan_to_field chan bf =
     (let chan = chan AND 0xffff;
          chan = drop_bit (16 - bf_length bf) chan
      in push_bit (bf_offset bf) chan)"

text \<open>The palette is an array of sixteen words; a store outside is \<open>None\<close>.\<close>

definition s3c_lcdfb_setcolreg ::
  "u32 \<Rightarrow> u32 \<Rightarrow> u32 \<Rightarrow> u32 \<Rightarrow> fb_info \<Rightarrow> (int \<times> fb_info) option" where
  "s3c_lcdfb_setcolreg regno r g bl info =
     (if regno > 16 then Some (1, info)
      else
        let val = chan_to_field r (red info);
            val = val OR chan_to_field g (green info);
            val = val OR chan_to_field bl (blue info)
        in if unat regno < length (pseudo_palette info)
           then Some (0, info\<lparr>pseudo_palette := (pseudo_palette info)[unat regno := val]\<rparr>) else None)"



definition lcdfb_exit :: "bus \<Rightarrow> hist \<Rightarrow> hist" where
  "lcdfb_exit b h =
     (let h = upd32 b LCDCON1 (bits_clear (push_bit 0 1)) h
      in upd32 b GPBDAT (bits_clear 1) h)"

subsection \<open>Colours\<close>

definition rgb565 :: "u32 \<Rightarrow> u32 \<Rightarrow> u32 \<Rightarrow> u32" where
  "rgb565 r g bl =
     push_bit 11 (take_bit 5 (drop_bit 11 r)) OR push_bit 5 (take_bit 6 (drop_bit 10 g)) OR take_bit 5 (drop_bit 11 bl)"

lemma chan_to_field_bits:
  "bf_length bf \<le> 16 \<Longrightarrow>
   chan_to_field c bf = push_bit (bf_offset bf) (take_bit (bf_length bf) (drop_bit (16 - bf_length bf) c))"
proof -
  have "c AND 0xffff = take_bit 16 c" by (simp add: take_bit_eq_mask mask_eq_exp_minus_1)
  moreover assume "bf_length bf \<le> 16"
  ultimately show ?thesis by (simp add: chan_to_field_def drop_bit_take_bit)
qed

lemma setcolreg_rgb565:
  assumes "pseudo_palette info = palette" "length palette = 16" "regno < 16"
    and "red info = \<lparr>bf_offset = 11, bf_length = 5\<rparr>" "green info = \<lparr>bf_offset = 5, bf_length = 6\<rparr>"
      "blue info = \<lparr>bf_offset = 0, bf_length = 5\<rparr>"
  shows "s3c_lcdfb_setcolreg regno r g bl info =
     Some (0, info\<lparr>pseudo_palette := palette[unat regno := rgb565 r g bl]\<rparr>)"
proof -
  have "unat regno < 16" using assms(3) by (simp add: word_less_nat_alt)
  moreover have "chan_to_field r (red info) OR chan_to_field g (green info) OR chan_to_field bl (blue info) = rgb565 r g bl"
    unfolding assms(4-6) rgb565_def by (simp add: chan_to_field_bits)
  ultimately show ?thesis
    using assms(1-3) by (simp add: s3c_lcdfb_setcolreg_def or.assoc word_less_nat_alt)
qed

text \<open>One entry too many is accepted: the store goes behind the palette.\<close>

lemma setcolreg_overruns:
  "length (pseudo_palette info) = 16 \<Longrightarrow> s3c_lcdfb_setcolreg 16 r g bl info = None"
  by (simp add: s3c_lcdfb_setcolreg_def)

subsection \<open>The set-up\<close>








text \<open>Unloading stops the output and the backlight.\<close>

lemma lcdfb_exit_off:
  "\<exists>v w. latest32 LCDCON1 (lcdfb_exit b h) = Some v \<and> \<not> bit v 0 \<and> latest32 GPBDAT (lcdfb_exit b h) = Some w \<and> \<not> bit w 0"
  by (simp add: lcdfb_exit_def upd32_eq latest32_append bit_and_iff bit_not_iff Let_def)

end
