(* ===== verification/At24drv.thy ===== *)
theory At24drv
  imports Kernel At24
begin





subsection \<open>Attaching\<close>


datatype at24_resource = Client_mem | Attached | At24_chrdev | At24_class | At24_node

record at24_client =
  client_addr :: u8
  client_flags :: u32
  client_name :: string

text \<open>The driver's client and what it holds of the kernel.\<close>

definition at24cxx_detect :: "u8 \<Rightarrow> at24_resource list \<Rightarrow> int \<times> at24_client \<times> at24_resource list" where
  "at24cxx_detect address held =
     (let held = Client_mem # held;
          client = \<lparr>client_addr = address, client_flags = 0, client_name = ''at24cxx''\<rparr>;
          held = Attached # held
      in (0, client, At24_node # At24_class # At24_chrdev # held))"

text \<open>\<^verbatim>\<open>i2c_get_clientdata\<close> gives what was set with \<^verbatim>\<open>i2c_set_clientdata\<close>; nobody sets it, and \<^verbatim>\<open>kfree\<close> of
  nothing frees nothing.\<close>

definition at24cxx_detach :: "'d option \<Rightarrow> at24_resource list \<Rightarrow> int \<times> at24_resource list" where
  "at24cxx_detach clientdata held =
     (let held = remove1 Attached held;
          held = (if clientdata = None then held else remove1 Client_mem held);
          held = remove1 At24_node held;
          held = remove1 At24_class held
      in (0, remove1 At24_chrdev held))"

lemma at24_detach_leaks:
  assumes "at24cxx_detect address [] = (r, client, held)"
  shows "at24cxx_detach None held = (0, [Client_mem])"
  using assms by (auto simp: at24cxx_detect_def at24cxx_detach_def Let_def)

subsection \<open>The transfers\<close>








end
