(* ===== verification/Mtd.thy ===== *)
theory Mtd
  imports Kernel Soc
begin

text \<open>
  The flash drivers for Linux, \<^verbatim>\<open>linux_driver/code/nand_flash/s3c_nand.c\<close> and \<^verbatim>\<open>nor_flash/s3c_nor.c\<close>: the
  functions that the kernel's NAND layer calls to reach the controller, the set-up of the two drivers, and
  their partitions.  What the kernel's MTD layer does with a table of partitions is specified here; its
  probes of the NOR flash are arguments.
\<close>

subsection \<open>Partitions\<close>

text \<open>An offset is a number or \<^verbatim>\<open>MTDPART_OFS_APPEND\<close>, a size a number or \<^verbatim>\<open>MTDPART_SIZ_FULL\<close>.\<close>

datatype part_offset = At_offset nat | Ofs_append
datatype part_size = Of_size nat | Siz_full

record mtd_partition =
  part_name :: string
  part_off :: part_offset
  part_siz :: part_size

definition s3c_nand_parts :: "mtd_partition list" where
  "s3c_nand_parts =
     [\<lparr>part_name = ''bootloader'', part_off = At_offset 0, part_siz = Of_size 0x00040000\<rparr>,
      \<lparr>part_name = ''params'', part_off = Ofs_append, part_siz = Of_size 0x00020000\<rparr>,
      \<lparr>part_name = ''kernel'', part_off = Ofs_append, part_siz = Of_size 0x00200000\<rparr>,
      \<lparr>part_name = ''root'', part_off = Ofs_append, part_siz = Siz_full\<rparr>]"

definition s3c_nor_parts :: "mtd_partition list" where
  "s3c_nor_parts =
     [\<lparr>part_name = ''bootloader_nor'', part_off = At_offset 0, part_siz = Of_size 0x00040000\<rparr>,
      \<lparr>part_name = ''root_nor'', part_off = Ofs_append, part_siz = Siz_full\<rparr>]"

text \<open>The regions (first byte, first byte behind) on a chip of a size; appending starts where the partition
  before ends, and a full size goes to the end of the chip.\<close>

fun mtd_layout :: "nat \<Rightarrow> nat \<Rightarrow> mtd_partition list \<Rightarrow> (nat \<times> nat) list" where
  "mtd_layout chip_len pos [] = []"
| "mtd_layout chip_len pos (p # ps) =
     (let off = (case part_off p of At_offset n \<Rightarrow> n | Ofs_append \<Rightarrow> pos);
          fin = (case part_siz p of Of_size n \<Rightarrow> off + n | Siz_full \<Rightarrow> chip_len)
      in (off, fin) # mtd_layout chip_len fin ps)"

text \<open>Regions that cover the chip from a byte on, one after the other.\<close>

fun tiles :: "nat \<Rightarrow> nat \<Rightarrow> (nat \<times> nat) list \<Rightarrow> bool" where
  "tiles pos chip_len [] \<longleftrightarrow> pos = chip_len"
| "tiles pos chip_len ((a, z) # rs) \<longleftrightarrow> a = pos \<and> a < z \<and> tiles z chip_len rs"

lemma nand_parts_tile: "0x260000 < chip_len \<Longrightarrow> tiles 0 chip_len (mtd_layout chip_len 0 s3c_nand_parts)"
  by (simp add: s3c_nand_parts_def)

lemma nor_parts_tile: "0x40000 < chip_len \<Longrightarrow> tiles 0 chip_len (mtd_layout chip_len 0 s3c_nor_parts)"
  by (simp add: s3c_nor_parts_def)

subsection \<open>The NAND controller\<close>

abbreviation NAND_CLE :: u32 where "NAND_CLE \<equiv> 0x02"
abbreviation NAND_ALE :: u32 where "NAND_ALE \<equiv> 0x04"

definition s3c2440_select_chip :: "bus \<Rightarrow> int \<Rightarrow> hist \<Rightarrow> hist" where
  "s3c2440_select_chip b chipnr h =
     (if chipnr = -1 then upd32 b NFCONT (bits_or (push_bit 1 1)) h
      else upd32 b NFCONT (bits_clear (push_bit 1 1)) h)"

definition s3c2440_cmd_ctrl :: "int \<Rightarrow> u32 \<Rightarrow> hist \<Rightarrow> hist" where
  "s3c2440_cmd_ctrl cmd ctrl h =
     (if ctrl AND NAND_CLE \<noteq> 0 then wr32 NFCMD (word_of_int cmd) h else wr32 NFADDR (word_of_int cmd) h)"

definition s3c2440_dev_ready :: "bus \<Rightarrow> hist \<Rightarrow> int \<times> hist" where
  "s3c2440_dev_ready b h = (let (v, h) = rd32 b NFSTAT h in (uint (v AND push_bit 0 1), h))"

abbreviation TACLS :: u32 where "TACLS \<equiv> 0"
abbreviation TWRPH0 :: u32 where "TWRPH0 \<equiv> 1"
abbreviation TWRPH1 :: u32 where "TWRPH1 \<equiv> 0"

text \<open>What the set-up stores, and what it takes; the result of \<^verbatim>\<open>nand_scan\<close> is not looked at.\<close>

definition s3c_nand_init_regs :: "hist \<Rightarrow> hist" where
  "s3c_nand_init_regs h =
     (let h = wr32 NFCONF (push_bit 12 TACLS OR push_bit 8 TWRPH0 OR push_bit 4 TWRPH1) h
      in wr32 NFCONT (push_bit 1 1 OR push_bit 0 1) h)"

datatype nand_resource = Chip_mem | Regs_window | Clock_on | Mtd_mem | Nand_partitions "mtd_partition list"

definition s3c_nand_init :: "nand_resource list \<times> hist \<Rightarrow> int \<times> nand_resource list \<times> hist" where
  "s3c_nand_init st =
     (let (held, h) = st;
          held = Chip_mem # held;
          held = Regs_window # held;
          held = Clock_on # held;
          h = s3c_nand_init_regs h;
          held = Mtd_mem # held
      in (0, Nand_partitions s3c_nand_parts # held, h))"

definition s3c_nand_exit :: "nand_resource list \<Rightarrow> nand_resource list" where
  "s3c_nand_exit held =
     (let held = remove1 (Nand_partitions s3c_nand_parts) held;
          held = remove1 Mtd_mem held;
          held = remove1 Regs_window held
      in remove1 Chip_mem held)"

text \<open>Unloading leaves the controller's clock on.\<close>

lemma nand_unload_clock: "s3c_nand_exit (fst (snd (s3c_nand_init ([], h)))) = [Clock_on]"
  by (simp add: s3c_nand_init_def s3c_nand_exit_def)

text \<open>The calls by which the NAND layer sends a command with address bytes: the command with \<open>NAND_CLE\<close>, each
  byte with \<open>NAND_ALE\<close>, and then \<open>NAND_CMD_NONE\<close>, which is -1, to end the address phase.\<close>

definition command_calls :: "int \<Rightarrow> int list \<Rightarrow> (int \<times> u32) list" where
  "command_calls cmd addr = (cmd, NAND_CLE) # map (\<lambda>a. (a, NAND_ALE)) addr @ [(-1, 0)]"

definition send_calls :: "(int \<times> u32) list \<Rightarrow> hist \<Rightarrow> hist" where
  "send_calls cs h = fold (\<lambda>(cmd, ctrl). s3c2440_cmd_ctrl cmd ctrl) cs h"

text \<open>The driver takes the call that ends the address phase for one more address byte.\<close>

lemma nand_none_address:
  "send_calls (command_calls cmd addr) h =
     h @ [Wr32 NFCMD (word_of_int cmd)] @ map (\<lambda>a. Wr32 NFADDR (word_of_int a)) addr @ [Wr32 NFADDR 0xFFFFFFFF]"
proof -
  have "fold (\<lambda>(cmd, ctrl). s3c2440_cmd_ctrl cmd ctrl) (map (\<lambda>a. (a, NAND_ALE)) addr) h =
      h @ map (\<lambda>a. Wr32 NFADDR (word_of_int a)) addr" for h
    by (induction addr arbitrary: h) (simp_all add: s3c2440_cmd_ctrl_def wr32_def)
  then show ?thesis by (simp add: send_calls_def command_calls_def s3c2440_cmd_ctrl_def wr32_def)
qed

text \<open>After the set-up the controller is on and no chip is selected; selecting takes bit 1 away and leaves the
  controller on.\<close>

lemma nand_selected:
  assumes "ram_like b rst {NFCONT}"
  shows "latest32 NFCONT (s3c_nand_init_regs h) = Some 3"
    and "latest32 NFCONT (s3c2440_select_chip b 0 (s3c_nand_init_regs h)) = Some 1"
    and "latest32 NFCONT (s3c2440_select_chip b (-1) (s3c2440_select_chip b 0 (s3c_nand_init_regs h))) = Some 3"
proof -
  have reg: "b h NFCONT = (case latest32 NFCONT h of None \<Rightarrow> rst NFCONT | Some v \<Rightarrow> v)" for h
    using assms by (simp add: ram_like_def)
  show on: "latest32 NFCONT (s3c_nand_init_regs h) = Some 3"
    by (simp add: s3c_nand_init_regs_def wr32_def latest32_append)
  show sel: "latest32 NFCONT (s3c2440_select_chip b 0 (s3c_nand_init_regs h)) = Some 1"
    by (simp add: s3c2440_select_chip_def upd32_eq latest32_append reg on)
  show "latest32 NFCONT (s3c2440_select_chip b (-1) (s3c2440_select_chip b 0 (s3c_nand_init_regs h))) = Some 3"
    using sel by (simp add: s3c2440_select_chip_def [of b "-1"] upd32_eq latest32_append reg)
qed

subsection \<open>The NOR flash\<close>

record map_info =
  map_name :: string
  map_phys :: u32
  map_size :: u32
  bankwidth :: nat

datatype nor_resource = Map_mem | Map_window | Partitions "mtd_partition list"

text \<open>\<open>probe\<close> says whether a probe of a name finds a flash in the map; the result is that of the call, the
  names that were probed, and what the driver holds.\<close>

definition s3c_nor_init ::
  "(string \<Rightarrow> map_info \<Rightarrow> bool) \<Rightarrow> nor_resource list \<Rightarrow> int \<times> string list \<times> nor_resource list" where
  "s3c_nor_init probe held =
     (let held = Map_mem # held;
          s3c_nor_map = \<lparr>map_name = ''s3c_nor'', map_phys = 0, map_size = 0x1000000, bankwidth = 2\<rparr>;
          held = Map_window # held;
          s3c_nor_mtd = probe ''cfi_probe'' s3c_nor_map;
          probed = [''cfi_probe''];
          (s3c_nor_mtd, probed) =
            (if \<not> s3c_nor_mtd then (probe ''jedec_probe'' s3c_nor_map, probed @ [''jedec_probe''])
             else (s3c_nor_mtd, probed))
      in if \<not> s3c_nor_mtd then (- EIO, probed, remove1 Map_mem (remove1 Map_window held))
         else (0, probed, Partitions s3c_nor_parts # held))"

definition s3c_nor_exit :: "nor_resource list \<Rightarrow> nor_resource list" where
  "s3c_nor_exit held =
     (let held = remove1 (Partitions s3c_nor_parts) held;
          held = remove1 Map_window held
      in remove1 Map_mem held)"

text \<open>The set-up of the NOR driver asks the two probes in order, the second one only when the first has
  found nothing; it fails with \<^verbatim>\<open>-EIO\<close> and holds nothing when neither finds a flash, and otherwise what it
  holds is given back when the module is unloaded.\<close>

lemma nor_init_outcome:
  "s3c_nor_init probe held = (r, probed, held') \<Longrightarrow>
   (if \<exists>m. m = \<lparr>map_name = ''s3c_nor'', map_phys = 0, map_size = 0x1000000, bankwidth = 2\<rparr> \<and>
           (probe ''cfi_probe'' m \<or> probe ''jedec_probe'' m)
    then r = 0 \<and> s3c_nor_exit held' = held else r = - EIO \<and> held' = held) \<and>
   (probed = [''cfi_probe''] \<or> probed = [''cfi_probe'', ''jedec_probe''])"
  by (auto simp: s3c_nor_init_def s3c_nor_exit_def Let_def split: if_splits)

end
