(* ===== verification/Platled.thy ===== *)
theory Platled
  imports Kernel Soc
begin

text \<open>
  The LED as a platform device and its driver, \<^verbatim>\<open>linux_driver/code/LED_dev_Bus\<close>: \<^verbatim>\<open>Led_dev.c\<close> says where the
  registers are and which pin it is, \<^verbatim>\<open>Led_drv.c\<close> finds this out when the kernel brings the two together and
  drives the pin.  The kernel's \<^verbatim>\<open>platform_get_resource\<close> is an argument.
\<close>

datatype resource_kind = IORESOURCE_MEM | IORESOURCE_IRQ

record resource =
  res_start :: u32
  res_end :: u32
  res_flags :: resource_kind

definition led_resource :: "resource list" where
  "led_resource =
     [\<lparr>res_start = 0x56000050, res_end = 0x56000050 + 8 - 1, res_flags = IORESOURCE_MEM\<rparr>,
      \<lparr>res_start = 4, res_end = 4, res_flags = IORESOURCE_IRQ\<rparr>]"

type_synonym get_resource = "resource list \<Rightarrow> resource_kind \<Rightarrow> nat \<Rightarrow> resource option"

text \<open>The driver's variables; the mapped registers have their physical address.\<close>

record led_drv =
  gpio_con :: u32
  gpio_dat :: u32
  led_pin :: nat

definition led_probe :: "get_resource \<Rightarrow> resource list \<Rightarrow> (int \<times> led_drv) option" where
  "led_probe platform_get_resource pdev = do {
     res \<leftarrow> platform_get_resource pdev IORESOURCE_MEM 0;
     let con = res_start res;
     res \<leftarrow> platform_get_resource pdev IORESOURCE_IRQ 0;
     Some (0, \<lparr>gpio_con = con, gpio_dat = con + 4, led_pin = unat (res_start res)\<rparr>)
   }"

definition led_open :: "bus \<Rightarrow> led_drv \<Rightarrow> hist \<Rightarrow> int \<times> hist" where
  "led_open b s h =
     (let h = upd32 b (gpio_con s) (bits_clear (push_bit (led_pin s * 2) 3)) h;
          h = upd32 b (gpio_con s) (bits_or (push_bit (led_pin s * 2) 1)) h
      in (0, h))"

text \<open>The value that a program writes is copied over an \<^verbatim>\<open>int\<close> on the stack, low byte first.  With fewer than
  four bytes the rest of it is whatever was there (\<open>junk\<close>), with more the copy runs over the stack (\<open>None\<close>).\<close>

definition int_bytes :: "u8 list \<Rightarrow> u32" where
  "int_bytes bs = foldr (\<lambda>v acc. push_bit 8 acc OR ucast v) bs 0"

definition led_write :: "bus \<Rightarrow> u8 list \<Rightarrow> u8 list \<Rightarrow> led_drv \<Rightarrow> hist \<Rightarrow> (int \<times> hist) option" where
  "led_write b junk buf s h =
     (if length buf > 4 then None
      else
        let val = int_bytes (take 4 (buf @ drop (length buf) junk))
        in if val = 1 then Some (0, upd32 b (gpio_dat s) (bits_clear (push_bit (led_pin s) 1)) h)
           else Some (0, upd32 b (gpio_dat s) (bits_or (push_bit (led_pin s) 1)) h))"

text \<open>After \<^verbatim>\<open>led_remove\<close> the driver has no registers any more; the pin stays as it is.\<close>

definition led_remove :: "led_drv option \<Rightarrow> int \<times> led_drv option" where
  "led_remove s = (0, None)"

subsection \<open>The LED follows what is written\<close>

text \<open>The resource of a kind with a number.\<close>

definition get_resource_ok :: "get_resource \<Rightarrow> bool" where
  "get_resource_ok get \<longleftrightarrow>
     (\<forall>rs f n. get rs f n = (let xs = filter (\<lambda>r. res_flags r = f) rs in if n < length xs then Some (xs ! n) else None))"

lemma led_probe_device:
  assumes "get_resource_ok get"
  shows "led_probe get led_resource = Some (0, \<lparr>gpio_con = GPFCON, gpio_dat = GPFDAT, led_pin = 4\<rparr>)"
proof -
  have "get rs f 0 = (let xs = filter (\<lambda>r. res_flags r = f) rs in if 0 < length xs then Some (xs ! 0) else None)" for rs f
    using assms by (simp add: get_resource_ok_def)
  then show ?thesis by (simp add: led_probe_def led_resource_def)
qed

text \<open>Opening the device and writing an \<^verbatim>\<open>int\<close> makes pin 4 of port F an output that is low, with the LED on,
  exactly for 1, and leaves the other pins; but the call reports that nothing was written.\<close>

lemma platled_follows:
  assumes "get_resource_ok get" and "ram_like b rst {GPFCON, GPFDAT}" and "length buf = 4"
  shows "\<exists>s h1 h2. led_probe get led_resource = Some (0, s) \<and> led_open b s h = (0, h1) \<and>
     latest32 GPFCON h1 \<noteq> None \<and> take_bit 2 (drop_bit 8 (the (latest32 GPFCON h1))) = 1 \<and>
     led_write b junk buf s h1 = Some (0, h2) \<and>
     latest32 GPFDAT h2 = Some (if int_bytes buf = 1 then b h1 GPFDAT AND NOT 16 else b h1 GPFDAT OR 16)"
proof -
  define s where "s = \<lparr>gpio_con = GPFCON, gpio_dat = GPFDAT, led_pin = 4\<rparr>"
  define h1 where "h1 = snd (led_open b s h)"
  define h2 where "h2 = upd32 b GPFDAT (if int_bytes buf = 1 then bits_clear (push_bit 4 1) else bits_or (push_bit 4 1)) h1"
  have "latest32 GPFCON h1 = Some (b h GPFCON AND NOT (push_bit 8 3) OR push_bit 8 1)"
    using ram_like_upd32 [OF assms(2), of GPFCON]
    by (simp add: h1_def s_def led_open_def Let_def upd32_eq [of b GPFCON "bits_or m" for m] latest32_append)
  moreover have "take_bit 2 (drop_bit 8 (x AND NOT (push_bit 8 3) OR push_bit 8 1)) = 1" for x :: u32
    by (rule bit_word_eqI) (auto simp: bit_simps less_2_cases_iff)
  ultimately have con: "latest32 GPFCON h1 \<noteq> None" "take_bit 2 (drop_bit 8 (the (latest32 GPFCON h1))) = 1" by simp_all
  have o: "led_open b s h = (0, h1)" by (simp add: h1_def led_open_def)
  have w: "led_write b junk buf s h1 = Some (0, h2)" using assms(3) by (simp add: led_write_def h2_def s_def)
  have d: "latest32 GPFDAT h2 = Some (if int_bytes buf = 1 then b h1 GPFDAT AND NOT 16 else b h1 GPFDAT OR 16)"
    by (simp add: h2_def upd32_eq latest32_append)
  show ?thesis using led_probe_device [OF assms(1)] con o w d unfolding s_def by blast
qed

text \<open>A longer write runs over the stack.\<close>

lemma led_write_overruns: "length buf > 4 \<Longrightarrow> led_write b junk buf s h = None"
  by (simp add: led_write_def)

text \<open>A shorter one leaves the LED to what the stack held: the byte 1 need not light it.\<close>

lemma led_write_short:
  "led_write b [0, 0, 0, 0] [1] s h = Some (0, upd32 b (gpio_dat s) (bits_clear (push_bit (led_pin s) 1)) h)"
  "led_write b [0, 0, 0, 1] [1] s h = Some (0, upd32 b (gpio_dat s) (bits_or (push_bit (led_pin s) 1)) h)"
  by (simp_all add: led_write_def int_bytes_def)

end
