(* ===== verification/Atomopen.thy ===== *)
theory Atomopen
  imports Buttons
begin

text \<open>
  The button driver with an atomic counter, \<^verbatim>\<open>char_driver/Asynchronous_Signal_atom/sixth_drv.c\<close>: only one
  process may have the device open, which the driver wants to ensure with \<^verbatim>\<open>atomic_dec_and_test\<close>.  Processes
  run beside each other, so every access to what they share is a step: the atomic operations on the counter
  and the requests and releases of the four interrupt lines.
\<close>

text \<open>Where a process is: without the device; refused, before the counter is put back; in \<^verbatim>\<open>open\<close>, with a
  number of lines still to request; with the device open; in \<^verbatim>\<open>close\<close>, with lines still to free.\<close>

datatype opener = Away | Refused | Requesting nat | Has_open | Freeing_lines nat

text \<open>The lines are 0 to 3; \<open>taken\<close> are those with a handler.\<close>

record sixth =
  canopen :: int
  taken :: "nat set"
  openers :: "nat \<Rightarrow> opener"
  returned :: "(nat \<times> int) list"

abbreviation goes :: "nat \<Rightarrow> opener \<Rightarrow> sixth \<Rightarrow> sixth" where
  "goes p a s \<equiv> s\<lparr>openers := (openers s)(p := a)\<rparr>"

definition gives :: "nat \<Rightarrow> int \<Rightarrow> sixth \<Rightarrow> sixth" where
  "gives p r s = s\<lparr>returned := (p, r) # returned s\<rparr>"

text \<open>A step of \<^verbatim>\<open>open\<close> in process \<open>p\<close>.  A line that is taken already cannot be requested again, and the
  driver does not look at the result.\<close>

definition sixth_drv_open :: "nat \<Rightarrow> sixth \<Rightarrow> sixth option" where
  "sixth_drv_open p s =
     (case openers s p of
        Away \<Rightarrow>
          let s = s\<lparr>canopen := canopen s - 1\<rparr>
          in Some (if canopen s \<noteq> 0 then goes p Refused s else goes p (Requesting 4) s)
      | Refused \<Rightarrow> Some (gives p (- EBUSY) (goes p Away (s\<lparr>canopen := canopen s + 1\<rparr>)))
      | Requesting 0 \<Rightarrow> Some (gives p 0 (goes p Has_open s))
      | Requesting (Suc n) \<Rightarrow> Some (goes p (Requesting n) (s\<lparr>taken := insert (3 - n) (taken s)\<rparr>))
      | _ \<Rightarrow> None)"

definition sixth_drv_close :: "nat \<Rightarrow> sixth \<Rightarrow> sixth option" where
  "sixth_drv_close p s =
     (case openers s p of
        Has_open \<Rightarrow> Some (goes p (Freeing_lines 4) (s\<lparr>canopen := canopen s + 1\<rparr>))
      | Freeing_lines 0 \<Rightarrow> Some (goes p Away s)
      | Freeing_lines (Suc n) \<Rightarrow> Some (goes p (Freeing_lines n) (s\<lparr>taken := taken s - {3 - n}\<rparr>))
      | _ \<Rightarrow> None)"

text \<open>What the handler publishes, and what a read returns; here without debouncing.\<close>

definition sixth_buttons_irq :: "(pin \<Rightarrow> u32) \<Rightarrow> pin_desc \<Rightarrow> u8 \<times> bool \<Rightarrow> u8 \<times> bool" where
  "sixth_buttons_irq getpin pindesc s =
     (if getpin (pd_pin pindesc) \<noteq> 0 then (ucast (0x80 OR pd_key_val pindesc), True)
      else (ucast (pd_key_val pindesc), True))"

definition sixth_drv_poll :: "u8 \<times> bool \<Rightarrow> u32" where
  "sixth_drv_poll s = (let mask = 0 in if snd s then mask OR (POLLIN OR POLLRDNORM) else mask)"

definition sixth_drv_read :: "bool \<Rightarrow> nat \<Rightarrow> u8 \<times> bool \<Rightarrow> (int \<times> u8 option \<times> u8 \<times> bool) option" where
  "sixth_drv_read signal count s =
     (let (key, ev) = s in
      if count \<noteq> 1 then Some (- EINVAL, None, s)
      else if \<not> ev \<and> \<not> signal then None
      else Some (1, Some key, key, False))"

subsection \<open>Processes beside each other\<close>

text \<open>The processes are those of a list \<open>ps\<close>.\<close>

inductive sixth_step :: "nat list \<Rightarrow> sixth \<Rightarrow> sixth \<Rightarrow> bool" for ps where
  open_step: "p \<in> set ps \<Longrightarrow> sixth_drv_open p s = Some s' \<Longrightarrow> sixth_step ps s s'"
| close_step: "p \<in> set ps \<Longrightarrow> sixth_drv_close p s = Some s' \<Longrightarrow> sixth_step ps s s'"

definition sixth_start :: sixth where
  "sixth_start = \<lparr>canopen = 1, taken = {}, openers = (\<lambda>_. Away), returned = []\<rparr>"

inductive sixth_reach :: "nat list \<Rightarrow> sixth \<Rightarrow> bool" for ps where
  start: "sixth_reach ps sixth_start"
| step: "sixth_reach ps s \<Longrightarrow> sixth_step ps s s' \<Longrightarrow> sixth_reach ps s'"

text \<open>Who has taken the counter down and not put it back; who was let in.\<close>

fun counted :: "opener \<Rightarrow> int" where
  "counted Refused = 1" | "counted (Requesting _) = 1" | "counted Has_open = 1" | "counted _ = 0"

fun let_in :: "opener \<Rightarrow> int" where
  "let_in (Requesting _) = 1" | "let_in Has_open = 1" | "let_in _ = 0"

definition total_of :: "(opener \<Rightarrow> int) \<Rightarrow> nat list \<Rightarrow> sixth \<Rightarrow> int" where
  "total_of f ps s = (\<Sum>p\<leftarrow>ps. f (openers s p))"

definition sixth_inv :: "nat list \<Rightarrow> sixth \<Rightarrow> bool" where
  "sixth_inv ps s \<longleftrightarrow> canopen s = 1 - total_of counted ps s \<and> total_of let_in ps s \<le> 1"

lemma total_of_move:
  assumes "distinct ps" "p \<in> set ps" "openers s' = (openers s)(p := a)"
  shows "total_of f ps s' = total_of f ps s - f (openers s p) + f a"
  using assms(1,2) unfolding total_of_def assms(3)
proof (induction ps)
  case (Cons q ps)
  show ?case
  proof (cases "q = p")
    case True
    then have "p \<notin> set ps" using Cons.prems by simp
    then have "(\<Sum>x\<leftarrow>ps. f (((openers s)(p := a)) x)) = (\<Sum>x\<leftarrow>ps. f (openers s x))"
      by (intro arg_cong [where f = sum_list] map_cong) auto
    with True show ?thesis by simp
  qed (use Cons in auto)
qed simp

lemma let_in_counted: "total_of let_in ps s \<le> total_of counted ps s" "0 \<le> total_of counted ps s"
proof -
  have "let_in a \<le> counted a" "0 \<le> counted a" for a by (cases a; simp)+
  then show "total_of let_in ps s \<le> total_of counted ps s" "0 \<le> total_of counted ps s"
    unfolding total_of_def by (auto intro!: sum_list_mono sum_list_nonneg)
qed

lemma sixth_inv_step:
  assumes "distinct ps" "sixth_inv ps s" "sixth_step ps s s'"
  shows "sixth_inv ps s'"
  using assms(3)
proof cases
  case (open_step p)
  note move = total_of_move [OF assms(1) open_step(1)]
  show ?thesis
  proof (cases "openers s p")
    case Away
    then show ?thesis using open_step(2) assms(2) let_in_counted [of ps s] move [of s' s]
      by (auto simp: sixth_drv_open_def sixth_inv_def Let_def split: if_splits)
  next
    case Refused
    then show ?thesis using open_step(2) assms(2) move [of s' s]
      by (auto simp: sixth_drv_open_def sixth_inv_def gives_def)
  next
    case (Requesting n)
    then show ?thesis using open_step(2) assms(2) move [of s' s]
      by (cases n) (auto simp: sixth_drv_open_def sixth_inv_def gives_def)
  qed (use open_step(2) in \<open>simp_all add: sixth_drv_open_def\<close>)
next
  case (close_step p)
  note move = total_of_move [OF assms(1) close_step(1)]
  show ?thesis
  proof (cases "openers s p")
    case Has_open
    then show ?thesis using close_step(2) assms(2) move [of s' s]
      by (auto simp: sixth_drv_close_def sixth_inv_def)
  next
    case (Freeing_lines n)
    then show ?thesis using close_step(2) assms(2) move [of s' s]
      by (cases n) (auto simp: sixth_drv_close_def sixth_inv_def)
  qed (use close_step(2) in \<open>simp_all add: sixth_drv_close_def\<close>)
qed

lemma sixth_reach_inv: "distinct ps \<Longrightarrow> sixth_reach ps s \<Longrightarrow> sixth_inv ps s"
proof (rotate_tac, induction rule: sixth_reach.induct)
  case start
  have "total_of f ps sixth_start = int (length ps) * f Away" for f
    by (simp add: total_of_def sixth_start_def sum_list_triv)
  then show ?case by (simp add: sixth_inv_def) (simp add: sixth_start_def)
next
  case (step s s')
  then show ?case using sixth_inv_step by blast
qed

text \<open>C38: However the processes are interleaved, at most one has the device open.\<close>

lemma atomic_exclusive:
  assumes "distinct ps" "sixth_reach ps s"
  shows "length (filter (\<lambda>p. openers s p = Has_open) ps) \<le> 1"
proof -
  have "int (length (filter (\<lambda>p. openers s p = Has_open) ps)) = (\<Sum>p\<leftarrow>ps. if openers s p = Has_open then 1 else 0)"
    by (induction ps) simp_all
  also have "\<dots> \<le> total_of let_in ps s" unfolding total_of_def
  proof (rule sum_list_mono)
    show "(if openers s p = Has_open then 1 else 0) \<le> let_in (openers s p)" for p by (cases "openers s p") auto
  qed
  also have "\<dots> \<le> 1" using sixth_reach_inv [OF assms] by (simp add: sixth_inv_def)
  finally show ?thesis by simp
qed

text \<open>A schedule is a list of processes, with whether the step is one of \<^verbatim>\<open>open\<close>.\<close>

fun sixth_schedule :: "(bool \<times> nat) list \<Rightarrow> sixth \<Rightarrow> sixth option" where
  "sixth_schedule [] s = Some s"
| "sixth_schedule ((enters, p) # ts) s =
     Option.bind (if enters then sixth_drv_open p s else sixth_drv_close p s) (sixth_schedule ts)"

lemma sixth_schedule_reach:
  "sixth_reach ps s \<Longrightarrow> list_all (\<lambda>(_, p). p \<in> set ps) ts \<Longrightarrow> sixth_schedule ts s = Some s' \<Longrightarrow> sixth_reach ps s'"
proof (induction ts s rule: sixth_schedule.induct)
  case (2 enters p ts s)
  then obtain t where t: "(if enters then sixth_drv_open p s else sixth_drv_close p s) = Some t"
    "sixth_schedule ts t = Some s'" "p \<in> set ps"
    by (auto split: bind_splits)
  then have "sixth_step ps s t" by (auto split: if_splits intro: sixth_step.intros)
  with 2 t have "sixth_reach ps t" by (blast intro: sixth_reach.step)
  with 2 t show ?case by simp
qed simp

abbreviation opens :: "nat \<Rightarrow> nat \<Rightarrow> (bool \<times> nat) list" where "opens n p \<equiv> replicate n (True, p)"
abbreviation closes :: "nat \<Rightarrow> nat \<Rightarrow> (bool \<times> nat) list" where "closes n p \<equiv> replicate n (False, p)"

lemmas sixth_defs = sixth_start_def sixth_drv_open_def sixth_drv_close_def gives_def eval_nat_numeral

lemma demo_open: "\<exists>s. sixth_reach [0, 1] s \<and> openers s 0 = Has_open \<and> returned s = [(0, 0)]"
proof -
  have "\<exists>s. sixth_schedule (opens 6 0) sixth_start = Some s \<and> openers s 0 = Has_open \<and> returned s = [(0, 0)]"
    by (simp add: sixth_defs)
  moreover have "list_all (\<lambda>(_, p). p \<in> set [0, 1]) (opens 6 0)" by (simp add: eval_nat_numeral)
  ultimately show ?thesis using sixth_schedule_reach [OF sixth_reach.start] by blast
qed

lemma atomic_exclusive_witness: "\<exists>s. sixth_reach [0, 1] s \<and> openers s 0 = Has_open \<and> openers s 1 \<noteq> Has_open"
proof -
  obtain s where s: "sixth_reach [0, 1] s" "openers s 0 = Has_open" using demo_open by blast
  have "length (filter (\<lambda>p. openers s p = Has_open) [0, 1]) \<le> 1" by (rule atomic_exclusive [OF _ s(1)]) simp
  with s show ?thesis by (auto split: if_splits)
qed

text \<open>\<^verbatim>\<open>close\<close> puts the counter back before it frees the lines: a process that opens in between gets the
  device, but its requests find the lines taken, and then they are freed.  It has the device open without
  interrupts.\<close>

lemma close_open_race: "\<exists>s. sixth_reach [0, 1] s \<and> openers s 1 = Has_open \<and> openers s 0 = Away \<and> taken s = {}"
proof -
  have "\<exists>s. sixth_schedule (opens 6 0 @ closes 1 0 @ opens 6 1 @ closes 5 0) sixth_start = Some s \<and>
      openers s 1 = Has_open \<and> openers s 0 = Away \<and> taken s = {}"
    by (auto simp: sixth_defs)
  moreover have "list_all (\<lambda>(_, p). p \<in> set [0, 1]) (opens 6 0 @ closes 1 0 @ opens 6 1 @ closes 5 0)"
    by (simp add: eval_nat_numeral)
  ultimately show ?thesis using sixth_schedule_reach [OF sixth_reach.start] by blast
qed

text \<open>A refused process keeps others out until it has put the counter back: a process may be told that the
  device is busy when nobody has it.\<close>

lemma spurious_busy:
  "\<exists>s. sixth_reach [0, 1, 2] s \<and> openers s 0 = Away \<and> openers s 1 = Refused \<and> openers s 2 = Away \<and>
     (2, - EBUSY) \<in> set (returned s)"
proof -
  let ?ts = "opens 6 0 @ opens 1 1 @ closes 6 0 @ opens 2 2"
  have "\<exists>s. sixth_schedule ?ts sixth_start = Some s \<and> openers s 0 = Away \<and> openers s 1 = Refused \<and> openers s 2 = Away \<and>
      (2, - EBUSY) \<in> set (returned s)"
    by (auto simp: sixth_defs)
  moreover have "list_all (\<lambda>(_, p). p \<in> set [0, 1, 2]) ?ts" by (simp add: eval_nat_numeral)
  ultimately show ?thesis using sixth_schedule_reach [OF sixth_reach.start] by blast
qed

end
