(* ===== verification/Chrdev.thy ===== *)
theory Chrdev
  imports Kernel
begin

text \<open>
  The example of two character devices under one major number, \<^verbatim>\<open>new_chrdriver.c\<close>, and the program
  \<^verbatim>\<open>hello_test.c\<close> that opens a device node.  The kernel's table of character devices is a list of regions
  with their operations; the node of a name leads to a device number, and the number to the operations.
\<close>

datatype hello_ops = Hello_fops | Hello2_fops

record cdev =
  cdev_major :: nat
  cdev_minor :: nat
  cdev_count :: nat
  cdev_ops :: hello_ops

record chrdevs =
  regions :: "(nat \<times> nat \<times> nat) list"
  cdevs :: "cdev list"
  nodes :: "(string \<times> nat \<times> nat) list"

abbreviation HELLO_CNT :: nat where "HELLO_CNT \<equiv> 2"

definition hello_open :: "string list \<Rightarrow> int \<times> string list" where
  "hello_open log = (0, log @ [''hello word''])"

definition hello2_open :: "string list \<Rightarrow> int \<times> string list" where
  "hello2_open log = (0, log @ [''hello2_open''])"

text \<open>\<open>free_major\<close> is the number that the kernel hands out when the module has none; the result has the major
  number and the tables.\<close>

definition chardev_init :: "nat \<Rightarrow> nat \<Rightarrow> chrdevs \<Rightarrow> int \<times> nat \<times> chrdevs" where
  "chardev_init free_major major t =
     (let major = (if major \<noteq> 0 then major else free_major);
          t = t\<lparr>regions := (major, 0, HELLO_CNT) # regions t\<rparr>;
          t = t\<lparr>cdevs := \<lparr>cdev_major = major, cdev_minor = 0, cdev_count = HELLO_CNT, cdev_ops = Hello_fops\<rparr> # cdevs t\<rparr>;
          t = t\<lparr>regions := (major, 2, 1) # regions t\<rparr>;
          t = t\<lparr>cdevs := \<lparr>cdev_major = major, cdev_minor = 2, cdev_count = 1, cdev_ops = Hello2_fops\<rparr> # cdevs t\<rparr>;
          t = t\<lparr>nodes := (''/dev/hello0'', major, 0) # nodes t\<rparr>;
          t = t\<lparr>nodes := (''/dev/hello1'', major, 1) # nodes t\<rparr>;
          t = t\<lparr>nodes := (''/dev/hello2'', major, 2) # nodes t\<rparr>;
          t = t\<lparr>nodes := (''/dev/hello3'', major, 3) # nodes t\<rparr>
      in (0, major, t))"

definition chardev_exit :: "nat \<Rightarrow> chrdevs \<Rightarrow> chrdevs" where
  "chardev_exit major t =
     (let t = t\<lparr>nodes := filter (\<lambda>(_, d). d \<notin> {(major, 0), (major, 1), (major, 2), (major, 3)}) (nodes t)\<rparr>;
          t = t\<lparr>cdevs := remove1 \<lparr>cdev_major = major, cdev_minor = 0, cdev_count = HELLO_CNT, cdev_ops = Hello_fops\<rparr> (cdevs t)\<rparr>;
          t = t\<lparr>regions := remove1 (major, 0, HELLO_CNT) (regions t)\<rparr>;
          t = t\<lparr>cdevs := remove1 \<lparr>cdev_major = major, cdev_minor = 2, cdev_count = 1, cdev_ops = Hello2_fops\<rparr> (cdevs t)\<rparr>
      in t\<lparr>regions := remove1 (major, 2, 1) (regions t)\<rparr>)"

text \<open>Opening a node: the region that holds the number decides; without one the call fails.\<close>

definition open_node :: "chrdevs \<Rightarrow> string \<Rightarrow> string list \<Rightarrow> int \<times> string list" where
  "open_node t name log =
     (case map_of (nodes t) name of None \<Rightarrow> (-2, log)
      | Some (ma, mi) \<Rightarrow>
          (case find (\<lambda>c. cdev_major c = ma \<and> cdev_minor c \<le> mi \<and> mi < cdev_minor c + cdev_count c) (cdevs t) of
             None \<Rightarrow> (-6, log)
           | Some c \<Rightarrow> (case cdev_ops c of Hello_fops \<Rightarrow> hello_open log | Hello2_fops \<Rightarrow> hello2_open log)))"

text \<open>The program: its exit value and what it prints.\<close>

definition hello_test :: "chrdevs \<Rightarrow> string list \<Rightarrow> string list \<Rightarrow> int \<times> string \<times> string list" where
  "hello_test t argv log =
     (if length argv \<noteq> 2 then (0, argv ! 0 @ '' <dev>'' @ [CHR 0x0A], log)
      else
        let (fd, log) = open_node t (argv ! 1) log
        in if fd < 0 then (0, ''can't open '' @ argv ! 1 @ [CHR 0x0A], log)
           else (0, ''can open '' @ argv ! 1 @ [CHR 0x0A], log))"

text \<open>Minor numbers 0 and 1 are the first device, 2 the second; the node of minor number 3 exists but cannot be
  opened, as the comment in the source says.\<close>

lemma hello_minors:
  assumes "chardev_init free_major major t = (r, m, t')" "\<And>c. c \<in> set (cdevs t) \<Longrightarrow> cdev_major c \<noteq> m"
  shows "open_node t' ''/dev/hello0'' log = (0, log @ [''hello word''])"
    and "open_node t' ''/dev/hello1'' log = (0, log @ [''hello word''])"
    and "open_node t' ''/dev/hello2'' log = (0, log @ [''hello2_open''])"
    and "open_node t' ''/dev/hello3'' log = (-6, log)"
proof -
  have none: "find (\<lambda>c. cdev_major c = m \<and> P c) (cdevs t) = None" for P
    using assms(2) by (auto simp: find_None_iff)
  have t': "nodes t' = [(''/dev/hello3'', m, 3), (''/dev/hello2'', m, 2), (''/dev/hello1'', m, 1), (''/dev/hello0'', m, 0)] @ nodes t"
    "cdevs t' = [\<lparr>cdev_major = m, cdev_minor = 2, cdev_count = 1, cdev_ops = Hello2_fops\<rparr>,
       \<lparr>cdev_major = m, cdev_minor = 0, cdev_count = 2, cdev_ops = Hello_fops\<rparr>] @ cdevs t"
    using assms(1) by (auto simp: chardev_init_def Let_def)
  show "open_node t' ''/dev/hello0'' log = (0, log @ [''hello word''])"
    "open_node t' ''/dev/hello1'' log = (0, log @ [''hello word''])"
    "open_node t' ''/dev/hello2'' log = (0, log @ [''hello2_open''])"
    "open_node t' ''/dev/hello3'' log = (-6, log)"
    using none by (simp_all add: open_node_def t' hello_open_def hello2_open_def)
qed

text \<open>Unloading takes back what loading put into the tables.\<close>

lemma hello_unload:
  assumes "chardev_init free_major major t = (r, m, t')" "\<And>n d. (n, d) \<in> set (nodes t) \<Longrightarrow> fst d \<noteq> m"
  shows "chardev_exit m t' = t"
proof -
  have "filter (\<lambda>(_, d). d \<notin> {(m, 0), (m, 1), (m, 2), (m, 3)}) (nodes t) = nodes t"
    using assms(2) by (intro filter_True) fastforce
  then show ?thesis using assms(1) by (auto simp: chardev_init_def chardev_exit_def Let_def)
qed

end
