(* ===== verification/Firstdrv.thy ===== *)
theory Firstdrv
  imports Platled
begin

text \<open>
  The first two character drivers with their programs, below \<^verbatim>\<open>linux_driver/code/char_driver\<close>:
  \<^verbatim>\<open>first_led_driver\<close> (\<^verbatim>\<open>first_drv.c\<close>, \<^verbatim>\<open>firstdrvtest.c\<close>) switches the three LEDs together, and
  \<^verbatim>\<open>second_key_driver\<close> (\<^verbatim>\<open>second_drv.c\<close>, \<^verbatim>\<open>secondtest.c\<close>) reads the levels of the four buttons.  The registers that
  the drivers map have their physical addresses here.
\<close>

definition first_drv_open :: "bus \<Rightarrow> hist \<Rightarrow> int \<times> hist" where
  "first_drv_open b h =
     (let h = upd32 b GPFCON (bits_clear (push_bit 8 3 OR push_bit 10 3 OR push_bit 12 3)) h;
          h = upd32 b GPFCON (bits_or (push_bit 8 1 OR push_bit 10 1 OR push_bit 12 1)) h
      in (0, h))"

text \<open>As in theory Platled the bytes of a short write leave the rest of \<^verbatim>\<open>val\<close> to the stack.\<close>

definition first_drv_write :: "bus \<Rightarrow> u8 list \<Rightarrow> u8 list \<Rightarrow> hist \<Rightarrow> (int \<times> hist) option" where
  "first_drv_write b junk buf h =
     (if length buf > 4 then None
      else
        let val = int_bytes (take 4 (buf @ drop (length buf) junk))
        in if 1 = val then Some (0, upd32 b GPFDAT (bits_clear (push_bit 4 1 OR push_bit 5 1 OR push_bit 6 1)) h)
           else Some (0, upd32 b GPFDAT (bits_or (push_bit 4 1 OR push_bit 5 1 OR push_bit 6 1)) h))"

text \<open>The program: its exit status, what it prints, and the history.  \<^verbatim>\<open>fd\<close> is the answer of \<^verbatim>\<open>open\<close>, of which the
  program only reports a failure; what it writes then goes nowhere.\<close>

definition firstdrvtest :: "bus \<Rightarrow> int \<Rightarrow> u8 list \<Rightarrow> string \<Rightarrow> string list \<Rightarrow> hist \<Rightarrow> (int \<times> string \<times> hist) option" where
  "firstdrvtest b fd junk prog args h = do {
     let h = (if fd < 0 then h else snd (first_drv_open b h));
     let out = (if fd < 0 then ''can't epen'' @ [CHR 0x0A] else []);
     if length args \<noteq> 1 then Some (0, out @ ''Usage :'' @ [CHR 0x0A] @ prog @ '' <on|off>'' @ [CHR 0x0A], h)
     else do {
       let val = (if hd args = ''on'' then 1 else 0);
       (_, h) \<leftarrow> (if fd < 0 then Some (-1, h) else first_drv_write b junk [val, 0, 0, 0] h);
       Some (0, out, h)
     }
   }"

definition second_drv_open :: "bus \<Rightarrow> hist \<Rightarrow> int \<times> hist" where
  "second_drv_open b h =
     (let h = upd32 b GPFCON (bits_clear (push_bit (0 * 2) 3 OR push_bit (2 * 2) 3)) h;
          h = upd32 b GPGCON (bits_clear (push_bit (3 * 2) 3 OR push_bit (11 * 2) 3)) h
      in (0, h))"

definition level_byte :: "u32 \<Rightarrow> nat \<Rightarrow> u8" where
  "level_byte regval n = (if regval AND push_bit n 1 \<noteq> 0 then 1 else 0)"

definition second_drv_read :: "bus \<Rightarrow> nat \<Rightarrow> hist \<Rightarrow> int \<times> u8 list \<times> hist" where
  "second_drv_read b count h =
     (if count \<noteq> 4 then (- EINVAL, [], h)
      else
        let (regval, h) = rd32 b GPFDAT h;
            k0 = level_byte regval 0;
            k1 = level_byte regval 2;
            (regval, h) = rd32 b GPGDAT h;
            k2 = level_byte regval 3;
            k3 = level_byte regval 11
        in (4, [k0, k1, k2, k3], h))"

text \<open>A round of the endless loop of \<^verbatim>\<open>secondtest.c\<close>: the line it prints, if any, as the number and the keys,
  and the count.\<close>

definition secondtest_round :: "bus \<Rightarrow> int \<Rightarrow> hist \<Rightarrow> (int \<times> u8 list) option \<times> int \<times> hist" where
  "secondtest_round b cnt h =
     (let (_, key_vals, h) = second_drv_read b 4 h
      in if key_vals ! 0 = 0 \<or> key_vals ! 1 = 0 \<or> key_vals ! 2 = 0 \<or> key_vals ! 3 = 0
         then (Some (cnt, key_vals), cnt + 1, h) else (None, cnt, h))"

subsection \<open>LEDs and levels\<close>

text \<open>The program lights the three LEDs, which are on when their pins are low, for \<^verbatim>\<open>on\<close>, turns them off for any
  other word, and leaves the other pins; the pins are outputs before.\<close>

lemma firstdrvtest_switches:
  assumes "ram_like b rst {GPFCON, GPFDAT}" and "0 \<le> fd"
  shows "\<exists>h'. firstdrvtest b fd junk prog [arg] h = Some (0, [], h') \<and>
     latest32 GPFDAT h' = Some (if arg = ''on'' then b (snd (first_drv_open b h)) GPFDAT AND NOT 0x70
                                else b (snd (first_drv_open b h)) GPFDAT OR 0x70) \<and>
     latest32 GPFCON h' = Some (b h GPFCON AND NOT 0x3F00 OR 0x1500)"
proof -
  have con: "latest32 GPFCON (snd (first_drv_open b h)) = Some (b h GPFCON AND NOT 0x3F00 OR 0x1500)"
    using ram_like_upd32 [OF assms(1), of GPFCON]
    by (simp add: first_drv_open_def Let_def upd32_eq [of b GPFCON "bits_or m" for m] latest32_append)
  show ?thesis
  proof (cases "arg = ''on''")
    case True
    then show ?thesis using assms(2) con
      by (simp add: firstdrvtest_def first_drv_write_def int_bytes_def Let_def upd32_eq latest32_append)
  next
    case False
    then show ?thesis using assms(2) con
      by (simp add: firstdrvtest_def first_drv_write_def int_bytes_def Let_def upd32_eq latest32_append)
  qed
qed

text \<open>Without a device the program reports success.\<close>

lemma firstdrvtest_no_device: "fd < 0 \<Longrightarrow> firstdrvtest b fd junk prog [arg] h = Some (0, ''can't epen'' @ [CHR 0x0A], h)"
  by (simp add: firstdrvtest_def)

lemma level_byte_bit: "level_byte v n = of_bool (bit v n)"
  by (simp add: level_byte_def bit_iff_and_push_bit_not_eq_0)

text \<open>A round prints the levels exactly when a button is held down, which pulls its pin low.\<close>

lemma secondtest_prints_pressed:
  assumes f: "f = b h GPFDAT" and g: "g = b (h @ [Rd32 GPFDAT f]) GPGDAT"
  shows "fst (secondtest_round b cnt h) =
     (if bit f 0 \<and> bit f 2 \<and> bit g 3 \<and> bit g 11 then None
      else Some (cnt, map of_bool [bit f 0, bit f 2, bit g 3, bit g 11]))"
  by (simp add: secondtest_round_def second_drv_read_def Let_def level_byte_bit mmio_defs f g)

text \<open>Nothing sets the count before the loop, so the first line has whatever number was on the stack.\<close>

lemma secondtest_first_number:
  "fst (secondtest_round (\<lambda>_ _. 0) 0 h) \<noteq> fst (secondtest_round (\<lambda>_ _. 0) 1 h)"
  by (simp add: secondtest_round_def second_drv_read_def Let_def level_byte_def mmio_defs)

end
