(* ===== verification/Fifthdrv.thy ===== *)
theory Fifthdrv
  imports Buttons
begin

text \<open>
  The button driver that sends signals, \<^verbatim>\<open>char_driver/Asynchronous_Signal/fifth_drv.c\<close>, with its program
  \<^verbatim>\<open>fifthtest.c\<close>: every edge publishes the key and raises \<^verbatim>\<open>SIGIO\<close>, and the program reads and prints the key in
  its signal handler.  The driver's interrupt may come between any two accesses of the program's \<^verbatim>\<open>read\<close> to
  the driver's variables, so these are steps.  There is no debouncing here.

  The level of a pin is an argument.  \<^verbatim>\<open>SIGIO\<close> is the only signal the program gets: it is pending once however
  often it is raised, and blocked while its handler runs.
\<close>

text \<open>Where a \<^verbatim>\<open>read\<close> is: at its entry, asleep, about to copy, about to clear the flag, returned.\<close>

datatype reading = Entered | Asleep | Copying | Clearing u8 | Returned int "u8 option"

text \<open>Where the program is: before its four calls, in the handler, or in \<^verbatim>\<open>sleep\<close>.\<close>

datatype fifth_app = Registering | Opening_dev | Owning | Setting_flags | Handling reading | Pausing

text \<open>The driver's variables, the program with its signal and what it has printed, latest first; \<open>newest\<close> is the
  latest key that was published since signals were asked for.\<close>

record fifth =
  key5 :: u8
  ev5 :: bool
  irqs5 :: bool
  button_async :: bool
  app5 :: fifth_app
  owned :: bool
  sigio_pending :: bool
  printed :: "u8 list"
  newest :: "u8 option"

definition kill_fasync :: "fifth \<Rightarrow> fifth" where
  "kill_fasync s = (if button_async s \<and> owned s then s\<lparr>sigio_pending := True\<rparr> else s)"

definition fifth_buttons_irq :: "(pin \<Rightarrow> u32) \<Rightarrow> pin_desc \<Rightarrow> fifth \<Rightarrow> fifth" where
  "fifth_buttons_irq getpin pindesc s =
     (let pinval = getpin (pd_pin pindesc);
          s = (if pinval \<noteq> 0 then s\<lparr>key5 := ucast (0x80 OR pd_key_val pindesc)\<rparr>
               else s\<lparr>key5 := ucast (pd_key_val pindesc)\<rparr>);
          s = s\<lparr>ev5 := True\<rparr>
      in kill_fasync s)"

definition fifth_drv_poll :: "fifth \<Rightarrow> u32" where
  "fifth_drv_poll s = (let mask = 0 in if ev5 s then mask OR (POLLIN OR POLLRDNORM) else mask)"

definition fifth_drv_open :: "fifth \<Rightarrow> int \<times> fifth" where
  "fifth_drv_open s = (0, s\<lparr>irqs5 := True\<rparr>)"

definition fifth_drv_read :: "nat \<Rightarrow> reading \<Rightarrow> fifth \<Rightarrow> (reading \<times> fifth) option" where
  "fifth_drv_read count r s =
     (case r of
        Entered \<Rightarrow> if count \<noteq> 1 then Some (Returned (- EINVAL) None, s)
                   else if ev5 s then Some (Copying, s) else Some (Asleep, s)
      | Asleep \<Rightarrow> if ev5 s then Some (Copying, s) else None
      | Copying \<Rightarrow> Some (Clearing (key5 s), s)
      | Clearing v \<Rightarrow> Some (Returned 1 (Some v), s\<lparr>ev5 := False\<rparr>)
      | Returned _ _ \<Rightarrow> None)"

definition fifth_drv_close :: "fifth \<Rightarrow> int \<times> fifth" where
  "fifth_drv_close s = (0, s\<lparr>irqs5 := False\<rparr>)"

definition fith_drv_fasync :: "bool \<Rightarrow> fifth \<Rightarrow> int \<times> fifth" where
  "fith_drv_fasync on s = (0, s\<lparr>button_async := on\<rparr>)"

text \<open>The variable that the handler prints is not set when the read fails.\<close>

definition my_signal_fun :: "reading \<Rightarrow> fifth \<Rightarrow> fifth option" where
  "my_signal_fun r s =
     (case r of
        Returned _ k \<Rightarrow> (case k of None \<Rightarrow> None | Some v \<Rightarrow> Some (s\<lparr>printed := v # printed s, app5 := Pausing\<rparr>))
      | _ \<Rightarrow> Option.bind (fifth_drv_read 1 r s) (\<lambda>(r, s). Some (s\<lparr>app5 := Handling r\<rparr>)))"

definition fifthtest_main :: "fifth \<Rightarrow> fifth option" where
  "fifthtest_main s =
     (case app5 s of
        Registering \<Rightarrow> Some (s\<lparr>app5 := Opening_dev\<rparr>)
      | Opening_dev \<Rightarrow> Some ((snd (fifth_drv_open s))\<lparr>app5 := Owning\<rparr>)
      | Owning \<Rightarrow> Some (s\<lparr>owned := True, app5 := Setting_flags\<rparr>)
      | Setting_flags \<Rightarrow> Some ((snd (fith_drv_fasync True s))\<lparr>app5 := Pausing\<rparr>)
      | Handling r \<Rightarrow> my_signal_fun r s
      | Pausing \<Rightarrow> if sigio_pending s then Some (s\<lparr>sigio_pending := False, app5 := Handling Entered\<rparr>) else None)"

subsection \<open>The program beside the interrupts\<close>

definition fifth_start :: fifth where
  "fifth_start =
     \<lparr>key5 = 0, ev5 = False, irqs5 = False, button_async = False, app5 = Registering, owned = False,
      sigio_pending = False, printed = [], newest = None\<rparr>"

definition fifth_edge :: "u32 \<Rightarrow> pin_desc \<Rightarrow> fifth \<Rightarrow> fifth" where
  "fifth_edge level pd s =
     (let s = fifth_buttons_irq (\<lambda>_. level) pd s
      in s\<lparr>newest := (if button_async s then Some (key5 s) else newest s)\<rparr>)"

text \<open>When a read has copied the key it has still to clear the flag; \<open>spaced\<close> edges do not fall in between.\<close>

definition key_copied :: "fifth \<Rightarrow> bool" where
  "key_copied s = (case app5 s of Handling (Clearing _) \<Rightarrow> True | _ \<Rightarrow> False)"

inductive fifth_step :: "bool \<Rightarrow> fifth \<Rightarrow> fifth \<Rightarrow> bool" for spaced where
  edge: "irqs5 s \<Longrightarrow> pd \<in> set pins_desc \<Longrightarrow> \<not> (spaced \<and> key_copied s) \<Longrightarrow> fifth_step spaced s (fifth_edge level pd s)"
| run: "fifthtest_main s = Some s' \<Longrightarrow> fifth_step spaced s s'"

inductive fifth_reach :: "bool \<Rightarrow> fifth \<Rightarrow> bool" for spaced where
  start: "fifth_reach spaced fifth_start"
| step: "fifth_reach spaced s \<Longrightarrow> fifth_step spaced s s' \<Longrightarrow> fifth_reach spaced s'"

inductive program_runs :: "fifth \<Rightarrow> fifth \<Rightarrow> bool" where
  rest: "program_runs s s"
| go: "fifthtest_main s = Some s' \<Longrightarrow> program_runs s' s'' \<Longrightarrow> program_runs s s''"

subsection \<open>Every edge is printed\<close>

text \<open>The newest key is the published one.  While it is not printed, the flag is up or a read has it in hand,
  and a program that sleeps has its signal pending.\<close>

definition delivers :: "fifth \<Rightarrow> u8 \<Rightarrow> bool" where
  "delivers s v \<longleftrightarrow>
     key5 s = v \<and>
     (case app5 s of
        Handling (Clearing w) \<Rightarrow> w = v
      | Handling (Returned _ k) \<Rightarrow> k = Some v \<or> ev5 s \<and> sigio_pending s
      | Handling _ \<Rightarrow> ev5 s \<or> printed s \<noteq> [] \<and> hd (printed s) = v
      | _ \<Rightarrow> (ev5 s \<or> printed s \<noteq> [] \<and> hd (printed s) = v) \<and> (sigio_pending s \<or> printed s \<noteq> [] \<and> hd (printed s) = v))"

definition fifth_inv :: "fifth \<Rightarrow> bool" where
  "fifth_inv s \<longleftrightarrow>
     (button_async s \<longrightarrow> owned s) \<and>
     (case app5 s of
        Registering \<Rightarrow> \<not> button_async s | Opening_dev \<Rightarrow> \<not> button_async s | Owning \<Rightarrow> \<not> button_async s
      | Setting_flags \<Rightarrow> \<not> button_async s \<and> owned s
      | Handling (Returned _ k) \<Rightarrow> k \<noteq> None
      | Handling (Clearing w) \<Rightarrow> w = key5 s
      | _ \<Rightarrow> True) \<and>
     (case newest s of None \<Rightarrow> True | Some v \<Rightarrow> button_async s \<and> delivers s v)"

lemmas fifth_defs = fifth_edge_def fifth_buttons_irq_def kill_fasync_def fifthtest_main_def my_signal_fun_def
  fifth_drv_read_def fifth_drv_open_def fith_drv_fasync_def key_copied_def

lemma fifth_edge_inv:
  assumes inv: "fifth_inv s" and apart: "\<not> key_copied s"
  shows "fifth_inv (fifth_edge level pd s)"
proof (cases "app5 s")
  case (Handling r)
  then show ?thesis using inv apart
    by (cases r) (auto simp: fifth_inv_def delivers_def fifth_edge_def fifth_buttons_irq_def kill_fasync_def key_copied_def Let_def
        split: option.splits)
qed (use inv in \<open>auto simp: fifth_inv_def delivers_def fifth_edge_def fifth_buttons_irq_def kill_fasync_def Let_def
    split: option.splits\<close>)

lemma my_signal_fun_inv:
  assumes "fifth_inv s" "app5 s = Handling r" "my_signal_fun r s = Some s'"
  shows "fifth_inv s'"
  using assms
  by (cases r) (auto simp: fifth_inv_def delivers_def my_signal_fun_def fifth_drv_read_def split: option.splits if_splits)

lemma fifthtest_main_inv:
  assumes inv: "fifth_inv s" and go: "fifthtest_main s = Some s'"
  shows "fifth_inv s'"
proof (cases "app5 s")
  case (Handling r)
  then show ?thesis using my_signal_fun_inv [OF inv Handling] go by (simp add: fifthtest_main_def)
qed (use inv go in \<open>auto simp: fifth_inv_def delivers_def fifthtest_main_def fifth_drv_open_def fith_drv_fasync_def
    split: option.splits if_splits\<close>)

lemma fifth_reach_inv: "fifth_reach True s \<Longrightarrow> fifth_inv s"
proof (induction rule: fifth_reach.induct)
  case start
  then show ?case by (simp add: fifth_inv_def fifth_start_def)
next
  case (step s s')
  from step.hyps(2) show ?case
    by (cases rule: fifth_step.cases) (use step.IH fifth_edge_inv fifthtest_main_inv in auto)
qed

text \<open>By itself the program comes to rest: each of its steps makes this number smaller.\<close>

fun steps_left :: "fifth_app \<Rightarrow> nat" where
  "steps_left Registering = 9"
| "steps_left Opening_dev = 8"
| "steps_left Owning = 7"
| "steps_left Setting_flags = 6"
| "steps_left (Handling Entered) = 5"
| "steps_left (Handling Asleep) = 4"
| "steps_left (Handling Copying) = 3"
| "steps_left (Handling (Clearing _)) = 2"
| "steps_left (Handling (Returned _ _)) = 1"
| "steps_left Pausing = 0"

definition fifth_measure :: "fifth \<Rightarrow> nat" where
  "fifth_measure s = steps_left (app5 s) + (if sigio_pending s then 10 else 0)"

lemma fifth_measure_less: "fifthtest_main s = Some s' \<Longrightarrow> fifth_measure s' < fifth_measure s"
  by (auto simp: fifth_measure_def fifth_defs split: fifth_app.splits reading.splits option.splits if_splits)

lemma program_rests: "fifth_inv s \<Longrightarrow> \<exists>s'. program_runs s s' \<and> fifthtest_main s' = None \<and> fifth_inv s'"
proof (induction "fifth_measure s" arbitrary: s rule: less_induct)
  case less
  show ?case
  proof (cases "fifthtest_main s")
    case None
    with less.prems show ?thesis by (blast intro: program_runs.rest)
  next
    case (Some t)
    then have "fifth_inv t" "fifth_measure t < fifth_measure s"
      using less.prems fifthtest_main_inv fifth_measure_less by blast+
    then show ?thesis using less.hyps Some by (blast intro: program_runs.go)
  qed
qed

lemma program_newest: "program_runs s s' \<Longrightarrow> newest s' = newest s"
proof (induction rule: program_runs.induct)
  case (go s s' s'')
  from go.hyps(1) have "newest s' = newest s"
    by (auto simp: fifth_defs split: fifth_app.splits reading.splits option.splits if_splits)
  with go.IH show ?case by simp
qed simp

lemma rest_printed:
  assumes "fifth_inv s" "fifthtest_main s = None" "newest s = Some v"
  shows "printed s \<noteq> [] \<and> hd (printed s) = v"
  using assms
  by (auto simp: fifth_inv_def delivers_def fifth_defs split: fifth_app.splits reading.splits option.splits if_splits)

text \<open>C39: As long as no edge falls between the copying of the key and the clearing of the flag, the program comes
  to rest by itself after any edges, and the last key it has printed is the last one that was published.\<close>

lemma signals_deliver:
  assumes "fifth_reach True s" "newest s = Some v"
  shows "\<exists>s'. program_runs s s' \<and> fifthtest_main s' = None \<and> printed s' \<noteq> [] \<and> hd (printed s') = v"
proof -
  obtain s' where s': "program_runs s s'" "fifthtest_main s' = None" "fifth_inv s'"
    using program_rests [OF fifth_reach_inv [OF assms(1)]] by blast
  then have "newest s' = Some v" using program_newest assms(2) by simp
  with s' show ?thesis using rest_printed by blast
qed

subsection \<open>Schedules\<close>

text \<open>A schedule is a list of edges, each with the level and the pin's number, and of steps of the program.\<close>

fun fifth_schedule :: "bool \<Rightarrow> (u32 \<times> nat) option list \<Rightarrow> fifth \<Rightarrow> fifth option" where
  "fifth_schedule spaced [] s = Some s"
| "fifth_schedule spaced (None # ts) s = Option.bind (fifthtest_main s) (fifth_schedule spaced ts)"
| "fifth_schedule spaced (Some (level, i) # ts) s =
     (if irqs5 s \<and> i < length pins_desc \<and> \<not> (spaced \<and> key_copied s)
      then fifth_schedule spaced ts (fifth_edge level (pins_desc ! i) s) else None)"

lemma fifth_schedule_reach:
  "fifth_reach spaced s \<Longrightarrow> fifth_schedule spaced ts s = Some s' \<Longrightarrow> fifth_reach spaced s'"
proof (induction spaced ts s rule: fifth_schedule.induct)
  case (2 spaced ts s)
  then show ?case by (auto split: bind_splits intro: fifth_reach.step fifth_step.run)
next
  case (3 spaced level i ts s)
  then have run: "irqs5 s" "i < length pins_desc" "\<not> (spaced \<and> key_copied s)"
    "fifth_schedule spaced ts (fifth_edge level (pins_desc ! i) s) = Some s'" by (simp_all split: if_splits)
  then have "fifth_step spaced s (fifth_edge level (pins_desc ! i) s)" by (intro fifth_step.edge) simp_all
  then have "fifth_reach spaced (fifth_edge level (pins_desc ! i) s)" using "3.prems"(1) by (rule fifth_reach.step [rotated])
  then show ?case using "3.IH" run by blast
qed simp

lemmas fifth_eval = fifth_start_def pins_desc_def Let_def fifth_defs

lemma demo_edge: "\<exists>s. fifth_reach True s \<and> newest s = Some 1"
proof -
  have "\<exists>s. fifth_schedule True [None, None, None, None, Some (0, 0)] fifth_start = Some s \<and> newest s = Some 1"
    by (simp add: fifth_eval)
  then show ?thesis using fifth_schedule_reach [OF fifth_reach.start] by blast
qed

lemma signals_deliver_witness: "\<exists>s. fifthtest_main s = None \<and> printed s \<noteq> [] \<and> hd (printed s) = 1"
proof -
  obtain s where "fifth_reach True s" "newest s = Some 1" using demo_edge by blast
  from signals_deliver [OF this] show ?thesis by blast
qed

text \<open>An edge between the copy and the clearing is lost: here the button is pressed and released, the program is
  asleep in its handler, and the release has not been printed.\<close>

lemma cleared_edge_lost:
  "\<exists>s. fifth_reach False s \<and> fifthtest_main s = None \<and> newest s = Some 0x81 \<and> printed s = [1] \<and> app5 s = Handling Asleep"
proof -
  let ?ts = "[None, None, None, None, Some (0, 0), None, None, None, Some (1, 0), None, None, None, None]"
  have "\<exists>s. fifth_schedule False ?ts fifth_start = Some s \<and> fifthtest_main s = None \<and> newest s = Some 0x81 \<and> printed s = [1] \<and>
      app5 s = Handling Asleep"
    by (simp add: fifth_eval)
  then show ?thesis using fifth_schedule_reach [OF fifth_reach.start] by blast
qed

text \<open>Two edges before the copy give one key, and the second signal puts the program to sleep in its handler,
  although nothing is left to read.\<close>

lemma handler_sleeps:
  "\<exists>s. fifth_reach False s \<and> fifthtest_main s = None \<and> newest s = Some 0x81 \<and> printed s = [0x81] \<and> app5 s = Handling Asleep"
proof -
  let ?ts = "[None, None, None, None, Some (0, 0), None, Some (1, 0), None, None, None, None, None, None]"
  have "\<exists>s. fifth_schedule False ?ts fifth_start = Some s \<and> fifthtest_main s = None \<and> newest s = Some 0x81 \<and> printed s = [0x81] \<and>
      app5 s = Handling Asleep"
    by (simp add: fifth_eval)
  then show ?thesis using fifth_schedule_reach [OF fifth_reach.start] by blast
qed

end
