(* ===== verification/Muldi.thy ===== *)
theory Muldi
  imports Prelude
begin

text \<open>
  The multiplication of 64 bits by the library of the SPI image, \<^verbatim>\<open>lib/muldi3.c\<close>: the compiler calls
  \<^verbatim>\<open>__muldi3\<close> for a product of two \<^verbatim>\<open>long long\<close> values.  A \<^verbatim>\<open>DIunion\<close> is a double word with its two halves,
  the low one first (the header that declares it is the compiler's).  The macro \<^verbatim>\<open>umul_ppmm\<close> is assembler of
  a processor whose multiplication keeps 32 bits; each instruction is a line of its definition, and an
  instruction that sets the carry is given as the sum and the carry.
\<close>

unbundle bit_operations_syntax

definition adds :: "u32 \<Rightarrow> u32 \<Rightarrow> u32 \<times> bool" where
  "adds x y = (x + y, 2 ^ 32 \<le> unat x + unat y)"

definition umul_ppmm :: "u32 \<Rightarrow> u32 \<Rightarrow> u32 \<times> u32" where
  "umul_ppmm a b =
     (let t0 = drop_bit 16 a;
          xh = drop_bit 16 b;
          t1 = a AND NOT (push_bit 16 t0);
          t2 = b AND NOT (push_bit 16 xh);
          xl = t1 * t2;
          t2 = t0 * t2;
          t1 = xh * t1;
          xh = t0 * xh;
          (t1, carry) = adds t2 t1;
          xh = (if carry then xh + 65536 else xh);
          (xl, carry) = adds xl (push_bit 16 t1);
          xh = xh + drop_bit 16 t1 + (if carry then 1 else 0)
      in (xh, xl))"

definition di_low :: "64 word \<Rightarrow> u32" where
  "di_low w = ucast w"

definition di_high :: "64 word \<Rightarrow> u32" where
  "di_high w = ucast (drop_bit 32 w)"

definition di_union :: "u32 \<Rightarrow> u32 \<Rightarrow> 64 word" where
  "di_union high low = push_bit 32 (ucast high) OR ucast low"

definition umulsidi3 :: "u32 \<Rightarrow> u32 \<Rightarrow> 64 word" where
  "umulsidi3 u v = (let (high, low) = umul_ppmm u v in di_union high low)"

definition muldi3 :: "64 word \<Rightarrow> 64 word \<Rightarrow> 64 word" where
  "muldi3 u v =
     (let w = umulsidi3 (di_low u) (di_low v)
      in di_union (di_high w + (di_low u * di_high v + di_high u * di_low v)) (di_low w))"

subsection \<open>The halves of a double word\<close>

lemma unat_di_low: "unat (di_low w) = unat w mod 2 ^ 32"
  by (simp add: di_low_def unsigned_ucast_eq take_bit_eq_mod)

lemma unat_u64_less: "unat (w :: 64 word) < 2 ^ 64"
  using unsigned_less [where w = w and 'a = nat] by simp

lemma unat_u32_less: "unat (w :: u32) < 2 ^ 32"
  using unsigned_less [where w = w and 'a = nat] by simp

lemma unat_of_nat_u32: "n < 2 ^ 32 \<Longrightarrow> w = of_nat n \<Longrightarrow> unat (w :: u32) = n"
  by (simp add: unat_of_nat)

lemma unat_di_high: "unat (di_high w) = unat w div 2 ^ 32"
proof -
  have "unat w div 2 ^ 32 < 2 ^ 32" using unat_u64_less [of w] by (simp add: less_mult_imp_div_less)
  moreover have "unat (di_high w) = take_bit 32 (drop_bit 32 (unat w))"
    by (simp only: di_high_def unsigned_ucast_eq unat_drop_bit_eq) simp
  ultimately show ?thesis by (simp add: drop_bit_eq_div take_bit_eq_mod)
qed

lemma unat_di_union: "unat (di_union high low) = unat high * 2 ^ 32 + unat low"
proof -
  have "push_bit 32 (ucast high) AND (ucast low :: 64 word) = 0"
    by (rule bit_eqI) (auto simp: bit_simps dest: bit_imp_le_length)
  then have "di_union high low = push_bit 32 (ucast high) + ucast low"
    by (simp add: di_union_def disjunctive_add_eq_or)
  moreover have "unat high < 2 ^ 32" "unat low < 2 ^ 32" "unat high * 2 ^ 32 + unat low < 2 ^ 64"
    using unat_u32_less [of high] unat_u32_less [of low] by simp_all
  ultimately show ?thesis
    by (simp add: push_bit_eq_mult unat_word_ariths unsigned_ucast_eq take_bit_eq_mod)
qed

subsection \<open>The product of two words\<close>

lemma unat_drop16: "unat (drop_bit 16 (a :: u32)) = unat a div 2 ^ 16"
  by (subst unat_drop_bit_eq) (rule drop_bit_eq_div)

lemma bic_high: "unat (a AND NOT (push_bit 16 (drop_bit 16 a)) :: u32) = unat a mod 2 ^ 16"
proof -
  have "a AND NOT (push_bit 16 (drop_bit 16 a)) = take_bit 16 a"
    by (rule bit_eqI) (auto simp: bit_simps)
  then have "unat (a AND NOT (push_bit 16 (drop_bit 16 a))) = take_bit 16 (unat a)"
    by (simp only: unsigned_take_bit_eq)
  then show ?thesis by (simp add: take_bit_eq_mod)
qed

text \<open>Multiplication by halves of 16 bits on natural numbers, with the two carries.\<close>

lemma halves_product:
  fixes ah al bh bl mid low :: nat
  assumes mid: "mid = ah * bl + bh * al" and low: "low = al * bl + (mid mod 2 ^ 32) mod 2 ^ 16 * 2 ^ 16"
  shows "(ah * bh + mid div 2 ^ 32 * 2 ^ 16 + (mid mod 2 ^ 32) div 2 ^ 16 + low div 2 ^ 32) * 2 ^ 32 + low mod 2 ^ 32 =
    (ah * 2 ^ 16 + al) * (bh * 2 ^ 16 + bl)"
proof -
  let ?q = "mid div 2 ^ 16" and ?r = "mid mod 2 ^ 16"
  have q: "mid div 2 ^ 32 * 2 ^ 16 + (mid mod 2 ^ 32) div 2 ^ 16 = ?q"
    using mod_mult2_eq [of mid "2 ^ 16" "2 ^ 16"] div_mult2_eq [of mid "2 ^ 16" "2 ^ 16"] by simp
  have r: "(mid mod 2 ^ 32) mod 2 ^ 16 = ?r"
    using mod_mult2_eq [of mid "2 ^ 16" "2 ^ 16"] by simp
  have l: "low div 2 ^ 32 * 2 ^ 32 + low mod 2 ^ 32 = al * bl + ?r * 2 ^ 16"
    unfolding low r [symmetric] by simp
  have m: "?q * 2 ^ 16 + ?r = ah * bl + bh * al" using mid by simp
  have regroup: "ah * bh * 2 ^ 32 + q * 2 ^ 32 + (al * bl + r * 2 ^ 16) =
      ah * bh * 2 ^ 32 + (q * 2 ^ 16 + r) * 2 ^ 16 + al * bl" for q r :: nat by (simp add: algebra_simps)
  have "(ah * bh + ?q + low div 2 ^ 32) * 2 ^ 32 + low mod 2 ^ 32 =
      ah * bh * 2 ^ 32 + ?q * 2 ^ 32 + (al * bl + ?r * 2 ^ 16)" by (simp only: add_mult_distrib l [symmetric])
  also have "\<dots> = ah * bh * 2 ^ 32 + (?q * 2 ^ 16 + ?r) * 2 ^ 16 + al * bl" by (rule regroup)
  also have "\<dots> = (ah * 2 ^ 16 + al) * (bh * 2 ^ 16 + bl)" unfolding m by (simp add: algebra_simps)
  finally show ?thesis using q by (simp add: add.assoc)
qed

lemma unat_mul_halves:
  assumes "unat (x :: u32) < 2 ^ 16" "unat y < 2 ^ 16"
  shows "unat (x * y) = unat x * unat y"
proof -
  have "unat x * unat y < 2 ^ 16 * 2 ^ 16" using assms by (intro mult_strict_mono) auto
  then show ?thesis by (simp add: unat_word_ariths)
qed

lemma adds_split:
  assumes "adds x y = (s, c)"
  shows "unat s = (unat x + unat y) mod 2 ^ 32" and "(if c then 1 else 0) = (unat x + unat y) div 2 ^ 32"
proof -
  have c: "s = x + y" "c = (2 ^ 32 \<le> unat x + unat y)" using assms by (simp_all add: adds_def)
  show "unat s = (unat x + unat y) mod 2 ^ 32" by (simp add: c unat_word_ariths)
  show "(if c then 1 else 0) = (unat x + unat y) div 2 ^ 32"
  proof (cases c)
    case True
    then show ?thesis using c unat_u32_less [of x] unat_u32_less [of y] by (auto intro!: div_nat_eqI [symmetric])
  qed (use c in simp)
qed

text \<open>The macro's product: the carries put the sum of the two middle products in place.\<close>

lemma umulsidi3_product: "unat (umulsidi3 a b) = unat a * unat b"
proof -
  define ah bh al bl where "ah = drop_bit 16 a" and "bh = drop_bit 16 b"
    and "al = a AND NOT (push_bit 16 ah)" and "bl = b AND NOT (push_bit 16 bh)"
  obtain m c1 where m: "adds (ah * bl) (bh * al) = (m, c1)" by (cases "adds (ah * bl) (bh * al)")
  obtain lo c2 where lo: "adds (al * bl) (push_bit 16 m) = (lo, c2)" by (cases "adds (al * bl) (push_bit 16 m)")
  define hi where "hi = (if c1 then ah * bh + 65536 else ah * bh) + drop_bit 16 m + (if c2 then 1 else 0)"
  have umul: "umulsidi3 a b = di_union hi lo"
    using m lo by (simp add: umulsidi3_def umul_ppmm_def hi_def ah_def bh_def al_def bl_def Let_def)
  have a: "unat a = unat ah * 2 ^ 16 + unat al" and b: "unat b = unat bh * 2 ^ 16 + unat bl"
    unfolding al_def bl_def ah_def bh_def bic_high unat_drop16 by simp_all
  have less: "unat ah < 2 ^ 16" "unat bh < 2 ^ 16" "unat al < 2 ^ 16" "unat bl < 2 ^ 16"
    unfolding al_def bl_def ah_def bh_def bic_high unat_drop16
    using unat_u32_less [of a] unat_u32_less [of b] by (simp_all add: less_mult_imp_div_less)
  note products = unat_mul_halves [OF less(1,4)] unat_mul_halves [OF less(2,3)] unat_mul_halves [OF less(3,4)]
    unat_mul_halves [OF less(1,2)]
  let ?mid = "unat ah * unat bl + unat bh * unat al"
  let ?low = "unat al * unat bl + (?mid mod 2 ^ 32) mod 2 ^ 16 * 2 ^ 16"
  let ?hi = "unat ah * unat bh + ?mid div 2 ^ 32 * 2 ^ 16 + (?mid mod 2 ^ 32) div 2 ^ 16 + ?low div 2 ^ 32"
  note m = adds_split [OF m, unfolded products]
  have "unat (push_bit 16 m) = (?mid mod 2 ^ 32) mod 2 ^ 16 * 2 ^ 16"
    by (simp add: push_bit_eq_mult unat_word_ariths m(1) mult_mod_left)
  note lo = adds_split [OF lo, unfolded products this]
  have product: "?hi * 2 ^ 32 + ?low mod 2 ^ 32 = unat a * unat b"
    unfolding a b by (rule halves_product) simp_all
  have "?hi * 2 ^ 32 \<le> unat a * unat b" using product by linarith
  also have "\<dots> < 2 ^ 32 * 2 ^ 32" using unat_u32_less by (intro mult_strict_mono) auto
  finally have "?hi < 2 ^ 32" by simp
  moreover have "hi = of_nat ?hi"
    unfolding hi_def lo(2) [folded m(1), symmetric] m(2) [symmetric] m(1) [symmetric] unat_drop16 [symmetric] by simp
  ultimately have "unat hi = ?hi" by (rule unat_of_nat_u32)
  then show ?thesis using product lo(1) by (simp add: umul unat_di_union)
qed

lemma high_half_add: "(p div 2 ^ 32 + c) mod 2 ^ 32 * 2 ^ 32 + p mod 2 ^ 32 = (p + c * 2 ^ 32) mod 2 ^ 64" for p c :: nat
proof -
  have "(p + c * 2 ^ 32) mod (2 ^ 32 * 2 ^ 32) =
      2 ^ 32 * ((p + c * 2 ^ 32) div 2 ^ 32 mod 2 ^ 32) + (p + c * 2 ^ 32) mod 2 ^ 32" by (rule mod_mult2_eq)
  moreover have "(p + c * 2 ^ 32) div 2 ^ 32 = p div 2 ^ 32 + c" "(p + c * 2 ^ 32) mod 2 ^ 32 = p mod 2 ^ 32" by simp_all
  ultimately show ?thesis by (simp only: power_add [symmetric]) simp
qed

text \<open>C40: The product of two double words, put together from a full product of the low words and two
  partial ones, is the product modulo 2 to the 64, for all arguments.\<close>

lemma muldi3_product: "muldi3 u v = u * v"
proof -
  let ?ul = "unat (di_low u)" and ?uh = "unat (di_high u)" and ?vl = "unat (di_low v)" and ?vh = "unat (di_high v)"
  let ?w = "umulsidi3 (di_low u) (di_low v)"
  let ?cross = "?ul * ?vh + ?uh * ?vl"
  have "unat (muldi3 u v) = (?ul * ?vl div 2 ^ 32 + ?cross) mod 2 ^ 32 * 2 ^ 32 + ?ul * ?vl mod 2 ^ 32"
    by (simp add: muldi3_def Let_def unat_di_union unat_word_ariths unat_di_high [of ?w] unat_di_low [of ?w]
        umulsidi3_product mod_simps)
  also have "\<dots> = (?ul * ?vl + ?cross * 2 ^ 32) mod 2 ^ 64"
    by (rule high_half_add)
  also have "\<dots> = (?ul * ?vl + ?cross * 2 ^ 32 + ?uh * ?vh * 2 ^ 64) mod 2 ^ 64" by (rule mod_mult_self1 [symmetric])
  also have "?ul * ?vl + ?cross * 2 ^ 32 + ?uh * ?vh * 2 ^ 64 = unat u * unat v"
  proof -
    have "unat u = ?uh * 2 ^ 32 + ?ul" "unat v = ?vh * 2 ^ 32 + ?vl"
      by (simp_all add: unat_di_high unat_di_low)
    then show ?thesis by (simp add: algebra_simps)
  qed
  finally show ?thesis by (simp add: word_unat_eq_iff unat_word_ariths)
qed

end
